(* ===== verification/Prelude.thy ===== *)
theory Prelude
  imports Main "HOL-Library.Word" "HOL-Library.Signed_Division"
begin

text \<open>
  Shared vocabulary of the development: Go's \<^verbatim>\<open>int64\<close> as a 64-bit word read in two's
  complement, the \<^verbatim>\<open>error\<close> results of Go as a sum, decimal text as \<^verbatim>\<open>strconv\<close> and
  \<^verbatim>\<open>fmt\<close> produce and accept it, and generic facts on lists that the tables of the store use.
  The named collections gather the rewrite rules that the component proofs share.
\<close>

named_theorems int64_simps \<open>reading 64-bit words as integers\<close>
named_theorems ok_simps \<open>symbolic execution of transactional actions\<close>
named_theorems row_simps \<open>lookups and updates of table rows\<close>

unbundle bit_operations_syntax

section \<open>Results of fallible functions\<close>

text \<open>A Go function returning \<^verbatim>\<open>(T, error)\<close>: \<open>Inl\<close> carries the error, \<open>Inr\<close> the value.
  \<open>rbind\<close> is the \<^verbatim>\<open>if err != nil { return err }\<close> chain.\<close>

definition rbind :: "'e + 'a \<Rightarrow> ('a \<Rightarrow> 'e + 'b) \<Rightarrow> 'e + 'b" where
  "rbind r f = (case r of Inl e \<Rightarrow> Inl e | Inr x \<Rightarrow> f x)"

lemma rbind_simps [simp]:
  "rbind (Inl e) f = Inl e"
  "rbind (Inr x) f = f x"
  by (simp_all add: rbind_def)

lemma rbind_InrE:
  assumes "rbind r f = Inr y"
  obtains x where "r = Inr x" and "f x = Inr y"
  using assms by (cases r) auto

section \<open>Machine integers\<close>

type_synonym i64 = "64 word"

abbreviation int64_max :: int where "int64_max \<equiv> 9223372036854775807"
abbreviation int64_min :: int where "int64_min \<equiv> -9223372036854775808"

text \<open>Go's \<^verbatim>\<open>/\<close> and \<^verbatim>\<open>%\<close> on \<^verbatim>\<open>int64\<close> truncate towards zero.\<close>

definition i64_quot :: "i64 \<Rightarrow> i64 \<Rightarrow> i64" where
  "i64_quot a b = word_of_int (sint a sdiv sint b)"

definition i64_rem :: "i64 \<Rightarrow> i64 \<Rightarrow> i64" where
  "i64_rem a b = word_of_int (sint a smod sint b)"

lemma sint_lower: "int64_min \<le> sint (x :: i64)"
  using sint_ge [of x] by simp

lemma sint_upper: "sint (x :: i64) \<le> int64_max"
  using sint_lt [of x] by simp

lemma sint_of_int_i64 [int64_simps]:
  "int64_min \<le> i \<Longrightarrow> i \<le> int64_max \<Longrightarrow> sint (word_of_int i :: i64) = i"
  by (simp add: sint_sbintrunc' signed_take_bit_int_eq_self)

lemma sint_eq_iff: "sint (x :: i64) = sint y \<longleftrightarrow> x = y"
  by (rule signed_word_eqI [THEN iffI]) auto

lemma sint_add_exact [int64_simps]:
  "int64_min \<le> sint x + sint y \<Longrightarrow> sint x + sint y \<le> int64_max \<Longrightarrow>
   sint (x + y :: i64) = sint x + sint y"
  by (simp add: sint_word_add signed_take_bit_int_eq_self)

lemma sint_diff_exact [int64_simps]:
  "int64_min \<le> sint x - sint y \<Longrightarrow> sint x - sint y \<le> int64_max \<Longrightarrow>
   sint (x - y :: i64) = sint x - sint y"
  by (simp add: sint_word_diff signed_take_bit_int_eq_self)

lemma sint_minus_exact [int64_simps]:
  assumes "sint x \<noteq> int64_min"
  shows "sint (- x :: i64) = - sint x"
proof -
  have "- int64_max \<le> sint x" using assms sint_lower [of x] by linarith
  then have "signed_take_bit 63 (- sint x) = - sint x"
    using sint_upper [of x] by (intro signed_take_bit_int_eq_self) simp_all
  then show ?thesis by (simp add: sint_word_minus)
qed

lemma sint_wrap:
  "sint (word_of_int i :: i64) = (i + 2 ^ 63) mod 2 ^ 64 - 2 ^ 63"
  by (simp add: sint_sbintrunc' signed_take_bit_eq_take_bit_shift take_bit_eq_mod)

text \<open>Go tests \<^verbatim>\<open>e < 0\<close> on bitwise combinations; the sign is the top bit.\<close>

lemma sint_neg_iff_bit: "sint (x :: i64) < 0 \<longleftrightarrow> bit x 63"
  using bit_last_iff [of x] by simp

lemma word_of_int_sint_i64 [simp]: "word_of_int (sint x) = (x :: i64)"
  by simp

section \<open>Decimal text\<close>

text \<open>Characters are bytes, as in a Go string.\<close>

definition is_digit :: "char \<Rightarrow> bool" where
  "is_digit c \<longleftrightarrow> (48 :: nat) \<le> of_char c \<and> of_char c \<le> (57 :: nat)"

definition digit_val :: "char \<Rightarrow> nat" where
  "digit_val c = of_char c - 48"

definition digit_char :: "nat \<Rightarrow> char" where
  "digit_char n = char_of (48 + n)"

definition dec_val :: "string \<Rightarrow> nat" where
  "dec_val s = foldl (\<lambda>a c. 10 * a + digit_val c) 0 s"

fun show_nat :: "nat \<Rightarrow> string" where
  "show_nat n = (if n < 10 then [digit_char n] else show_nat (n div 10) @ [digit_char (n mod 10)])"

declare show_nat.simps [simp del]

text \<open>\<^verbatim>\<open>fmt\<close>'s \<^verbatim>\<open>%d\<close> of a signed value and \<^verbatim>\<open>%02d\<close> of a value below 100.\<close>

definition show_int :: "int \<Rightarrow> string" where
  "show_int i = (if i < 0 then CHR ''-'' # show_nat (nat (- i)) else show_nat (nat i))"

definition pad2 :: "nat \<Rightarrow> string" where
  "pad2 n = (if n < 10 then CHR ''0'' # show_nat n else show_nat n)"

text \<open>\<^verbatim>\<open>strconv.ParseInt(s, 10, 64)\<close>: an optional sign, at least one digit, nothing else, and
  a value in range; every failure is an error.\<close>

definition parse_int64 :: "string \<Rightarrow> i64 option" where
  "parse_int64 s = (case s of [] \<Rightarrow> None | c # cs \<Rightarrow>
     let neg = (c = CHR ''-'');
         ds = (if c = CHR ''+'' \<or> c = CHR ''-'' then cs else s)
     in if ds = [] \<or> \<not> list_all is_digit ds then None
        else let n = int (dec_val ds) in
          if \<not> neg \<and> n \<ge> 2 ^ 63 then None
          else if neg \<and> n > 2 ^ 63 then None
          else Some (word_of_int (if neg then - n else n)))"

lemma of_char_digit_char [simp]: "n < 10 \<Longrightarrow> of_char (digit_char n) = 48 + n"
  by (simp add: digit_char_def of_char_of)

lemma is_digit_digit_char [simp]: "n < 10 \<Longrightarrow> is_digit (digit_char n)"
  by (simp add: is_digit_def)

lemma digit_val_digit_char [simp]: "n < 10 \<Longrightarrow> digit_val (digit_char n) = n"
  by (simp add: digit_val_def)

lemma digit_val_lt_10 [simp]: "is_digit c \<Longrightarrow> digit_val c < 10"
  by (auto simp: is_digit_def digit_val_def)

lemma digit_char_digit_val [simp]: "is_digit c \<Longrightarrow> digit_char (digit_val c) = c"
  by (simp add: is_digit_def digit_char_def digit_val_def)

lemma dec_val_Nil [simp]: "dec_val [] = 0"
  by (simp add: dec_val_def)

lemma dec_val_snoc [simp]: "dec_val (s @ [c]) = 10 * dec_val s + digit_val c"
  by (simp add: dec_val_def)

lemma dec_val_append: "dec_val (s @ t) = dec_val s * 10 ^ length t + dec_val t"
  by (induction t rule: rev_induct) (simp_all add: algebra_simps flip: append_assoc)

lemma show_nat_digits [simp]: "list_all is_digit (show_nat n)"
  by (induction n rule: show_nat.induct) (subst show_nat.simps, simp)

lemma show_nat_not_Nil [simp]: "show_nat n \<noteq> []"
  by (subst show_nat.simps) simp

lemma dec_val_show_nat [simp]: "dec_val (show_nat n) = n"
proof (induction n rule: show_nat.induct)
  case (1 n)
  show ?case
  proof (cases "n < 10")
    case True
    then show ?thesis using dec_val_snoc [of "[]" "digit_char n"]
      by (subst show_nat.simps) (simp del: dec_val_snoc)
  next
    case False
    with 1 show ?thesis by (subst show_nat.simps) (simp add: mult.commute [of 10])
  qed
qed

lemma length_pad2: "n < 100 \<Longrightarrow> length (pad2 n) = 2"
  by (auto simp: pad2_def show_nat.simps [of n] show_nat.simps [of "n div 10"])

lemma pad2_digits [simp]: "list_all is_digit (pad2 n)"
  by (simp add: pad2_def is_digit_def)

lemma dec_val_pad2 [simp]: "dec_val (pad2 n) = n"
proof -
  have "dec_val (CHR ''0'' # show_nat n) = dec_val ([CHR ''0''] @ show_nat n)" by simp
  also have "\<dots> = n"
    by (simp add: dec_val_append del: append_Cons)
      (simp add: dec_val_def digit_val_def)
  finally show ?thesis by (simp add: pad2_def)
qed

lemma dec_val_less: "list_all is_digit s \<Longrightarrow> dec_val s < 10 ^ length s"
proof (induction s rule: rev_induct)
  case (snoc c s)
  then have "dec_val s < 10 ^ length s" and "digit_val c < 10" by auto
  then show ?case by simp
qed simp

end
