(* ===== verification/Base64.thy ===== *)
theory Base64
  imports Prelude
begin

text \<open>
  \<^verbatim>\<open>base64.RawURLEncoding\<close> of Go's \<^verbatim>\<open>encoding/base64\<close>, which the ledger cursor and the tokens use: the URL
  alphabet without padding. Decoding skips line breaks, ignores the unused bits of the last group, and refuses
  a lone last character and every character outside the alphabet.
\<close>

definition b64_alphabet :: string where
  "b64_alphabet = ''ABCDEFGHIJKLMNOPQRSTUVWXYZabcdefghijklmnopqrstuvwxyz0123456789-_''"

definition b64_char :: "nat \<Rightarrow> char" where
  "b64_char n = b64_alphabet ! n"

definition b64_val :: "char \<Rightarrow> nat option" where
  "b64_val c = (let i = length (takeWhile (\<lambda>d. d \<noteq> c) b64_alphabet) in if i < 64 then Some i else None)"

fun b64_sextets :: "nat list \<Rightarrow> nat list" where
  "b64_sextets [] = []"
| "b64_sextets [a] = [a div 4, a mod 4 * 16]"
| "b64_sextets [a, b] = [a div 4, a mod 4 * 16 + b div 16, b mod 16 * 4]"
| "b64_sextets (a # b # c # bs) =
    [a div 4, a mod 4 * 16 + b div 16, b mod 16 * 4 + c div 64, c mod 64] @ b64_sextets bs"

fun b64_bytes :: "nat list \<Rightarrow> nat list option" where
  "b64_bytes [] = Some []"
| "b64_bytes [x] = None"
| "b64_bytes [x, y] = Some [x * 4 + y div 16]"
| "b64_bytes [x, y, z] = Some [x * 4 + y div 16, y mod 16 * 16 + z div 4]"
| "b64_bytes (x # y # z # u # xs) =
    map_option (\<lambda>bs. [x * 4 + y div 16, y mod 16 * 16 + z div 4, z mod 4 * 64 + u] @ bs) (b64_bytes xs)"

fun all_some :: "'a option list \<Rightarrow> 'a list option" where
  "all_some [] = Some []"
| "all_some (x # xs) = (case x of None \<Rightarrow> None | Some a \<Rightarrow> map_option ((#) a) (all_some xs))"

definition b64_encode :: "string \<Rightarrow> string" where
  "b64_encode s = map b64_char (b64_sextets (map of_char s))"

definition b64_decode :: "string \<Rightarrow> string option" where
  "b64_decode s = (case all_some (map b64_val (filter (\<lambda>c. c \<noteq> CHR 0x0A \<and> c \<noteq> CHR 0x0D) s)) of
     None \<Rightarrow> None
   | Some xs \<Rightarrow> map_option (map char_of) (b64_bytes xs))"

section \<open>Round trip\<close>

lemma b64_alphabet_props: "length b64_alphabet = 64" "distinct b64_alphabet" "CHR 0x0A \<notin> set b64_alphabet" "CHR 0x0D \<notin> set b64_alphabet"
  by (simp_all add: b64_alphabet_def)

lemma takeWhile_nth: "distinct xs \<Longrightarrow> i < length xs \<Longrightarrow> length (takeWhile (\<lambda>d. d \<noteq> xs ! i) xs) = i"
proof (induction xs arbitrary: i)
  case (Cons x xs)
  then show ?case by (cases i) (auto simp: nth_eq_iff_index_eq)
qed simp

lemma b64_val_char [simp]: "n < 64 \<Longrightarrow> b64_val (b64_char n) = Some n"
  by (simp add: b64_val_def b64_char_def takeWhile_nth b64_alphabet_props)

lemma b64_char_plain: "n < 64 \<Longrightarrow> b64_char n \<noteq> CHR 0x0A \<and> b64_char n \<noteq> CHR 0x0D"
  using b64_alphabet_props nth_mem [of n b64_alphabet] by (metis b64_char_def)

lemma b64_sextets_small: "list_all (\<lambda>b. b < 256) bs \<Longrightarrow> list_all (\<lambda>x. x < 64) (b64_sextets bs)"
  by (induction bs rule: b64_sextets.induct) auto

lemma all_some_vals: "list_all (\<lambda>x. x < 64) xs \<Longrightarrow>
    all_some (map b64_val (filter (\<lambda>c. c \<noteq> CHR 0x0A \<and> c \<noteq> CHR 0x0D) (map b64_char xs))) = Some xs"
  by (induction xs) (use b64_char_plain in auto)

lemma byte_parts:
  assumes "(b :: nat) < 256"
  shows "b div 16 div 16 = 0" "b div 16 mod 16 = b div 16" "b div 64 div 4 = 0" "b div 64 mod 4 = b div 64"
  using less_mult_imp_div_less [of b 16 16] less_mult_imp_div_less [of b 4 64] assms by simp_all

lemma b64_bytes_sextets: "list_all (\<lambda>b. b < 256) bs \<Longrightarrow> b64_bytes (b64_sextets bs) = Some bs"
  by (induction bs rule: b64_sextets.induct) (simp_all add: byte_parts)

lemma b64_roundtrip: "b64_decode (b64_encode s) = Some s"
proof -
  have "list_all (\<lambda>b. b < 256) (map of_char s :: nat list)" by (simp add: list_all_iff)
  then show ?thesis
    using all_some_vals [OF b64_sextets_small] b64_bytes_sextets
    by (simp add: b64_decode_def b64_encode_def o_def)
qed

lemma b64_encode_Nil_iff: "b64_encode s = [] \<longleftrightarrow> s = []"
  by (cases "map of_char s :: nat list" rule: b64_sextets.cases) (auto simp: b64_encode_def)

end
