(* ===== verification/Domain_Errors.thy ===== *)
theory Domain_Errors
  imports Prelude
begin

text \<open>
  The stable failure codes of \<^verbatim>\<open>internal/domain/errors.go\<close>. A domain error is its code: every
  sentinel \<^verbatim>\<open>CodedError\<close> has a code of its own and \<^verbatim>\<open>fmt.Errorf("%w: ...")\<close> keeps it, so
  \<^verbatim>\<open>errors.Is\<close> and \<^verbatim>\<open>CodeOf\<close> look at nothing else. The human-readable message is not modelled.
\<close>

datatype code =
    CodeInvalidMoney
  | CodeInvalidAmountForKind
  | CodeCurrencyMismatch
  | CodeWalletPlayerMismatch
  | CodeInsufficientBalance
  | CodeRollbackInsufficientBalance
  | CodeOpeningNotAllowed
  | CodeReferenceRequired
  | CodeAmountMismatch
  | CodeReferenceCurrencyMismatch
  | CodeReferenceWalletMismatch
  | CodeReferencePlayerMismatch
  | CodeReferenceRoundMismatch
  | CodeReferenceProviderMismatch
  | CodeReferenceReversed
  | CodeReferenceNotProcessed
  | CodeAlreadyReversed
  | CodeBetHasActiveWin
  | CodeInvalidReversal
  | CodeInvalidTransition
  | CodeMoneyOverflow

text \<open>\<^verbatim>\<open>CodeOf\<close> of a coded error: the text that is persisted and sent to clients.\<close>

fun code_text :: "code \<Rightarrow> string" where
  "code_text CodeInvalidMoney = ''INVALID_MONEY''"
| "code_text CodeInvalidAmountForKind = ''INVALID_AMOUNT_FOR_KIND''"
| "code_text CodeCurrencyMismatch = ''CURRENCY_MISMATCH''"
| "code_text CodeWalletPlayerMismatch = ''WALLET_PLAYER_MISMATCH''"
| "code_text CodeInsufficientBalance = ''INSUFFICIENT_BALANCE''"
| "code_text CodeRollbackInsufficientBalance = ''ROLLBACK_INSUFFICIENT_BALANCE''"
| "code_text CodeOpeningNotAllowed = ''OPENING_NOT_ALLOWED''"
| "code_text CodeReferenceRequired = ''REFERENCE_REQUIRED''"
| "code_text CodeAmountMismatch = ''AMOUNT_MISMATCH''"
| "code_text CodeReferenceCurrencyMismatch = ''REFERENCE_CURRENCY_MISMATCH''"
| "code_text CodeReferenceWalletMismatch = ''REFERENCE_WALLET_MISMATCH''"
| "code_text CodeReferencePlayerMismatch = ''REFERENCE_PLAYER_MISMATCH''"
| "code_text CodeReferenceRoundMismatch = ''REFERENCE_ROUND_MISMATCH''"
| "code_text CodeReferenceProviderMismatch = ''REFERENCE_PROVIDER_MISMATCH''"
| "code_text CodeReferenceReversed = ''REFERENCE_REVERSED''"
| "code_text CodeReferenceNotProcessed = ''REFERENCE_NOT_PROCESSED''"
| "code_text CodeAlreadyReversed = ''ALREADY_REVERSED''"
| "code_text CodeBetHasActiveWin = ''BET_HAS_ACTIVE_WIN''"
| "code_text CodeInvalidReversal = ''INVALID_REVERSAL''"
| "code_text CodeInvalidTransition = ''INVALID_TRANSITION''"
| "code_text CodeMoneyOverflow = ''MONEY_OVERFLOW''"

lemma code_text_not_Nil [simp]: "code_text c \<noteq> []"
  by (cases c) simp_all

lemma code_text_inj: "code_text c = code_text d \<Longrightarrow> c = d"
  by (cases c; cases d) simp_all

lemma code_text_eq_iff [simp]: "code_text c = code_text d \<longleftrightarrow> c = d"
  by (blast dest: code_text_inj)

end
