(* ===== verification/Money.thy ===== *)
theory Money
  imports Domain_Errors
begin

text \<open>
  \<^verbatim>\<open>internal/domain/money.go\<close>: exact monetary values as an \<^verbatim>\<open>int64\<close> count of minor units and a
  currency code. Parsing, formatting and checked arithmetic, with the bit-level overflow tests of
  the code; then the lemmas that these tests are exact, that parsing accepts precisely the
  documented language and value range, and that formatting and parsing are inverse.
\<close>

section \<open>The type and its operations\<close>

record money =
  minor :: i64
  currency :: string

definition mk_money :: "i64 \<Rightarrow> string \<Rightarrow> money" where
  "mk_money a c = \<lparr>minor = a, currency = c\<rparr>"

definition IsZero :: "money \<Rightarrow> bool" where
  "IsZero m \<longleftrightarrow> minor m = 0"

definition IsPositive :: "money \<Rightarrow> bool" where
  "IsPositive m \<longleftrightarrow> sint (minor m) > 0"

definition IsNegative :: "money \<Rightarrow> bool" where
  "IsNegative m \<longleftrightarrow> sint (minor m) < 0"

definition is_upper :: "char \<Rightarrow> bool" where
  "is_upper c \<longleftrightarrow> (65 :: nat) \<le> of_char c \<and> of_char c \<le> (90 :: nat)"

definition validCurrency :: "string \<Rightarrow> bool" where
  "validCurrency s = (if length s \<noteq> 3 then False else list_all is_upper s)"

text \<open>\<^verbatim>\<open>strings.IndexByte(s, c)\<close> as an option.\<close>

fun index_byte :: "string \<Rightarrow> char \<Rightarrow> nat option" where
  "index_byte [] c = None"
| "index_byte (x # xs) c = (if x = c then Some 0 else map_option Suc (index_byte xs c))"

definition ParseMoney :: "string \<Rightarrow> string \<Rightarrow> code + money" where
  "ParseMoney amountStr cur =
    (if \<not> validCurrency cur then Inl CodeInvalidMoney
     else if length amountStr < 4 then Inl CodeInvalidMoney
     else case index_byte amountStr (CHR ''.'') of
       None \<Rightarrow> Inl CodeInvalidMoney
     | Some dot \<Rightarrow>
       let intPart = take dot amountStr; fracPart = drop (dot + 1) amountStr in
       if index_byte fracPart (CHR ''.'') \<noteq> None then Inl CodeInvalidMoney
       else if length fracPart \<noteq> 2 then Inl CodeInvalidMoney
       else if intPart = [] then Inl CodeInvalidMoney
       else if \<not> list_all is_digit intPart then Inl CodeInvalidMoney
       else if \<not> list_all is_digit fracPart then Inl CodeInvalidMoney
       else case parse_int64 intPart of
         None \<Rightarrow> Inl CodeMoneyOverflow
       | Some dollars \<Rightarrow>
         (case parse_int64 fracPart of
           None \<Rightarrow> Inl CodeInvalidMoney
         | Some cents \<Rightarrow>
           if sint dollars > sint (i64_quot (word_of_int int64_max - cents) 100)
           then Inl CodeMoneyOverflow
           else Inr (mk_money (dollars * 100 + cents) cur)))"

definition NewMoneyFromMinor :: "i64 \<Rightarrow> string \<Rightarrow> code + money" where
  "NewMoneyFromMinor a cur =
    (if \<not> validCurrency cur then Inl CodeInvalidMoney else Inr (mk_money a cur))"

text \<open>\<^verbatim>\<open>Money.String\<close>; the \<^verbatim>\<open>MinInt64\<close> branch computes in \<^verbatim>\<open>uint64\<close>.\<close>

definition money_String :: "money \<Rightarrow> string" where
  "money_String m =
    (let neg = (sint (minor m) < 0) in
     if neg \<and> minor m = word_of_int int64_min then
       (let u = (word_of_int int64_max :: 64 word) + 1
        in CHR ''-'' # show_nat (unat (u div 100)) @ ''.'' @ pad2 (unat (u mod 100)))
     else
       (let a = (if neg then - minor m else minor m)
        in (if neg then ''-'' else '''') @ show_int (sint (i64_quot a 100)) @ ''.''
            @ pad2 (nat (sint (i64_rem a 100)))))"

definition money_Add :: "money \<Rightarrow> money \<Rightarrow> code + money" where
  "money_Add m v =
    (if currency m \<noteq> currency v then Inl CodeCurrencyMismatch
     else let s = minor m + minor v in
       if sint ((minor m XOR s) AND (minor v XOR s)) < 0 then Inl CodeMoneyOverflow
       else Inr (mk_money s (currency m)))"

definition money_Sub :: "money \<Rightarrow> money \<Rightarrow> code + money" where
  "money_Sub m v =
    (if currency m \<noteq> currency v then Inl CodeCurrencyMismatch
     else let d = minor m - minor v in
       if sint ((minor m XOR minor v) AND (minor m XOR d)) < 0 then Inl CodeMoneyOverflow
       else Inr (mk_money d (currency m)))"

definition money_Negate :: "money \<Rightarrow> code + money" where
  "money_Negate m =
    (if minor m = word_of_int int64_min then Inl CodeMoneyOverflow
     else Inr (mk_money (- minor m) (currency m)))"

definition money_Cmp :: "money \<Rightarrow> money \<Rightarrow> code + int" where
  "money_Cmp m v =
    (if currency m \<noteq> currency v then Inl CodeCurrencyMismatch
     else if sint (minor m) < sint (minor v) then Inr (-1)
     else if sint (minor m) > sint (minor v) then Inr 1
     else Inr 0)"

definition money_Equal :: "money \<Rightarrow> money \<Rightarrow> bool" where
  "money_Equal m v \<longleftrightarrow> currency m = currency v \<and> minor m = minor v"

lemma mk_money_simps [simp]:
  "minor (mk_money a c) = a" "currency (mk_money a c) = c"
  by (simp_all add: mk_money_def)

lemma mk_money_eta [simp]: "mk_money (minor m) (currency m) = m"
  by (simp add: mk_money_def)

lemma mk_money_eq_iff [simp]: "mk_money a c = mk_money b d \<longleftrightarrow> a = b \<and> c = d"
  by (simp add: mk_money_def)

lemma money_Equal_iff [simp]: "money_Equal m v \<longleftrightarrow> m = v"
  by (auto simp: money_Equal_def)

section \<open>The overflow tests are exact\<close>

lemma mod_near_cases:
  fixes x M :: int
  assumes "0 < M" "- M \<le> x" "x < 2 * M"
  shows "x mod M = x \<or> x mod M = x - M \<or> x mod M = x + M"
proof -
  consider "x < 0" | "0 \<le> x" "x < M" | "M \<le> x" by linarith
  then show ?thesis
  proof cases
    case 1
    then have "(x + M) mod M = x + M" using assms by (intro mod_pos_pos_trivial) auto
    then show ?thesis by simp
  next
    case 2
    then show ?thesis by (simp add: mod_pos_pos_trivial)
  next
    case 3
    then have "(x - M) mod M = x - M" using assms by (intro mod_pos_pos_trivial) auto
    then show ?thesis by (simp add: mod_diff_eq [symmetric])
  qed
qed

lemma sint_wrap_cases:
  assumes "- (2 ^ 64) \<le> i" "i < 2 ^ 64"
  shows "sint (word_of_int i :: i64) = i \<or> sint (word_of_int i :: i64) = i - 2 ^ 64 \<or>
    sint (word_of_int i :: i64) = i + 2 ^ 64"
  using mod_near_cases [of "2 ^ 64" "i + 2 ^ 63"] assms by (auto simp: sint_wrap)

lemma sint_add_cases:
  fixes a b :: i64
  shows "sint (a + b) = sint a + sint b \<or> sint (a + b) = sint a + sint b - 2 ^ 64 \<or>
    sint (a + b) = sint a + sint b + 2 ^ 64"
  using sint_wrap_cases [of "sint a + sint b"] sint_lower [of a] sint_upper [of a]
    sint_lower [of b] sint_upper [of b] by simp

lemma sint_diff_cases:
  fixes a b :: i64
  shows "sint (a - b) = sint a - sint b \<or> sint (a - b) = sint a - sint b - 2 ^ 64 \<or>
    sint (a - b) = sint a - sint b + 2 ^ 64"
  using sint_wrap_cases [of "sint a - sint b"] sint_lower [of a] sint_upper [of a]
    sint_lower [of b] sint_upper [of b] by simp

definition in_int64 :: "int \<Rightarrow> bool" where
  "in_int64 i \<longleftrightarrow> int64_min \<le> i \<and> i \<le> int64_max"

lemma add_sign_test:
  fixes x y s :: int
  assumes "s = x + y \<or> s = x + y - 2 ^ 64 \<or> s = x + y + 2 ^ 64"
    and "int64_min \<le> x" "x \<le> int64_max" "int64_min \<le> y" "y \<le> int64_max"
    and "int64_min \<le> s" "s \<le> int64_max"
  shows "((x < 0) \<noteq> (s < 0) \<and> (y < 0) \<noteq> (s < 0)) \<longleftrightarrow> \<not> in_int64 (x + y)"
  unfolding in_int64_def using assms by (simp, arith)

lemma sub_sign_test:
  fixes x y s :: int
  assumes "s = x - y \<or> s = x - y - 2 ^ 64 \<or> s = x - y + 2 ^ 64"
    and "int64_min \<le> x" "x \<le> int64_max" "int64_min \<le> y" "y \<le> int64_max"
    and "int64_min \<le> s" "s \<le> int64_max"
  shows "((x < 0) \<noteq> (y < 0) \<and> (x < 0) \<noteq> (s < 0)) \<longleftrightarrow> \<not> in_int64 (x - y)"
  unfolding in_int64_def using assms by (simp, arith)

lemma add_overflow_test:
  fixes a b :: i64
  shows "sint ((a XOR (a + b)) AND (b XOR (a + b))) < 0 \<longleftrightarrow> \<not> in_int64 (sint a + sint b)"
  using add_sign_test [OF sint_add_cases sint_lower sint_upper sint_lower sint_upper
      sint_lower sint_upper, of a b]
  by (simp add: sint_neg_iff_bit bit_simps)

lemma sub_overflow_test:
  fixes a b :: i64
  shows "sint ((a XOR b) AND (a XOR (a - b))) < 0 \<longleftrightarrow> \<not> in_int64 (sint a - sint b)"
  using sub_sign_test [OF sint_diff_cases sint_lower sint_upper sint_lower sint_upper
      sint_lower sint_upper, of a b]
  by (simp add: sint_neg_iff_bit bit_simps)

lemma money_Add_eq:
  "money_Add m v =
    (if currency m \<noteq> currency v then Inl CodeCurrencyMismatch
     else if in_int64 (sint (minor m) + sint (minor v))
     then Inr (mk_money (minor m + minor v) (currency m)) else Inl CodeMoneyOverflow)"
  by (simp add: money_Add_def Let_def add_overflow_test)

lemma money_Sub_eq:
  "money_Sub m v =
    (if currency m \<noteq> currency v then Inl CodeCurrencyMismatch
     else if in_int64 (sint (minor m) - sint (minor v))
     then Inr (mk_money (minor m - minor v) (currency m)) else Inl CodeMoneyOverflow)"
  by (simp add: money_Sub_def Let_def sub_overflow_test)

lemma money_Add_InrD:
  assumes "money_Add m v = Inr r"
  shows "currency r = currency m" "currency v = currency m"
    "sint (minor r) = sint (minor m) + sint (minor v)" "r = mk_money (minor m + minor v) (currency m)"
  using assms by (auto simp: money_Add_eq in_int64_def int64_simps split: if_splits)

lemma money_Sub_InrD:
  assumes "money_Sub m v = Inr r"
  shows "currency r = currency m" "currency v = currency m"
    "sint (minor r) = sint (minor m) - sint (minor v)" "r = mk_money (minor m - minor v) (currency m)"
  using assms by (auto simp: money_Sub_eq in_int64_def int64_simps split: if_splits)

text \<open>Checked addition is exact. \<^verbatim>\<open>Money.Add\<close> refuses different currencies, refuses
  precisely the sums that leave the \<^verbatim>\<open>int64\<close> range, and otherwise returns the integer sum in the
  operands' currency: the bitwise sign test of the code neither misses nor invents an overflow.\<close>

theorem money_Add_exact:
  "case money_Add m v of
     Inl e \<Rightarrow> (if currency m \<noteq> currency v then e = CodeCurrencyMismatch
       else e = CodeMoneyOverflow \<and> \<not> in_int64 (sint (minor m) + sint (minor v)))
   | Inr r \<Rightarrow> currency m = currency v \<and> currency r = currency m \<and>
       sint (minor r) = sint (minor m) + sint (minor v)"
  by (auto simp: money_Add_eq in_int64_def int64_simps split: sum.splits if_splits)

section \<open>What parsing accepts\<close>

text \<open>The documented language \<^verbatim>\<open>^[0-9]+\.[0-9]{2}$\<close> and the number of minor units it denotes.\<close>

definition money_text :: "string \<Rightarrow> bool" where
  "money_text s \<longleftrightarrow> 4 \<le> length s \<and> s ! (length s - 3) = CHR ''.'' \<and>
     list_all is_digit (take (length s - 3) s) \<and> list_all is_digit (drop (length s - 2) s)"

definition money_text_value :: "string \<Rightarrow> nat" where
  "money_text_value s = dec_val (filter is_digit s)"

lemma not_digit_dot [simp]: "\<not> is_digit (CHR ''.'')"
  by (simp add: is_digit_def)

lemma index_byte_SomeD:
  "index_byte s c = Some n \<Longrightarrow> n < length s \<and> s ! n = c \<and> c \<notin> set (take n s)"
proof (induction s arbitrary: n)
  case (Cons x xs)
  then show ?case by (cases n) (auto split: if_splits)
qed simp

lemma index_byte_append: "c \<notin> set xs \<Longrightarrow> index_byte (xs @ c # ys) c = Some (length xs)"
  by (induction xs) auto

lemma index_byte_None_iff: "index_byte s c = None \<longleftrightarrow> c \<notin> set s"
  by (induction s) auto

lemma digits_no_dot: "list_all is_digit s \<Longrightarrow> CHR ''.'' \<notin> set s"
  by (auto simp: list_all_iff)

lemma money_text_split:
  "money_text s \<longleftrightarrow> (\<exists>ip fp. s = ip @ CHR ''.'' # fp \<and> ip \<noteq> [] \<and> length fp = 2 \<and>
     list_all is_digit ip \<and> list_all is_digit fp)" (is "?L \<longleftrightarrow> ?R")
proof
  assume L: ?L
  let ?n = "length s - 3"
  have n: "?n < length s" "Suc ?n = length s - 2" "?n \<noteq> 0" using L by (auto simp: money_text_def)
  have "s = take ?n s @ s ! ?n # drop (Suc ?n) s" by (rule id_take_nth_drop [OF n(1)])
  then have "s = take ?n s @ CHR ''.'' # drop (length s - 2) s"
    using L n by (simp add: money_text_def)
  moreover have "take ?n s \<noteq> []" "length (drop (length s - 2) s) = 2"
    using L by (auto simp: money_text_def)
  ultimately show ?R using L unfolding money_text_def by blast
next
  assume ?R
  then obtain ip fp where *: "s = ip @ CHR ''.'' # fp" "ip \<noteq> []" "length fp = 2"
    "list_all is_digit ip" "list_all is_digit fp" by blast
  then have "length s - 3 = length ip" "length s - 2 = Suc (length ip)" by auto
  with * show ?L by (cases ip) (auto simp: money_text_def nth_append)
qed

lemma money_text_value_split:
  assumes "list_all is_digit ip" "list_all is_digit fp" "length fp = 2"
  shows "money_text_value (ip @ CHR ''.'' # fp) = dec_val ip * 100 + dec_val fp"
  using assms by (simp add: money_text_value_def filter_id_conv list_all_iff dec_val_append)

lemma digit_signs [simp]: "\<not> is_digit (CHR ''-'')" "\<not> is_digit (CHR ''+'')"
  by (simp_all add: is_digit_def)

lemma parse_int64_digits:
  assumes "list_all is_digit s" "s \<noteq> []"
  shows "parse_int64 s =
    (if int (dec_val s) \<le> int64_max then Some (word_of_int (int (dec_val s))) else None)"
proof -
  obtain c cs where s: "s = c # cs" using assms(2) by (cases s) auto
  have "is_digit c" using assms(1) s by simp
  then have "c \<noteq> CHR ''-''" "c \<noteq> CHR ''+''" using digit_signs by auto
  then show ?thesis using assms s by (auto simp: parse_int64_def Let_def)
qed

lemma div_100_less_iff: "(k :: int) div 100 < d \<longleftrightarrow> k < d * 100"
  by linarith

lemma cents_guard:
  assumes "0 \<le> d" "d \<le> int64_max" "0 \<le> c" "c \<le> 99"
  shows "sint (word_of_int d :: i64) >
      sint (i64_quot (word_of_int int64_max - word_of_int c) 100) \<longleftrightarrow> d * 100 + c > int64_max"
proof -
  have c: "sint (word_of_int c :: i64) = c" using assms by (intro sint_of_int_i64) auto
  have m: "sint (word_of_int int64_max :: i64) = int64_max" by (intro sint_of_int_i64) auto
  have diff: "sint (word_of_int int64_max - word_of_int c :: i64) = int64_max - c"
    using assms c m by (subst sint_diff_exact) auto
  have "sint (i64_quot (word_of_int int64_max - word_of_int c) 100) = (int64_max - c) div 100"
    unfolding i64_quot_def diff using assms
    by (subst sint_of_int_i64) (auto simp: signed_divide_int_def)
  moreover have "sint (word_of_int d :: i64) = d" using assms by (intro sint_of_int_i64) auto
  moreover have "(int64_max - c) div 100 < d \<longleftrightarrow> int64_max - c < d * 100"
    by (rule div_100_less_iff)
  ultimately show ?thesis by linarith
qed

lemma ParseMoney_shape:
  assumes "validCurrency cur" "list_all is_digit ip" "list_all is_digit fp" "length fp = 2" "ip \<noteq> []"
  shows "ParseMoney (ip @ CHR ''.'' # fp) cur =
    (if int (dec_val ip * 100 + dec_val fp) \<le> int64_max
     then Inr (mk_money (word_of_int (int (dec_val ip * 100 + dec_val fp))) cur)
     else Inl CodeMoneyOverflow)"
proof -
  have dots: "index_byte (ip @ CHR ''.'' # fp) (CHR ''.'') = Some (length ip)"
    "index_byte fp (CHR ''.'') = None"
    using digits_no_dot [OF assms(2)] digits_no_dot [OF assms(3)]
    by (auto simp: index_byte_append index_byte_None_iff)
  have fp: "fp \<noteq> []" using assms(4) by auto
  have "int (dec_val fp) \<le> 99" using dec_val_less [OF assms(3)] assms(4) by simp
  then have cents: "parse_int64 fp = Some (word_of_int (int (dec_val fp)))"
    using parse_int64_digits [OF assms(3) fp] by simp
  have len: "\<not> length (ip @ CHR ''.'' # fp) < 4" using assms(4,5) by (cases ip) auto
  show ?thesis
  proof (cases "int (dec_val ip) \<le> int64_max")
    case True
    with cents_guard [of "int (dec_val ip)" "int (dec_val fp)"] \<open>int (dec_val fp) \<le> 99\<close>
    have guard: "sint (word_of_int (int (dec_val ip)) :: i64) >
        sint (i64_quot (word_of_int int64_max - word_of_int (int (dec_val fp))) 100) \<longleftrightarrow>
        int (dec_val ip) * 100 + int (dec_val fp) > int64_max" by simp
    show ?thesis
      using assms len True cents guard dots
      by (simp add: ParseMoney_def Let_def parse_int64_digits not_less)
  next
    case False
    then have "\<not> int (dec_val ip * 100 + dec_val fp) \<le> int64_max" by simp
    with False show ?thesis
      using assms len cents dots by (simp add: ParseMoney_def Let_def parse_int64_digits)
  qed
qed

lemma ParseMoney_bad_text:
  assumes "\<not> money_text s"
  shows "ParseMoney s cur = Inl CodeInvalidMoney"
proof (cases "index_byte s (CHR ''.'')")
  case None
  then show ?thesis by (simp add: ParseMoney_def)
next
  case (Some dot)
  from index_byte_SomeD [OF this] have "dot < length s" "s ! dot = CHR ''.''" by auto
  then have "s = take dot s @ CHR ''.'' # drop (dot + 1) s"
    using id_take_nth_drop [of dot s] by simp
  with assms Some show ?thesis
    unfolding money_text_split by (fastforce simp: ParseMoney_def Let_def)
qed

text \<open>C39. What \<^verbatim>\<open>ParseMoney\<close> accepts, on every input. It succeeds exactly for a currency of three
  upper-case letters, a text in the language of digits, one dot and two digits, and a value that
  fits \<^verbatim>\<open>int64\<close>; the result is then the exact number of cents. A text outside the language is
  \<^verbatim>\<open>INVALID_MONEY\<close> and a well-formed text that is too large is \<^verbatim>\<open>MONEY_OVERFLOW\<close>; nothing is
  normalised or rounded.\<close>

theorem ParseMoney_total:
  "ParseMoney s cur =
    (if validCurrency cur \<and> money_text s then
       if int (money_text_value s) > int64_max then Inl CodeMoneyOverflow
       else Inr (mk_money (word_of_int (int (money_text_value s))) cur)
     else Inl CodeInvalidMoney)"
proof (cases "money_text s \<and> validCurrency cur")
  case True
  then obtain ip fp where "s = ip @ CHR ''.'' # fp" "ip \<noteq> []" "length fp = 2"
    "list_all is_digit ip" "list_all is_digit fp" unfolding money_text_split by blast
  with True show ?thesis by (simp add: ParseMoney_shape money_text_value_split)
next
  case False
  then show ?thesis using ParseMoney_bad_text [of s cur] by (auto simp: ParseMoney_def)
qed

section \<open>Formatting and the round trip\<close>

lemma i64_quot_100:
  assumes "0 \<le> sint a"
  shows "sint (i64_quot a 100) = sint a div 100" "sint (i64_rem a 100) = sint a mod 100"
proof -
  have b: "sint a \<le> int64_max" by (rule sint_upper)
  have "sint a sdiv 100 = sint a div 100" "sint a smod 100 = sint a mod 100"
    using assms by (auto simp: signed_divide_int_def signed_modulo_int_def sgn_if
        minus_mult_div_eq_mod [symmetric] mult.commute)
  then show "sint (i64_quot a 100) = sint a div 100" "sint (i64_rem a 100) = sint a mod 100"
    using assms b unfolding i64_quot_def i64_rem_def by (auto simp: int64_simps)
qed

lemma money_String_nonneg:
  assumes "0 \<le> sint (minor m)"
  shows "money_String m =
    show_nat (nat (sint (minor m)) div 100) @ ''.'' @ pad2 (nat (sint (minor m)) mod 100)"
  using assms
  by (simp add: money_String_def Let_def not_less i64_quot_100 show_int_def
      nat_div_distrib nat_mod_distrib)

lemma money_String_neg:
  assumes "sint (minor m) < 0"
  shows "money_String m =
    CHR ''-'' # show_nat (nat (- sint (minor m)) div 100) @ ''.'' @ pad2 (nat (- sint (minor m)) mod 100)"
proof (cases "minor m = word_of_int int64_min")
  case True
  then have s: "sint (minor m) = int64_min" by (simp add: sint_of_int_i64)
  have u: "unat ((word_of_int int64_max + 1 :: i64) div 100) = 9223372036854775808 div 100"
    "unat ((word_of_int int64_max + 1 :: i64) mod 100) = 9223372036854775808 mod 100"
    by (simp_all add: unat_div unat_mod)
  show ?thesis unfolding money_String_def Let_def u using assms True s by simp
next
  case False
  then have "sint (minor m) \<noteq> int64_min" using sint_eq_iff [of "minor m" "word_of_int int64_min"]
    by (simp add: sint_of_int_i64)
  then have n: "sint (- minor m) = - sint (minor m)" by (rule sint_minus_exact)
  with assms have "0 \<le> sint (- minor m)" by simp
  then show ?thesis using assms False
    by (simp add: money_String_def Let_def i64_quot_100 n show_int_def nat_div_distrib nat_mod_distrib)
qed

text \<open>Formatting and parsing are inverse on external values: the text that \<^verbatim>\<open>Money.String\<close>
  prints for a non-negative amount parses back to the same amount, and the text of a negative
  amount (only internal differences are negative) is refused, so it can not re-enter as input.\<close>

theorem ParseMoney_String:
  assumes "validCurrency (currency m)"
  shows "ParseMoney (money_String m) (currency m) =
    (if IsNegative m then Inl CodeInvalidMoney else Inr m)"
proof (cases "IsNegative m")
  case True
  then have neg: "sint (minor m) < 0" by (simp add: IsNegative_def)
  obtain rest where "money_String m = CHR ''-'' # rest" using money_String_neg [OF neg] by simp
  then have "\<not> money_text (money_String m)" by (auto simp: money_text_split Cons_eq_append_conv)
  with True show ?thesis by (simp add: ParseMoney_bad_text)
next
  case False
  then have nn: "0 \<le> sint (minor m)" by (simp add: IsNegative_def)
  let ?v = "nat (sint (minor m))"
  have "int (?v div 100 * 100 + ?v mod 100) = sint (minor m)" using nn by simp
  then have "ParseMoney (show_nat (?v div 100) @ CHR ''.'' # pad2 (?v mod 100)) (currency m) = Inr m"
    using assms sint_upper [of "minor m"]
    by (subst ParseMoney_shape) (simp_all add: length_pad2)
  with False nn show ?thesis by (simp add: money_String_nonneg)
qed

theorem ParseMoney_String_witness:
  "ParseMoney (money_String (mk_money 2500 ''BRL'')) ''BRL'' = Inr (mk_money 2500 ''BRL'')"
proof -
  have "validCurrency (currency (mk_money 2500 ''BRL''))"
    by (simp add: validCurrency_def is_upper_def)
  from ParseMoney_String [OF this] show ?thesis by (simp add: IsNegative_def)
qed

end
