(* ===== verification/Wallet.thy ===== *)
theory Wallet
  imports Money
begin

text \<open>
  \<^verbatim>\<open>internal/domain/wallet.go\<close>: the wallet aggregate. A Go method with a pointer receiver that
  mutates the wallet becomes a function that also returns the new wallet; on an error the
  receiver is unchanged, so only the error is returned.
\<close>

section \<open>The aggregate and its operations\<close>

record wallet =
  w_id :: string
  w_player :: string
  w_currency :: string
  w_balance :: money
  w_version :: i64

definition NewWallet :: "string \<Rightarrow> string \<Rightarrow> string \<Rightarrow> money \<Rightarrow> code + wallet" where
  "NewWallet wid player cur initial =
    (if wid = [] \<or> player = [] then Inl CodeInvalidMoney
     else if \<not> validCurrency cur then Inl CodeInvalidMoney
     else if currency initial \<noteq> cur then Inl CodeCurrencyMismatch
     else if IsNegative initial then Inl CodeInvalidMoney
     else Inr \<lparr>w_id = wid, w_player = player, w_currency = cur, w_balance = initial, w_version = 1\<rparr>)"

definition RehydrateWallet :: "string \<Rightarrow> string \<Rightarrow> string \<Rightarrow> i64 \<Rightarrow> i64 \<Rightarrow> code + wallet" where
  "RehydrateWallet wid player cur balanceMinor version =
    (if \<not> validCurrency cur then Inl CodeInvalidMoney
     else if sint version < 1 then Inl CodeInvalidMoney
     else rbind (NewMoneyFromMinor balanceMinor cur) (\<lambda>balance.
       Inr \<lparr>w_id = wid, w_player = player, w_currency = cur, w_balance = balance,
            w_version = version\<rparr>))"

definition checkParty :: "wallet \<Rightarrow> string \<Rightarrow> money \<Rightarrow> code + unit" where
  "checkParty w player amount =
    (if player \<noteq> w_player w then Inl CodeWalletPlayerMismatch
     else if currency amount \<noteq> w_currency w then Inl CodeCurrencyMismatch
     else Inr ())"

text \<open>\<^verbatim>\<open>Credit\<close> and \<^verbatim>\<open>Debit\<close> return the balances before and after and the new wallet.\<close>

definition Credit :: "wallet \<Rightarrow> string \<Rightarrow> money \<Rightarrow> code + money \<times> money \<times> wallet" where
  "Credit w player amount =
    rbind (checkParty w player amount) (\<lambda>_.
      if \<not> IsPositive amount then Inl CodeInvalidAmountForKind
      else rbind (money_Add (w_balance w) amount) (\<lambda>after.
        Inr (w_balance w, after, w\<lparr>w_balance := after, w_version := w_version w + 1\<rparr>)))"

definition Debit :: "wallet \<Rightarrow> string \<Rightarrow> money \<Rightarrow> code + money \<times> money \<times> wallet" where
  "Debit w player amount =
    rbind (checkParty w player amount) (\<lambda>_.
      if \<not> IsPositive amount then Inl CodeInvalidAmountForKind
      else rbind (money_Cmp (w_balance w) amount) (\<lambda>cmp.
        if cmp < 0 then Inl CodeInsufficientBalance
        else rbind (money_Sub (w_balance w) amount) (\<lambda>after.
          Inr (w_balance w, after, w\<lparr>w_balance := after, w_version := w_version w + 1\<rparr>))))"

section \<open>The wallet invariant\<close>

text \<open>What every wallet built by the constructors satisfies and every operation keeps: a
  well-formed currency shared with the balance, a balance that is not negative, a version of at
  least 1.\<close>

definition wallet_ok :: "wallet \<Rightarrow> bool" where
  "wallet_ok w \<longleftrightarrow> validCurrency (w_currency w) \<and> currency (w_balance w) = w_currency w \<and>
     0 \<le> sint (minor (w_balance w)) \<and> 1 \<le> sint (w_version w)"

lemma NewWallet_InrD:
  "NewWallet wid p cur m = Inr w \<Longrightarrow>
   w = \<lparr>w_id = wid, w_player = p, w_currency = cur, w_balance = m, w_version = 1\<rparr> \<and>
   wallet_ok w \<and> wid \<noteq> [] \<and> p \<noteq> []"
  by (auto simp: NewWallet_def wallet_ok_def IsNegative_def split: if_splits)

lemma RehydrateWallet_InrD:
  "RehydrateWallet wid p cur b v = Inr w \<Longrightarrow>
   w = \<lparr>w_id = wid, w_player = p, w_currency = cur, w_balance = mk_money b cur, w_version = v\<rparr> \<and>
   validCurrency cur \<and> 1 \<le> sint v"
  by (auto simp: RehydrateWallet_def NewMoneyFromMinor_def split: if_splits)

lemma RehydrateWallet_ok:
  "validCurrency cur \<Longrightarrow> 1 \<le> sint v \<Longrightarrow> RehydrateWallet wid p cur b v =
   Inr \<lparr>w_id = wid, w_player = p, w_currency = cur, w_balance = mk_money b cur, w_version = v\<rparr>"
  by (simp add: RehydrateWallet_def NewMoneyFromMinor_def)

lemma Credit_InrD:
  assumes "Credit w p amt = Inr (before, after, w')"
  shows "before = w_balance w" "w' = w\<lparr>w_balance := after, w_version := w_version w + 1\<rparr>"
    "sint (minor after) = sint (minor (w_balance w)) + sint (minor amt)" "0 < sint (minor amt)"
    "currency amt = w_currency w" "currency after = currency (w_balance w)" "p = w_player w"
    "currency amt = currency (w_balance w)"
  using assms money_Add_InrD [of "w_balance w" amt after]
  by (auto simp: Credit_def checkParty_def IsPositive_def split: if_splits elim!: rbind_InrE)

lemma Debit_InrD:
  assumes "Debit w p amt = Inr (before, after, w')"
  shows "before = w_balance w" "w' = w\<lparr>w_balance := after, w_version := w_version w + 1\<rparr>"
    "sint (minor after) = sint (minor (w_balance w)) - sint (minor amt)" "0 < sint (minor amt)"
    "sint (minor amt) \<le> sint (minor (w_balance w))"
    "currency amt = w_currency w" "currency after = currency (w_balance w)" "p = w_player w"
    "currency amt = currency (w_balance w)"
proof -
  have c: "p = w_player w" "currency amt = w_currency w" "0 < sint (minor amt)"
    using assms by (auto simp: Debit_def checkParty_def IsPositive_def split: if_splits)
  obtain cmp where cmp: "money_Cmp (w_balance w) amt = Inr cmp" "\<not> cmp < 0"
    and sub: "rbind (money_Sub (w_balance w) amt) (\<lambda>after. Inr (w_balance w, after,
        w\<lparr>w_balance := after, w_version := w_version w + 1\<rparr>)) = Inr (before, after, w')"
    using assms c by (auto simp: Debit_def checkParty_def IsPositive_def split: if_splits
        elim!: rbind_InrE)
  from sub have sub': "money_Sub (w_balance w) amt = Inr after" "before = w_balance w"
    "w' = w\<lparr>w_balance := after, w_version := w_version w + 1\<rparr>"
    by (auto elim!: rbind_InrE)
  have "sint (minor amt) \<le> sint (minor (w_balance w))"
    using cmp by (simp add: money_Cmp_def split: if_splits)
  then show "before = w_balance w" "w' = w\<lparr>w_balance := after, w_version := w_version w + 1\<rparr>"
    "sint (minor after) = sint (minor (w_balance w)) - sint (minor amt)" "0 < sint (minor amt)"
    "sint (minor amt) \<le> sint (minor (w_balance w))"
    "currency amt = w_currency w" "currency after = currency (w_balance w)" "p = w_player w"
    "currency amt = currency (w_balance w)"
    using c sub' money_Sub_InrD [OF sub'(1)] by simp_all
qed

text \<open>The exact outcome of a debit and a credit by the wallet's own player, in its currency.\<close>

lemma Debit_own:
  assumes "wallet_ok w" "currency amt = w_currency w" "IsPositive amt"
  shows "Debit w (w_player w) amt =
    (if sint (minor amt) \<le> sint (minor (w_balance w))
     then Inr (w_balance w, mk_money (minor (w_balance w) - minor amt) (w_currency w),
       w\<lparr>w_balance := mk_money (minor (w_balance w) - minor amt) (w_currency w),
         w_version := w_version w + 1\<rparr>)
     else Inl CodeInsufficientBalance)"
proof (cases "sint (minor amt) \<le> sint (minor (w_balance w))")
  case True
  then have "in_int64 (sint (minor (w_balance w)) - sint (minor amt))"
    using assms sint_upper [of "minor (w_balance w)"]
    unfolding in_int64_def wallet_ok_def IsPositive_def by linarith
  with True assms show ?thesis
    by (auto simp: Debit_def checkParty_def wallet_ok_def money_Cmp_def money_Sub_eq)
next
  case False
  with assms show ?thesis by (simp add: Debit_def checkParty_def wallet_ok_def money_Cmp_def)
qed

lemma Credit_own:
  assumes "wallet_ok w" "currency amt = w_currency w" "IsPositive amt"
  shows "Credit w (w_player w) amt =
    (if sint (minor (w_balance w)) + sint (minor amt) \<le> int64_max
     then Inr (w_balance w, mk_money (minor (w_balance w) + minor amt) (w_currency w),
       w\<lparr>w_balance := mk_money (minor (w_balance w) + minor amt) (w_currency w),
         w_version := w_version w + 1\<rparr>)
     else Inl CodeMoneyOverflow)"
  using assms
  by (simp add: Credit_def checkParty_def wallet_ok_def money_Add_eq IsPositive_def in_int64_def)

text \<open>A debit never overdraws. On a well-formed wallet \<^verbatim>\<open>Debit\<close> succeeds precisely when the
  player is the owner, the currency is the wallet's, the amount is positive and the balance covers
  it; the new balance is the exact difference, not negative, and the version grows by one. With
  insufficient funds, and no other defect, the error is \<^verbatim>\<open>INSUFFICIENT_BALANCE\<close>.\<close>

theorem Debit_never_overdraws:
  assumes "wallet_ok w"
  shows "case Debit w p amt of
      Inr (before, after, w') \<Rightarrow> p = w_player w \<and> currency amt = w_currency w \<and> IsPositive amt \<and>
        before = w_balance w \<and> after = w_balance w' \<and> currency after = w_currency w \<and>
        sint (minor after) = sint (minor before) - sint (minor amt) \<and>
        0 \<le> sint (minor after) \<and> w_version w' = w_version w + 1
    | Inl e \<Rightarrow> (if p \<noteq> w_player w then e = CodeWalletPlayerMismatch
        else if currency amt \<noteq> w_currency w then e = CodeCurrencyMismatch
        else if \<not> IsPositive amt then e = CodeInvalidAmountForKind
        else e = CodeInsufficientBalance \<and> sint (minor (w_balance w)) < sint (minor amt))"
proof (cases "Debit w p amt")
  case (Inr r)
  then obtain b a w' where r: "Debit w p amt = Inr (b, a, w')" by (cases r) auto
  show ?thesis
    unfolding r using Debit_InrD [OF r] assms by (simp add: IsPositive_def wallet_ok_def)
next
  case (Inl e)
  show ?thesis
  proof (cases "p = w_player w \<and> currency amt = w_currency w \<and> IsPositive amt")
    case True
    then show ?thesis using Debit_own [OF assms, of amt] Inl by (auto split: if_splits)
  next
    case False
    then show ?thesis using Inl by (auto simp: Debit_def checkParty_def split: if_splits)
  qed
qed

theorem Debit_never_overdraws_witness:
  "\<exists>b a w'. Debit \<lparr>w_id = ''w'', w_player = ''p'', w_currency = ''BRL'',
      w_balance = mk_money 10000 ''BRL'', w_version = 1\<rparr> ''p'' (mk_money 8000 ''BRL'') = Inr (b, a, w') \<and>
    sint (minor a) = 2000"
proof -
  let ?w = "\<lparr>w_id = ''w'', w_player = ''p'', w_currency = ''BRL'',
      w_balance = mk_money 10000 ''BRL'', w_version = 1\<rparr>"
  have "wallet_ok ?w" by (simp add: wallet_ok_def validCurrency_def is_upper_def)
  from Debit_never_overdraws [OF this, of "''p''" "mk_money 8000 ''BRL''"] show ?thesis
    by (auto simp: IsPositive_def split: sum.splits)
qed

end
