(* ===== verification/Transaction.thy ===== *)
theory Transaction
  imports Wallet
begin

text \<open>
  \<^verbatim>\<open>internal/domain/transaction.go\<close>: kinds, lifecycle states with their transition guard, the
  wager transaction and its marking methods, the amount policy per kind, and ledger entries,
  which validate their arithmetic at construction.
\<close>

section \<open>Kinds, states and the wager transaction\<close>

text \<open>\<^verbatim>\<open>TransactionKind\<close> is a Go string type: a request may carry any text, so the texts that are
  not one of the constants stay a value of the type.\<close>

datatype kind = KindOpening | KindBet | KindWin | KindLoss | KindRefund | KindRollback
  | KindUnknown string

definition kind_of :: "string \<Rightarrow> kind" where
  "kind_of s =
    (if s = ''OPENING'' then KindOpening else if s = ''BET'' then KindBet
     else if s = ''WIN'' then KindWin else if s = ''LOSS'' then KindLoss
     else if s = ''REFUND'' then KindRefund else if s = ''ROLLBACK'' then KindRollback
     else KindUnknown s)"

fun kind_text :: "kind \<Rightarrow> string" where
  "kind_text KindOpening = ''OPENING''"
| "kind_text KindBet = ''BET''"
| "kind_text KindWin = ''WIN''"
| "kind_text KindLoss = ''LOSS''"
| "kind_text KindRefund = ''REFUND''"
| "kind_text KindRollback = ''ROLLBACK''"
| "kind_text (KindUnknown s) = s"

lemma kind_text_kind_of [simp]: "kind_text (kind_of s) = s"
  by (simp add: kind_of_def)

datatype tx_state = StatePending | StatePendingReference | StateProcessed | StateRejected | StateFailed

definition IsTerminal :: "tx_state \<Rightarrow> bool" where
  "IsTerminal s \<longleftrightarrow> s = StateProcessed \<or> s = StateRejected \<or> s = StateFailed"

definition CanTransition :: "tx_state \<Rightarrow> tx_state \<Rightarrow> bool" where
  "CanTransition s to = (case s of
      StatePending \<Rightarrow> to = StateProcessed \<or> to = StateRejected \<or>
        to = StatePendingReference \<or> to = StateFailed
    | StatePendingReference \<Rightarrow> to = StateProcessed \<or> to = StateRejected \<or> to = StateFailed
    | _ \<Rightarrow> False)"

record wager_tx =
  x_id :: string
  x_kind :: kind
  x_state :: tx_state
  x_amount :: money
  x_player :: string
  x_wallet :: string
  x_provider :: string
  x_external :: string
  x_round :: string
  x_reference :: string
  x_failure :: string
  x_result :: money
  x_has_result :: bool
  x_version_observed :: i64
  x_reversed_kind :: string
  x_reversed_tx :: string
  x_has_reversal :: bool

definition ValidateExternalKind :: "kind \<Rightarrow> code + unit" where
  "ValidateExternalKind k = (if k = KindOpening then Inl CodeOpeningNotAllowed else Inr ())"

definition ValidateAmountForKind :: "kind \<Rightarrow> money \<Rightarrow> code + unit" where
  "ValidateAmountForKind k amount =
    (if k = KindBet \<or> k = KindWin \<or> k = KindRefund \<or> k = KindRollback then
       (if \<not> IsPositive amount then Inl CodeInvalidAmountForKind else Inr ())
     else if k = KindLoss then
       (if \<not> IsZero amount then Inl CodeInvalidAmountForKind else Inr ())
     else if k = KindOpening then
       (if IsNegative amount then Inl CodeInvalidAmountForKind else Inr ())
     else Inl CodeInvalidAmountForKind)"

text \<open>The zero value of the fields that a constructor does not set.\<close>

definition zero_money :: money where
  "zero_money = mk_money 0 []"

definition RehydrateTransaction ::
    "string \<Rightarrow> kind \<Rightarrow> tx_state \<Rightarrow> money \<Rightarrow> string \<Rightarrow> string \<Rightarrow> wager_tx" where
  "RehydrateTransaction tid k st amount player wid =
    \<lparr>x_id = tid, x_kind = k, x_state = st, x_amount = amount, x_player = player, x_wallet = wid,
     x_provider = [], x_external = [], x_round = [], x_reference = [], x_failure = [],
     x_result = zero_money, x_has_result = False, x_version_observed = 0,
     x_reversed_kind = [], x_reversed_tx = [], x_has_reversal = False\<rparr>"

definition NewTransaction :: "string \<Rightarrow> kind \<Rightarrow> money \<Rightarrow> string \<Rightarrow> string \<Rightarrow> code + wager_tx" where
  "NewTransaction tid k amount player wid =
    (if tid = [] then Inl CodeInvalidMoney
     else rbind (ValidateAmountForKind k amount) (\<lambda>_.
       Inr (RehydrateTransaction tid k StatePending amount player wid)))"

definition WithReference :: "wager_tx \<Rightarrow> string \<Rightarrow> string \<Rightarrow> string \<Rightarrow> string \<Rightarrow> wager_tx" where
  "WithReference t provider external round ref =
    t\<lparr>x_provider := provider, x_external := external, x_round := round, x_reference := ref\<rparr>"

definition transition :: "wager_tx \<Rightarrow> tx_state \<Rightarrow> code + wager_tx" where
  "transition t to =
    (if \<not> CanTransition (x_state t) to then Inl CodeInvalidTransition else Inr (t\<lparr>x_state := to\<rparr>))"

definition MarkProcessed :: "wager_tx \<Rightarrow> money \<Rightarrow> i64 \<Rightarrow> code + wager_tx" where
  "MarkProcessed t balance version =
    rbind (transition t StateProcessed) (\<lambda>t.
      Inr (t\<lparr>x_result := balance, x_has_result := True, x_version_observed := version\<rparr>))"

definition MarkProcessedNoMovement :: "wager_tx \<Rightarrow> money \<Rightarrow> i64 \<Rightarrow> code + wager_tx" where
  "MarkProcessedNoMovement t balance version = MarkProcessed t balance version"

definition MarkRejected :: "wager_tx \<Rightarrow> string \<Rightarrow> money \<Rightarrow> i64 \<Rightarrow> code + wager_tx" where
  "MarkRejected t fcode balance version =
    rbind (transition t StateRejected) (\<lambda>t.
      Inr (t\<lparr>x_failure := fcode, x_result := balance, x_has_result := True,
            x_version_observed := version\<rparr>))"

definition MarkPendingReference :: "wager_tx \<Rightarrow> code + wager_tx" where
  "MarkPendingReference t = transition t StatePendingReference"

definition MarkFailed :: "wager_tx \<Rightarrow> string \<Rightarrow> code + wager_tx" where
  "MarkFailed t fcode = rbind (transition t StateFailed) (\<lambda>t. Inr (t\<lparr>x_failure := fcode\<rparr>))"

definition tx_MarkReversed :: "wager_tx \<Rightarrow> string \<Rightarrow> string \<Rightarrow> wager_tx" where
  "tx_MarkReversed t byKind byTx =
    t\<lparr>x_has_reversal := True, x_reversed_kind := byKind, x_reversed_tx := byTx\<rparr>"

definition tx_ClearReversal :: "wager_tx \<Rightarrow> wager_tx" where
  "tx_ClearReversal t = t\<lparr>x_has_reversal := False, x_reversed_kind := [], x_reversed_tx := []\<rparr>"

section \<open>Ledger entries\<close>

text \<open>\<^verbatim>\<open>LedgerDirection\<close> is a Go string type; \<open>DirectionOther []\<close> is the empty direction that the
  event code uses for \<^emph>\<open>no movement\<close>.\<close>

datatype direction = DirectionDebit | DirectionCredit | DirectionOther string

fun direction_text :: "direction \<Rightarrow> string" where
  "direction_text DirectionDebit = ''DEBIT''"
| "direction_text DirectionCredit = ''CREDIT''"
| "direction_text (DirectionOther s) = s"

record ledger_entry =
  e_id :: string
  e_wallet :: string
  e_tx :: string
  e_direction :: direction
  e_amount :: money
  e_before :: money
  e_after :: money
  e_version :: i64

definition NewLedgerEntry ::
    "string \<Rightarrow> string \<Rightarrow> string \<Rightarrow> direction \<Rightarrow> money \<Rightarrow> money \<Rightarrow> money \<Rightarrow> i64 \<Rightarrow> code + ledger_entry" where
  "NewLedgerEntry eid wid tid dir amount before after version =
    (if eid = [] \<or> wid = [] \<or> tid = [] then Inl CodeInvalidMoney
     else if dir \<noteq> DirectionDebit \<and> dir \<noteq> DirectionCredit then Inl CodeInvalidMoney
     else if \<not> IsPositive amount then Inl CodeInvalidAmountForKind
     else if currency amount \<noteq> currency before \<or> currency amount \<noteq> currency after
       then Inl CodeCurrencyMismatch
     else if IsNegative before \<or> IsNegative after then Inl CodeInvalidMoney
     else rbind (if dir = DirectionDebit then money_Sub before amount else money_Add before amount)
       (\<lambda>expect. if \<not> money_Equal expect after then Inl CodeInvalidMoney
         else Inr \<lparr>e_id = eid, e_wallet = wid, e_tx = tid, e_direction = dir, e_amount = amount,
           e_before = before, e_after = after, e_version = version\<rparr>))"

text \<open>The signed effect of a movement, as an integer.\<close>

fun signed_amount :: "direction \<Rightarrow> i64 \<Rightarrow> int" where
  "signed_amount DirectionDebit a = - sint a"
| "signed_amount DirectionCredit a = sint a"
| "signed_amount (DirectionOther _) a = 0"

lemma NewLedgerEntry_InrD:
  assumes "NewLedgerEntry eid wid tid dir amount before after version = Inr e"
  shows "e = \<lparr>e_id = eid, e_wallet = wid, e_tx = tid, e_direction = dir, e_amount = amount,
      e_before = before, e_after = after, e_version = version\<rparr>"
    "eid \<noteq> []" "wid \<noteq> []" "tid \<noteq> []" "dir = DirectionDebit \<or> dir = DirectionCredit"
    "0 < sint (minor amount)" "0 \<le> sint (minor before)" "0 \<le> sint (minor after)"
    "currency before = currency amount" "currency after = currency amount"
    "sint (minor after) = sint (minor before) + signed_amount dir (minor amount)"
  using assms
  by (auto simp: NewLedgerEntry_def IsPositive_def IsNegative_def split: if_splits
      elim!: rbind_InrE dest: money_Sub_InrD(3) money_Add_InrD(3))

lemma NewLedgerEntry_credit:
  assumes "Credit w p amt = Inr (before, after, w')" "wallet_ok w"
    "eid \<noteq> []" "w_id w \<noteq> []" "tid \<noteq> []"
  shows "NewLedgerEntry eid (w_id w) tid DirectionCredit amt before after ver =
    Inr \<lparr>e_id = eid, e_wallet = w_id w, e_tx = tid, e_direction = DirectionCredit, e_amount = amt,
      e_before = before, e_after = after, e_version = ver\<rparr>"
  using assms Credit_InrD [OF assms(1)]
  by (auto simp: NewLedgerEntry_def IsPositive_def IsNegative_def wallet_ok_def Credit_def
      checkParty_def split: if_splits elim!: rbind_InrE)

lemma NewLedgerEntry_debit:
  assumes "Debit w p amt = Inr (before, after, w')" "wallet_ok w"
    "eid \<noteq> []" "w_id w \<noteq> []" "tid \<noteq> []"
  shows "NewLedgerEntry eid (w_id w) tid DirectionDebit amt before after ver =
    Inr \<lparr>e_id = eid, e_wallet = w_id w, e_tx = tid, e_direction = DirectionDebit, e_amount = amt,
      e_before = before, e_after = after, e_version = ver\<rparr>"
  using assms Debit_InrD [OF assms(1)]
  by (auto simp: NewLedgerEntry_def IsPositive_def IsNegative_def wallet_ok_def Debit_def
      checkParty_def split: if_splits elim!: rbind_InrE)

end
