(* ===== verification/Reversal.thy ===== *)
theory Reversal
  imports Transaction
begin

text \<open>
  \<^verbatim>\<open>internal/domain/reversal.go\<close>: the matrix of allowed reversals with its one-reversal and
  active-win guards, and the agreement checks between an operation and the transaction it refers
  to.
\<close>

section \<open>The checks\<close>

definition IsReversalKind :: "kind \<Rightarrow> bool" where
  "IsReversalKind k \<longleftrightarrow> k = KindRefund \<or> k = KindRollback"

definition ValidateReversalTarget :: "kind \<Rightarrow> wager_tx option \<Rightarrow> bool \<Rightarrow> code + unit" where
  "ValidateReversalTarget reverser tgt hasActiveWin = (case tgt of
     None \<Rightarrow> Inl CodeInvalidReversal
   | Some t \<Rightarrow>
     if x_state t \<noteq> StateProcessed then Inl CodeInvalidReversal
     else rbind
       (case reverser of
          KindRefund \<Rightarrow> if x_kind t \<noteq> KindBet then Inl CodeInvalidReversal else Inr ()
        | KindRollback \<Rightarrow>
            (case x_kind t of
               KindBet \<Rightarrow> Inr () | KindWin \<Rightarrow> Inr () | KindRefund \<Rightarrow> Inr ()
             | _ \<Rightarrow> Inl CodeInvalidReversal)
        | _ \<Rightarrow> Inl CodeInvalidReversal)
       (\<lambda>_. if x_has_reversal t then Inl CodeAlreadyReversed
         else if x_kind t = KindBet \<and> hasActiveWin then Inl CodeBetHasActiveWin
         else Inr ()))"

record operation =
  o_kind :: kind
  o_amount :: money
  o_provider :: string
  o_player :: string
  o_wallet :: string
  o_round :: string

record reference =
  f_kind :: kind
  f_amount :: money
  f_provider :: string
  f_player :: string
  f_wallet :: string
  f_round :: string
  f_state :: tx_state
  f_reversed :: bool

definition ValidateReferenceAgreement :: "operation \<Rightarrow> reference \<Rightarrow> code + unit" where
  "ValidateReferenceAgreement op ref =
    (if o_provider op \<noteq> f_provider ref then Inl CodeReferenceProviderMismatch
     else if o_player op \<noteq> f_player ref then Inl CodeReferencePlayerMismatch
     else if o_wallet op \<noteq> f_wallet ref then Inl CodeReferenceWalletMismatch
     else if currency (o_amount op) \<noteq> currency (f_amount ref) then Inl CodeReferenceCurrencyMismatch
     else if o_round op \<noteq> f_round ref then Inl CodeReferenceRoundMismatch
     else if \<not> money_Equal (o_amount op) (f_amount ref) then Inl CodeAmountMismatch
     else Inr ())"

definition ValidateWinReference :: "operation \<Rightarrow> reference option \<Rightarrow> code + unit" where
  "ValidateWinReference win bet = (case bet of
     None \<Rightarrow> Inl CodeReferenceNotProcessed
   | Some b \<Rightarrow>
     if f_kind b \<noteq> KindBet then Inl CodeInvalidReversal
     else if f_state b \<noteq> StateProcessed then Inl CodeReferenceNotProcessed
     else if f_reversed b then Inl CodeReferenceReversed
     else ValidateReferenceAgreement win b)"

section \<open>What the checks decide\<close>

text \<open>The documented matrix: which kinds of processed transactions each reversal may target.\<close>

fun reversal_matrix :: "kind \<Rightarrow> kind \<Rightarrow> bool" where
  "reversal_matrix KindRefund t = (t = KindBet)"
| "reversal_matrix KindRollback t = (t \<in> {KindBet, KindWin, KindRefund})"
| "reversal_matrix _ t = False"

definition agrees :: "operation \<Rightarrow> reference \<Rightarrow> bool" where
  "agrees op ref \<longleftrightarrow> o_provider op = f_provider ref \<and> o_player op = f_player ref \<and>
     o_wallet op = f_wallet ref \<and> o_round op = f_round ref \<and> o_amount op = f_amount ref"

text \<open>The anti-overpayment matrix. A reversal is allowed exactly when the target is a processed
  transaction of a kind the matrix names for the reversing kind, has not been reversed, and is not
  a bet with a processed win that still stands. \<^verbatim>\<open>LOSS\<close>, \<^verbatim>\<open>OPENING\<close> and \<^verbatim>\<open>ROLLBACK\<close> targets, and
  targets in any other state, are never reversible; a target off the matrix is reported before the
  one-reversal guard, and that guard before the active-win guard.\<close>

theorem ValidateReversalTarget_matrix:
  "ValidateReversalTarget k (Some t) win =
    (if x_state t = StateProcessed \<and> reversal_matrix k (x_kind t) then
       if x_has_reversal t then Inl CodeAlreadyReversed
       else if x_kind t = KindBet \<and> win then Inl CodeBetHasActiveWin
       else Inr ()
     else Inl CodeInvalidReversal)"
  by (cases k; cases "x_kind t") (simp_all add: ValidateReversalTarget_def)

lemma ValidateReversalTarget_Inr_iff:
  "ValidateReversalTarget k (Some t) win = Inr () \<longleftrightarrow> x_state t = StateProcessed \<and> reversal_matrix k (x_kind t) \<and>
     \<not> x_has_reversal t \<and> \<not> (x_kind t = KindBet \<and> win)"
  by (cases k; cases "x_kind t") (auto simp: ValidateReversalTarget_def)

lemma ValidateReferenceAgreement_Inr_iff:
  "ValidateReferenceAgreement op ref = Inr () \<longleftrightarrow> agrees op ref"
  by (auto simp: ValidateReferenceAgreement_def agrees_def)

lemma ValidateWinReference_Inr_iff:
  "ValidateWinReference op (Some b) = Inr () \<longleftrightarrow>
   f_kind b = KindBet \<and> f_state b = StateProcessed \<and> \<not> f_reversed b \<and> agrees op b"
  by (auto simp: ValidateWinReference_def ValidateReferenceAgreement_Inr_iff)

text \<open>A referenced win must pay exactly the stake. \<^verbatim>\<open>ValidateWinReference\<close> ends in the same
  agreement check as reversals, so a win that refers to a live, processed bet of the same provider,
  player, wallet, round and currency is refused with \<^verbatim>\<open>AMOUNT_MISMATCH\<close> whenever its amount is not
  the bet's amount, although the documentation asks for agreement on round, player, wallet and
  currency only.\<close>

theorem ValidateWinReference_forces_stake:
  assumes "f_kind b = KindBet" "f_state b = StateProcessed" "\<not> f_reversed b"
    "o_provider op = f_provider b" "o_player op = f_player b" "o_wallet op = f_wallet b"
    "o_round op = f_round b" "currency (o_amount op) = currency (f_amount b)"
  shows "ValidateWinReference op (Some b) =
    (if minor (o_amount op) = minor (f_amount b) then Inr () else Inl CodeAmountMismatch)"
  using assms
  by (simp add: ValidateWinReference_def ValidateReferenceAgreement_def money_Equal_def
      del: money_Equal_iff)

theorem ValidateWinReference_forces_stake_witness:
  "ValidateWinReference
     \<lparr>o_kind = KindWin, o_amount = mk_money 5000 ''BRL'', o_provider = ''a'', o_player = ''p'',
      o_wallet = ''w'', o_round = ''r''\<rparr>
     (Some \<lparr>f_kind = KindBet, f_amount = mk_money 2500 ''BRL'', f_provider = ''a'', f_player = ''p'',
      f_wallet = ''w'', f_round = ''r'', f_state = StateProcessed, f_reversed = False\<rparr>)
   = Inl CodeAmountMismatch"
  by (subst ValidateWinReference_forces_stake) simp_all

end
