(* ===== verification/Records.thy ===== *)
theory Records
  imports Reversal
begin

text \<open>
  The rows that the program persists, from \<^verbatim>\<open>internal/ports/ports.go\<close> (the views the use-cases see)
  and \<^verbatim>\<open>internal/adapters/postgres/models.go\<close> (the columns). A nullable column is an option. A
  time is the number of nanoseconds since the Unix epoch; \<open>zero_time\<close> is Go's zero \<^verbatim>\<open>time.Time\<close>.
  The columns \<^verbatim>\<open>created_at\<close> and \<^verbatim>\<open>updated_at\<close> that nothing reads are left out.
\<close>

type_synonym time = int

definition zero_time :: time where
  "zero_time = - 62135596800000000000"

text \<open>\<^verbatim>\<open>time.Time.Sub\<close> saturates at the ends of \<^verbatim>\<open>time.Duration\<close> (an \<^verbatim>\<open>int64\<close> of nanoseconds).\<close>

definition time_Sub :: "time \<Rightarrow> time \<Rightarrow> int" where
  "time_Sub t u = max int64_min (min int64_max (t - u))"

datatype origin = INTERNAL | EXTERNAL

record wallet_row =
  wr_id :: string
  wr_player :: string
  wr_currency :: string
  wr_balance :: i64
  wr_version :: i64

record tx_row =
  t_id :: string
  t_origin :: origin
  t_provider :: "string option"
  t_external :: "string option"
  t_key :: "string option"
  t_hash :: "string option"
  t_wallet :: string
  t_player :: string
  t_round :: "string option"
  t_game :: "string option"
  t_kind :: kind
  t_amount :: i64
  t_currency :: string
  t_ref_external :: "string option"
  t_ref_tx :: "string option"
  t_state :: tx_state
  t_failure :: "string option"
  t_result :: "i64 option"
  t_result_currency :: "string option"
  t_reversed_kind :: "string option"
  t_reversed_tx :: "string option"
  t_version :: "i64 option"

record ledger_row =
  l_id :: string
  l_wallet :: string
  l_tx :: string
  l_direction :: direction
  l_amount :: i64
  l_currency :: string
  l_before :: i64
  l_after :: i64
  l_version :: i64

record inbox_row =
  i_consumer :: string
  i_message :: string
  i_hash :: string
  i_concluded :: "time option"

record outbox_row =
  b_event :: string
  b_aggregate :: string
  b_type :: string
  b_payload :: string
  b_occurred :: time
  b_attempts :: int
  b_next :: time
  b_published :: "time option"
  b_owner :: "string option"
  b_lease :: "time option"

text \<open>\<^verbatim>\<open>ports.OutboxRecord\<close>, the view of an outbox row that a publisher claims.\<close>

record outbox_record =
  ob_event :: string
  ob_aggregate :: string
  ob_type :: string
  ob_payload :: string
  ob_attempts :: int
  ob_occurred :: time

record work_row =
  k_tx :: string
  k_kind :: string
  k_ref :: int
  k_infra :: int
  k_next :: time
  k_owner :: "string option"
  k_lease :: "time option"
  k_created :: time

text \<open>\<^verbatim>\<open>ports.WorkItem\<close>, the view of a work row that a worker claims.\<close>

record work_item =
  wi_tx :: string
  wi_kind :: string
  wi_ref :: int
  wi_infra :: int
  wi_next :: time
  wi_owner :: string
  wi_lease :: "time option"
  wi_created :: time

text \<open>The database: one list of rows per table, in insertion order.\<close>

record tables =
  wallets :: "wallet_row list"
  txs :: "tx_row list"
  ledger :: "ledger_row list"
  inbox :: "inbox_row list"
  outbox :: "outbox_row list"
  works :: "work_row list"

definition empty_tables :: tables where
  "empty_tables = \<lparr>wallets = [], txs = [], ledger = [], inbox = [], outbox = [], works = []\<rparr>"

text \<open>\<^verbatim>\<open>str(p)\<close> of the use-cases: a nil pointer reads as the empty string.\<close>

definition str :: "string option \<Rightarrow> string" where
  "str p = (case p of None \<Rightarrow> [] | Some s \<Rightarrow> s)"

lemma str_simps [simp]: "str None = []" "str (Some s) = s"
  by (simp_all add: str_def)

end
