(* ===== verification/Actions.thy ===== *)
theory Actions
  imports Records
begin

text \<open>
  Actions of the use-cases on the database: state passing over a \<open>world\<close> with an error sum. An
  error keeps the state it was raised in, because Go code may continue after an error inside the
  same SQL transaction. The environment is what the program does not determine: the clock, the
  random source, the generated identifiers, which statements fail for infrastructure reasons, and
  PostgreSQL's reading of \<^verbatim>\<open>uuid\<close> text. \<open>transact\<close> is \<^verbatim>\<open>Store.Transact\<close> of
  \<^verbatim>\<open>internal/adapters/postgres/db.go\<close>.
\<close>

section \<open>Errors, world, environment\<close>

datatype db_error = UniqueViolation | CheckViolation | ForeignKeyViolation | InvalidText
  | TxAborted | Unavailable

text \<open>The errors a use-case returns: \<^verbatim>\<open>CorrectableError\<close>, \<^verbatim>\<open>ConflictError\<close> and \<^verbatim>\<open>PoisonError\<close> with
  their codes, a domain error, an error of the database, or another error value.\<close>

datatype serr = ErrCorrectable string | ErrConflict string | ErrPoison string string string
  | ErrDomain code | ErrDb db_error | ErrOther string

record world =
  tabs :: tables
  tick :: nat
  aborted :: bool

text \<open>Every clock reading, random draw, generated id and SQL statement consumes one tick, so no two
  of them are tied together. \<open>e_uuid\<close> is the canonical form of a text bound to a \<^verbatim>\<open>uuid\<close> column,
  None for malformed text; \<open>e_fault n\<close> says that the statement at tick \<open>n\<close> is lost.\<close>

record env =
  e_clock :: "nat \<Rightarrow> time"
  e_rand :: "nat \<Rightarrow> nat"
  e_ids :: "nat \<Rightarrow> string"
  e_fault :: "nat \<Rightarrow> bool"
  e_uuid :: "string \<Rightarrow> string option"

type_synonym 'a action = "world \<Rightarrow> (serr + 'a) \<times> world"

definition tock :: "world \<Rightarrow> world" where
  "tock w = w\<lparr>tick := Suc (tick w)\<rparr>"

definition ret :: "'a \<Rightarrow> 'a action" where
  "ret x w = (Inr x, w)"

definition fail :: "serr \<Rightarrow> 'a action" where
  "fail e w = (Inl e, w)"

definition bind :: "'a action \<Rightarrow> ('a \<Rightarrow> 'b action) \<Rightarrow> 'b action" where
  "bind m f w = (case m w of (Inl e, w') \<Rightarrow> (Inl e, w') | (Inr x, w') \<Rightarrow> f x w')"

text \<open>Continue whatever the action returned: \<^verbatim>\<open>_ = f()\<close>.\<close>

definition ignore :: "'a action \<Rightarrow> unit action" where
  "ignore m w = (Inr (), snd (m w))"

text \<open>Continue with the outcome as a value: \<^verbatim>\<open>r, err := f()\<close> followed by a case split on \<^verbatim>\<open>err\<close>.\<close>

definition attempt :: "'a action \<Rightarrow> (serr + 'a) action" where
  "attempt m w = (Inr (fst (m w)), snd (m w))"

definition lift_domain :: "code + 'a \<Rightarrow> 'a action" where
  "lift_domain r = (case r of Inl c \<Rightarrow> fail (ErrDomain c) | Inr x \<Rightarrow> ret x)"

section \<open>Clock, randomness, identifiers\<close>

definition now :: "env \<Rightarrow> time action" where
  "now E w = (Inr (e_clock E (tick w)), tock w)"

definition newID :: "env \<Rightarrow> string action" where
  "newID E w = (Inr (e_ids E (tick w)), tock w)"

text \<open>\<^verbatim>\<open>rand.Int63n(n)\<close>: a value in \<open>[0, n)\<close>; it panics unless \<open>n > 0\<close>, which every caller ensures.\<close>

definition int63n :: "env \<Rightarrow> nat \<Rightarrow> nat action" where
  "int63n E n w = (Inr (e_rand E (tick w) mod n), tock w)"

section \<open>Statements and transactions\<close>

text \<open>A statement is an atomic step on the tables or an error. In a transaction that has seen an
  error PostgreSQL refuses every further statement.\<close>

definition stmt :: "env \<Rightarrow> (tables \<Rightarrow> db_error + 'a \<times> tables) \<Rightarrow> 'a action" where
  "stmt E f w =
    (if aborted w then (Inl (ErrDb TxAborted), tock w)
     else if e_fault E (tick w) then (Inl (ErrDb Unavailable), tock (w\<lparr>aborted := True\<rparr>))
     else case f (tabs w) of
       Inl e \<Rightarrow> (Inl (ErrDb e), tock (w\<lparr>aborted := True\<rparr>))
     | Inr (x, T) \<Rightarrow> (Inr x, tock (w\<lparr>tabs := T\<rparr>)))"

text \<open>Begin, run, and commit when the function returned no error and the transaction is not
  aborted; otherwise roll the tables back. The whole transaction takes effect at one moment; \<open>Overlaps\<close> and
  \<open>Snapshots\<close> split those that read before they lock. An error of the commit itself means here that nothing was
  stored. A commit that was stored although its reply got lost is, for the tables, a call that was killed right after
  this transaction, which \<open>serves\<close> and the pools of calls allow at every transaction; what its caller is
  told then is not described.\<close>

definition transact :: "env \<Rightarrow> 'a action \<Rightarrow> 'a action" where
  "transact E m w =
    (if e_fault E (tick w) then (Inl (ErrDb Unavailable), tock w)
     else case m (tock (w\<lparr>aborted := False\<rparr>)) of
       (Inl e, w') \<Rightarrow> (Inl e, tock (w'\<lparr>tabs := tabs w, aborted := False\<rparr>))
     | (Inr x, w') \<Rightarrow>
       if aborted w' then (Inl (ErrDb TxAborted), tock (w'\<lparr>tabs := tabs w, aborted := False\<rparr>))
       else if e_fault E (tick w') then (Inl (ErrDb Unavailable), tock (w'\<lparr>tabs := tabs w\<rparr>))
       else (Inr x, tock w'))"

text \<open>A statement outside a transaction commits by itself.\<close>

definition autocommit :: "'a action \<Rightarrow> 'a action" where
  "autocommit m w = (case m (w\<lparr>aborted := False\<rparr>) of (r, w') \<Rightarrow> (r, w'\<lparr>aborted := False\<rparr>))"

section \<open>Reasoning about actions\<close>

text \<open>\<open>wp m Q R w\<close>: run from \<open>w\<close>, the action ends in a result satisfying \<open>Q\<close> or an error
  satisfying \<open>R\<close>. Actions always end, so this is total correctness.\<close>

definition wp :: "'a action \<Rightarrow> ('a \<Rightarrow> world \<Rightarrow> bool) \<Rightarrow> (serr \<Rightarrow> world \<Rightarrow> bool) \<Rightarrow> world \<Rightarrow> bool" where
  "wp m Q R w = (case m w of (Inl e, w') \<Rightarrow> R e w' | (Inr x, w') \<Rightarrow> Q x w')"

lemma tock_simps [simp]:
  "tabs (tock w) = tabs w" "aborted (tock w) = aborted w" "tick (tock w) = Suc (tick w)"
  by (simp_all add: tock_def)

lemma wp_ret [ok_simps]: "wp (ret x) Q R w = Q x w"
  by (simp add: wp_def ret_def)

lemma wp_fail [ok_simps]: "wp (fail e) Q R w = R e w"
  by (simp add: wp_def fail_def)

lemma wp_bind [ok_simps]: "wp (bind m f) Q R w = wp m (\<lambda>x. wp (f x) Q R) R w"
  by (simp add: wp_def bind_def split: prod.splits sum.splits)

lemma wp_ignore [ok_simps]: "wp (ignore m) Q R w = wp m (\<lambda>_. Q ()) (\<lambda>_. Q ()) w"
  by (simp add: wp_def ignore_def split: prod.splits sum.splits)

lemma wp_attempt [ok_simps]:
  "wp (attempt m) Q R w = wp m (\<lambda>x. Q (Inr x)) (\<lambda>e. Q (Inl e)) w"
  by (simp add: wp_def attempt_def split: prod.splits sum.splits)

lemma wp_lift_domain [ok_simps]:
  "wp (lift_domain r) Q R w = (case r of Inl c \<Rightarrow> R (ErrDomain c) w | Inr x \<Rightarrow> Q x w)"
  by (simp add: lift_domain_def ok_simps split: sum.splits)

lemma wp_now [ok_simps]: "wp (now E) Q R w = Q (e_clock E (tick w)) (tock w)"
  by (simp add: wp_def now_def)

lemma wp_newID [ok_simps]: "wp (newID E) Q R w = Q (e_ids E (tick w)) (tock w)"
  by (simp add: wp_def newID_def)

lemma wp_int63n [ok_simps]: "wp (int63n E n) Q R w = Q (e_rand E (tick w) mod n) (tock w)"
  by (simp add: wp_def int63n_def)

lemma wp_stmt:
  "wp (stmt E f) Q R w =
    (if aborted w then R (ErrDb TxAborted) (tock w)
     else if e_fault E (tick w) then R (ErrDb Unavailable) (tock (w\<lparr>aborted := True\<rparr>))
     else case f (tabs w) of
       Inl e \<Rightarrow> R (ErrDb e) (tock (w\<lparr>aborted := True\<rparr>))
     | Inr (x, T) \<Rightarrow> Q x (tock (w\<lparr>tabs := T\<rparr>)))"
  by (simp add: wp_def stmt_def split: prod.splits sum.splits)

lemma wp_mono:
  assumes "wp m Q R w" "\<And>x w'. Q x w' \<Longrightarrow> Q' x w'" "\<And>e w'. R e w' \<Longrightarrow> R' e w'"
  shows "wp m Q' R' w"
  using assms by (auto simp: wp_def split: prod.splits sum.splits)

lemma wpI:
  assumes "\<And>x w'. m w = (Inr x, w') \<Longrightarrow> Q x w'" "\<And>e w'. m w = (Inl e, w') \<Longrightarrow> R e w'"
  shows "wp m Q R w"
  using assms by (auto simp: wp_def split: prod.splits sum.splits)

lemma wp_InrD: "wp m Q R w \<Longrightarrow> m w = (Inr x, w') \<Longrightarrow> Q x w'"
  by (simp add: wp_def)

lemma wp_InlD: "wp m Q R w \<Longrightarrow> m w = (Inl e, w') \<Longrightarrow> R e w'"
  by (simp add: wp_def)

section \<open>The transactional boundary\<close>

text \<open>The contract of \<^verbatim>\<open>ports.DB.Transact\<close> that the use-cases rely on: an error leaves the tables as
  they were, and a result is the result of the function with its tables committed.\<close>

locale transactional =
  fixes run :: "'a action \<Rightarrow> 'a action"
  assumes error_rolls_back: "run m w = (Inl e, w') \<Longrightarrow> tabs w' = tabs w"
    and result_commits: "run m w = (Inr x, w') \<Longrightarrow>
      \<exists>w0 w1. tabs w0 = tabs w \<and> \<not> aborted w0 \<and> m w0 = (Inr x, w1) \<and> \<not> aborted w1 \<and> tabs w' = tabs w1"
    and closed_after: "\<not> aborted w \<Longrightarrow> \<not> aborted (snd (run m w))"
begin

text \<open>A property of tables that the function establishes whenever it returns without aborting the
  transaction holds after the run, whatever happened.\<close>

lemma preserves:
  assumes "P (tabs w)"
    and "\<And>w0. tabs w0 = tabs w \<Longrightarrow> \<not> aborted w0 \<Longrightarrow>
      wp m (\<lambda>_ w1. \<not> aborted w1 \<longrightarrow> P (tabs w1)) (\<lambda>_ _. True) w0"
  shows "P (tabs (snd (run m w)))"
proof (cases "fst (run m w)")
  case (Inl e)
  then have "run m w = (Inl e, snd (run m w))" by (metis prod.collapse)
  then show ?thesis using error_rolls_back assms(1) by fastforce
next
  case (Inr x)
  then have "run m w = (Inr x, snd (run m w))" by (metis prod.collapse)
  from result_commits [OF this] obtain w0 w1 where "tabs w0 = tabs w" "\<not> aborted w0"
    "m w0 = (Inr x, w1)" "\<not> aborted w1" "tabs (snd (run m w)) = tabs w1" by blast
  with assms(2) [of w0] show ?thesis by (auto dest: wp_InrD)
qed

lemma commit_post:
  assumes "run m w = (Inr x, w')"
    and "\<And>w0. tabs w0 = tabs w \<Longrightarrow> \<not> aborted w0 \<Longrightarrow>
      wp m (\<lambda>x w1. \<not> aborted w1 \<longrightarrow> Q x (tabs w1)) (\<lambda>_ _. True) w0"
  shows "Q x (tabs w')"
proof -
  obtain w0 w1 where w: "tabs w0 = tabs w" "\<not> aborted w0" "m w0 = (Inr x, w1)" "\<not> aborted w1"
    "tabs w' = tabs w1" using result_commits [OF assms(1)] by blast
  from wp_InrD [OF assms(2) [OF w(1,2)] w(3)] w(4,5) show ?thesis by simp
qed

end

lemma transact_InrD:
  assumes "transact E m w = (Inr x, w')"
  shows "\<exists>w1. m (tock (w\<lparr>aborted := False\<rparr>)) = (Inr x, w1) \<and> \<not> aborted w1 \<and> w' = tock w1"
  using assms by (auto simp: transact_def split: if_splits prod.splits sum.splits)

interpretation store_tx: transactional "transact E" for E
proof
  show "tabs w' = tabs w" if "transact E m w = (Inl e, w')" for m :: "'a action" and w e w'
    using that by (auto simp: transact_def split: if_splits prod.splits sum.splits)
  show "\<exists>w0 w1. tabs w0 = tabs w \<and> \<not> aborted w0 \<and> m w0 = (Inr x, w1) \<and> \<not> aborted w1 \<and>
      tabs w' = tabs w1"
    if run: "transact E m w = (Inr x, w')" for m :: "'a action" and w x w'
  proof -
    obtain w1 where "m (tock (w\<lparr>aborted := False\<rparr>)) = (Inr x, w1)" "\<not> aborted w1" "w' = tock w1"
      using transact_InrD [OF run] by blast
    moreover have "tabs (tock (w\<lparr>aborted := False\<rparr>)) = tabs w"
      "\<not> aborted (tock (w\<lparr>aborted := False\<rparr>))" by simp_all
    ultimately show ?thesis by (metis tock_simps(1))
  qed
  show "\<not> aborted (snd (transact E m w))" if "\<not> aborted w" for m :: "'a action" and w
    using that by (auto simp: transact_def split: prod.splits sum.splits)
qed

end
