(* ===== verification/Tables.thy ===== *)
theory Tables
  imports Prelude
begin

text \<open>
  Tables as lists of rows with a key. The interface \<open>row_store\<close> states what the repositories need
  from a table: lookup by key, insertion refused on a taken key, and an update of the row with a
  key that touches no other row. The list implementation is shown to provide it for every key
  function; the store interprets it at each of its tables.
\<close>

section \<open>The interface\<close>

locale row_store =
  fixes key :: "'row \<Rightarrow> 'k"
    and lookup :: "'k \<Rightarrow> 't \<Rightarrow> 'row option"
    and add :: "'row \<Rightarrow> 't \<Rightarrow> 't option"
    and modify :: "'k \<Rightarrow> ('row \<Rightarrow> 'row) \<Rightarrow> 't \<Rightarrow> 't"
    and rows :: "'t \<Rightarrow> 'row set"
    and inv :: "'t \<Rightarrow> bool"
  assumes add_None_iff: "add r t = None \<longleftrightarrow> lookup (key r) t \<noteq> None"
    and lookup_add: "add r t = Some t' \<Longrightarrow> lookup k t' = (if k = key r then Some r else lookup k t)"
    and rows_add: "add r t = Some t' \<Longrightarrow> rows t' = insert r (rows t)"
    and inv_add: "inv t \<Longrightarrow> add r t = Some t' \<Longrightarrow> inv t'"
    and lookup_modify: "(\<And>r. key (f r) = key r) \<Longrightarrow>
      lookup k' (modify k f t) = (if k' = k then map_option f (lookup k t) else lookup k' t)"
    and inv_modify: "(\<And>r. key (f r) = key r) \<Longrightarrow> inv t \<Longrightarrow> inv (modify k f t)"
    and lookup_iff_rows: "inv t \<Longrightarrow> lookup k t = Some r \<longleftrightarrow> r \<in> rows t \<and> key r = k"
begin

lemma lookup_key: "inv t \<Longrightarrow> r \<in> rows t \<Longrightarrow> lookup (key r) t = Some r"
  by (simp add: lookup_iff_rows)

lemma rows_unique: "inv t \<Longrightarrow> r \<in> rows t \<Longrightarrow> s \<in> rows t \<Longrightarrow> key r = key s \<Longrightarrow> r = s"
  by (metis lookup_key option.inject)

lemma add_fresh: "add r t = Some t' \<Longrightarrow> lookup (key r) t = None"
  using add_None_iff [of r t] by auto

lemma add_other: "add r t = Some t' \<Longrightarrow> lookup k t = Some s \<Longrightarrow> lookup k t' = Some s"
  using add_fresh lookup_add by force

lemma add_again: "add r t = Some t' \<Longrightarrow> key s = key r \<Longrightarrow> add s t' = None"
  by (simp add: add_None_iff lookup_add)

lemma rows_modify:
  assumes "\<And>r. key (f r) = key r" "inv t"
  shows "rows (modify k f t) = (\<lambda>r. if key r = k then f r else r) ` rows t" (is "?L = ?R")
proof -
  have L: "r \<in> ?L \<longleftrightarrow> lookup (key r) (modify k f t) = Some r" for r
    using inv_modify [OF assms] by (simp add: lookup_iff_rows)
  have "r \<in> ?L \<longleftrightarrow> r \<in> ?R" for r
  proof
    assume "r \<in> ?L"
    with L [of r] assms show "r \<in> ?R"
      by (auto simp: lookup_modify lookup_iff_rows image_iff split: if_splits)
  next
    assume "r \<in> ?R"
    then obtain s where s: "s \<in> rows t" "r = (if key s = k then f s else s)" by blast
    with assms have "lookup (key s) t = Some s" "key r = key s" by (auto simp: lookup_key)
    with s L [of r] assms show "r \<in> ?L" by (auto simp: lookup_modify)
  qed
  then show ?thesis by blast
qed

end

section \<open>Lists of rows\<close>

definition tbl_find :: "('row \<Rightarrow> 'k) \<Rightarrow> 'k \<Rightarrow> 'row list \<Rightarrow> 'row option" where
  "tbl_find key k rows = find (\<lambda>r. key r = k) rows"

definition tbl_add :: "('row \<Rightarrow> 'k) \<Rightarrow> 'row \<Rightarrow> 'row list \<Rightarrow> 'row list option" where
  "tbl_add key r rows = (if tbl_find key (key r) rows = None then Some (rows @ [r]) else None)"

definition tbl_modify :: "('row \<Rightarrow> 'k) \<Rightarrow> 'k \<Rightarrow> ('row \<Rightarrow> 'row) \<Rightarrow> 'row list \<Rightarrow> 'row list" where
  "tbl_modify key k f rows = map (\<lambda>r. if key r = k then f r else r) rows"

definition tbl_inv :: "('row \<Rightarrow> 'k) \<Rightarrow> 'row list \<Rightarrow> bool" where
  "tbl_inv key rows \<longleftrightarrow> distinct (map key rows)"

lemma tbl_find_simps [simp]:
  "tbl_find key k [] = None"
  "tbl_find key k (r # rs) = (if key r = k then Some r else tbl_find key k rs)"
  by (simp_all add: tbl_find_def)

lemma tbl_find_append:
  "tbl_find key k (rs @ ss) = (case tbl_find key k rs of None \<Rightarrow> tbl_find key k ss | Some r \<Rightarrow> Some r)"
  by (induction rs) auto

lemma tbl_find_SomeD: "tbl_find key k rows = Some r \<Longrightarrow> r \<in> set rows \<and> key r = k"
  by (induction rows) (auto split: if_splits)

lemma tbl_find_None_iff: "tbl_find key k rows = None \<longleftrightarrow> k \<notin> key ` set rows"
  by (induction rows) auto

lemma tbl_find_None_all: "tbl_find key k rows = None \<longleftrightarrow> (\<forall>r \<in> set rows. key r \<noteq> k)"
  by (induction rows) auto

lemma tbl_find_iff:
  "tbl_inv key rows \<Longrightarrow> tbl_find key k rows = Some r \<longleftrightarrow> r \<in> set rows \<and> key r = k"
  by (induction rows) (auto simp: tbl_inv_def)

lemma tbl_modify_simps [simp]:
  "tbl_modify key k f [] = []"
  "tbl_modify key k f (r # rs) = (if key r = k then f r else r) # tbl_modify key k f rs"
  by (simp_all add: tbl_modify_def)

lemma map_key_modify: "(\<And>r. key (f r) = key r) \<Longrightarrow> map key (tbl_modify key k f rows) = map key rows"
  by (induction rows) auto

lemma tbl_find_modify:
  "(\<And>r. key (f r) = key r) \<Longrightarrow> tbl_find key k' (tbl_modify key k f rows) =
    (if k' = k then map_option f (tbl_find key k rows) else tbl_find key k' rows)"
  by (induction rows) auto

lemma tbl_row_store:
  "row_store key (tbl_find key) (tbl_add key) (tbl_modify key) set (tbl_inv key)"
proof
  show "tbl_add key r t = None \<longleftrightarrow> tbl_find key (key r) t \<noteq> None" for r t
    by (simp add: tbl_add_def)
  show "tbl_find key k t' = (if k = key r then Some r else tbl_find key k t)"
    if "tbl_add key r t = Some t'" for r t t' k
    using that by (auto simp: tbl_add_def tbl_find_append split: if_splits option.splits)
  show "set t' = insert r (set t)" if "tbl_add key r t = Some t'" for r t t'
    using that by (auto simp: tbl_add_def split: if_splits)
  show "tbl_inv key t'" if "tbl_inv key t" "tbl_add key r t = Some t'" for r t t'
    using that by (auto simp: tbl_add_def tbl_inv_def tbl_find_None_iff split: if_splits)
  show "tbl_find key k' (tbl_modify key k f t) =
      (if k' = k then map_option f (tbl_find key k t) else tbl_find key k' t)"
    if "\<And>r. key (f r) = key r" for f k' k t
    using that by (rule tbl_find_modify)
  show "tbl_inv key (tbl_modify key k f t)" if "\<And>r. key (f r) = key r" "tbl_inv key t" for f k t
    using that by (simp add: tbl_inv_def map_key_modify)
  show "tbl_find key k t = Some r \<longleftrightarrow> r \<in> set t \<and> key r = k" if "tbl_inv key t" for t k r
    using that by (rule tbl_find_iff)
qed

end
