(* ===== verification/Store.thy ===== *)
theory Store
  imports Actions Tables
begin

text \<open>
  The repositories of \<^verbatim>\<open>internal/adapters/postgres\<close> over the schema of \<^verbatim>\<open>migrations/*.sql\<close>. Each
  SQL statement is a function on the tables (\<open>sql_...\<close>): the \<^verbatim>\<open>WHERE\<close>, \<^verbatim>\<open>ORDER BY\<close> and \<^verbatim>\<open>LIMIT\<close> of
  the repository's query, and for writes the schema's CHECK, UNIQUE and FOREIGN KEY constraints.
  The repository methods run one statement each and map its errors as the Go code does
  (\<^verbatim>\<open>ErrRecordNotFound\<close> and malformed ids read as absent). A transaction is isolated: its
  statements see its own writes only. Text bound to a \<^verbatim>\<open>uuid\<close> column goes through \<open>e_uuid\<close>.
\<close>

section \<open>Identifiers\<close>

definition uuid_in :: "env \<Rightarrow> string \<Rightarrow> db_error + string" where
  "uuid_in E s = (case e_uuid E s of None \<Rightarrow> Inl InvalidText | Some u \<Rightarrow> Inr u)"

definition uuid_opt_in :: "env \<Rightarrow> string option \<Rightarrow> db_error + string option" where
  "uuid_opt_in E p = (case p of None \<Rightarrow> Inr None | Some s \<Rightarrow> rbind (uuid_in E s) (\<lambda>u. Inr (Some u)))"

text \<open>\<^verbatim>\<open>isInvalidInput\<close> and \<^verbatim>\<open>isUniqueViolation\<close> recognise the SQLSTATE of the wrapped error.\<close>

definition isInvalidInput :: "serr \<Rightarrow> bool" where
  "isInvalidInput e \<longleftrightarrow> e = ErrDb InvalidText"

definition isUniqueViolation :: "serr \<Rightarrow> bool" where
  "isUniqueViolation e \<longleftrightarrow> e = ErrDb UniqueViolation"

text \<open>Reads that treat a malformed id as absent.\<close>

definition absent_if_invalid :: "'a option action \<Rightarrow> 'a option action" where
  "absent_if_invalid m = bind (attempt m) (\<lambda>r. case r of
     Inl e \<Rightarrow> if isInvalidInput e then ret None else fail e
   | Inr x \<Rightarrow> ret x)"

section \<open>Wallets\<close>

definition sql_find_wallet :: "env \<Rightarrow> string \<Rightarrow> tables \<Rightarrow> db_error + wallet_row option \<times> tables" where
  "sql_find_wallet E wid T = rbind (uuid_in E wid) (\<lambda>u. Inr (tbl_find wr_id u (wallets T), T))"

definition sql_insert_wallet :: "env \<Rightarrow> wallet_row \<Rightarrow> tables \<Rightarrow> db_error + unit \<times> tables" where
  "sql_insert_wallet E r T =
    rbind (uuid_in E (wr_id r)) (\<lambda>u. rbind (uuid_in E (wr_player r)) (\<lambda>p.
      let r = r\<lparr>wr_id := u, wr_player := p\<rparr> in
      if \<not> (0 \<le> sint (wr_balance r) \<and> 1 \<le> sint (wr_version r)) then Inl CheckViolation
      else if \<exists>q \<in> set (wallets T). wr_player q = wr_player r \<and> wr_currency q = wr_currency r
      then Inl UniqueViolation
      else case tbl_add wr_id r (wallets T) of
        None \<Rightarrow> Inl UniqueViolation
      | Some ws \<Rightarrow> Inr ((), T\<lparr>wallets := ws\<rparr>)))"

definition sql_update_balance :: "env \<Rightarrow> string \<Rightarrow> i64 \<Rightarrow> i64 \<Rightarrow> tables \<Rightarrow> db_error + unit \<times> tables" where
  "sql_update_balance E wid balance version T = rbind (uuid_in E wid) (\<lambda>u.
    if tbl_find wr_id u (wallets T) \<noteq> None \<and> \<not> (0 \<le> sint balance \<and> 1 \<le> sint version)
    then Inl CheckViolation
    else Inr ((), T\<lparr>wallets := tbl_modify wr_id u
      (\<lambda>r. r\<lparr>wr_balance := balance, wr_version := version\<rparr>) (wallets T)\<rparr>))"

definition LockForUpdate :: "env \<Rightarrow> string \<Rightarrow> wallet_row option action" where
  "LockForUpdate E wid = absent_if_invalid (stmt E (sql_find_wallet E wid))"

definition wallet_Get :: "env \<Rightarrow> string \<Rightarrow> wallet_row option action" where
  "wallet_Get E wid = absent_if_invalid (stmt E (sql_find_wallet E wid))"

definition wallet_Insert :: "env \<Rightarrow> wallet_row \<Rightarrow> unit action" where
  "wallet_Insert E r = stmt E (sql_insert_wallet E r)"

definition UpdateBalance :: "env \<Rightarrow> string \<Rightarrow> i64 \<Rightarrow> i64 \<Rightarrow> unit action" where
  "UpdateBalance E wid balance version = stmt E (sql_update_balance E wid balance version)"

section \<open>Wager transactions\<close>

text \<open>The CHECK \<^verbatim>\<open>tx_origin_fields\<close> and \<^verbatim>\<open>tx_kind\<close>.\<close>

definition tx_checks :: "tx_row \<Rightarrow> bool" where
  "tx_checks r \<longleftrightarrow> (case t_kind r of KindUnknown _ \<Rightarrow> False | _ \<Rightarrow> True) \<and>
    (case t_origin r of
       INTERNAL \<Rightarrow> t_provider r = None \<and> t_external r = None \<and> t_key r = None \<and> t_hash r = None \<and>
         t_round r = None \<and> t_game r = None \<and> t_ref_external r = None \<and> t_kind r = KindOpening
     | EXTERNAL \<Rightarrow> t_provider r \<noteq> None \<and> t_external r \<noteq> None \<and> t_key r \<noteq> None \<and> t_hash r \<noteq> None \<and>
         t_round r \<noteq> None \<and> t_game r \<noteq> None \<and> t_kind r \<noteq> KindOpening)"

text \<open>The three unique indexes besides the primary key.\<close>

definition tx_clash :: "tx_row \<Rightarrow> tx_row \<Rightarrow> bool" where
  "tx_clash r q \<longleftrightarrow> t_origin q = t_origin r \<and>
    (case t_origin r of
       EXTERNAL \<Rightarrow> t_provider q = t_provider r \<and> (t_key q = t_key r \<or> t_external q = t_external r)
     | INTERNAL \<Rightarrow> t_wallet q = t_wallet r)"

definition tx_ref_ok :: "string option \<Rightarrow> tables \<Rightarrow> bool" where
  "tx_ref_ok p T = (case p of None \<Rightarrow> True | Some i \<Rightarrow> tbl_find t_id i (txs T) \<noteq> None)"

definition sql_insert_tx :: "env \<Rightarrow> tx_row \<Rightarrow> tables \<Rightarrow> db_error + unit \<times> tables" where
  "sql_insert_tx E r T =
    rbind (uuid_in E (t_id r)) (\<lambda>i. rbind (uuid_in E (t_wallet r)) (\<lambda>wid.
    rbind (uuid_in E (t_player r)) (\<lambda>p. rbind (uuid_opt_in E (t_ref_tx r)) (\<lambda>ref.
    rbind (uuid_opt_in E (t_reversed_tx r)) (\<lambda>rev.
      let r = r\<lparr>t_id := i, t_wallet := wid, t_player := p, t_ref_tx := ref, t_reversed_tx := rev\<rparr> in
      if \<not> tx_checks r then Inl CheckViolation
      else if \<exists>q \<in> set (txs T). tx_clash r q then Inl UniqueViolation
      else case tbl_add t_id r (txs T) of
        None \<Rightarrow> Inl UniqueViolation
      | Some ts \<Rightarrow>
        let T' = T\<lparr>txs := ts\<rparr> in
        if tbl_find wr_id wid (wallets T) = None \<or> \<not> tx_ref_ok ref T' \<or> \<not> tx_ref_ok rev T'
        then Inl ForeignKeyViolation else Inr ((), T'))))))"

definition sql_find_tx :: "env \<Rightarrow> string \<Rightarrow> tables \<Rightarrow> db_error + tx_row option \<times> tables" where
  "sql_find_tx E i T = rbind (uuid_in E i) (\<lambda>u. Inr (tbl_find t_id u (txs T), T))"

definition find_by_key :: "string \<Rightarrow> string \<Rightarrow> tx_row list \<Rightarrow> tx_row option" where
  "find_by_key provider key rows = find (\<lambda>r. t_provider r = Some provider \<and> t_key r = Some key) rows"

definition find_by_external :: "string \<Rightarrow> string \<Rightarrow> tx_row list \<Rightarrow> tx_row option" where
  "find_by_external provider ext rows =
    find (\<lambda>r. t_provider r = Some provider \<and> t_external r = Some ext) rows"

definition dependents :: "string \<Rightarrow> string \<Rightarrow> tx_row list \<Rightarrow> tx_row list" where
  "dependents provider refext rows =
    filter (\<lambda>r. t_provider r = Some provider \<and> t_ref_external r = Some refext) rows"

definition sql_update_state :: "env \<Rightarrow> tx_row \<Rightarrow> tables \<Rightarrow> db_error + unit \<times> tables" where
  "sql_update_state E r T = rbind (uuid_in E (t_id r)) (\<lambda>i. rbind (uuid_opt_in E (t_ref_tx r)) (\<lambda>ref.
    if tbl_find t_id i (txs T) \<noteq> None \<and> \<not> tx_ref_ok ref T then Inl ForeignKeyViolation
    else Inr ((), T\<lparr>txs := tbl_modify t_id i (\<lambda>q. q\<lparr>t_state := t_state r, t_failure := t_failure r,
      t_result := t_result r, t_result_currency := t_result_currency r, t_ref_tx := ref,
      t_version := t_version r\<rparr>) (txs T)\<rparr>)))"

definition sql_mark_reversed ::
    "env \<Rightarrow> string \<Rightarrow> string \<Rightarrow> string \<Rightarrow> tables \<Rightarrow> db_error + unit \<times> tables" where
  "sql_mark_reversed E tgt byKind byTx T = rbind (uuid_in E tgt) (\<lambda>i. rbind (uuid_in E byTx) (\<lambda>b.
    if tbl_find t_id i (txs T) \<noteq> None \<and> tbl_find t_id b (txs T) = None then Inl ForeignKeyViolation
    else Inr ((), T\<lparr>txs := tbl_modify t_id i
      (\<lambda>q. q\<lparr>t_reversed_kind := Some byKind, t_reversed_tx := Some b\<rparr>) (txs T)\<rparr>)))"

definition sql_clear_reversal :: "env \<Rightarrow> string \<Rightarrow> tables \<Rightarrow> db_error + unit \<times> tables" where
  "sql_clear_reversal E tgt T = rbind (uuid_in E tgt) (\<lambda>i.
    Inr ((), T\<lparr>txs := tbl_modify t_id i
      (\<lambda>q. q\<lparr>t_reversed_kind := None, t_reversed_tx := None\<rparr>) (txs T)\<rparr>))"

definition active_win :: "string \<Rightarrow> tx_row \<Rightarrow> bool" where
  "active_win bet r \<longleftrightarrow> t_ref_tx r = Some bet \<and> t_kind r = KindWin \<and> t_state r = StateProcessed \<and>
     t_reversed_tx r = None"

definition sql_has_active_win :: "env \<Rightarrow> string \<Rightarrow> tables \<Rightarrow> db_error + bool \<times> tables" where
  "sql_has_active_win E bet T = rbind (uuid_in E bet) (\<lambda>i.
    Inr (length (filter (active_win i) (txs T)) > 0, T))"

definition tx_Insert :: "env \<Rightarrow> tx_row \<Rightarrow> unit action" where
  "tx_Insert E r = stmt E (sql_insert_tx E r)"

definition tx_Get :: "env \<Rightarrow> string \<Rightarrow> tx_row option action" where
  "tx_Get E i = absent_if_invalid (stmt E (sql_find_tx E i))"

definition FindByProviderKey :: "env \<Rightarrow> string \<Rightarrow> string \<Rightarrow> tx_row option action" where
  "FindByProviderKey E provider key = stmt E (\<lambda>T. Inr (find_by_key provider key (txs T), T))"

definition FindByProviderExternal :: "env \<Rightarrow> string \<Rightarrow> string \<Rightarrow> tx_row option action" where
  "FindByProviderExternal E provider ext =
    stmt E (\<lambda>T. Inr (find_by_external provider ext (txs T), T))"

definition FindDependents :: "env \<Rightarrow> string \<Rightarrow> string \<Rightarrow> tx_row list action" where
  "FindDependents E provider refext = stmt E (\<lambda>T. Inr (dependents provider refext (txs T), T))"

definition UpdateState :: "env \<Rightarrow> tx_row \<Rightarrow> unit action" where
  "UpdateState E r = stmt E (sql_update_state E r)"

definition MarkReversed :: "env \<Rightarrow> string \<Rightarrow> string \<Rightarrow> string \<Rightarrow> unit action" where
  "MarkReversed E tgt byKind byTx = stmt E (sql_mark_reversed E tgt byKind byTx)"

definition ClearReversal :: "env \<Rightarrow> string \<Rightarrow> unit action" where
  "ClearReversal E tgt = stmt E (sql_clear_reversal E tgt)"

definition HasActiveWin :: "env \<Rightarrow> string \<Rightarrow> bool action" where
  "HasActiveWin E bet = stmt E (sql_has_active_win E bet)"

section \<open>Ledger\<close>

definition ledger_checks :: "ledger_row \<Rightarrow> bool" where
  "ledger_checks r \<longleftrightarrow> 0 < sint (l_amount r) \<and> 0 \<le> sint (l_before r) \<and> 0 \<le> sint (l_after r) \<and>
    (l_direction r = DirectionDebit \<or> l_direction r = DirectionCredit) \<and>
    sint (l_after r) = sint (l_before r) + signed_amount (l_direction r) (l_amount r)"

definition sql_append_ledger :: "env \<Rightarrow> ledger_row \<Rightarrow> tables \<Rightarrow> db_error + unit \<times> tables" where
  "sql_append_ledger E r T =
    rbind (uuid_in E (l_id r)) (\<lambda>i. rbind (uuid_in E (l_wallet r)) (\<lambda>wid. rbind (uuid_in E (l_tx r)) (\<lambda>t.
      let r = r\<lparr>l_id := i, l_wallet := wid, l_tx := t\<rparr> in
      if \<not> ledger_checks r then Inl CheckViolation
      else if \<exists>q \<in> set (ledger T). l_wallet q = wid \<and> l_tx q = t then Inl UniqueViolation
      else case tbl_add l_id r (ledger T) of
        None \<Rightarrow> Inl UniqueViolation
      | Some ls \<Rightarrow>
        if tbl_find wr_id wid (wallets T) = None \<or> tbl_find t_id t (txs T) = None
        then Inl ForeignKeyViolation else Inr ((), T\<lparr>ledger := ls\<rparr>))))"

definition ledger_of :: "string \<Rightarrow> ledger_row list \<Rightarrow> ledger_row list" where
  "ledger_of wid rows = filter (\<lambda>r. l_wallet r = wid) rows"

definition by_version :: "ledger_row list \<Rightarrow> ledger_row list" where
  "by_version rows = sort_key (\<lambda>r. sint (l_version r)) rows"

definition sql_page :: "env \<Rightarrow> string \<Rightarrow> i64 \<Rightarrow> nat \<Rightarrow> tables \<Rightarrow> db_error + ledger_row list \<times> tables" where
  "sql_page E wid after limit T = rbind (uuid_in E wid) (\<lambda>u.
    Inr (take limit (by_version (filter (\<lambda>r. sint (l_version r) > sint after)
      (ledger_of u (ledger T)))), T))"

definition sql_all_ordered :: "env \<Rightarrow> string \<Rightarrow> tables \<Rightarrow> db_error + ledger_row list \<times> tables" where
  "sql_all_ordered E wid T = rbind (uuid_in E wid) (\<lambda>u.
    Inr (by_version (ledger_of u (ledger T)), T))"

definition ledger_Append :: "env \<Rightarrow> ledger_row \<Rightarrow> unit action" where
  "ledger_Append E r = stmt E (sql_append_ledger E r)"

definition ledger_Page :: "env \<Rightarrow> string \<Rightarrow> i64 \<Rightarrow> nat \<Rightarrow> ledger_row list action" where
  "ledger_Page E wid after limit = stmt E (sql_page E wid after limit)"

definition AllOrdered :: "env \<Rightarrow> string \<Rightarrow> ledger_row list action" where
  "AllOrdered E wid = stmt E (sql_all_ordered E wid)"

section \<open>Inbox\<close>

type_synonym inbox_key = "string \<times> string"

definition i_id :: "inbox_row \<Rightarrow> inbox_key" where
  "i_id r = (i_consumer r, i_message r)"

definition sql_insert_inbox :: "inbox_row \<Rightarrow> tables \<Rightarrow> db_error + unit \<times> tables" where
  "sql_insert_inbox r T = (case tbl_add i_id r (inbox T) of
     None \<Rightarrow> Inl UniqueViolation
   | Some rows \<Rightarrow> Inr ((), T\<lparr>inbox := rows\<rparr>))"

definition InsertInbox :: "env \<Rightarrow> string \<Rightarrow> string \<Rightarrow> string \<Rightarrow> unit action" where
  "InsertInbox E consumer messageID hash = stmt E (sql_insert_inbox
    \<lparr>i_consumer = consumer, i_message = messageID, i_hash = hash, i_concluded = None\<rparr>)"

definition CompleteInbox :: "env \<Rightarrow> string \<Rightarrow> string \<Rightarrow> unit action" where
  "CompleteInbox E consumer messageID = bind (now E) (\<lambda>t.
    stmt E (\<lambda>T. Inr ((), T\<lparr>inbox := tbl_modify i_id (consumer, messageID)
      (\<lambda>r. r\<lparr>i_concluded := Some t\<rparr>) (inbox T)\<rparr>)))"

text \<open>The stored hash and the conclusion flag, None when the message is not there.\<close>

definition FindInbox :: "env \<Rightarrow> string \<Rightarrow> string \<Rightarrow> (string \<times> bool) option action" where
  "FindInbox E consumer messageID = stmt E (\<lambda>T.
    Inr (map_option (\<lambda>r. (i_hash r, i_concluded r \<noteq> None))
      (tbl_find i_id (consumer, messageID) (inbox T)), T))"

section \<open>Outbox\<close>

definition sql_insert_outbox :: "env \<Rightarrow> outbox_row \<Rightarrow> tables \<Rightarrow> db_error + unit \<times> tables" where
  "sql_insert_outbox E r T = rbind (uuid_in E (b_event r)) (\<lambda>e. rbind (uuid_in E (b_aggregate r)) (\<lambda>a.
    let r = r\<lparr>b_event := e, b_aggregate := a\<rparr> in
    if b_attempts r < 0 then Inl CheckViolation
    else case tbl_add b_event r (outbox T) of
      None \<Rightarrow> Inl UniqueViolation
    | Some rows \<Rightarrow> Inr ((), T\<lparr>outbox := rows\<rparr>)))"

text \<open>\<^verbatim>\<open>EnqueueOutbox\<close> stamps \<^verbatim>\<open>OccurredAt\<close> and leaves \<^verbatim>\<open>NextSendAt\<close> at Go's zero time, so the event is due
  at once.\<close>

definition EnqueueOutbox :: "env \<Rightarrow> outbox_record \<Rightarrow> unit action" where
  "EnqueueOutbox E e = bind (now E) (\<lambda>t. stmt E (sql_insert_outbox E
    \<lparr>b_event = ob_event e, b_aggregate = ob_aggregate e, b_type = ob_type e,
     b_payload = ob_payload e, b_occurred = t, b_attempts = ob_attempts e, b_next = zero_time,
     b_published = None, b_owner = None, b_lease = None\<rparr>))"

definition to_outbox_record :: "outbox_row \<Rightarrow> outbox_record" where
  "to_outbox_record r = \<lparr>ob_event = b_event r, ob_aggregate = b_aggregate r, ob_type = b_type r,
     ob_payload = b_payload r, ob_attempts = b_attempts r, ob_occurred = b_occurred r\<rparr>"

definition ListUnpublished :: "env \<Rightarrow> string \<Rightarrow> outbox_record list action" where
  "ListUnpublished E aggregate = stmt E (\<lambda>T. rbind (uuid_in E aggregate) (\<lambda>a.
    Inr (map to_outbox_record (sort_key b_occurred
      (filter (\<lambda>r. b_aggregate r = a \<and> b_published r = None) (outbox T))), T)))"

text \<open>A lease is free when it was never taken or has expired.\<close>

definition lease_free :: "time \<Rightarrow> time option \<Rightarrow> bool" where
  "lease_free t l \<longleftrightarrow> (case l of None \<Rightarrow> True | Some x \<Rightarrow> x \<le> t)"

definition outbox_due :: "time \<Rightarrow> outbox_row \<Rightarrow> bool" where
  "outbox_due t r \<longleftrightarrow> b_published r = None \<and> b_next r \<le> t \<and> lease_free t (b_lease r)"

definition due_outbox :: "time \<Rightarrow> nat \<Rightarrow> outbox_row list \<Rightarrow> outbox_row list" where
  "due_outbox t limit rows = take limit (sort_key b_next (filter (outbox_due t) rows))"

definition sql_update_outbox ::
    "env \<Rightarrow> string \<Rightarrow> (outbox_row \<Rightarrow> outbox_row) \<Rightarrow> tables \<Rightarrow> db_error + unit \<times> tables" where
  "sql_update_outbox E eventID f T = rbind (uuid_in E eventID) (\<lambda>e.
    if \<exists>r \<in> set (outbox T). b_event r = e \<and> b_attempts (f r) < 0 then Inl CheckViolation
    else Inr ((), T\<lparr>outbox := tbl_modify b_event e f (outbox T)\<rparr>))"

fun lease_outbox :: "env \<Rightarrow> string \<Rightarrow> time \<Rightarrow> outbox_row list \<Rightarrow> outbox_record list action" where
  "lease_outbox E owner expires [] = ret []"
| "lease_outbox E owner expires (r # rs) =
    bind (stmt E (sql_update_outbox E (b_event r)
      (\<lambda>q. q\<lparr>b_owner := Some owner, b_lease := Some expires\<rparr>))) (\<lambda>_.
    bind (lease_outbox E owner expires rs) (\<lambda>out. ret (to_outbox_record r # out)))"

definition ClaimOutbox :: "env \<Rightarrow> string \<Rightarrow> int \<Rightarrow> nat \<Rightarrow> outbox_record list action" where
  "ClaimOutbox E owner leaseTTL limit = bind (now E) (\<lambda>t. transact E
    (bind (stmt E (\<lambda>T. Inr (due_outbox t limit (outbox T), T))) (lease_outbox E owner (t + leaseTTL))))"

definition MarkOutboxPublished :: "env \<Rightarrow> string \<Rightarrow> unit action" where
  "MarkOutboxPublished E eventID = bind (now E) (\<lambda>t. stmt E (sql_update_outbox E eventID
    (\<lambda>r. r\<lparr>b_published := Some t, b_owner := None, b_lease := None\<rparr>)))"

definition NackOutbox :: "env \<Rightarrow> string \<Rightarrow> int \<Rightarrow> time \<Rightarrow> unit action" where
  "NackOutbox E eventID attempts nextSendAt = stmt E (sql_update_outbox E eventID
    (\<lambda>r. r\<lparr>b_attempts := attempts, b_next := nextSendAt, b_owner := None, b_lease := None\<rparr>))"

section \<open>Work items\<close>

definition work_checks :: "work_row \<Rightarrow> bool" where
  "work_checks r \<longleftrightarrow> (k_kind r = ''initial'' \<or> k_kind r = ''reference'') \<and> 0 \<le> k_ref r \<and> 0 \<le> k_infra r"

definition sql_insert_work :: "env \<Rightarrow> work_row \<Rightarrow> tables \<Rightarrow> db_error + unit \<times> tables" where
  "sql_insert_work E r T = rbind (uuid_in E (k_tx r)) (\<lambda>i.
    let r = r\<lparr>k_tx := i\<rparr> in
    if \<not> work_checks r then Inl CheckViolation
    else case tbl_add k_tx r (works T) of
      None \<Rightarrow> Inl UniqueViolation
    | Some rows \<Rightarrow>
      if tbl_find t_id i (txs T) = None then Inl ForeignKeyViolation
      else Inr ((), T\<lparr>works := rows\<rparr>))"

text \<open>The zero \<^verbatim>\<open>CreatedAt\<close> is stamped with the current time on creation (GORM's convention for a
  field of that name).\<close>

definition EnqueueWork :: "env \<Rightarrow> work_item \<Rightarrow> unit action" where
  "EnqueueWork E w = bind (now E) (\<lambda>t. stmt E (sql_insert_work E
    \<lparr>k_tx = wi_tx w, k_kind = wi_kind w, k_ref = wi_ref w, k_infra = wi_infra w, k_next = wi_next w,
     k_owner = None, k_lease = None, k_created = t\<rparr>))"

definition to_work_item :: "string \<Rightarrow> time option \<Rightarrow> work_row \<Rightarrow> work_item" where
  "to_work_item owner lease r = \<lparr>wi_tx = k_tx r, wi_kind = k_kind r, wi_ref = k_ref r,
     wi_infra = k_infra r, wi_next = k_next r, wi_owner = owner, wi_lease = lease,
     wi_created = k_created r\<rparr>"

definition GetWork :: "env \<Rightarrow> string \<Rightarrow> work_item option action" where
  "GetWork E txID = stmt E (\<lambda>T. rbind (uuid_in E txID) (\<lambda>i.
    Inr (map_option (\<lambda>r. to_work_item [] (k_lease r) r) (tbl_find k_tx i (works T)), T)))"

definition work_due :: "time \<Rightarrow> work_row \<Rightarrow> bool" where
  "work_due t r \<longleftrightarrow> k_next r \<le> t \<and> lease_free t (k_lease r)"

definition due_work :: "time \<Rightarrow> nat \<Rightarrow> work_row list \<Rightarrow> work_row list" where
  "due_work t limit rows = take limit (sort_key k_next (filter (work_due t) rows))"

definition sql_update_work ::
    "env \<Rightarrow> string \<Rightarrow> (work_row \<Rightarrow> work_row) \<Rightarrow> tables \<Rightarrow> db_error + unit \<times> tables" where
  "sql_update_work E txID f T = rbind (uuid_in E txID) (\<lambda>i.
    if \<exists>r \<in> set (works T). k_tx r = i \<and> \<not> work_checks (f r) then Inl CheckViolation
    else Inr ((), T\<lparr>works := tbl_modify k_tx i f (works T)\<rparr>))"

fun lease_work :: "env \<Rightarrow> string \<Rightarrow> time \<Rightarrow> work_row list \<Rightarrow> work_item list action" where
  "lease_work E owner expires [] = ret []"
| "lease_work E owner expires (r # rs) =
    bind (stmt E (sql_update_work E (k_tx r)
      (\<lambda>q. q\<lparr>k_owner := Some owner, k_lease := Some expires\<rparr>))) (\<lambda>_.
    bind (lease_work E owner expires rs) (\<lambda>out. ret (to_work_item owner (Some expires) r # out)))"

definition ClaimWork :: "env \<Rightarrow> string \<Rightarrow> int \<Rightarrow> nat \<Rightarrow> work_item list action" where
  "ClaimWork E owner leaseTTL limit = bind (now E) (\<lambda>t. transact E
    (bind (stmt E (\<lambda>T. Inr (due_work t limit (works T), T))) (lease_work E owner (t + leaseTTL))))"

definition TouchWork :: "env \<Rightarrow> string \<Rightarrow> int \<Rightarrow> int \<Rightarrow> time \<Rightarrow> bool \<Rightarrow> unit action" where
  "TouchWork E txID refAttempts infraAttempts nextAttemptAt clearLease =
    stmt E (sql_update_work E txID (\<lambda>r.
      let r' = r\<lparr>k_ref := refAttempts, k_infra := infraAttempts, k_next := nextAttemptAt\<rparr> in
      if clearLease then r'\<lparr>k_owner := None, k_lease := None\<rparr> else r'))"

definition DeleteWork :: "env \<Rightarrow> string \<Rightarrow> unit action" where
  "DeleteWork E txID = stmt E (\<lambda>T. rbind (uuid_in E txID) (\<lambda>i.
    Inr ((), T\<lparr>works := filter (\<lambda>r. k_tx r \<noteq> i) (works T)\<rparr>)))"

section \<open>The tables provide the row store interface\<close>

interpretation wallets: row_store wr_id "tbl_find wr_id" "tbl_add wr_id" "tbl_modify wr_id" set "tbl_inv wr_id"
  by (rule tbl_row_store)

interpretation txs: row_store t_id "tbl_find t_id" "tbl_add t_id" "tbl_modify t_id" set "tbl_inv t_id"
  by (rule tbl_row_store)

interpretation ledger: row_store l_id "tbl_find l_id" "tbl_add l_id" "tbl_modify l_id" set "tbl_inv l_id"
  by (rule tbl_row_store)

interpretation inbox: row_store i_id "tbl_find i_id" "tbl_add i_id" "tbl_modify i_id" set "tbl_inv i_id"
  by (rule tbl_row_store)

interpretation outbox: row_store b_event "tbl_find b_event" "tbl_add b_event" "tbl_modify b_event" set
    "tbl_inv b_event"
  by (rule tbl_row_store)

interpretation works: row_store k_tx "tbl_find k_tx" "tbl_add k_tx" "tbl_modify k_tx" set "tbl_inv k_tx"
  by (rule tbl_row_store)

end
