(* ===== verification/Json.thy ===== *)
theory Json
  imports Prelude "HOL-Library.List_Lexorder" "HOL-Library.Char_ord"
begin

text \<open>
  JSON text as Go's \<^verbatim>\<open>encoding/json\<close> writes it: strings are byte strings, escaped byte by byte below
  128 and rune by rune above (an ill-formed UTF-8 byte becomes \<^verbatim>\<open>\ufffd\<close>, the two line separators
  are escaped), with \<^verbatim>\<open><\<close>, \<^verbatim>\<open>>\<close> and \<^verbatim>\<open>&\<close> escaped only when HTML escaping is on. The keys of a
  map are written in byte order without white space. \<open>unquote\<close> reads a string back.
\<close>

section \<open>UTF-8\<close>

definition cc :: "char \<Rightarrow> nat" where
  "cc c = of_char c"

definition in_range :: "nat \<Rightarrow> nat \<Rightarrow> char \<Rightarrow> bool" where
  "in_range lo hi c \<longleftrightarrow> lo \<le> cc c \<and> cc c \<le> hi"

text \<open>\<open>k\<close> continuation bytes, the first of them in a range of its own.\<close>

definition tail_ok :: "nat \<Rightarrow> nat \<Rightarrow> nat \<Rightarrow> string \<Rightarrow> bool" where
  "tail_ok lo hi k s \<longleftrightarrow> k \<le> length s \<and> list_all (in_range lo hi) (take 1 s) \<and>
     list_all (in_range 128 191) (take (k - 1) (drop 1 s))"

text \<open>The length of the well-formed sequence that the bytes start with, 0 when there is none
  (\<^verbatim>\<open>utf8.DecodeRuneInString\<close> returning \<^verbatim>\<open>RuneError\<close> of width 1).\<close>

fun utf8_width :: "string \<Rightarrow> nat" where
  "utf8_width [] = 0"
| "utf8_width (c # s) = (let n = cc c in
     if n < 128 then 1
     else if 194 \<le> n \<and> n \<le> 223 then (if tail_ok 128 191 1 s then 2 else 0)
     else if n = 224 then (if tail_ok 160 191 2 s then 3 else 0)
     else if n = 237 then (if tail_ok 128 159 2 s then 3 else 0)
     else if 225 \<le> n \<and> n \<le> 239 then (if tail_ok 128 191 2 s then 3 else 0)
     else if n = 240 then (if tail_ok 144 191 3 s then 4 else 0)
     else if n = 244 then (if tail_ok 128 143 3 s then 4 else 0)
     else if 241 \<le> n \<and> n \<le> 243 then (if tail_ok 128 191 3 s then 4 else 0)
     else 0)"

function valid_utf8 :: "string \<Rightarrow> bool" where
  "valid_utf8 [] \<longleftrightarrow> True"
| "valid_utf8 (c # s) \<longleftrightarrow> utf8_width (c # s) \<noteq> 0 \<and> valid_utf8 (drop (utf8_width (c # s) - 1) s)"
  by pat_completeness auto
termination by (relation "measure length") simp_all

section \<open>String escapes\<close>

definition line_sep :: "nat \<Rightarrow> string" where
  "line_sep n = [char_of (226 :: nat), char_of (128 :: nat), char_of n]"

definition hex_low :: "nat \<Rightarrow> char" where
  "hex_low n = ''0123456789abcdef'' ! n"

definition esc_ascii :: "bool \<Rightarrow> char \<Rightarrow> string" where
  "esc_ascii html c = (let n = cc c in
     if n = 34 \<or> n = 92 then [CHR 0x5C, c]
     else if n = 8 then [CHR 0x5C, CHR ''b'']
     else if n = 12 then [CHR 0x5C, CHR ''f'']
     else if n = 10 then [CHR 0x5C, CHR ''n'']
     else if n = 13 then [CHR 0x5C, CHR ''r'']
     else if n = 9 then [CHR 0x5C, CHR ''t'']
     else if n < 32 \<or> (html \<and> (n = 60 \<or> n = 62 \<or> n = 38))
     then [CHR 0x5C, CHR ''u'', CHR ''0'', CHR ''0'', hex_low (n div 16), hex_low (n mod 16)]
     else [c])"

definition esc_rune :: "string \<Rightarrow> string" where
  "esc_rune r = (if r = line_sep 168 then CHR 0x5C # ''u2028''
     else if r = line_sep 169 then CHR 0x5C # ''u2029'' else r)"

function json_esc :: "bool \<Rightarrow> string \<Rightarrow> string" where
  "json_esc html [] = []"
| "json_esc html (c # s) =
    (if cc c < 128 then esc_ascii html c @ json_esc html s
     else let k = utf8_width (c # s) in
       if k = 0 then (CHR 0x5C # ''ufffd'') @ json_esc html s
       else esc_rune (take k (c # s)) @ json_esc html (drop (k - 1) s))"
  by pat_completeness auto
termination by (relation "measure (length o snd)") simp_all

definition json_quote :: "bool \<Rightarrow> string \<Rightarrow> string" where
  "json_quote html s = CHR 0x22 # json_esc html s @ [CHR 0x22]"

section \<open>Values\<close>

datatype json = JStr string | JInt int | JObj "(string \<times> json) list"

definition commas :: "string list \<Rightarrow> string" where
  "commas xs = (case xs of [] \<Rightarrow> [] | x # ys \<Rightarrow> x @ concat (map (\<lambda>y. CHR '','' # y) ys))"

definition member_text :: "string \<Rightarrow> string \<Rightarrow> string" where
  "member_text k v = k @ [CHR '':''] @ v"

text \<open>\<^verbatim>\<open>json.Marshal\<close>: HTML escaping on, the members of a map in key order.\<close>

fun json_Marshal :: "json \<Rightarrow> string" where
  "json_Marshal (JStr s) = json_quote True s"
| "json_Marshal (JInt i) = show_int i"
| "json_Marshal (JObj kvs) = [CHR ''{''] @ commas (map (\<lambda>(k, v). member_text (json_quote True k) v)
     (sort_key fst (map (\<lambda>(k, v). (k, json_Marshal v)) kvs))) @ [CHR ''}'']"

section \<open>Reading a string back\<close>

definition hex_val :: "char \<Rightarrow> nat" where
  "hex_val c = (if cc c < 58 then cc c - 48 else cc c - 87)"

definition unesc_unicode :: "string \<Rightarrow> string" where
  "unesc_unicode h = (if h = ''2028'' then line_sep 168
     else if h = ''2029'' then line_sep 169
     else if h = ''fffd'' then [char_of (239 :: nat), char_of (191 :: nat), char_of (189 :: nat)]
     else [char_of (16 * hex_val (h ! 2) + hex_val (h ! 3))])"

definition unesc_char :: "char \<Rightarrow> char" where
  "unesc_char e = (if e = CHR ''b'' then CHR 0x08 else if e = CHR ''f'' then CHR 0x0C
     else if e = CHR ''n'' then CHR 0x0A else if e = CHR ''r'' then CHR 0x0D
     else if e = CHR ''t'' then CHR 0x09 else e)"

text \<open>The contents up to the closing quote, and the text after it.\<close>

function unquote :: "string \<Rightarrow> string \<times> string" where
  "unquote [] = ([], [])"
| "unquote (c # s) =
    (if c = CHR 0x22 then ([], s)
     else if c = CHR 0x5C then
       (if take 1 s = ''u'' then apfst (append (unesc_unicode (take 4 (drop 1 s)))) (unquote (drop 5 s))
        else apfst (append (map unesc_char (take 1 s))) (unquote (drop 1 s)))
     else apfst (Cons c) (unquote s))"
  by pat_completeness auto
termination by (relation "measure length") simp_all

lemma cc_char_of [simp]: "n < 256 \<Longrightarrow> cc (char_of n) = n"
  by (simp add: cc_def of_char_of)

lemma char_of_cc [simp]: "char_of (cc c) = c"
  by (simp add: cc_def char_of_char)

lemma cc_less [simp]: "cc c < 256"
  using mod_less_divisor [of 256 "cc c"] by (simp add: cc_def)

lemma cc_eq_iff: "cc c = cc d \<longleftrightarrow> c = d"
  by (simp add: cc_def)

lemma hex_val_low: "n < 16 \<Longrightarrow> hex_val (hex_low n) = n"
proof -
  assume "n < 16"
  then have "n \<in> set [0..<16]" by simp
  moreover have "\<forall>n \<in> set [0..<16]. hex_val (hex_low n) = n"
    by (simp add: upt_conv_Cons hex_val_def hex_low_def cc_def)
  ultimately show ?thesis by blast
qed

lemma char_by_code: "cc c = n \<Longrightarrow> n < 256 \<Longrightarrow> c = char_of n"
  by auto

lemma unquote_ascii:
  assumes "cc c < 128"
  shows "unquote (esc_ascii html c @ r) = apfst (Cons c) (unquote r)"
proof -
  consider "cc c \<in> {34, 92, 8, 12, 10, 13, 9}" |
    "cc c \<notin> {34, 92, 8, 12, 10, 13, 9}" "cc c < 32 \<or> (html \<and> (cc c = 60 \<or> cc c = 62 \<or> cc c = 38))" |
    "cc c \<notin> {34, 92, 8, 12, 10, 13, 9}" "\<not> (cc c < 32 \<or> (html \<and> (cc c = 60 \<or> cc c = 62 \<or> cc c = 38)))"
    by blast
  then show ?thesis
  proof cases
    case 1
    have k: "cc (CHR 0x22) = 34" "cc (CHR 0x5C) = 92" "cc (CHR 0x08) = 8" "cc (CHR 0x0C) = 12"
      "cc (CHR 0x0A) = 10" "cc (CHR 0x0D) = 13" "cc (CHR 0x09) = 9"
      by (simp_all add: cc_def)
    from 1 have "c \<in> {CHR 0x22, CHR 0x5C, CHR 0x08, CHR 0x0C, CHR 0x0A, CHR 0x0D, CHR 0x09}"
      by (simp only: k [symmetric] cc_eq_iff insert_iff empty_iff)
    then show ?thesis
      unfolding insert_iff empty_iff
      by (elim disjE FalseE) (simp_all add: esc_ascii_def k unesc_char_def)
  next
    case 2
    have "cc c div 16 < 16" "cc c mod 16 < 16" by (simp_all add: less_mult_imp_div_less)
    then have "16 * hex_val (hex_low (cc c div 16)) + hex_val (hex_low (cc c mod 16)) = cc c"
      by (simp only: hex_val_low mult_div_mod_eq)
    moreover have "(@) [c] = (#) c" by (rule ext) simp
    ultimately show ?thesis using 2
      by (simp add: esc_ascii_def Let_def unesc_unicode_def)
  next
    case 3
    then have "c \<noteq> CHR 0x22" "c \<noteq> CHR 0x5C" by (auto simp: cc_def)
    moreover have "esc_ascii html c = [c]" using 3 by (auto simp: esc_ascii_def Let_def)
    ultimately show ?thesis by simp
  qed
qed

lemma unquote_high:
  "list_all (\<lambda>c. 128 \<le> cc c) h \<Longrightarrow> unquote (h @ r) = apfst (append h) (unquote r)"
proof (induction h)
  case (Cons c h)
  then have "c \<noteq> CHR 0x22" "c \<noteq> CHR 0x5C" by (auto simp: cc_def)
  with Cons show ?case by (cases "unquote r") simp
next
  case Nil
  show ?case by (cases "unquote r") simp
qed

lemma list_all_take_1: "list_all P (take (Suc 0) s) \<longleftrightarrow> s = [] \<or> P (s ! 0)"
  by (cases s) auto

lemma tail_ok_high:
  assumes "tail_ok lo hi k s" "128 \<le> lo" "1 \<le> k"
  shows "list_all (\<lambda>c. 128 \<le> cc c) (take k s)"
proof (cases s)
  case (Cons d t)
  with assms have "128 \<le> cc d" "list_all (in_range 128 191) (take (k - 1) t)"
    by (auto simp: tail_ok_def in_range_def)
  moreover have "take k s = d # take (k - 1) t" using Cons assms(3) by (cases k) auto
  ultimately show ?thesis by (auto simp: in_range_def elim: list.pred_mono_strong)
qed simp

lemma utf8_width_high:
  assumes "128 \<le> cc c" "utf8_width (c # s) \<noteq> 0"
  shows "list_all (\<lambda>c. 128 \<le> cc c) (take (utf8_width (c # s)) (c # s))"
proof -
  from assms obtain lo hi k where "tail_ok lo hi k s" "128 \<le> lo" "1 \<le> k"
    "utf8_width (c # s) = Suc k"
    by (auto simp: Let_def split: if_splits)
  with tail_ok_high [OF this(1-3)] assms(1) show ?thesis by simp
qed

lemma unquote_rune:
  assumes "list_all (\<lambda>c. 128 \<le> cc c) h"
  shows "unquote (esc_rune h @ r) = apfst (append h) (unquote r)"
proof -
  have "unquote ((CHR 0x5C # ''u2028'') @ r) = apfst (append (line_sep 168)) (unquote r)"
    "unquote ((CHR 0x5C # ''u2029'') @ r) = apfst (append (line_sep 169)) (unquote r)"
    by (simp_all add: unesc_unicode_def)
  with unquote_high [OF assms] show ?thesis by (simp add: esc_rune_def del: unquote.simps append_Cons)
qed

theorem unquote_json_quote:
  assumes "valid_utf8 s"
  shows "unquote (json_esc html s @ CHR 0x22 # r) = (s, r)"
  using assms
proof (induction html s rule: json_esc.induct)
  case (2 html c s)
  show ?case
  proof (cases "cc c < 128")
    case True
    then have "valid_utf8 s" using "2.prems" by (simp add: Let_def)
    with True "2.IH"(1) show ?thesis by (simp add: unquote_ascii del: unquote.simps)
  next
    case False
    let ?k = "utf8_width (c # s)"
    have k: "?k \<noteq> 0" and v: "valid_utf8 (drop (?k - 1) s)"
      using "2.prems" by (simp_all del: utf8_width.simps)
    have "take ?k (c # s) @ drop (?k - 1) s = c # s" using k by (cases ?k) simp_all
    with False k v "2.IH"(3) [of ?k] utf8_width_high [of c s] show ?thesis
      by (simp add: unquote_rune Let_def del: utf8_width.simps unquote.simps)
  qed
qed simp

end
