(* ===== verification/Events.thy ===== *)
theory Events
  imports Store Json
begin

text \<open>
  The input of an operation (\<^verbatim>\<open>SubmitInput\<close> of \<^verbatim>\<open>internal/wagering/accept.go\<close>) and the events that a
  use-case stages in the outbox (\<^verbatim>\<open>internal/wagering/events.go\<close>): one row per event, written by
  \<^verbatim>\<open>EnqueueOutbox\<close> inside the caller's transaction, with a payload that is the JSON text of the
  envelope. Times are rendered in UTC by \<open>rfc3339\<close>.
\<close>

record submit_input =
  s_provider :: string
  s_external :: string
  s_key :: string
  s_player :: string
  s_wallet :: string
  s_round :: string
  s_game :: string
  s_kind :: kind
  s_amount :: string
  s_currency :: string
  s_ref :: string
  s_consumer :: string
  s_message :: string
  s_correlation :: string

section \<open>Time stamps\<close>

text \<open>\<^verbatim>\<open>time.Time.Format(time.RFC3339)\<close> in UTC: the proleptic Gregorian date of the day number and the
  time of day in whole seconds.\<close>

definition civil_date :: "int \<Rightarrow> int \<times> int \<times> int" where
  "civil_date days = (let z = days + 719468; era = z div 146097; doe = z mod 146097;
     yoe = (doe - doe div 1460 + doe div 36524 - doe div 146096) div 365;
     doy = doe - (365 * yoe + yoe div 4 - yoe div 100);
     mp = (5 * doy + 2) div 153; d = doy - (153 * mp + 2) div 5 + 1;
     m = (if mp < 10 then mp + 3 else mp - 9);
     y = yoe + era * 400 + (if m \<le> 2 then 1 else 0) in (y, m, d))"

definition pad4 :: "int \<Rightarrow> string" where
  "pad4 y = (let s = show_nat (nat \<bar>y\<bar>) in
     (if y < 0 then ''-'' else []) @ replicate (4 - length s) (CHR ''0'') @ s)"

definition rfc3339 :: "time \<Rightarrow> string" where
  "rfc3339 t = (let secs = t div 1000000000; sod = nat (secs mod 86400);
     (y, m, d) = civil_date (secs div 86400)
     in pad4 y @ ''-'' @ pad2 (nat m) @ ''-'' @ pad2 (nat d) @ ''T'' @
        pad2 (sod div 3600) @ '':'' @ pad2 (sod div 60 mod 60) @ '':'' @ pad2 (sod mod 60) @ ''Z'')"

lemma civil_date_examples:
  "civil_date 0 = (1970, 1, 1)" "civil_date 19782 = (2024, 2, 29)" "civil_date (- 719162) = (1, 1, 1)"
  by code_simp+

section \<open>Envelopes\<close>

definition mustEventPayload ::
    "string \<Rightarrow> string \<Rightarrow> string \<Rightarrow> string \<Rightarrow> time \<Rightarrow> i64 \<Rightarrow> (string \<times> json) list \<Rightarrow> string" where
  "mustEventPayload eventID eventType walletID correlationID t walletVersion data = json_Marshal
    (JObj [(''eventId'', JStr eventID), (''eventType'', JStr eventType), (''aggregateId'', JStr walletID),
      (''correlationId'', JStr correlationID), (''occurredAt'', JStr (rfc3339 t)),
      (''version'', JInt (sint walletVersion)), (''data'', JObj data)])"

definition EventProcessed :: string where "EventProcessed = ''WagerTransactionProcessed''"
definition EventRejected :: string where "EventRejected = ''WagerTransactionRejected''"
definition EventBalance :: string where "EventBalance = ''WalletBalanceChanged''"
definition EventPendingRef :: string where "EventPendingRef = ''WagerTransactionPendingReference''"

definition new_outbox :: "string \<Rightarrow> string \<Rightarrow> string \<Rightarrow> string \<Rightarrow> outbox_record" where
  "new_outbox eventID aggregate eventType payload = \<lparr>ob_event = eventID, ob_aggregate = aggregate,
     ob_type = eventType, ob_payload = payload, ob_attempts = 0, ob_occurred = zero_time\<rparr>"

text \<open>The fields that the three transaction events have in common.\<close>

definition tx_data :: "wallet \<Rightarrow> string \<Rightarrow> submit_input \<Rightarrow> (string \<times> json) list" where
  "tx_data w txID i = [(''transactionId'', JStr txID), (''kind'', JStr (kind_text (s_kind i))),
     (''providerId'', JStr (s_provider i)), (''externalTransactionId'', JStr (s_external i)),
     (''playerId'', JStr (s_player i)), (''walletId'', JStr (w_id w))]"

definition money_data :: "string \<Rightarrow> string \<Rightarrow> json" where
  "money_data amount cur = JObj [(''amount'', JStr amount), (''currency'', JStr cur)]"

definition emitProcessed ::
    "env \<Rightarrow> wallet \<Rightarrow> string \<Rightarrow> submit_input \<Rightarrow> money \<Rightarrow> money \<Rightarrow> direction \<Rightarrow> unit action" where
  "emitProcessed E w txID i after before dir = bind (now E) (\<lambda>t.
    let procData = tx_data w txID i @ [(''amount'', JStr (s_amount i)), (''currency'', JStr (s_currency i)),
          (''balance'', JStr (money_String after)), (''walletVersion'', JInt (sint (w_version w)))] in
    bind (newID E) (\<lambda>procID.
    bind (EnqueueOutbox E (new_outbox procID (w_id w) EventProcessed
      (mustEventPayload procID EventProcessed (w_id w) (s_correlation i) t (w_version w) procData))) (\<lambda>_.
    if dir = DirectionOther [] then ret ()
    else
      let balData = [(''walletId'', JStr (w_id w)), (''transactionId'', JStr txID),
            (''direction'', JStr (direction_text dir)), (''money'', money_data (s_amount i) (s_currency i)),
            (''balanceBefore'', JStr (money_String before)), (''balanceAfter'', JStr (money_String after)),
            (''walletVersion'', JInt (sint (w_version w)))] in
      bind (newID E) (\<lambda>balID.
      EnqueueOutbox E (new_outbox balID (w_id w) EventBalance
        (mustEventPayload balID EventBalance (w_id w) (s_correlation i) t (w_version w) balData))))))"

definition emitRejected ::
    "env \<Rightarrow> wallet \<Rightarrow> string \<Rightarrow> submit_input \<Rightarrow> money \<Rightarrow> string \<Rightarrow> unit action" where
  "emitRejected E w txID i balance failure = bind (newID E) (\<lambda>rejID. bind (now E) (\<lambda>t.
    let data = tx_data w txID i @ [(''amount'', JStr (s_amount i)), (''currency'', JStr (s_currency i)),
          (''failureCode'', JStr failure), (''balance'', JStr (money_String balance)),
          (''walletVersion'', JInt (sint (w_version w)))] in
    EnqueueOutbox E (new_outbox rejID (w_id w) EventRejected
      (mustEventPayload rejID EventRejected (w_id w) (s_correlation i) t (w_version w) data))))"

definition emitPendingRef :: "env \<Rightarrow> wallet \<Rightarrow> string \<Rightarrow> submit_input \<Rightarrow> unit action" where
  "emitPendingRef E w txID i = bind (newID E) (\<lambda>pendID. bind (now E) (\<lambda>t.
    let data = tx_data w txID i @ [(''referenceExternalTransactionId'', JStr (s_ref i)),
          (''walletVersion'', JInt (sint (w_version w)))] in
    EnqueueOutbox E (new_outbox pendID (w_id w) EventPendingRef
      (mustEventPayload pendID EventPendingRef (w_id w) (s_correlation i) t (w_version w) data))))"

end
