(* ===== verification/Ids.thy ===== *)
theory Ids
  imports Prelude
begin

text \<open>
  Lower-case hexadecimal text of bytes (\<^verbatim>\<open>encoding/hex\<close>, \<^verbatim>\<open>%x\<close>) and the identifiers of
  \<^verbatim>\<open>internal/wagering/id.go\<close>: \<open>uuid_v4\<close> is \<^verbatim>\<open>NewUUID\<close> on the sixteen bytes it draws.
\<close>

unbundle bit_operations_syntax

section \<open>Hexadecimal text\<close>

type_synonym byte = "8 word"

definition hex_digit :: "nat \<Rightarrow> char" where
  "hex_digit n = ''0123456789abcdef'' ! n"

definition hex_byte :: "byte \<Rightarrow> string" where
  "hex_byte b = [hex_digit (unat b div 16), hex_digit (unat b mod 16)]"

definition hex :: "byte list \<Rightarrow> string" where
  "hex bs = concat (map hex_byte bs)"

definition is_hex :: "char \<Rightarrow> bool" where
  "is_hex c \<longleftrightarrow> c \<in> set ''0123456789abcdef''"

lemma hex_digit_inj: "m < 16 \<Longrightarrow> n < 16 \<Longrightarrow> hex_digit m = hex_digit n \<longleftrightarrow> m = n"
  unfolding hex_digit_def by (rule nth_eq_iff_index_eq) simp_all

lemma is_hex_digit: "n < 16 \<Longrightarrow> is_hex (hex_digit n)"
  unfolding hex_digit_def is_hex_def by (rule nth_mem) simp

lemma unat_byte_bounds: "unat (b :: byte) div 16 < 16" "unat b mod 16 < 16"
  using unsigned_less [of b, where ?'a = nat] by simp_all

lemma hex_byte_inj [simp]: "hex_byte a = hex_byte b \<longleftrightarrow> a = b"
proof
  assume "hex_byte a = hex_byte b"
  then have "unat a div 16 = unat b div 16" "unat a mod 16 = unat b mod 16"
    by (simp_all add: hex_byte_def hex_digit_inj unat_byte_bounds)
  then have "unat a = unat b" by (metis mult_div_mod_eq)
  then show "a = b" by (rule unsigned_word_eqI)
qed simp

lemma hex_simps [simp]:
  "hex [] = []" "hex (b # bs) = hex_byte b @ hex bs" "length (hex_byte b) = 2"
  by (simp_all add: hex_def hex_byte_def)

lemma hex_append: "hex (as @ bs) = hex as @ hex bs"
  by (simp add: hex_def)

lemma length_hex [simp]: "length (hex bs) = 2 * length bs"
  by (induction bs) auto

lemma hex_byte_is_hex: "list_all is_hex (hex_byte b)"
  by (simp add: hex_byte_def is_hex_digit unat_byte_bounds)

lemma hex_is_hex: "list_all is_hex (hex bs)"
  by (induction bs) (simp_all add: hex_byte_is_hex)

lemma hex_inj [simp]: "hex as = hex bs \<longleftrightarrow> as = bs"
proof
  assume "hex as = hex bs"
  moreover from this have "length as = length bs" by (metis length_hex mult_cancel1 zero_neq_numeral)
  ultimately show "as = bs"
  proof (induction as bs rule: list_induct2')
    case (4 a as b bs)
    then have "hex_byte a = hex_byte b" "hex as = hex bs"
      by (simp_all add: append_eq_append_conv)
    with 4 show ?case by simp
  qed simp_all
qed simp

section \<open>Random UUIDs\<close>

text \<open>The version nibble of byte 6 becomes 4 and the variant bits of byte 8 become 10.\<close>

definition set_version :: "byte list \<Rightarrow> byte list" where
  "set_version b = b[6 := (b ! 6 AND 0x0f) OR 0x40, 8 := (b ! 8 AND 0x3f) OR 0x80]"

definition uuid_v4 :: "byte list \<Rightarrow> string" where
  "uuid_v4 bytes = (let b = set_version bytes in
     hex (take 4 b) @ ''-'' @ hex (take 2 (drop 4 b)) @ ''-'' @ hex (take 2 (drop 6 b)) @ ''-'' @
     hex (take 2 (drop 8 b)) @ ''-'' @ hex (take 6 (drop 10 b)))"

lemma length_set_version [simp]: "length (set_version b) = length b"
  by (simp add: set_version_def)

text \<open>The RFC 4122 template of a random UUID: \<open>x\<close> is any digit, \<open>y\<close> one of the four that carry the
  variant, and every other character stands for itself.\<close>

definition uuid_class :: "char \<Rightarrow> char \<Rightarrow> bool" where
  "uuid_class p c \<longleftrightarrow> (if p = CHR ''x'' then is_hex c
     else if p = CHR ''y'' then c \<in> set ''89ab'' else c = p)"

definition uuid_v4_text :: "string \<Rightarrow> bool" where
  "uuid_v4_text u \<longleftrightarrow> list_all2 uuid_class ''xxxxxxxx-xxxx-4xxx-yxxx-xxxxxxxxxxxx'' u"

text \<open>Masking keeps the low bits and setting the high ones adds them.\<close>

lemma unat_masked:
  "unat ((b AND 0x0f) OR 0x40 :: byte) = unat b mod 16 + 64"
  "unat ((b AND 0x3f) OR 0x80 :: byte) = unat b mod 64 + 128"
proof -
  have or_add: "unat (x OR y :: byte) = unat x + unat y" if "x AND y = 0" "unat x + unat y < 256" for x y
  proof -
    have "x OR y = x + y" using that(1) by (metis word_plus_and_or add.left_neutral)
    then show ?thesis using that(2) by (simp add: unat_word_ariths)
  qed
  have m: "b AND 0x0f = take_bit 4 b" "b AND 0x3f = take_bit 6 b"
    by (simp_all add: take_bit_eq_mask mask_numeral)
  have u: "unat (b AND 0x0f) = unat b mod 16" "unat (b AND 0x3f) = unat b mod 64"
    unfolding m unsigned_take_bit_eq by (simp_all only: take_bit_eq_mod) simp_all
  have d: "(b AND 0x0f) AND 0x40 = 0" "(b AND 0x3f) AND 0x80 = 0"
    by (simp_all add: and.assoc)
  have lt: "unat b mod 16 < 16" "unat b mod 64 < 64" by simp_all
  show "unat ((b AND 0x0f) OR 0x40) = unat b mod 16 + 64"
    using lt(1) by (subst or_add [OF d(1)]) (simp_all only: u, simp_all)
  show "unat ((b AND 0x3f) OR 0x80) = unat b mod 64 + 128"
    using lt(2) by (subst or_add [OF d(2)]) (simp_all only: u, simp_all)
qed

lemma version_digit: "hex_digit (unat ((b AND 0x0f) OR 0x40 :: byte) div 16) = CHR ''4''"
  by (simp add: unat_masked hex_digit_def)

lemma variant_digit: "hex_digit (unat ((b AND 0x3f) OR 0x80 :: byte) div 16) \<in> set ''89ab''"
proof -
  have "unat b mod 64 div 16 < 4" by (simp add: less_mult_imp_div_less)
  then consider "unat b mod 64 div 16 = 0" | "unat b mod 64 div 16 = 1" |
    "unat b mod 64 div 16 = 2" | "unat b mod 64 div 16 = 3" by linarith
  then show ?thesis by cases (simp_all add: unat_masked hex_digit_def)
qed

lemma list_of_16:
  assumes "length xs = 16"
  obtains a b c d e f g h i j k l m n p q where "xs = [a, b, c, d, e, f, g, h, i, j, k, l, m, n, p, q]"
  using assms by (auto simp: numeral_eq_Suc length_Suc_conv)

lemma uuid_v4_shape:
  assumes "length b = 16"
  shows "uuid_v4_text (uuid_v4 b)"
proof (rule list_of_16 [OF assms])
  fix b0 b1 b2 b3 b4 b5 b6 b7 b8 b9 ba bb bc bd be bf
  assume b: "b = [b0, b1, b2, b3, b4, b5, b6, b7, b8, b9, ba, bb, bc, bd, be, bf]"
  show ?thesis
    using version_digit [of b6] variant_digit [of b8] unfolding b
    by (simp add: uuid_v4_text_def uuid_v4_def set_version_def hex_byte_def uuid_class_def
        is_hex_digit unat_byte_bounds)
qed

lemma uuid_v4_free_bits:
  assumes "length b = 16" "length c = 16"
  shows "uuid_v4 b = uuid_v4 c \<longleftrightarrow> set_version b = set_version c"
proof -
  let ?b = "set_version b" and ?c = "set_version c"
  have "uuid_v4 b = uuid_v4 c \<longleftrightarrow> take 4 ?b = take 4 ?c \<and> take 2 (drop 4 ?b) = take 2 (drop 4 ?c) \<and>
    take 2 (drop 6 ?b) = take 2 (drop 6 ?c) \<and> take 2 (drop 8 ?b) = take 2 (drop 8 ?c) \<and>
    take 6 (drop 10 ?b) = take 6 (drop 10 ?c)"
    using assms by (simp add: uuid_v4_def Let_def append_eq_append_conv)
  also have "\<dots> \<longleftrightarrow> ?b = ?c"
    using assms by (rule_tac list_of_16 [of b], simp, rule_tac list_of_16 [of c], simp)
      (auto simp: set_version_def)
  finally show ?thesis .
qed

text \<open>The identifiers that the use-cases generate are random UUIDs of version 4: whatever the
  sixteen random bytes are, the text has the RFC 4122 shape with the version digit 4 and the
  variant digit 8, 9, a or b, and two draws give the same text only if they agree on all 122 bits
  that the version and variant leave free.\<close>

theorem uuid_v4_wellformed:
  assumes "length b = 16" "length c = 16"
  shows "uuid_v4_text (uuid_v4 b) \<and> (uuid_v4 b = uuid_v4 c \<longleftrightarrow> set_version b = set_version c)"
  using uuid_v4_shape [OF assms(1)] uuid_v4_free_bits [OF assms] by simp

theorem uuid_v4_wellformed_witness:
  "uuid_v4_text (uuid_v4 (replicate 16 0)) \<and> uuid_v4 (replicate 16 0) \<noteq> uuid_v4 (replicate 16 1)"
proof -
  have "set_version (replicate 16 0) \<noteq> set_version (replicate 16 1)"
    by (simp add: set_version_def numeral_eq_Suc)
  with uuid_v4_wellformed [of "replicate 16 0" "replicate 16 1"] show ?thesis by simp
qed

end
