(* ===== verification/Sha256.thy ===== *)
theory Sha256
  imports Ids
begin

text \<open>
  \<^verbatim>\<open>crypto/sha256.Sum256\<close>, the FIPS 180-4 digest, on lists of bytes. The constants are the
  fractional parts of the square and cube roots of the first primes, in decimal.
\<close>

type_synonym w32 = "32 word"

definition sha_init :: "w32 list" where
  "sha_init = [1779033703, 3144134277, 1013904242, 2773480762, 1359893119, 2600822924, 528734635, 1541459225]"

definition sha_round_constants :: "w32 list" where
  "sha_round_constants =
    [1116352408, 1899447441, 3049323471, 3921009573, 961987163, 1508970993,
     2453635748, 2870763221, 3624381080, 310598401, 607225278, 1426881987,
     1925078388, 2162078206, 2614888103, 3248222580, 3835390401, 4022224774,
     264347078, 604807628, 770255983, 1249150122, 1555081692, 1996064986,
     2554220882, 2821834349, 2952996808, 3210313671, 3336571891, 3584528711,
     113926993, 338241895, 666307205, 773529912, 1294757372, 1396182291,
     1695183700, 1986661051, 2177026350, 2456956037, 2730485921, 2820302411,
     3259730800, 3345764771, 3516065817, 3600352804, 4094571909, 275423344,
     430227734, 506948616, 659060556, 883997877, 958139571, 1322822218,
     1537002063, 1747873779, 1955562222, 2024104815, 2227730452, 2361852424,
     2428436474, 2756734187, 3204031479, 3329325298]"

text \<open>One 1 bit, zero bits up to eight bytes before a multiple of 64, and the length in bits.\<close>

definition be_bytes :: "nat \<Rightarrow> nat \<Rightarrow> byte list" where
  "be_bytes k n = map (\<lambda>i. word_of_nat (n div 256 ^ i)) (rev [0..<k])"

definition sha_pad :: "byte list \<Rightarrow> byte list" where
  "sha_pad m = m @ [128] @ replicate ((119 - length m mod 64) mod 64) 0 @ be_bytes 8 (8 * length m)"

definition be_word :: "byte list \<Rightarrow> w32" where
  "be_word b = word_of_nat (foldl (\<lambda>a x. 256 * a + unat x) 0 b)"

fun chunks :: "nat \<Rightarrow> 'a list \<Rightarrow> 'a list list" where
  "chunks n [] = []"
| "chunks n (x # xs) = take (Suc n) (x # xs) # chunks n (drop n xs)"

definition rotr :: "nat \<Rightarrow> w32 \<Rightarrow> w32" where
  "rotr n x = word_rotr n x"

definition schedule_step :: "w32 list \<Rightarrow> w32 list" where
  "schedule_step w = (let t = length w; x = w ! (t - 15); y = w ! (t - 2) in
     w @ [(rotr 17 y XOR rotr 19 y XOR drop_bit 10 y) + w ! (t - 7) +
          (rotr 7 x XOR rotr 18 x XOR drop_bit 3 x) + w ! (t - 16)])"

definition schedule :: "w32 list \<Rightarrow> w32 list" where
  "schedule w = (schedule_step ^^ 48) w"

text \<open>The working variables \<open>a\<close> to \<open>h\<close>.\<close>

record sha_vars =
  va :: w32
  vb :: w32
  vc :: w32
  vd :: w32
  ve :: w32
  vf :: w32
  vg :: w32
  vh :: w32

definition sha_round :: "w32 \<times> w32 \<Rightarrow> sha_vars \<Rightarrow> sha_vars" where
  "sha_round kw s = (let
     t1 = vh s + (rotr 6 (ve s) XOR rotr 11 (ve s) XOR rotr 25 (ve s)) +
       ((ve s AND vf s) XOR (NOT (ve s) AND vg s)) + fst kw + snd kw;
     t2 = (rotr 2 (va s) XOR rotr 13 (va s) XOR rotr 22 (va s)) +
       ((va s AND vb s) XOR (va s AND vc s) XOR (vb s AND vc s))
     in \<lparr>va = t1 + t2, vb = va s, vc = vb s, vd = vc s, ve = vd s + t1, vf = ve s, vg = vf s, vh = vg s\<rparr>)"

definition vars_of :: "w32 list \<Rightarrow> sha_vars" where
  "vars_of h = \<lparr>va = h ! 0, vb = h ! 1, vc = h ! 2, vd = h ! 3, ve = h ! 4, vf = h ! 5, vg = h ! 6, vh = h ! 7\<rparr>"

definition vars_list :: "sha_vars \<Rightarrow> w32 list" where
  "vars_list s = [va s, vb s, vc s, vd s, ve s, vf s, vg s, vh s]"

definition sha_block :: "byte list \<Rightarrow> w32 list \<Rightarrow> w32 list" where
  "sha_block block h = map2 (+) h (vars_list
     (fold sha_round (zip sha_round_constants (schedule (map be_word (chunks 3 block)))) (vars_of h)))"

definition sha256 :: "byte list \<Rightarrow> byte list" where
  "sha256 m = concat (map (\<lambda>w. be_bytes 4 (unat w)) (fold sha_block (chunks 63 (sha_pad m)) sha_init))"

lemma length_sha_block [simp]: "length h = 8 \<Longrightarrow> length (sha_block b h) = 8"
  by (simp add: sha_block_def vars_list_def)

lemma length_sha_fold: "length h = 8 \<Longrightarrow> length (fold sha_block bs h) = 8"
  by (induction bs arbitrary: h) simp_all

text \<open>A digest is 32 bytes.\<close>

lemma length_sha256 [simp]: "length (sha256 m) = 32"
proof -
  have "length (fold sha_block (chunks 63 (sha_pad m)) sha_init) = 8"
    by (rule length_sha_fold) (simp add: sha_init_def)
  moreover have "length (concat (map (\<lambda>w. be_bytes 4 (unat w)) ws)) = 4 * length ws" for ws :: "w32 list"
    by (induction ws) (simp_all add: be_bytes_def)
  ultimately show ?thesis by (simp add: sha256_def)
qed

text \<open>The padded message is a whole number of blocks.\<close>

lemma pad_arith: "r < 64 \<Longrightarrow> 64 dvd (64 * q + r + 1 + (119 - r) mod 64 + 8 :: nat)"
proof (cases "r \<le> 55")
  case True
  then have "(119 - r) mod 64 = 55 - r" by (simp add: mod_if)
  with True have "64 * q + r + 1 + (119 - r) mod 64 + 8 = 64 * (q + 1)" by simp
  then show ?thesis by (metis dvd_triv_left)
next
  case False
  assume "r < 64"
  with False have "(119 - r) mod 64 = 119 - r" by simp
  with False \<open>r < 64\<close> have "64 * q + r + 1 + (119 - r) mod 64 + 8 = 64 * (q + 2)" by simp
  then show ?thesis by (metis dvd_triv_left)
qed

lemma length_sha_pad: "64 dvd length (sha_pad m)"
proof -
  let ?n = "length m"
  have "length (sha_pad m) = 64 * (?n div 64) + ?n mod 64 + 1 + (119 - ?n mod 64) mod 64 + 8"
    by (simp add: sha_pad_def be_bytes_def)
  also have "64 dvd \<dots>" by (rule pad_arith) simp
  finally show ?thesis .
qed

end
