(* ===== verification/Payload_Hash.thy ===== *)
theory Payload_Hash
  imports Json Sha256
begin

text \<open>
  The financial idempotency hash of \<^verbatim>\<open>internal/wagering/hash.go\<close>: the ten business fields as a JSON
  document with sorted keys and no white space, and the hexadecimal SHA-256 of its bytes. The lemmas
  show that the document determines the fields, so that two operations with the same hash are the
  same business operation unless SHA-256 itself collides on their documents.
\<close>

record hash_input =
  h_provider :: string
  h_external :: string
  h_player :: string
  h_wallet :: string
  h_round :: string
  h_game :: string
  h_kind :: string
  h_amount :: string
  h_currency :: string
  h_ref :: string

text \<open>\<^verbatim>\<open>enc.Encode\<close> appends a newline and \<^verbatim>\<open>bytes.TrimRight\<close> removes it again.\<close>

definition canonicalString :: "string \<Rightarrow> string" where
  "canonicalString s =
    rev (dropWhile (\<lambda>c. c = CHR 0x0A) (rev (json_quote False s @ [CHR 0x0A])))"

fun canonicalValue :: "json \<Rightarrow> string option" where
  "canonicalValue (JStr s) = Some (canonicalString s)"
| "canonicalValue (JInt i) = None"
| "canonicalValue (JObj kvs) =
    (case those (map (\<lambda>(k, v). map_option (Pair k) (canonicalValue v)) kvs) of
       None \<Rightarrow> None
     | Some ts \<Rightarrow> Some ([CHR ''{''] @
         commas (map (\<lambda>(k, t). member_text (canonicalString k) t) (sort_key fst ts)) @ [CHR ''}'']))"

definition CanonicalJSON :: "json \<Rightarrow> string option" where
  "CanonicalJSON v = canonicalValue v"

definition business_doc :: "hash_input \<Rightarrow> json" where
  "business_doc i = JObj ([(''providerId'', JStr (h_provider i)),
     (''externalTransactionId'', JStr (h_external i)), (''playerId'', JStr (h_player i)),
     (''walletId'', JStr (h_wallet i)), (''roundId'', JStr (h_round i)), (''gameId'', JStr (h_game i)),
     (''kind'', JStr (h_kind i)),
     (''money'', JObj [(''amount'', JStr (h_amount i)), (''currency'', JStr (h_currency i))])] @
     (if h_ref i \<noteq> [] then [(''referenceExternalTransactionId'', JStr (h_ref i))] else []))"

definition bytes_of :: "string \<Rightarrow> byte list" where
  "bytes_of s = map (\<lambda>c. word_of_nat (cc c)) s"

definition PayloadHash :: "hash_input \<Rightarrow> string option" where
  "PayloadHash i = map_option (\<lambda>raw. hex (sha256 (bytes_of raw))) (CanonicalJSON (business_doc i))"

section \<open>The document text\<close>

lemma canonicalString_eq: "canonicalString s = json_quote False s"
  by (simp add: canonicalString_def json_quote_def)

definition mem :: "string \<Rightarrow> string \<Rightarrow> string \<Rightarrow> string" where
  "mem k s r = json_quote False k @ CHR '':'' # json_quote False s @ r"

lemma quote_inj:
  assumes "valid_utf8 s" "valid_utf8 t" "json_quote False s @ r = json_quote False t @ q"
  shows "s = t" "r = q"
proof -
  have e: "json_esc False s @ CHR 0x22 # r = json_esc False t @ CHR 0x22 # q"
    using assms(3) unfolding json_quote_def append_Cons append_assoc append_Nil list.inject by blast
  have "(s, r) = unquote (json_esc False s @ CHR 0x22 # r)" by (rule unquote_json_quote [OF assms(1), symmetric])
  also have "\<dots> = unquote (json_esc False t @ CHR 0x22 # q)" by (rule arg_cong [OF e])
  also have "\<dots> = (t, q)" by (rule unquote_json_quote [OF assms(2)])
  finally show "s = t" "r = q" by blast+
qed

lemma mem_inj:
  assumes "valid_utf8 k" "valid_utf8 k'" "valid_utf8 s" "valid_utf8 s'"
  shows "mem k s r = mem k' s' r' \<longleftrightarrow> k = k' \<and> s = s' \<and> r = r'"
proof
  assume e: "mem k s r = mem k' s' r'"
  from quote_inj [OF assms(1,2) e [unfolded mem_def]]
  have "k = k'" "json_quote False s @ r = json_quote False s' @ r'" by simp_all
  with quote_inj [OF assms(3,4)] show "k = k' \<and> s = s' \<and> r = r'" by blast
qed simp

definition doc_text :: "hash_input \<Rightarrow> string" where
  "doc_text i = CHR ''{'' # mem ''externalTransactionId'' (h_external i) (CHR '','' #
     mem ''gameId'' (h_game i) (CHR '','' # mem ''kind'' (h_kind i) (CHR '','' #
     json_quote False ''money'' @ CHR '':'' # CHR ''{'' # mem ''amount'' (h_amount i) (CHR '','' #
     mem ''currency'' (h_currency i) (CHR ''}'' # CHR '','' #
     mem ''playerId'' (h_player i) (CHR '','' # mem ''providerId'' (h_provider i) (CHR '','' #
     (if h_ref i = [] then mem ''roundId'' (h_round i) (CHR '','' # mem ''walletId'' (h_wallet i) ''}'')
      else mem ''referenceExternalTransactionId'' (h_ref i) (CHR '','' #
        mem ''roundId'' (h_round i) (CHR '','' # mem ''walletId'' (h_wallet i) ''}''))))))))))"

lemma sort_members:
  "sort_key fst [(''amount'', a), (''currency'', b :: string)] = [(''amount'', a), (''currency'', b)]"
  "sort_key fst [(''providerId'', p), (''externalTransactionId'', e), (''playerId'', l), (''walletId'', w),
     (''roundId'', r), (''gameId'', g), (''kind'', k), (''money'', m :: string)] =
   [(''externalTransactionId'', e), (''gameId'', g), (''kind'', k), (''money'', m), (''playerId'', l),
     (''providerId'', p), (''roundId'', r), (''walletId'', w)]"
  "sort_key fst [(''providerId'', p), (''externalTransactionId'', e), (''playerId'', l), (''walletId'', w),
     (''roundId'', r), (''gameId'', g), (''kind'', k), (''money'', m),
     (''referenceExternalTransactionId'', x)] =
   [(''externalTransactionId'', e), (''gameId'', g), (''kind'', k), (''money'', m), (''playerId'', l),
     (''providerId'', p), (''referenceExternalTransactionId'', x), (''roundId'', r), (''walletId'', w)]"
  by code_simp+

lemma business_doc_text: "CanonicalJSON (business_doc i) = Some (doc_text i)"
proof (cases "h_ref i = []")
  case True
  then show ?thesis
    by (simp add: CanonicalJSON_def business_doc_def canonicalString_eq sort_members
        commas_def member_text_def doc_text_def mem_def del: sort_key_simps)
next
  case False
  then show ?thesis
    by (simp add: CanonicalJSON_def business_doc_def canonicalString_eq sort_members
        commas_def member_text_def doc_text_def mem_def del: sort_key_simps)
qed

section \<open>The hash binds the business fields\<close>

definition hash_valid :: "hash_input \<Rightarrow> bool" where
  "hash_valid i \<longleftrightarrow> list_all valid_utf8 [h_provider i, h_external i, h_player i, h_wallet i, h_round i,
     h_game i, h_kind i, h_amount i, h_currency i, h_ref i]"

lemma valid_utf8_keys:
  "list_all valid_utf8 [''externalTransactionId'', ''gameId'', ''kind'', ''amount'', ''currency'', ''playerId'',
     ''providerId'', ''roundId'', ''walletId'', ''referenceExternalTransactionId'']"
  by code_simp

lemma doc_text_inj:
  assumes "hash_valid i" "hash_valid j"
  shows "doc_text i = doc_text j \<longleftrightarrow> i = j"
proof
  assume e: "doc_text i = doc_text j"
  note v = valid_utf8_keys [unfolded list.pred_inject] assms [unfolded hash_valid_def list.pred_inject]
  from e show "i = j"
    by (cases "h_ref i = []"; cases "h_ref j = []")
      (simp_all add: doc_text_def mem_inj v del: valid_utf8.simps)
qed simp

lemma bytes_of_inj: "bytes_of s = bytes_of t \<longleftrightarrow> s = t"
proof -
  have "inj (\<lambda>c. word_of_nat (cc c) :: byte)"
  proof (rule injI)
    fix c d assume "(word_of_nat (cc c) :: byte) = word_of_nat (cc d)"
    then have "unat (word_of_nat (cc c) :: byte) = unat (word_of_nat (cc d) :: byte)" by simp
    then show "c = d" using cc_less [of c] cc_less [of d]
      by (simp add: unsigned_of_nat take_bit_nat_eq_self cc_eq_iff)
  qed
  then show ?thesis by (simp add: bytes_of_def inj_map_eq_map)
qed

lemma PayloadHash_eq: "PayloadHash i = Some (hex (sha256 (bytes_of (doc_text i))))"
  by (simp add: PayloadHash_def business_doc_text)

text \<open>C37. The idempotency hash binds all ten business fields. It always exists and is 64 hexadecimal
  digits; for texts of well-formed UTF-8 (all that a JSON decoder lets through) the canonical
  documents of two operations are equal only if every field is equal, an absent reference included,
  so two different operations with one hash would exhibit a SHA-256 collision on their documents.\<close>

theorem PayloadHash_binding:
  assumes "hash_valid i" "hash_valid j"
  shows "(\<exists>h. PayloadHash i = Some h \<and> length h = 64 \<and> list_all is_hex h) \<and>
    (CanonicalJSON (business_doc i) = CanonicalJSON (business_doc j) \<longleftrightarrow> i = j) \<and>
    (PayloadHash i = PayloadHash j \<longleftrightarrow>
      sha256 (bytes_of (doc_text i)) = sha256 (bytes_of (doc_text j))) \<and>
    (bytes_of (doc_text i) = bytes_of (doc_text j) \<longleftrightarrow> i = j)"
  using doc_text_inj [OF assms]
  by (simp add: PayloadHash_eq business_doc_text bytes_of_inj hex_is_hex)

theorem PayloadHash_binding_witness:
  "let i = \<lparr>h_provider = ''p'', h_external = ''e1'', h_player = ''u'', h_wallet = ''w'', h_round = ''r'',
     h_game = ''g'', h_kind = ''WIN'', h_amount = ''25.00'', h_currency = ''BRL'', h_ref = []\<rparr>
   in CanonicalJSON (business_doc i) \<noteq> CanonicalJSON (business_doc (i\<lparr>h_ref := ''b1''\<rparr>))"
proof -
  let ?i = "\<lparr>h_provider = ''p'', h_external = ''e1'', h_player = ''u'', h_wallet = ''w'', h_round = ''r'',
     h_game = ''g'', h_kind = ''WIN'', h_amount = ''25.00'', h_currency = ''BRL'', h_ref = []\<rparr>"
  have "hash_valid ?i" "hash_valid (?i\<lparr>h_ref := ''b1''\<rparr>)" by code_simp+
  from PayloadHash_binding [OF this] show ?thesis by (simp add: Let_def)
qed

end
