(* ===== verification/Backoff.thy ===== *)
theory Backoff
  imports Actions
begin

text \<open>
  The retry delays of \<^verbatim>\<open>internal/wagering/backoff.go\<close>. A \<^verbatim>\<open>time.Duration\<close> is an \<^verbatim>\<open>int64\<close> of
  nanoseconds, so the doubling of the ceiling wraps around; the loop is the recursion
  \<open>grow_ceiling\<close> over the remaining iterations, with the early \<^verbatim>\<open>break\<close> at the cap.
\<close>

section \<open>The window\<close>

fun grow_ceiling :: "nat \<Rightarrow> i64 \<Rightarrow> i64 \<Rightarrow> i64" where
  "grow_ceiling 0 ceiling cap = ceiling"
| "grow_ceiling (Suc n) ceiling cap =
    (let c = ceiling * 2 in if sint c \<ge> sint cap then cap else grow_ceiling n c cap)"

definition backoff_ceiling :: "int \<Rightarrow> i64 \<Rightarrow> i64 \<Rightarrow> i64" where
  "backoff_ceiling retries base cap =
    (let c = grow_ceiling (nat retries) base cap in if sint c > sint cap then cap else c)"

text \<open>The delay is drawn uniformly from \<open>[0, ceiling]\<close>; a ceiling that is not positive gives no delay.\<close>

definition BackoffFullJitter :: "env \<Rightarrow> int \<Rightarrow> i64 \<Rightarrow> i64 \<Rightarrow> int action" where
  "BackoffFullJitter E retries base cap =
    (let ceiling = backoff_ceiling retries base cap in
     if sint ceiling \<le> 0 then ret 0
     else bind (int63n E (nat (sint (ceiling + 1)))) (\<lambda>r. ret (int r)))"

definition BackoffBase :: i64 where "BackoffBase = 200000000"
definition BackoffCap :: i64 where "BackoffCap = 3000000000"

section \<open>Bounds\<close>

lemma sint_double: "int64_min \<le> 2 * sint c \<Longrightarrow> 2 * sint c \<le> int64_max \<Longrightarrow> sint (c * 2 :: i64) = 2 * sint c"
  by (simp add: sint_word_mult signed_take_bit_int_eq_self mult.commute)

text \<open>As long as the cap is at most half the range, the doubling never wraps and the ceiling is the
  capped exponential.\<close>

lemma grow_ceiling_exact:
  assumes "0 \<le> sint c" "sint c \<le> sint cap" "2 * sint cap \<le> int64_max"
  shows "sint (grow_ceiling n c cap) = min (sint cap) (sint c * 2 ^ n)"
  using assms
proof (induction n arbitrary: c)
  case (Suc n)
  have d: "sint (c * 2) = 2 * sint c" using Suc.prems by (intro sint_double) linarith+
  show ?case
  proof (cases "sint cap \<le> 2 * sint c")
    case True
    have "(1 :: int) \<le> 2 ^ n" by simp
    then have "2 * sint c \<le> 2 * sint c * 2 ^ n"
      using Suc.prems(1) by (metis mult_left_mono mult.right_neutral mult_nonneg_nonneg zero_le_numeral)
    with True have "sint cap \<le> sint c * 2 ^ Suc n" by (simp add: mult.assoc)
    with True d show ?thesis by simp
  next
    case False
    then have "sint (grow_ceiling n (c * 2) cap) = min (sint cap) (2 * sint c * 2 ^ n)"
      using Suc.IH [of "c * 2"] Suc.prems d by simp
    with False d show ?thesis by (simp add: Let_def algebra_simps)
  qed
qed (simp add: min_def)

lemma backoff_ceiling_exact:
  assumes "0 \<le> sint base" "sint base \<le> sint cap" "2 * sint cap \<le> int64_max"
  shows "sint (backoff_ceiling retries base cap) = min (sint cap) (sint base * 2 ^ nat retries)"
  using grow_ceiling_exact [OF assms] by (simp add: backoff_ceiling_def Let_def)

lemma wp_BackoffFullJitter:
  assumes "sint (backoff_ceiling retries base cap) < int64_max"
    and "\<And>d w'. 0 \<le> d \<Longrightarrow> d \<le> max 0 (sint (backoff_ceiling retries base cap)) \<Longrightarrow>
      tabs w' = tabs w \<Longrightarrow> aborted w' = aborted w \<Longrightarrow> Q d w'"
  shows "wp (BackoffFullJitter E retries base cap) Q R w"
proof (cases "sint (backoff_ceiling retries base cap) \<le> 0")
  case True
  then show ?thesis using assms(2) by (simp add: BackoffFullJitter_def Let_def ok_simps)
next
  case False
  let ?c = "backoff_ceiling retries base cap" and ?r = "e_rand E (tick w)"
  have s: "sint (?c + 1) = sint ?c + 1" using False assms(1) by (simp add: sint_add_exact)
  have "?r mod nat (sint ?c + 1) < nat (sint ?c + 1)" using False by simp
  then have "int (?r mod nat (sint ?c + 1)) \<le> sint ?c" using False by linarith
  then show ?thesis
    using False by (auto simp: BackoffFullJitter_def Let_def ok_simps s intro!: assms(2))
qed

text \<open>C38. Full jitter stays inside its window. For a base and a cap as the program configures them
  (the cap at most half the range of a duration) the delay after \<open>n\<close> failed attempts is never
  negative and never above \<open>min cap (base * 2^n)\<close>, whatever the random source returns: the doubling
  of the code neither wraps nor overshoots, and it stops at the cap. A negative attempt count is
  treated as no failed attempt.\<close>

theorem BackoffFullJitter_window:
  assumes "0 \<le> sint base" "sint base \<le> sint cap" "2 * sint cap \<le> int64_max"
  shows "\<exists>d w'. BackoffFullJitter E retries base cap w = (Inr d, w') \<and> tabs w' = tabs w \<and>
    0 \<le> d \<and> d \<le> min (sint cap) (sint base * 2 ^ nat retries)"
proof -
  have c: "sint (backoff_ceiling retries base cap) = min (sint cap) (sint base * 2 ^ nat retries)"
    by (rule backoff_ceiling_exact [OF assms])
  have "wp (BackoffFullJitter E retries base cap) (\<lambda>d w'. tabs w' = tabs w \<and> 0 \<le> d \<and>
      d \<le> min (sint cap) (sint base * 2 ^ nat retries)) (\<lambda>_ _. False) w"
    using assms by (intro wp_BackoffFullJitter) (auto simp: c)
  then show ?thesis by (auto simp: wp_def split: prod.splits sum.splits)
qed

theorem BackoffFullJitter_window_witness:
  "\<forall>E w. \<exists>d w'. BackoffFullJitter E 3 BackoffBase BackoffCap w = (Inr d, w') \<and> tabs w' = tabs w \<and>
    0 \<le> d \<and> d \<le> 1600000000"
proof (intro allI)
  fix E :: env and w :: world
  have "sint BackoffBase = 200000000" "sint BackoffCap = 3000000000"
    by (simp_all add: BackoffBase_def BackoffCap_def)
  with BackoffFullJitter_window [of BackoffBase BackoffCap E 3 w]
  show "\<exists>d w'. BackoffFullJitter E 3 BackoffBase BackoffCap w = (Inr d, w') \<and> tabs w' = tabs w \<and> 0 \<le> d \<and> d \<le> 1600000000"
    by simp
qed

end
