(* ===== verification/Accept.thy ===== *)
theory Accept
  imports Events Payload_Hash Backoff
begin

text \<open>
  The acceptance of one operation inside an open SQL transaction, \<^verbatim>\<open>applyOperation\<close> and its helpers
  of \<^verbatim>\<open>internal/wagering/accept.go\<close>. The closures of the Go function are definitions that take what
  they capture; the mutable domain wallet is passed on explicitly. A panic of \<^verbatim>\<open>mustMinor\<close> unwinds
  through \<^verbatim>\<open>Transact\<close>, which rolls back, so it is the error \<open>ErrOther ''panic''\<close>.
\<close>

section \<open>Results\<close>

datatype outcome = OutcomeProcessed | OutcomeRejected | OutcomePending | OutcomeReplay

record submit_result =
  sr_outcome :: outcome
  sr_tx :: string
  sr_balance :: "money option"
  sr_failure :: string
  sr_version :: i64
  sr_replay :: bool

definition CodeConflict :: string where "CodeConflict = ''IDEMPOTENCY_CONFLICT''"
definition CodeWalletMissing :: string where "CodeWalletMissing = ''WALLET_NOT_FOUND''"
definition CodeRefNotFound :: string where "CodeRefNotFound = ''REFERENCE_NOT_FOUND''"
definition CodeInvalidReq :: string where "CodeInvalidReq = ''INVALID_REQUEST''"

definition replayResult :: "tx_row \<Rightarrow> submit_result" where
  "replayResult prev = (let
     r = \<lparr>sr_outcome = OutcomeReplay, sr_tx = t_id prev,
       sr_balance = (case (t_result prev, t_result_currency prev) of
           (Some m, Some c) \<Rightarrow> (case NewMoneyFromMinor m c of Inl _ \<Rightarrow> None | Inr b \<Rightarrow> Some b)
         | _ \<Rightarrow> None),
       sr_failure = str (t_failure prev),
       sr_version = (case t_version prev of None \<Rightarrow> 0 | Some v \<Rightarrow> v), sr_replay = True\<rparr>
     in case t_state prev of
          StateProcessed \<Rightarrow> r
        | StateRejected \<Rightarrow> r
        | _ \<Rightarrow> r\<lparr>sr_outcome := OutcomePending, sr_balance := None\<rparr>)"

record op_context =
  oc_in :: submit_input
  oc_amount :: money
  oc_hash :: string
  oc_wallet :: wallet_row

section \<open>Views\<close>

definition winOperation :: "submit_input \<Rightarrow> money \<Rightarrow> operation" where
  "winOperation i amount = \<lparr>o_kind = s_kind i, o_amount = amount, o_provider = s_provider i,
     o_player = s_player i, o_wallet = s_wallet i, o_round = s_round i\<rparr>"

definition reversalOperation :: "submit_input \<Rightarrow> money \<Rightarrow> operation" where
  "reversalOperation i amount = \<lparr>o_kind = s_kind i, o_amount = amount, o_provider = s_provider i,
     o_player = s_player i, o_wallet = s_wallet i, o_round = s_round i\<rparr>"

text \<open>An amount in a malformed currency reads as Go's zero \<^verbatim>\<open>Money\<close>.\<close>

definition money_or_zero :: "i64 \<Rightarrow> string \<Rightarrow> money" where
  "money_or_zero m cur = (case NewMoneyFromMinor m cur of Inl _ \<Rightarrow> zero_money | Inr v \<Rightarrow> v)"

definition referenceView :: "tx_row \<Rightarrow> reference" where
  "referenceView t = \<lparr>f_kind = t_kind t, f_amount = money_or_zero (t_amount t) (t_currency t),
     f_provider = str (t_provider t), f_player = t_player t, f_wallet = t_wallet t,
     f_round = str (t_round t), f_state = t_state t, f_reversed = t_reversed_tx t \<noteq> None\<rparr>"

definition mustMinor :: "i64 \<Rightarrow> string \<Rightarrow> money action" where
  "mustMinor m cur = (case NewMoneyFromMinor m cur of Inl _ \<Rightarrow> fail (ErrOther ''panic'') | Inr v \<Rightarrow> ret v)"

definition toLedgerRecord :: "ledger_entry \<Rightarrow> ledger_row" where
  "toLedgerRecord e = \<lparr>l_id = e_id e, l_wallet = e_wallet e, l_tx = e_tx e, l_direction = e_direction e,
     l_amount = minor (e_amount e), l_currency = currency (e_amount e), l_before = minor (e_before e),
     l_after = minor (e_after e), l_version = e_version e\<rparr>"

text \<open>The reversal target as a domain transaction, with its reversal mark.\<close>

definition targetDomain :: "tx_row \<Rightarrow> money \<Rightarrow> wager_tx" where
  "targetDomain t amount = (let d = RehydrateTransaction (t_id t) (t_kind t) (t_state t) amount (t_player t) (t_wallet t)
     in if t_reversed_tx t \<noteq> None
        then tx_MarkReversed d (str (t_reversed_kind t)) (str (t_reversed_tx t)) else d)"

section \<open>The persisted outcomes\<close>

definition tx_record :: "op_context \<Rightarrow> string \<Rightarrow> wallet \<Rightarrow> tx_state \<Rightarrow> string \<Rightarrow> money option \<Rightarrow> string \<Rightarrow> tx_row" where
  "tx_record oc txID w state failureCode resultBal refTxID = (let i = oc_in oc in
     \<lparr>t_id = txID, t_origin = EXTERNAL, t_provider = Some (s_provider i), t_external = Some (s_external i),
      t_key = Some (s_key i), t_hash = Some (oc_hash oc), t_wallet = s_wallet i, t_player = s_player i,
      t_round = Some (s_round i), t_game = Some (s_game i), t_kind = s_kind i,
      t_amount = minor (oc_amount oc), t_currency = currency (oc_amount oc),
      t_ref_external = (if s_ref i \<noteq> [] then Some (s_ref i) else None),
      t_ref_tx = (if refTxID \<noteq> [] then Some refTxID else None), t_state = state,
      t_failure = (if failureCode \<noteq> [] then Some failureCode else None),
      t_result = map_option minor resultBal, t_result_currency = map_option currency resultBal,
      t_reversed_kind = None, t_reversed_tx = None,
      t_version = map_option (\<lambda>_. w_version w) resultBal\<rparr>)"

definition insertTx :: "env \<Rightarrow> op_context \<Rightarrow> string \<Rightarrow> wallet \<Rightarrow> tx_state \<Rightarrow> string \<Rightarrow> money option \<Rightarrow> string
    \<Rightarrow> unit action" where
  "insertTx E oc txID w state failureCode resultBal refTxID =
    tx_Insert E (tx_record oc txID w state failureCode resultBal refTxID)"

definition processed :: "env \<Rightarrow> op_context \<Rightarrow> string \<Rightarrow> wallet \<Rightarrow> money \<Rightarrow> money \<Rightarrow> string \<Rightarrow> direction
    \<Rightarrow> submit_result action" where
  "processed E oc txID w before after refTxID dir =
    bind (newID E) (\<lambda>eid.
    bind (lift_domain (NewLedgerEntry eid (w_id w) txID dir (oc_amount oc) before after (w_version w))) (\<lambda>entry.
    bind (insertTx E oc txID w StateProcessed [] (Some after) refTxID) (\<lambda>_.
    bind (ledger_Append E (toLedgerRecord entry)) (\<lambda>_.
    bind (UpdateBalance E (w_id w) (minor after) (w_version w)) (\<lambda>_.
    bind (emitProcessed E w txID (oc_in oc) after before dir) (\<lambda>_.
    ret \<lparr>sr_outcome = OutcomeProcessed, sr_tx = txID, sr_balance = Some after, sr_failure = [],
         sr_version = w_version w, sr_replay = False\<rparr>))))))"

definition rejected :: "env \<Rightarrow> op_context \<Rightarrow> string \<Rightarrow> wallet \<Rightarrow> string \<Rightarrow> string \<Rightarrow> submit_result action" where
  "rejected E oc txID w failure refTxID = (let bal = w_balance w in
    bind (insertTx E oc txID w StateRejected failure (Some bal) refTxID) (\<lambda>_.
    bind (emitRejected E w txID (oc_in oc) bal failure) (\<lambda>_.
    ret \<lparr>sr_outcome = OutcomeRejected, sr_tx = txID, sr_balance = Some bal, sr_failure = failure,
         sr_version = w_version w, sr_replay = False\<rparr>)))"

definition parkReference :: "env \<Rightarrow> op_context \<Rightarrow> string \<Rightarrow> time \<Rightarrow> wallet \<Rightarrow> submit_result action" where
  "parkReference E oc txID t w =
    bind (insertTx E oc txID w StatePendingReference [] None []) (\<lambda>_.
    bind (emitPendingRef E w txID (oc_in oc)) (\<lambda>_.
    bind (EnqueueWork E \<lparr>wi_tx = txID, wi_kind = ''reference'', wi_ref = 0, wi_infra = 0,
        wi_next = t + sint BackoffBase, wi_owner = [], wi_lease = None, wi_created = zero_time\<rparr>) (\<lambda>_.
    ret \<lparr>sr_outcome = OutcomePending, sr_tx = txID, sr_balance = None, sr_failure = [],
         sr_version = w_version w, sr_replay = False\<rparr>)))"

section \<open>Operations with a reference\<close>

text \<open>\<^verbatim>\<open>applyWithReference\<close>: a missing or pending reference parks the operation, a processed one is
  applied, a rejected or failed one rejects it.\<close>

definition applyWithReference :: "env \<Rightarrow> op_context \<Rightarrow> (tx_row \<Rightarrow> submit_result action) \<Rightarrow> submit_result action
    \<Rightarrow> (string \<Rightarrow> string \<Rightarrow> submit_result action) \<Rightarrow> submit_result action" where
  "applyWithReference E oc apply_to park refuse =
    bind (FindByProviderExternal E (s_provider (oc_in oc)) (s_ref (oc_in oc))) (\<lambda>r.
    case r of
      None \<Rightarrow> park
    | Some target \<Rightarrow> (case t_state target of
        StatePending \<Rightarrow> park
      | StatePendingReference \<Rightarrow> park
      | StateProcessed \<Rightarrow> apply_to target
      | _ \<Rightarrow> refuse (code_text CodeReferenceNotProcessed) (t_id target)))"

definition applyWin :: "env \<Rightarrow> op_context \<Rightarrow> string \<Rightarrow> wallet \<Rightarrow> tx_row \<Rightarrow> submit_result action" where
  "applyWin E oc txID w target =
    (case ValidateWinReference (winOperation (oc_in oc) (oc_amount oc)) (Some (referenceView target)) of
       Inl c \<Rightarrow> rejected E oc txID w (code_text c) (t_id target)
     | Inr _ \<Rightarrow> bind (lift_domain (Credit w (s_player (oc_in oc)) (oc_amount oc))) (\<lambda>(before, after, w').
         processed E oc txID w' before after (t_id target) DirectionCredit))"

text \<open>The active-win flag is read for bets only.\<close>

definition activeWin :: "env \<Rightarrow> tx_row \<Rightarrow> bool action" where
  "activeWin E target = (if t_kind target = KindBet then HasActiveWin E (t_id target) else ret False)"

text \<open>The direction of a reversal's movement: a refund, and a rollback of a bet, credit; a rollback of
  a win or of a refund debits.\<close>

definition reversalDirection :: "kind \<Rightarrow> kind \<Rightarrow> direction" where
  "reversalDirection k target = (if k = KindRefund then DirectionCredit
     else if target = KindBet then DirectionCredit else DirectionDebit)"

definition reversalMovement :: "kind \<Rightarrow> kind \<Rightarrow> wallet \<Rightarrow> string \<Rightarrow> money \<Rightarrow> code + money \<times> money \<times> wallet" where
  "reversalMovement k target w player amount =
    (if reversalDirection k target = DirectionCredit then Credit w player amount else Debit w player amount)"

text \<open>The reversal marks the target, and a rollback of a refund frees the bet that it had reversed.\<close>

definition markTarget :: "env \<Rightarrow> kind \<Rightarrow> string \<Rightarrow> tx_row \<Rightarrow> unit action" where
  "markTarget E k txID target =
    bind (MarkReversed E (t_id target) (kind_text k) txID) (\<lambda>_.
    if k = KindRollback \<and> t_kind target = KindRefund then
      (case t_ref_tx target of None \<Rightarrow> ret () | Some bet \<Rightarrow> ClearReversal E bet)
    else ret ())"

definition applyReversal :: "env \<Rightarrow> op_context \<Rightarrow> string \<Rightarrow> wallet \<Rightarrow> tx_row \<Rightarrow> submit_result action" where
  "applyReversal E oc txID w target = (let i = oc_in oc in
    case ValidateReferenceAgreement (reversalOperation i (oc_amount oc)) (referenceView target) of
      Inl c \<Rightarrow> rejected E oc txID w (code_text c) (t_id target)
    | Inr _ \<Rightarrow>
      bind (mustMinor (t_amount target) (t_currency target)) (\<lambda>targetAmount.
      bind (activeWin E target) (\<lambda>win.
      case ValidateReversalTarget (s_kind i) (Some (targetDomain target targetAmount)) win of
        Inl c \<Rightarrow> rejected E oc txID w (code_text c) (t_id target)
      | Inr _ \<Rightarrow>
        (let dir = reversalDirection (s_kind i) (t_kind target) in
         case reversalMovement (s_kind i) (t_kind target) w (s_player i) (oc_amount oc) of
           Inl c \<Rightarrow>
             if dir = DirectionDebit \<and> c = CodeInsufficientBalance
             then rejected E oc txID w (code_text CodeRollbackInsufficientBalance) (t_id target)
             else fail (ErrDomain c)
         | Inr (before, after, w') \<Rightarrow>
             bind (processed E oc txID w' before after (t_id target) dir) (\<lambda>r.
             bind (markTarget E (s_kind i) txID target) (\<lambda>_. ret r))))))"

section \<open>Dispatch on the kind\<close>

definition applyBet :: "env \<Rightarrow> op_context \<Rightarrow> string \<Rightarrow> wallet \<Rightarrow> submit_result action" where
  "applyBet E oc txID w = (case Debit w (s_player (oc_in oc)) (oc_amount oc) of
     Inl c \<Rightarrow> if c = CodeInsufficientBalance
       then rejected E oc txID w (code_text CodeInsufficientBalance) []
       else fail (ErrDomain c)
   | Inr (before, after, w') \<Rightarrow> processed E oc txID w' before after [] DirectionDebit)"

definition applyFreeWin :: "env \<Rightarrow> op_context \<Rightarrow> string \<Rightarrow> wallet \<Rightarrow> submit_result action" where
  "applyFreeWin E oc txID w =
    bind (lift_domain (Credit w (s_player (oc_in oc)) (oc_amount oc))) (\<lambda>(before, after, w').
    processed E oc txID w' before after [] DirectionCredit)"

definition applyLoss :: "env \<Rightarrow> op_context \<Rightarrow> string \<Rightarrow> wallet \<Rightarrow> submit_result action" where
  "applyLoss E oc txID w = (let bal = w_balance w in
    bind (insertTx E oc txID w StateProcessed [] (Some bal) []) (\<lambda>_.
    bind (emitProcessed E w txID (oc_in oc) bal bal (DirectionOther [])) (\<lambda>_.
    ret \<lparr>sr_outcome = OutcomeProcessed, sr_tx = txID, sr_balance = Some bal, sr_failure = [],
         sr_version = w_version w, sr_replay = False\<rparr>)))"

definition applyOperation :: "env \<Rightarrow> op_context \<Rightarrow> submit_result action" where
  "applyOperation E oc = bind (newID E) (\<lambda>txID. bind (now E) (\<lambda>t.
    let r = oc_wallet oc in
    bind (lift_domain (RehydrateWallet (wr_id r) (wr_player r) (wr_currency r) (wr_balance r) (wr_version r))) (\<lambda>w.
    let park = parkReference E oc txID t w; refuse = rejected E oc txID w in
    case s_kind (oc_in oc) of
      KindBet \<Rightarrow> applyBet E oc txID w
    | KindWin \<Rightarrow> if s_ref (oc_in oc) = [] then applyFreeWin E oc txID w
        else applyWithReference E oc (applyWin E oc txID w) park refuse
    | KindLoss \<Rightarrow> applyLoss E oc txID w
    | KindRefund \<Rightarrow> applyWithReference E oc (applyReversal E oc txID w) park refuse
    | KindRollback \<Rightarrow> applyWithReference E oc (applyReversal E oc txID w) park refuse
    | _ \<Rightarrow> fail (ErrCorrectable CodeInvalidReq))))"

end
