(* ===== verification/Work.thy ===== *)
theory Work
  imports Accept
begin

text \<open>
  The work table: \<^verbatim>\<open>internal/wagering/work.go\<close>. A parked operation is resumed when its reference
  processes (\<open>ReevaluateDependents\<close>) or when its work item is due (\<open>ProcessDueWork\<close>). Each function
  has the Go function's calls in its order; \<^verbatim>\<open>rec\<close>, which Go updates in place and never reads again
  after a failure, is the updated row.
\<close>

definition ReferenceTTL :: int where "ReferenceTTL = 60000000000"
definition MaxRefAttempts :: int where "MaxRefAttempts = 5"
definition MaxInfraAttempts :: int where "MaxInfraAttempts = 10"
definition WorkLeaseTTL :: int where "WorkLeaseTTL = 30000000000"

section \<open>Scheduling metadata\<close>

text \<open>Errors and missing rows read as the zero time and as no attempts.\<close>

definition workCreatedAt :: "env \<Rightarrow> string \<Rightarrow> time action" where
  "workCreatedAt E txID = bind (attempt (GetWork E txID)) (\<lambda>r. case r of
     Inr (Some item) \<Rightarrow> ret (wi_created item) | _ \<Rightarrow> ret zero_time)"

definition workRefAttempts :: "env \<Rightarrow> string \<Rightarrow> int action" where
  "workRefAttempts E txID = bind (attempt (GetWork E txID)) (\<lambda>r. case r of
     Inr (Some item) \<Rightarrow> ret (wi_ref item) | _ \<Rightarrow> ret 0)"

section \<open>Settling a parked transaction\<close>

definition rebuiltInput :: "submit_input \<Rightarrow> money \<Rightarrow> submit_input" where
  "rebuiltInput i amount = i\<lparr>s_amount := money_String amount, s_currency := currency amount\<rparr>"

definition settleProcessedExisting :: "env \<Rightarrow> wallet \<Rightarrow> tx_row \<Rightarrow> submit_input \<Rightarrow> string \<Rightarrow> direction
    \<Rightarrow> money \<Rightarrow> money \<Rightarrow> unit action" where
  "settleProcessedExisting E w rec i refTxID dir before after =
    (let amount = money_or_zero (t_amount rec) (t_currency rec) in
     bind (newID E) (\<lambda>eid.
     bind (lift_domain (NewLedgerEntry eid (w_id w) (t_id rec) dir amount before after (w_version w))) (\<lambda>entry.
     bind (UpdateState E (rec\<lparr>t_state := StateProcessed, t_result := Some (minor after),
       t_result_currency := Some (currency after), t_version := Some (w_version w),
       t_ref_tx := (if refTxID \<noteq> [] then Some refTxID else t_ref_tx rec)\<rparr>)) (\<lambda>_.
     bind (ledger_Append E (toLedgerRecord entry)) (\<lambda>_.
     bind (UpdateBalance E (w_id w) (minor after) (w_version w)) (\<lambda>_.
     bind (emitProcessed E w (t_id rec) (rebuiltInput i amount) after before dir) (\<lambda>_.
     DeleteWork E (t_id rec))))))))"

definition settleRejectedExisting :: "env \<Rightarrow> wallet \<Rightarrow> tx_row \<Rightarrow> submit_input \<Rightarrow> string \<Rightarrow> string \<Rightarrow> unit action" where
  "settleRejectedExisting E w rec i refTxID failure =
    (let bal = w_balance w; amount = money_or_zero (t_amount rec) (t_currency rec) in
     bind (UpdateState E (rec\<lparr>t_state := StateRejected, t_failure := Some failure,
       t_result := Some (minor bal), t_result_currency := Some (currency bal),
       t_version := Some (w_version w),
       t_ref_tx := (if refTxID \<noteq> [] then Some refTxID else t_ref_tx rec)\<rparr>)) (\<lambda>_.
     bind (emitRejected E w (t_id rec) (rebuiltInput i amount) bal failure) (\<lambda>_.
     DeleteWork E (t_id rec))))"

definition settle_true :: "unit action \<Rightarrow> bool action" where
  "settle_true m = bind m (\<lambda>_. ret True)"

section \<open>Resuming\<close>

definition resumeWin :: "env \<Rightarrow> wallet \<Rightarrow> tx_row \<Rightarrow> submit_input \<Rightarrow> money \<Rightarrow> tx_row \<Rightarrow> bool action" where
  "resumeWin E w rec i amount target =
    (case ValidateWinReference (winOperation i amount) (Some (referenceView target)) of
       Inl c \<Rightarrow> settle_true (settleRejectedExisting E w rec i (t_id target) (code_text c))
     | Inr _ \<Rightarrow> bind (lift_domain (Credit w (s_player i) amount)) (\<lambda>(before, after, w').
         settle_true (settleProcessedExisting E w' rec i (t_id target) DirectionCredit before after)))"

definition resumeReversal :: "env \<Rightarrow> wallet \<Rightarrow> tx_row \<Rightarrow> submit_input \<Rightarrow> money \<Rightarrow> tx_row \<Rightarrow> bool action" where
  "resumeReversal E w rec i amount target =
    (case ValidateReferenceAgreement (reversalOperation i amount) (referenceView target) of
       Inl c \<Rightarrow> settle_true (settleRejectedExisting E w rec i (t_id target) (code_text c))
     | Inr _ \<Rightarrow>
       bind (mustMinor (t_amount target) (t_currency target)) (\<lambda>targetAmount.
       bind (activeWin E target) (\<lambda>win.
       case ValidateReversalTarget (s_kind i) (Some (targetDomain target targetAmount)) win of
         Inl c \<Rightarrow> settle_true (settleRejectedExisting E w rec i (t_id target) (code_text c))
       | Inr _ \<Rightarrow>
         (let dir = reversalDirection (s_kind i) (t_kind target) in
          case reversalMovement (s_kind i) (t_kind target) w (s_player i) amount of
            Inl c \<Rightarrow>
              if dir = DirectionDebit \<and> c = CodeInsufficientBalance
              then settle_true (settleRejectedExisting E w rec i (t_id target)
                (code_text CodeRollbackInsufficientBalance))
              else fail (ErrDomain c)
          | Inr (before, after, w') \<Rightarrow>
              bind (settleProcessedExisting E w' rec i (t_id target) dir before after) (\<lambda>_.
              settle_true (markTarget E (s_kind i) (t_id rec) target))))))"

definition resumeApply :: "env \<Rightarrow> wallet \<Rightarrow> tx_row \<Rightarrow> submit_input \<Rightarrow> money \<Rightarrow> tx_row \<Rightarrow> bool action" where
  "resumeApply E w rec i amount target =
    (if s_kind i = KindWin then resumeWin E w rec i amount target
     else resumeReversal E w rec i amount target)"

text \<open>The input that \<^verbatim>\<open>resumeOne\<close> rebuilds from the row.\<close>

definition parked_input :: "tx_row \<Rightarrow> money \<Rightarrow> submit_input" where
  "parked_input rec amount = \<lparr>s_provider = str (t_provider rec), s_external = str (t_external rec), s_key = [],
     s_player = t_player rec, s_wallet = t_wallet rec, s_round = str (t_round rec), s_game = str (t_game rec),
     s_kind = t_kind rec, s_amount = money_String amount, s_currency = currency amount,
     s_ref = str (t_ref_external rec), s_consumer = [], s_message = [], s_correlation = []\<rparr>"

definition wait_again :: "env \<Rightarrow> tx_row \<Rightarrow> time \<Rightarrow> bool action" where
  "wait_again E rec t = bind (workRefAttempts E (t_id rec)) (\<lambda>n.
     bind (BackoffFullJitter E 0 BackoffBase BackoffCap) (\<lambda>d.
     bind (TouchWork E (t_id rec) (n + 1) 0 (t + d) True) (\<lambda>_. ret False)))"

text \<open>Go's \<^verbatim>\<open>||\<close> reads the attempts only when the age has not expired.\<close>

definition ref_exhausted :: "env \<Rightarrow> tx_row \<Rightarrow> time \<Rightarrow> bool action" where
  "ref_exhausted E rec t = bind (workCreatedAt E (t_id rec)) (\<lambda>created.
     if time_Sub t created > ReferenceTTL then ret True
     else bind (workRefAttempts E (t_id rec)) (\<lambda>n. ret (n + 1 \<ge> MaxRefAttempts)))"

definition resumeOne :: "env \<Rightarrow> tx_row \<Rightarrow> bool action" where
  "resumeOne E rec = bind (now E) (\<lambda>t.
    bind (LockForUpdate E (t_wallet rec)) (\<lambda>mw. case mw of
      None \<Rightarrow> fail (ErrOther ''wallet vanished'')
    | Some r \<Rightarrow>
      bind (lift_domain (RehydrateWallet (wr_id r) (wr_player r) (wr_currency r) (wr_balance r) (wr_version r))) (\<lambda>w.
      bind (lift_domain (NewMoneyFromMinor (t_amount rec) (t_currency rec))) (\<lambda>amount.
      let i = parked_input rec amount in
      bind (FindByProviderExternal E (s_provider i) (s_ref i)) (\<lambda>mt. case mt of
        None \<Rightarrow> bind (ref_exhausted E rec t) (\<lambda>over.
          if over then settle_true (settleRejectedExisting E w rec i [] CodeRefNotFound)
          else wait_again E rec t)
      | Some target \<Rightarrow> (case t_state target of
          StatePending \<Rightarrow> wait_again E rec t
        | StatePendingReference \<Rightarrow> wait_again E rec t
        | StateProcessed \<Rightarrow> resumeApply E w rec i amount target
        | _ \<Rightarrow> settle_true (settleRejectedExisting E w rec i (t_id target)
            (code_text CodeReferenceNotProcessed))))))))"

section \<open>The two callers\<close>

text \<open>One stuck dependent does not stop its siblings.\<close>

fun resume_all :: "env \<Rightarrow> tx_row list \<Rightarrow> unit action" where
  "resume_all E [] = ret ()"
| "resume_all E (dep # deps) =
    (if t_state dep \<noteq> StatePendingReference then resume_all E deps
     else bind (ignore (resumeOne E dep)) (\<lambda>_. resume_all E deps))"

definition ReevaluateDependents :: "env \<Rightarrow> string \<Rightarrow> string \<Rightarrow> unit action" where
  "ReevaluateDependents E provider ext =
    transact E (bind (FindDependents E provider ext) (resume_all E))"

definition noteInfra :: "env \<Rightarrow> work_item \<Rightarrow> unit action" where
  "noteInfra E item = (let next_attempt = wi_infra item + 1 in
    if next_attempt \<ge> MaxInfraAttempts then
      bind (tx_Get E (wi_tx item)) (\<lambda>m.
      bind (case m of
          None \<Rightarrow> ret ()
        | Some rec \<Rightarrow> UpdateState E (rec\<lparr>t_state := StateFailed, t_failure := Some ''INFRA_EXHAUSTED''\<rparr>)) (\<lambda>_.
      DeleteWork E (wi_tx item)))
    else bind (now E) (\<lambda>_. bind (now E) (\<lambda>t.
      bind (BackoffFullJitter E next_attempt BackoffBase BackoffCap) (\<lambda>d.
      TouchWork E (wi_tx item) (wi_ref item) next_attempt (t + d) False))))"

definition processWorkItem :: "env \<Rightarrow> work_item \<Rightarrow> bool action" where
  "processWorkItem E item = transact E (bind (attempt (tx_Get E (wi_tx item))) (\<lambda>r. case r of
     Inl _ \<Rightarrow> bind (noteInfra E item) (\<lambda>_. ret False)
   | Inr m \<Rightarrow>
     if (case m of None \<Rightarrow> True | Some rec \<Rightarrow> IsTerminal (t_state rec))
     then bind (ignore (DeleteWork E (wi_tx item))) (\<lambda>_. ret True)
     else bind (attempt (resumeOne E (the m))) (\<lambda>d. case d of
         Inl _ \<Rightarrow> bind (noteInfra E item) (\<lambda>_. ret False)
       | Inr done_now \<Rightarrow> ret done_now)))"

text \<open>The number of items settled; an error of one item is passed over.\<close>

fun process_items :: "env \<Rightarrow> work_item list \<Rightarrow> nat action" where
  "process_items E [] = ret 0"
| "process_items E (item # items) = bind (attempt (processWorkItem E item)) (\<lambda>r.
     bind (process_items E items) (\<lambda>n. ret (case r of Inr True \<Rightarrow> Suc n | _ \<Rightarrow> n)))"

definition ProcessDueWork :: "env \<Rightarrow> string \<Rightarrow> nat \<Rightarrow> nat action" where
  "ProcessDueWork E owner limit = bind (ClaimWork E owner WorkLeaseTTL limit) (process_items E)"

end
