(* ===== verification/Submit.thy ===== *)
theory Submit
  imports Work
begin

text \<open>
  \<^verbatim>\<open>Service.Submit\<close> of \<^verbatim>\<open>internal/wagering/accept.go\<close>: the checks that persist nothing, the inbox
  check outside the transaction, the idempotency lookups and the operation inside it, and the
  re-evaluation of dependents after a processed bet.
\<close>

section \<open>Checks before the transaction\<close>

definition hash_input_of :: "submit_input \<Rightarrow> hash_input" where
  "hash_input_of i = \<lparr>h_provider = s_provider i, h_external = s_external i, h_player = s_player i,
     h_wallet = s_wallet i, h_round = s_round i, h_game = s_game i, h_kind = kind_text (s_kind i),
     h_amount = s_amount i, h_currency = s_currency i, h_ref = s_ref i\<rparr>"

definition validate_input :: "submit_input \<Rightarrow> string + money \<times> string" where
  "validate_input i =
    (if s_provider i = [] \<or> s_external i = [] \<or> s_key i = [] then Inl CodeInvalidReq
     else case ValidateExternalKind (s_kind i) of
       Inl _ \<Rightarrow> Inl (code_text CodeOpeningNotAllowed)
     | Inr _ \<Rightarrow> (case ParseMoney (s_amount i) (s_currency i) of
         Inl c \<Rightarrow> Inl (code_text c)
       | Inr amount \<Rightarrow> (case ValidateAmountForKind (s_kind i) amount of
           Inl _ \<Rightarrow> Inl (code_text CodeInvalidAmountForKind)
         | Inr _ \<Rightarrow>
           if IsReversalKind (s_kind i) \<and> s_ref i = [] then Inl (code_text CodeReferenceRequired)
           else (case PayloadHash (hash_input_of i) of
               None \<Rightarrow> Inl CodeInvalidReq
             | Some h \<Rightarrow> Inr (amount, h)))))"

text \<open>Same message and other contents is poisoning; it is looked up by a statement of its own.\<close>

definition inbox_check :: "env \<Rightarrow> submit_input \<Rightarrow> string \<Rightarrow> unit action" where
  "inbox_check E i h = (if s_message i = [] then ret ()
     else bind (autocommit (FindInbox E (s_consumer i) (s_message i))) (\<lambda>r. case r of
       None \<Rightarrow> ret ()
     | Some (stored, _) \<Rightarrow>
         if stored \<noteq> h then fail (ErrPoison (s_message i) stored h) else ret ()))"

section \<open>Inside the transaction\<close>

definition replay_or_conflict :: "tx_row \<Rightarrow> string \<Rightarrow> submit_result action" where
  "replay_or_conflict prev h =
    (if str (t_hash prev) \<noteq> h then fail (ErrConflict CodeConflict) else ret (replayResult prev))"

definition record_inbox :: "env \<Rightarrow> submit_input \<Rightarrow> string \<Rightarrow> unit action" where
  "record_inbox E i h = (if s_message i = [] then ret ()
     else bind (InsertInbox E (s_consumer i) (s_message i) h)
       (\<lambda>_. CompleteInbox E (s_consumer i) (s_message i)))"

definition submit_body :: "env \<Rightarrow> submit_input \<Rightarrow> money \<Rightarrow> string \<Rightarrow> submit_result action" where
  "submit_body E i amount h = bind (LockForUpdate E (s_wallet i)) (\<lambda>mw. case mw of
      None \<Rightarrow> fail (ErrCorrectable CodeWalletMissing)
    | Some r \<Rightarrow>
      if s_player i \<noteq> wr_player r then fail (ErrCorrectable (code_text CodeWalletPlayerMismatch))
      else if s_currency i \<noteq> wr_currency r then fail (ErrCorrectable (code_text CodeCurrencyMismatch))
      else bind (FindByProviderKey E (s_provider i) (s_key i)) (\<lambda>byKey. case byKey of
        Some prev \<Rightarrow> replay_or_conflict prev h
      | None \<Rightarrow> bind (FindByProviderExternal E (s_provider i) (s_external i)) (\<lambda>byExt. case byExt of
          Some prev \<Rightarrow> replay_or_conflict prev h
        | None \<Rightarrow>
          bind (applyOperation E \<lparr>oc_in = i, oc_amount = amount, oc_hash = h, oc_wallet = r\<rparr>) (\<lambda>res.
          bind (record_inbox E i h) (\<lambda>_. ret res)))))"

definition resultIsReferenceTarget :: "kind \<Rightarrow> bool" where
  "resultIsReferenceTarget k \<longleftrightarrow> k = KindBet"

definition reevaluate :: "env \<Rightarrow> submit_input \<Rightarrow> submit_result \<Rightarrow> unit action" where
  "reevaluate E i r =
    (if sr_outcome r = OutcomeProcessed \<and> resultIsReferenceTarget (s_kind i)
     then ignore (ReevaluateDependents E (s_provider i) (s_external i)) else ret ())"

definition Submit :: "env \<Rightarrow> submit_input \<Rightarrow> submit_result action" where
  "Submit E i = (case validate_input i of
     Inl c \<Rightarrow> fail (ErrCorrectable c)
   | Inr (amount, h) \<Rightarrow>
     bind (inbox_check E i h) (\<lambda>_.
     bind (transact E (submit_body E i amount h)) (\<lambda>r.
     bind (reevaluate E i r) (\<lambda>_. ret r))))"

end
