(* ===== verification/Open_Wallet.thy ===== *)
theory Open_Wallet
  imports Submit
begin

text \<open>
  \<^verbatim>\<open>Service.OpenWallet\<close> of \<^verbatim>\<open>internal/wagering/wallet.go\<close>: the wallet row and, for a positive opening, the
  internal opening transaction, its ledger entry and two events in the same transaction.
\<close>

definition opening_tx :: "string \<Rightarrow> string \<Rightarrow> string \<Rightarrow> string \<Rightarrow> money \<Rightarrow> tx_row" where
  "opening_tx txID walletID playerID cur initial =
     \<lparr>t_id = txID, t_origin = INTERNAL, t_provider = None, t_external = None, t_key = None, t_hash = None,
      t_wallet = walletID, t_player = playerID, t_round = None, t_game = None, t_kind = KindOpening,
      t_amount = minor initial, t_currency = cur, t_ref_external = None, t_ref_tx = None,
      t_state = StateProcessed, t_failure = None, t_result = Some (minor initial),
      t_result_currency = Some (currency initial), t_reversed_kind = None, t_reversed_tx = None,
      t_version = Some 1\<rparr>"

definition opening_proc_data :: "string \<Rightarrow> string \<Rightarrow> string \<Rightarrow> string \<Rightarrow> string \<Rightarrow> money \<Rightarrow> (string \<times> json) list" where
  "opening_proc_data txID playerID walletID initialText cur after =
     [(''transactionId'', JStr txID), (''kind'', JStr ''OPENING''), (''playerId'', JStr playerID),
      (''walletId'', JStr walletID), (''amount'', JStr initialText), (''currency'', JStr cur),
      (''balance'', JStr (money_String after)), (''walletVersion'', JInt 1)]"

definition opening_bal_data :: "string \<Rightarrow> string \<Rightarrow> string \<Rightarrow> string \<Rightarrow> money \<Rightarrow> money \<Rightarrow> (string \<times> json) list" where
  "opening_bal_data txID walletID initialText cur before after =
     [(''walletId'', JStr walletID), (''transactionId'', JStr txID), (''direction'', JStr ''CREDIT''),
      (''money'', money_data initialText cur), (''balanceBefore'', JStr (money_String before)),
      (''balanceAfter'', JStr (money_String after)), (''walletVersion'', JInt 1)]"

text \<open>The opening transaction of a funded wallet and what it stages.\<close>

definition fund_wallet :: "env \<Rightarrow> string \<Rightarrow> string \<Rightarrow> string \<Rightarrow> string \<Rightarrow> money \<Rightarrow> unit action" where
  "fund_wallet E walletID playerID cur initialText initial =
    bind (newID E) (\<lambda>txID. bind (now E) (\<lambda>t. bind (newID E) (\<lambda>eid.
    let before = money_or_zero 0 cur in
    bind (lift_domain (NewLedgerEntry eid walletID txID DirectionCredit initial before initial 1)) (\<lambda>entry.
    bind (tx_Insert E (opening_tx txID walletID playerID cur initial)) (\<lambda>_.
    bind (ledger_Append E (toLedgerRecord entry)) (\<lambda>_.
    bind (newID E) (\<lambda>procID.
    bind (EnqueueOutbox E (new_outbox procID walletID EventProcessed
      (mustEventPayload procID EventProcessed walletID [] t 1
        (opening_proc_data txID playerID walletID initialText cur initial)))) (\<lambda>_.
    bind (newID E) (\<lambda>balID.
    EnqueueOutbox E (new_outbox balID walletID EventBalance
      (mustEventPayload balID EventBalance walletID [] t 1
        (opening_bal_data txID walletID initialText cur before initial))))))))))))"

text \<open>A unique violation of the insert is a conflict; the transaction is rolled back with it.\<close>

definition insert_new_wallet :: "env \<Rightarrow> wallet_row \<Rightarrow> unit action" where
  "insert_new_wallet E r = bind (attempt (wallet_Insert E r)) (\<lambda>res. case res of
     Inl e \<Rightarrow> if isUniqueViolation e then fail (ErrConflict CodeConflict) else fail e
   | Inr _ \<Rightarrow> ret ())"

definition wallet_record :: "wallet \<Rightarrow> wallet_row" where
  "wallet_record w = \<lparr>wr_id = w_id w, wr_player = w_player w, wr_currency = w_currency w,
     wr_balance = minor (w_balance w), wr_version = w_version w\<rparr>"

definition open_body :: "env \<Rightarrow> string \<Rightarrow> string \<Rightarrow> string \<Rightarrow> string \<Rightarrow> money \<Rightarrow> wallet_row action" where
  "open_body E walletID playerID cur initialText initial =
    (case NewWallet walletID playerID cur initial of
       Inl _ \<Rightarrow> fail (ErrCorrectable (code_text CodeInvalidMoney))
     | Inr w \<Rightarrow> bind (insert_new_wallet E (wallet_record w)) (\<lambda>_.
         if IsZero initial then ret (wallet_record w)
         else bind (fund_wallet E walletID playerID cur initialText initial) (\<lambda>_. ret (wallet_record w))))"

definition OpenWallet :: "env \<Rightarrow> string \<Rightarrow> string \<Rightarrow> string \<Rightarrow> wallet_row action" where
  "OpenWallet E playerID cur initialText =
    (case ParseMoney initialText cur of
       Inl _ \<Rightarrow> fail (ErrCorrectable (code_text CodeInvalidMoney))
     | Inr initial \<Rightarrow>
       if IsNegative initial then fail (ErrCorrectable (code_text CodeInvalidMoney))
       else bind (newID E) (\<lambda>walletID. transact E (open_body E walletID playerID cur initialText initial)))"

end
