(* ===== verification/Reconcile.thy ===== *)
theory Reconcile
  imports Base64 Accept
begin

text \<open>
  \<^verbatim>\<open>internal/wagering/reconcile.go\<close>: the opaque ledger cursor, the ledger pages, and the reconciliation of a
  wallet with its ledger. Both use-cases only read.
\<close>

section \<open>Cursors\<close>

definition LedgerDefaultLimit :: int where "LedgerDefaultLimit = 50"
definition LedgerMaxLimit :: int where "LedgerMaxLimit = 200"

definition EncodeCursor :: "i64 \<Rightarrow> string" where
  "EncodeCursor version = b64_encode (show_int (sint version))"

definition DecodeCursor :: "string \<Rightarrow> serr + i64" where
  "DecodeCursor cursor = (if cursor = [] then Inr 0
     else case b64_decode cursor of
       None \<Rightarrow> Inl (ErrCorrectable CodeInvalidReq)
     | Some raw \<Rightarrow> (case parse_int64 raw of
         None \<Rightarrow> Inl (ErrCorrectable CodeInvalidReq)
       | Some v \<Rightarrow> if sint v < 0 then Inl (ErrCorrectable CodeInvalidReq) else Inr v))"

text \<open>What a client of cursors relies on: the empty cursor is the beginning, and a cursor that was handed out
  reads back as its position.\<close>

locale cursor_codec =
  fixes enc :: "i64 \<Rightarrow> string" and dec :: "string \<Rightarrow> 'e + i64"
  assumes dec_start: "dec [] = Inr 0" and enc_not_Nil: "enc v \<noteq> []"
    and dec_enc: "0 \<le> sint v \<Longrightarrow> dec (enc v) = Inr v"
begin

lemma enc_inj: "0 \<le> sint v \<Longrightarrow> 0 \<le> sint w \<Longrightarrow> enc v = enc w \<longleftrightarrow> v = w"
  by (metis dec_enc Inr_inject)

text \<open>A page that ends at \<open>b\<close> hands out a cursor from which the next page starts after \<open>b\<close>.\<close>

lemma resume_after: "n = (if full then enc b else []) \<Longrightarrow> 0 \<le> sint b \<Longrightarrow> n \<noteq> [] \<Longrightarrow> dec n = Inr b"
  by (simp add: dec_enc split: if_splits)

end

lemma parse_int64_show_int: "0 \<le> sint v \<Longrightarrow> parse_int64 (show_int (sint v)) = Some v"
  using sint_upper [of v] by (simp add: show_int_def parse_int64_digits)

interpretation ledger_cursor: cursor_codec EncodeCursor DecodeCursor
proof
  show "DecodeCursor [] = Inr 0" by (simp add: DecodeCursor_def)
  show "EncodeCursor v \<noteq> []" for v by (simp add: EncodeCursor_def b64_encode_Nil_iff show_int_def)
  show "DecodeCursor (EncodeCursor v) = Inr v" if "0 \<le> sint v" for v
    using that by (simp add: DecodeCursor_def EncodeCursor_def b64_encode_Nil_iff b64_roundtrip parse_int64_show_int)
      (simp add: show_int_def)
qed

lemma parse_int64_shown: "parse_int64 (show_int (sint (v :: i64))) = Some v"
proof (cases "0 \<le> sint v")
  case False
  then show ?thesis using sint_lower [of v] by (simp add: parse_int64_def show_int_def Let_def)
qed (rule parse_int64_show_int)

text \<open>The texts that \<^verbatim>\<open>ParseInt\<close> reads as a number that is not negative: digits, with leading zeros and a sign allowed.\<close>

lemma sint_in_range: "- (2 ^ 63) \<le> n \<Longrightarrow> n < 2 ^ 63 \<Longrightarrow> sint (word_of_int n :: i64) = n"
  by (rule sint_of_int_i64) simp_all

lemma parse_int64_natural:
  "parse_int64 s = Some v \<and> 0 \<le> sint v \<longleftrightarrow>
    (\<exists>sg ds. s = sg @ ds \<and> sg \<in> {[], ''+'', ''-''} \<and> ds \<noteq> [] \<and> list_all is_digit ds \<and> int (dec_val ds) = sint v \<and>
       (sg = ''-'' \<longrightarrow> v = 0))" (is "?l \<longleftrightarrow> ?r")
proof
  assume l: ?l
  obtain sg ds where s: "s = sg @ ds" "sg \<in> {[], ''+'', ''-''}" "ds \<noteq> []" "list_all is_digit ds"
      "if sg = ''-'' then int (dec_val ds) \<le> 2 ^ 63 \<and> v = word_of_int (- int (dec_val ds))
       else int (dec_val ds) < 2 ^ 63 \<and> v = word_of_int (int (dec_val ds))"
  proof (cases s)
    case (Cons c cs)
    then show ?thesis using l that [of "[c]" cs] that [of "[]" s]
      by (cases "c = CHR ''-'' \<or> c = CHR ''+''") (auto simp: parse_int64_def Let_def not_le split: if_splits)
  qed (use l in \<open>simp add: parse_int64_def\<close>)
  then have "if sg = ''-'' then sint v = - int (dec_val ds) else sint v = int (dec_val ds)"
    using sint_in_range [of "- int (dec_val ds)"] sint_in_range [of "int (dec_val ds)"] by (simp split: if_splits)
  then have "int (dec_val ds) = sint v \<and> (sg = ''-'' \<longrightarrow> v = 0)" using l s(5) by (simp split: if_splits)
  then show ?r using s(1-4) by blast
next
  assume ?r
  then obtain sg ds where s: "s = sg @ ds" "sg \<in> {[], ''+'', ''-''}" "ds \<noteq> []" "list_all is_digit ds"
      "int (dec_val ds) = sint v" "sg = ''-'' \<longrightarrow> v = 0" by blast
  have v: "v = word_of_int (int (dec_val ds))" "int (dec_val ds) < 2 ^ 63" using sint_upper [of v] by (simp_all add: s(5))
  have n: "hd ds \<noteq> CHR ''+'' \<and> hd ds \<noteq> CHR ''-''" using s(3,4) by (cases ds) (auto simp: is_digit_def)
  have "parse_int64 s = Some v"
  proof (cases "sg = []")
    case True
    then show ?thesis using s(1,3,4) n v(2) by (cases ds) (auto simp: parse_int64_def Let_def v(1) not_le)
  next
    case False
    then show ?thesis using s(1-4,6) v(2) by (auto simp: parse_int64_def Let_def v(1) not_le)
  qed
  then show ?l using s(5) by simp
qed

text \<open>C35. Cursor round trip. Every cursor that is handed out decodes to the very version it was made from, for every
  version that is not negative; one made from a negative number is refused; and different versions have different
  cursors. The cursors accepted are exactly the empty one, for the beginning, and the unpadded URL base64 texts
  (line breaks and unused bits are ignored) of a decimal number in range, leading zeros and a sign included, so
  that \<open>-0\<close> is 0; the other numbers below zero and all other texts get the correctable error.\<close>

theorem DecodeCursor_EncodeCursor:
  "DecodeCursor (EncodeCursor v) = (if 0 \<le> sint v then Inr v else Inl (ErrCorrectable CodeInvalidReq)) \<and>
   (EncodeCursor v = EncodeCursor w \<longleftrightarrow> v = w) \<and>
   (DecodeCursor c = Inr u \<longleftrightarrow> c = [] \<and> u = 0 \<or>
     (\<exists>sg ds. b64_decode c = Some (sg @ ds) \<and> sg \<in> {[], ''+'', ''-''} \<and> ds \<noteq> [] \<and> list_all is_digit ds \<and>
        int (dec_val ds) = sint u \<and> (sg = ''-'' \<longrightarrow> u = 0))) \<and>
   (DecodeCursor c = Inl (ErrCorrectable CodeInvalidReq) \<or> (\<exists>x. DecodeCursor c = Inr x))"
proof -
  have raw: "b64_decode (EncodeCursor v) = Some (show_int (sint v))" for v by (simp add: EncodeCursor_def b64_roundtrip)
  then have "EncodeCursor v = EncodeCursor w \<longleftrightarrow> v = w" using parse_int64_shown by (metis option.inject)
  moreover have "DecodeCursor (EncodeCursor v) = (if 0 \<le> sint v then Inr v else Inl (ErrCorrectable CodeInvalidReq))"
    using ledger_cursor.enc_not_Nil [of v] by (simp add: DecodeCursor_def raw parse_int64_shown)
  moreover have "DecodeCursor c = Inr u \<longleftrightarrow> c = [] \<and> u = 0 \<or>
      (\<exists>raw. b64_decode c = Some raw \<and> parse_int64 raw = Some u \<and> 0 \<le> sint u)"
  proof (cases "c = []")
    case True
    have "b64_decode [] = Some []" "parse_int64 [] = None" by (simp_all add: b64_decode_def parse_int64_def)
    then show ?thesis using True by (auto simp: DecodeCursor_def)
  next
    case False
    then show ?thesis by (auto simp: DecodeCursor_def split: option.splits)
  qed
  moreover have "DecodeCursor c = Inl (ErrCorrectable CodeInvalidReq) \<or> (\<exists>x. DecodeCursor c = Inr x)"
    by (simp add: DecodeCursor_def split: option.split)
  ultimately show ?thesis unfolding parse_int64_natural by blast
qed

lemma DecodeCursor_EncodeCursor_witness:
  "DecodeCursor (EncodeCursor 42) = Inr 42 \<and> DecodeCursor (b64_encode ''+07'') = Inr 7"
proof -
  have d: "list_all is_digit ''07'' \<and> dec_val ''07'' = 7" by code_simp
  have "b64_decode (b64_encode ''+07'') = Some (''+'' @ ''07'')" by (simp add: b64_roundtrip)
  moreover have "''+'' \<in> {[], ''+'', ''-''}" "''07'' \<noteq> []" "int (dec_val ''07'') = sint (7 :: i64)" "''+'' = ''-'' \<longrightarrow> (7 :: i64) = 0"
    using d by simp_all
  ultimately have "DecodeCursor (b64_encode ''+07'') = Inr 7"
    using DecodeCursor_EncodeCursor [of 42 42 "b64_encode ''+07''" 7] d by blast
  then show ?thesis using DecodeCursor_EncodeCursor [of 42 42 "[]" 0] by simp
qed

section \<open>Pages\<close>

record ledger_page =
  p_entries :: "ledger_row list"
  p_next :: string

definition page_limit :: "int \<Rightarrow> nat" where
  "page_limit limit = nat (let l = (if limit \<le> 0 then LedgerDefaultLimit else limit) in
     if l > LedgerMaxLimit then LedgerMaxLimit else l)"

text \<open>One row more than the page is read, to see whether another page follows.\<close>

definition page_of :: "nat \<Rightarrow> ledger_row list \<Rightarrow> ledger_page" where
  "page_of limit rows = (if length rows > limit
     then \<lparr>p_entries = take limit rows, p_next = EncodeCursor (l_version (last (take limit rows)))\<rparr>
     else \<lparr>p_entries = rows, p_next = []\<rparr>)"

definition PageLedger :: "env \<Rightarrow> string \<Rightarrow> string \<Rightarrow> int \<Rightarrow> ledger_page action" where
  "PageLedger E walletID cursor limit = (case DecodeCursor cursor of
     Inl e \<Rightarrow> fail e
   | Inr after \<Rightarrow>
     bind (autocommit (ledger_Page E walletID after (page_limit limit + 1))) (\<lambda>rows.
     ret (page_of (page_limit limit) rows)))"

section \<open>Reconciliation\<close>

record reconciliation =
  rc_wallet :: string
  rc_stored :: money
  rc_calculated :: money
  rc_difference :: money
  rc_consistent :: bool
  rc_checked :: nat

text \<open>\<^verbatim>\<open>TransactRepeatableRead\<close>: the isolation level is set by the first statement of the transaction. It makes no
  difference to a transaction that is alone; \<open>Snapshots\<close> lets others commit between the statements of a
  reconciliation, at either level.\<close>

definition TransactRepeatableRead :: "env \<Rightarrow> 'a action \<Rightarrow> 'a action" where
  "TransactRepeatableRead E m = transact E (bind (stmt E (\<lambda>T. Inr ((), T))) (\<lambda>_. m))"

definition apply_entry :: "money \<Rightarrow> ledger_row \<Rightarrow> serr + money" where
  "apply_entry calculated e = (case NewMoneyFromMinor (l_amount e) (l_currency e) of
     Inl c \<Rightarrow> Inl (ErrDomain c)
   | Inr m \<Rightarrow> (case l_direction e of
       DirectionCredit \<Rightarrow> (case money_Add calculated m of Inl c \<Rightarrow> Inl (ErrDomain c) | Inr x \<Rightarrow> Inr x)
     | DirectionDebit \<Rightarrow> (case money_Sub calculated m of Inl c \<Rightarrow> Inl (ErrDomain c) | Inr x \<Rightarrow> Inr x)
     | _ \<Rightarrow> Inl (ErrOther ''unknown ledger direction'')))"

fun apply_entries :: "money \<Rightarrow> ledger_row list \<Rightarrow> serr + money" where
  "apply_entries calculated [] = Inr calculated"
| "apply_entries calculated (e # es) = (case apply_entry calculated e of
     Inl err \<Rightarrow> Inl err | Inr x \<Rightarrow> apply_entries x es)"

definition compare_balance :: "string \<Rightarrow> money \<Rightarrow> money \<Rightarrow> nat \<Rightarrow> code + reconciliation" where
  "compare_balance walletID stored calculated n = rbind (money_Sub stored calculated) (\<lambda>diff.
     rbind (money_Cmp stored calculated) (\<lambda>cmp.
     Inr \<lparr>rc_wallet = walletID, rc_stored = stored, rc_calculated = calculated, rc_difference = diff,
          rc_consistent = (cmp = 0), rc_checked = n\<rparr>))"

definition lift_error :: "serr + 'a \<Rightarrow> 'a action" where
  "lift_error r = (case r of Inl e \<Rightarrow> fail e | Inr x \<Rightarrow> ret x)"

definition reconcile_body :: "env \<Rightarrow> string \<Rightarrow> reconciliation action" where
  "reconcile_body E walletID = bind (wallet_Get E walletID) (\<lambda>mw. case mw of
     None \<Rightarrow> fail (ErrCorrectable CodeWalletMissing)
   | Some wallet \<Rightarrow>
     bind (AllOrdered E walletID) (\<lambda>entries.
     bind (lift_domain (NewMoneyFromMinor (wr_balance wallet) (wr_currency wallet))) (\<lambda>stored.
     bind (lift_domain (NewMoneyFromMinor 0 (wr_currency wallet))) (\<lambda>zero.
     bind (lift_error (apply_entries zero entries)) (\<lambda>calculated.
     lift_domain (compare_balance walletID stored calculated (length entries)))))))"

definition Reconcile :: "env \<Rightarrow> string \<Rightarrow> reconciliation action" where
  "Reconcile E walletID = TransactRepeatableRead E (reconcile_body E walletID)"

text \<open>What is logged and reported after the transaction: nothing when the balances agree.\<close>

definition divergence_report :: "reconciliation \<Rightarrow> (string \<times> string \<times> string \<times> string \<times> nat) option" where
  "divergence_report out = (if rc_consistent out then None
     else Some (rc_wallet out, money_String (rc_stored out), money_String (rc_calculated out),
       money_String (rc_difference out), rc_checked out))"

end
