(* ===== verification/Http_Api.thy ===== *)
theory Http_Api
  imports Submit Open_Wallet Reconcile
begin

text \<open>
  \<^verbatim>\<open>internal/adapters/http\<close>: identities and roles, the authentication and correlation middleware, and the
  handlers of the business routes. What gin and \<^verbatim>\<open>encoding/json\<close> do is in the request: the selected route with
  its path parameters, the headers and query values, and the bound body (None when binding fails). The
  human-readable message of an error body is left out, as errors carry only their codes.
\<close>

section \<open>Text\<close>

text \<open>\<^verbatim>\<open>strings.TrimSpace\<close>: the UTF-8 encodings of the Unicode white space are cut from both ends.\<close>

definition space_runes :: "nat list list" where
  "space_runes = map (\<lambda>b. [b]) [9, 10, 11, 12, 13, 32] @ [[0xC2, 0x85], [0xC2, 0xA0], [0xE1, 0x9A, 0x80]] @
     map (\<lambda>b. [0xE2, 0x80, b]) ([0x80..<0x8B] @ [0xA8, 0xA9, 0xAF]) @ [[0xE2, 0x81, 0x9F], [0xE3, 0x80, 0x80]]"

fun strip :: "nat list list \<Rightarrow> nat \<Rightarrow> string \<Rightarrow> string" where
  "strip rs 0 s = s"
| "strip rs (Suc n) s = (case find (\<lambda>r. take (length r) (map of_char s) = r) rs of
     None \<Rightarrow> s | Some r \<Rightarrow> strip rs n (drop (length r) s))"

definition TrimSpace :: "string \<Rightarrow> string" where
  "TrimSpace s = (let t = strip space_runes (length s) s in rev (strip (map rev space_runes) (length t) (rev t)))"

definition to_lower :: "char \<Rightarrow> char" where
  "to_lower c = (if 65 \<le> (of_char c :: nat) \<and> (of_char c :: nat) \<le> 90 then char_of ((of_char c :: nat) + 32) else c)"

section \<open>Identities\<close>

record identity =
  id_provider :: string
  id_roles :: "string set"

definition RoleProvider :: string where "RoleProvider = ''provider''"
definition RoleInternal :: string where "RoleInternal = ''internal''"

definition HasRole :: "identity \<Rightarrow> string \<Rightarrow> bool" where
  "HasRole i role \<longleftrightarrow> role \<in> id_roles i"

text \<open>A validator answers a token with an identity, or refuses it.\<close>

type_synonym validator = "string \<Rightarrow> identity option"

definition StaticValidator :: "(string \<times> identity) list \<Rightarrow> validator" where
  "StaticValidator tokens token = map_of tokens token"

section \<open>Responses\<close>

datatype hval = HStr string | HInt int | HBool bool | HMap "(string \<times> hval) list" | HList "hval list"

record response =
  h_status :: nat
  h_headers :: "(string \<times> string) list"
  h_body :: hval

definition respond :: "nat \<Rightarrow> hval \<Rightarrow> response" where
  "respond code body = \<lparr>h_status = code, h_headers = [], h_body = body\<rparr>"

definition abortError :: "nat \<Rightarrow> string \<Rightarrow> response" where
  "abortError code errCode = respond code (HMap [(''code'', HStr errCode)])"

definition writeInfraError :: response where
  "writeInfraError = (abortError 503 ''TEMPORARILY_UNAVAILABLE'')\<lparr>h_headers := [(''Retry-After'', ''1'')]\<rparr>"

definition writeServiceError :: "serr \<Rightarrow> response" where
  "writeServiceError e = (case e of
     ErrCorrectable c \<Rightarrow> abortError 400 c
   | ErrConflict c \<Rightarrow> abortError 409 c
   | _ \<Rightarrow> writeInfraError)"

definition moneyBody :: "money \<Rightarrow> hval" where
  "moneyBody m = HMap [(''amount'', HStr (money_String m)), (''currency'', HStr (currency m))]"

definition minorBody :: "i64 \<Rightarrow> string \<Rightarrow> hval" where
  "minorBody a cur = (case NewMoneyFromMinor a cur of
     Inr m \<Rightarrow> moneyBody m
   | Inl _ \<Rightarrow> HMap [(''amount'', HStr ''0''), (''currency'', HStr cur)])"

definition walletBody :: "wallet_row \<Rightarrow> hval" where
  "walletBody r = HMap [(''walletId'', HStr (wr_id r)), (''playerId'', HStr (wr_player r)),
     (''currency'', HStr (wr_currency r)), (''balance'', minorBody (wr_balance r) (wr_currency r)),
     (''version'', HInt (sint (wr_version r)))]"

definition opt_field :: "string \<Rightarrow> ('a \<Rightarrow> hval) \<Rightarrow> 'a option \<Rightarrow> (string \<times> hval) list" where
  "opt_field k f p = (case p of None \<Rightarrow> [] | Some x \<Rightarrow> [(k, f x)])"

fun state_text :: "tx_state \<Rightarrow> string" where
  "state_text StatePending = ''PENDING''"
| "state_text StatePendingReference = ''PENDING_REFERENCE''"
| "state_text StateProcessed = ''PROCESSED''"
| "state_text StateRejected = ''REJECTED''"
| "state_text StateFailed = ''FAILED''"

text \<open>The read contract that both transaction routes share.\<close>

definition transactionBody :: "tx_row \<Rightarrow> hval" where
  "transactionBody r = HMap ([(''transactionId'', HStr (t_id r)), (''kind'', HStr (kind_text (t_kind r))),
       (''status'', HStr (state_text (t_state r))), (''idempotentReplay'', HBool False), (''playerId'', HStr (t_player r)),
       (''walletId'', HStr (t_wallet r)), (''amount'', minorBody (t_amount r) (t_currency r))] @
     opt_field ''providerId'' HStr (t_provider r) @ opt_field ''externalTransactionId'' HStr (t_external r) @
     opt_field ''failureCode'' HStr (t_failure r) @
     opt_field ''referenceExternalTransactionId'' HStr (t_ref_external r) @
     (case (t_result r, t_result_currency r) of (Some m, Some c) \<Rightarrow> [(''balance'', minorBody m c)] | _ \<Rightarrow> []) @
     opt_field ''walletVersion'' (\<lambda>v. HInt (sint v)) (t_version r))"

text \<open>The status and the status text of a durable outcome, and the label it is counted under.\<close>

definition submit_status :: "submit_result \<Rightarrow> string \<times> nat" where
  "submit_status r = (case sr_outcome r of
     OutcomeProcessed \<Rightarrow> (''PROCESSED'', 201)
   | OutcomeRejected \<Rightarrow> (''REJECTED'', 422)
   | OutcomePending \<Rightarrow> (''PENDING'', 202)
   | OutcomeReplay \<Rightarrow> if sr_failure r \<noteq> [] then (''REJECTED'', 422) else (''PROCESSED'', 200))"

definition writeSubmitResult :: "submit_result \<Rightarrow> response" where
  "writeSubmitResult r = respond (snd (submit_status r)) (HMap ([(''transactionId'', HStr (sr_tx r)),
       (''status'', HStr (fst (submit_status r))), (''idempotentReplay'', HBool (sr_replay r))] @
     (if sr_failure r \<noteq> [] then [(''failureCode'', HStr (sr_failure r))] else []) @
     (case sr_balance r of None \<Rightarrow> []
      | Some b \<Rightarrow> [(''balance'', moneyBody b), (''walletVersion'', HInt (sint (sr_version r)))])))"

text \<open>A panic ends in gin's recovery middleware, which answers 500; every other error of a use-case is mapped.\<close>

definition answer :: "'a action \<Rightarrow> (serr \<Rightarrow> response) \<Rightarrow> ('a \<Rightarrow> response) \<Rightarrow> response action" where
  "answer m bad good_reply = bind (attempt m) (\<lambda>r. ret (case r of
     Inl e \<Rightarrow> if e = ErrOther ''panic'' then respond 500 (HMap []) else bad e
   | Inr x \<Rightarrow> good_reply x))"

definition forbidden :: response where "forbidden = abortError 403 ''PROVIDER_FORBIDDEN''"

definition bad_request :: response where "bad_request = abortError 400 CodeInvalidReq"

section \<open>Handlers\<close>

text \<open>An identity is present on every protected route; \<open>requireRole\<close> returns it when it carries the role.\<close>

definition requireRole :: "identity option \<Rightarrow> string \<Rightarrow> identity option" where
  "requireRole ident role = (case ident of None \<Rightarrow> None | Some i \<Rightarrow> if HasRole i role then Some i else None)"

record open_request =
  o_player :: string
  o_currency :: string
  o_initial :: string

record submit_request =
  q_provider :: string
  q_external :: string
  q_player :: string
  q_wallet :: string
  q_round :: string
  q_game :: string
  q_kind :: string
  q_amount :: string
  q_currency :: string
  q_ref :: string

definition openWallet :: "env \<Rightarrow> identity option \<Rightarrow> open_request option \<Rightarrow> response action" where
  "openWallet E ident body = (case requireRole ident RoleInternal of
     None \<Rightarrow> ret forbidden
   | Some _ \<Rightarrow> (case body of
       None \<Rightarrow> ret bad_request
     | Some q \<Rightarrow>
       if TrimSpace (o_player q) = [] \<or> TrimSpace (o_currency q) = [] \<or> TrimSpace (o_initial q) = [] then ret bad_request
       else answer (OpenWallet E (o_player q) (o_currency q) (o_initial q)) writeServiceError
         (\<lambda>r. respond 201 (walletBody r))))"

definition wallet_missing :: response where "wallet_missing = abortError 404 CodeWalletMissing"

definition getWallet :: "env \<Rightarrow> identity option \<Rightarrow> string \<Rightarrow> response action" where
  "getWallet E ident wid = (case requireRole ident RoleInternal of
     None \<Rightarrow> ret forbidden
   | Some _ \<Rightarrow> answer (autocommit (wallet_Get E wid)) (\<lambda>_. writeInfraError)
       (\<lambda>r. case r of None \<Rightarrow> wallet_missing | Some x \<Rightarrow> respond 200 (walletBody x)))"

definition entryBody :: "ledger_row \<Rightarrow> hval" where
  "entryBody e = HMap [(''transactionId'', HStr (l_tx e)), (''direction'', HStr (direction_text (l_direction e))),
     (''amount'', minorBody (l_amount e) (l_currency e)), (''balanceBefore'', minorBody (l_before e) (l_currency e)),
     (''balanceAfter'', minorBody (l_after e) (l_currency e)), (''walletVersion'', HInt (sint (l_version e)))]"

definition pageBody :: "ledger_page \<Rightarrow> hval" where
  "pageBody p = HMap [(''entries'', HList (map entryBody (p_entries p))), (''nextCursor'', HStr (p_next p))]"

definition limit_query :: "string \<Rightarrow> int option" where
  "limit_query raw = (if raw = [] then Some 0 else map_option sint (parse_int64 raw))"

definition pageLedger :: "env \<Rightarrow> identity option \<Rightarrow> string \<Rightarrow> string \<Rightarrow> string \<Rightarrow> response action" where
  "pageLedger E ident wid limit cursor = (case requireRole ident RoleInternal of
     None \<Rightarrow> ret forbidden
   | Some _ \<Rightarrow> bind (attempt (autocommit (wallet_Get E wid))) (\<lambda>r. case r of
       Inl _ \<Rightarrow> ret writeInfraError
     | Inr None \<Rightarrow> ret wallet_missing
     | Inr (Some _) \<Rightarrow> (case limit_query limit of
         None \<Rightarrow> ret bad_request
       | Some n \<Rightarrow> answer (PageLedger E wid cursor n) writeServiceError (\<lambda>p. respond 200 (pageBody p)))))"

definition reconciliationBody :: "reconciliation \<Rightarrow> hval" where
  "reconciliationBody r = HMap [(''walletId'', HStr (rc_wallet r)), (''storedBalance'', moneyBody (rc_stored r)),
     (''calculatedBalance'', moneyBody (rc_calculated r)), (''difference'', moneyBody (rc_difference r)),
     (''consistent'', HBool (rc_consistent r)), (''checkedEntries'', HInt (int (rc_checked r)))]"

definition reconcile :: "env \<Rightarrow> identity option \<Rightarrow> string \<Rightarrow> response action" where
  "reconcile E ident wid = (case requireRole ident RoleInternal of
     None \<Rightarrow> ret forbidden
   | Some _ \<Rightarrow> answer (Reconcile E wid)
       (\<lambda>e. if e = ErrCorrectable CodeWalletMissing then wallet_missing else writeServiceError e)
       (\<lambda>r. respond 200 (reconciliationBody r)))"

definition request_input :: "submit_request \<Rightarrow> string \<Rightarrow> string \<Rightarrow> submit_input" where
  "request_input q key corr = \<lparr>s_provider = q_provider q, s_external = q_external q, s_key = key,
     s_player = q_player q, s_wallet = q_wallet q, s_round = q_round q, s_game = q_game q,
     s_kind = kind_of (q_kind q), s_amount = q_amount q, s_currency = q_currency q, s_ref = q_ref q,
     s_consumer = [], s_message = [], s_correlation = corr\<rparr>"

definition submitTransaction ::
  "env \<Rightarrow> identity option \<Rightarrow> string \<Rightarrow> string \<Rightarrow> submit_request option \<Rightarrow> response action" where
  "submitTransaction E ident corr header body = (case requireRole ident RoleProvider of
     None \<Rightarrow> ret forbidden
   | Some i \<Rightarrow>
     let key = TrimSpace header in
     if key = [] \<or> length key > 255 then ret bad_request
     else (case body of
       None \<Rightarrow> ret bad_request
     | Some q \<Rightarrow>
       if q_provider q \<noteq> id_provider i then ret forbidden
       else answer (Submit E (request_input q key corr)) writeServiceError writeSubmitResult))"

definition transaction_missing :: response where
  "transaction_missing = abortError 404 ''TRANSACTION_NOT_FOUND''"

definition getTransaction :: "env \<Rightarrow> identity option \<Rightarrow> string \<Rightarrow> response action" where
  "getTransaction E ident txID = (case ident of
     None \<Rightarrow> ret forbidden
   | Some i \<Rightarrow> answer (autocommit (tx_Get E txID)) (\<lambda>_. writeInfraError) (\<lambda>r. case r of
       None \<Rightarrow> transaction_missing
     | Some x \<Rightarrow>
       if \<not> HasRole i RoleInternal \<and>
          (\<not> HasRole i RoleProvider \<or> t_provider x = None \<or> t_provider x \<noteq> Some (id_provider i)) then forbidden
       else respond 200 (transactionBody x)))"

definition getTransactionByExternal :: "env \<Rightarrow> identity option \<Rightarrow> string \<Rightarrow> string \<Rightarrow> response action" where
  "getTransactionByExternal E ident provider external = (case ident of
     None \<Rightarrow> ret forbidden
   | Some i \<Rightarrow>
     if \<not> HasRole i RoleInternal \<and> (\<not> HasRole i RoleProvider \<or> provider \<noteq> id_provider i) then ret forbidden
     else answer (autocommit (FindByProviderExternal E provider external)) (\<lambda>_. writeInfraError) (\<lambda>r. case r of
       None \<Rightarrow> transaction_missing | Some x \<Rightarrow> respond 200 (transactionBody x)))"

section \<open>Middleware and routes\<close>

definition bearerToken :: "string \<Rightarrow> string" where
  "bearerToken header = (if header = [] then []
     else case index_byte header (CHR '' '') of
       None \<Rightarrow> []
     | Some n \<Rightarrow> if map to_lower (take n header) \<noteq> ''bearer'' then [] else TrimSpace (drop (Suc n) header))"

definition AuthMiddleware :: "validator \<Rightarrow> string \<Rightarrow> identity option" where
  "AuthMiddleware V header = (let token = bearerToken header in if token = [] then None else V token)"

definition unauthenticated :: response where "unauthenticated = abortError 401 ''UNAUTHENTICATED''"

text \<open>The inbound correlation id wins; otherwise an id is minted.\<close>

definition correlation :: "env \<Rightarrow> string \<Rightarrow> string action" where
  "correlation E header = (if TrimSpace header = [] then newID E else ret header)"

datatype route = Live | Ready
  | PostWallets "open_request option"
  | GetWallet string
  | GetLedger string string string
  | GetReconciliation string
  | PostTransactions string "submit_request option"
  | GetTransaction string
  | GetProviderTransaction string string

record http_request =
  r_route :: route
  r_authorization :: string
  r_correlation :: string

definition handle_protected :: "env \<Rightarrow> identity option \<Rightarrow> string \<Rightarrow> route \<Rightarrow> response action" where
  "handle_protected E ident corr r = (case r of
     PostWallets body \<Rightarrow> openWallet E ident body
   | GetWallet wid \<Rightarrow> getWallet E ident wid
   | GetLedger wid limit cursor \<Rightarrow> pageLedger E ident wid limit cursor
   | GetReconciliation wid \<Rightarrow> reconcile E ident wid
   | PostTransactions key body \<Rightarrow> submitTransaction E ident corr key body
   | GetTransaction txID \<Rightarrow> getTransaction E ident txID
   | GetProviderTransaction p e \<Rightarrow> getTransactionByExternal E ident p e
   | _ \<Rightarrow> ret (respond 404 (HMap [])))"

text \<open>\<open>check\<close> is the answer of the readiness check, None when there is none.\<close>

definition ready :: "bool option \<Rightarrow> response" where
  "ready check = (if check = Some False then respond 503 (HMap [(''status'', HStr ''not_ready'')])
     else respond 200 (HMap [(''status'', HStr ''ready'')]))"

definition route_request :: "env \<Rightarrow> validator \<Rightarrow> bool option \<Rightarrow> string \<Rightarrow> http_request \<Rightarrow> response action" where
  "route_request E V check corr q = (case r_route q of
     Live \<Rightarrow> ret (respond 200 (HMap [(''status'', HStr ''alive'')]))
   | Ready \<Rightarrow> ret (ready check)
   | _ \<Rightarrow> (case AuthMiddleware V (r_authorization q) of
       None \<Rightarrow> ret unauthenticated
     | Some i \<Rightarrow> handle_protected E (Some i) corr (r_route q)))"

definition serve :: "env \<Rightarrow> validator \<Rightarrow> bool option \<Rightarrow> http_request \<Rightarrow> response action" where
  "serve E V check q = bind (correlation E (r_correlation q)) (\<lambda>corr.
     bind (route_request E V check corr q) (\<lambda>resp.
     ret (resp\<lparr>h_headers := (''X-Correlation-Id'', corr) # h_headers resp\<rparr>)))"

section \<open>Metrics\<close>

text \<open>The label a durable outcome is counted under, and whether it also counts as an idempotent replay.\<close>

definition recordTxResult :: "submit_result \<Rightarrow> string \<times> bool" where
  "recordTxResult r = (case sr_outcome r of OutcomeProcessed \<Rightarrow> ''processed'' | OutcomeRejected \<Rightarrow> ''rejected''
     | OutcomePending \<Rightarrow> ''pending'' | OutcomeReplay \<Rightarrow> ''replay'', sr_replay r)"

definition statusClass :: "nat \<Rightarrow> string" where
  "statusClass code = (if code < 300 then ''2xx'' else if code < 400 then ''3xx'' else if code < 500 then ''4xx'' else ''5xx'')"

end
