(* ===== verification/Oidc.thy ===== *)
theory Oidc
  imports Base64 Http_Api
begin

text \<open>
  \<^verbatim>\<open>internal/adapters/http/oidc.go\<close>: the validator of Keycloak access tokens and its cache of signing keys. The
  JWT library enters as two functions of the token: its decoded header and claims, and whether the library
  accepts signature and time claims under a key; \<^verbatim>\<open>url.Parse\<close> enters as the path of a URL. Clock readings and the
  reply to a key fetch are inputs of each call.
\<close>

section \<open>Signing keys\<close>

record rsa_key =
  k_n :: nat
  k_e :: i64

record jwks_key =
  j_kid :: string
  j_kty :: string
  j_n :: string
  j_e :: string

text \<open>The reply to a fetch: none when the request fails, otherwise the status and the decoded document.\<close>

type_synonym fetch_reply = "(nat \<times> jwks_key list option) option"

record key_cache =
  ck_keys :: "(string, rsa_key) map"
  ck_fetched :: time

definition empty_cache :: key_cache where
  "empty_cache = \<lparr>ck_keys = Map.empty, ck_fetched = zero_time\<rparr>"

definition jwksCacheTTL :: int where "jwksCacheTTL = 300000000000"

definition ClockSkewLeeway :: int where "ClockSkewLeeway = 30000000000"

definition big_endian :: "string \<Rightarrow> nat" where
  "big_endian bs = fold (\<lambda>b n. n * 256 + of_char b) bs 0"

text \<open>The exponent is accumulated in an \<^verbatim>\<open>int\<close>, which wraps.\<close>

definition exponent :: "string \<Rightarrow> i64" where
  "exponent bs = fold (\<lambda>b e. push_bit 8 e + of_nat (of_char b)) bs 0"

text \<open>Keys of other types, without an id or with unreadable numbers are skipped.\<close>

definition rsa_key_of :: "jwks_key \<Rightarrow> (string \<times> rsa_key) option" where
  "rsa_key_of k = (if j_kty k \<noteq> ''RSA'' \<or> j_kid k = [] then None
     else case b64_decode (j_n k) of
       None \<Rightarrow> None
     | Some n \<Rightarrow> (case b64_decode (j_e k) of
         None \<Rightarrow> None
       | Some e \<Rightarrow> Some (j_kid k, \<lparr>k_n = big_endian n, k_e = exponent e\<rparr>)))"

text \<open>The map of the usable keys; a later key replaces an earlier one with the same id.\<close>

definition jwks_keys :: "jwks_key list \<Rightarrow> (string, rsa_key) map" where
  "jwks_keys doc = fold (\<lambda>k m. case rsa_key_of k of None \<Rightarrow> m | Some (kid, r) \<Rightarrow> m(kid \<mapsto> r)) doc Map.empty"

definition usable :: "jwks_key list \<Rightarrow> bool" where
  "usable doc \<longleftrightarrow> list_ex (\<lambda>k. rsa_key_of k \<noteq> None) doc"

text \<open>\<^verbatim>\<open>refreshLocked\<close>: only a document with a usable key replaces the cache. \<open>t\<close> is the time after the fetch.\<close>

definition refreshLocked :: "fetch_reply \<Rightarrow> time \<Rightarrow> key_cache \<Rightarrow> bool \<times> key_cache" where
  "refreshLocked reply t c = (case reply of
     None \<Rightarrow> (False, c)
   | Some (status, body) \<Rightarrow>
     if status \<noteq> 200 then (False, c)
     else (case body of
       None \<Rightarrow> (False, c)
     | Some doc \<Rightarrow> if \<not> usable doc then (False, c)
         else (True, \<lparr>ck_keys = jwks_keys doc, ck_fetched = t\<rparr>)))"

definition cached :: "key_cache \<Rightarrow> time \<Rightarrow> string \<Rightarrow> rsa_key option" where
  "cached c t kid = (if time_Sub t (ck_fetched c) < jwksCacheTTL then ck_keys c kid else None)"

text \<open>What a call observes besides the token: the clock before and after a possible fetch, the reply to it, and
  the readings of the library and of the validator.\<close>

record moment =
  m_before :: time
  m_reply :: fetch_reply
  m_after :: time
  m_library :: time
  m_now :: time

definition keyFor :: "moment \<Rightarrow> string \<Rightarrow> key_cache \<Rightarrow> rsa_key option \<times> key_cache" where
  "keyFor m kid c = (case cached c (m_before m) kid of
     Some k \<Rightarrow> (Some k, c)
   | None \<Rightarrow> (case refreshLocked (m_reply m) (m_after m) c of
       (False, c') \<Rightarrow> (None, c')
     | (True, c') \<Rightarrow> (ck_keys c' kid, c')))"

section \<open>Tokens\<close>

text \<open>A decoded JSON value of a claim; an object is a Go map, so its keys are unique.\<close>

datatype claim = CStr string | CList "claim list" | CObj "(string \<times> claim) list" | COther

text \<open>The claims as the library's accessors read them: None is an error, and an absent time is \<open>Some None\<close>.\<close>

record claims =
  c_issuer :: "string option"
  c_expires :: "time option option"
  c_not_before :: "time option option"
  c_audience :: "string list option"
  c_realm_access :: "claim option"
  c_provider_id :: "claim option"

record token =
  tk_alg :: string
  tk_kid :: "claim option"
  tk_claims :: claims

record jwt_library =
  lib_decode :: "string \<Rightarrow> token option"
  lib_accepts :: "string \<Rightarrow> rsa_key \<Rightarrow> time \<Rightarrow> int \<Rightarrow> bool"
  lib_url_path :: "string \<Rightarrow> string option"

record oidc_config =
  oc_issuer :: string
  oc_audience :: string
  oc_leeway :: int

definition leeway :: "oidc_config \<Rightarrow> int" where
  "leeway v = (if oc_leeway v \<noteq> 0 then oc_leeway v else ClockSkewLeeway)"

definition claim_text :: "claim option \<Rightarrow> string" where
  "claim_text c = (case c of Some (CStr s) \<Rightarrow> s | _ \<Rightarrow> [])"

text \<open>A configured issuer without a path accepts every issuer that is present.\<close>

definition checkIssuer :: "jwt_library \<Rightarrow> string \<Rightarrow> claims \<Rightarrow> bool" where
  "checkIssuer J configured cl = (case c_issuer cl of
     None \<Rightarrow> False
   | Some iss \<Rightarrow> iss \<noteq> [] \<and> (case lib_url_path J configured of
       None \<Rightarrow> False
     | Some want \<Rightarrow> want = [] \<or> lib_url_path J iss = Some want))"

definition audContains :: "string list \<Rightarrow> string \<Rightarrow> bool" where
  "audContains aud want \<longleftrightarrow> list_ex (\<lambda>a. a = want) aud"

definition realm_roles :: "claims \<Rightarrow> string set" where
  "realm_roles cl = (case c_realm_access cl of
     Some (CObj ra) \<Rightarrow> (case map_of ra ''roles'' of
       Some (CList xs) \<Rightarrow> set (concat (map (\<lambda>x. case x of CStr s \<Rightarrow> [s] | _ \<Rightarrow> []) xs))
     | _ \<Rightarrow> {})
   | _ \<Rightarrow> {})"

definition checkClaims :: "jwt_library \<Rightarrow> oidc_config \<Rightarrow> time \<Rightarrow> claims \<Rightarrow> identity option" where
  "checkClaims J v t cl =
    (if \<not> checkIssuer J (oc_issuer v) cl then None
     else case c_expires cl of
       None \<Rightarrow> None
     | Some None \<Rightarrow> None
     | Some (Some e) \<Rightarrow>
       if t > e + leeway v then None
       else (case c_not_before cl of
         None \<Rightarrow> None
       | Some nbf \<Rightarrow>
         if (case nbf of None \<Rightarrow> False | Some b \<Rightarrow> t < b - leeway v) then None
         else if oc_audience v \<noteq> [] \<and> (case c_audience cl of None \<Rightarrow> True
             | Some aud \<Rightarrow> aud = [] \<or> \<not> audContains aud (oc_audience v)) then None
         else
           let roles = realm_roles cl; provider = claim_text (c_provider_id cl) in
           if RoleProvider \<in> roles \<and> provider = [] then None
           else Some \<lparr>id_provider = provider, id_roles = roles\<rparr>))"

text \<open>\<^verbatim>\<open>ParseWithClaims\<close> decodes the token, refuses other methods than RS256, asks the key function and verifies
  with its key.\<close>

definition ValidateToken :: "jwt_library \<Rightarrow> oidc_config \<Rightarrow> moment \<Rightarrow> string \<Rightarrow> key_cache \<Rightarrow> identity option \<times> key_cache" where
  "ValidateToken J v m tok c = (case lib_decode J tok of
     None \<Rightarrow> (None, c)
   | Some t \<Rightarrow>
     if tk_alg t \<noteq> ''RS256'' then (None, c)
     else (case keyFor m (claim_text (tk_kid t)) c of
       (None, c') \<Rightarrow> (None, c')
     | (Some k, c') \<Rightarrow>
       if \<not> lib_accepts J tok k (m_library m) (leeway v) then (None, c')
       else (checkClaims J v (m_now m) (tk_claims t), c')))"

section \<open>The key map\<close>

lemma jwks_keys_fold:
  "fold (\<lambda>k m. case rsa_key_of k of None \<Rightarrow> m | Some (kid, r) \<Rightarrow> m(kid \<mapsto> r)) doc m =
    m ++ map_of (rev (List.map_filter rsa_key_of doc))"
  by (induction doc arbitrary: m) (auto simp: List.map_filter_simps split: option.splits)

lemma jwks_keys_map_of: "jwks_keys doc = map_of (rev (List.map_filter rsa_key_of doc))"
  by (simp add: jwks_keys_def jwks_keys_fold)

lemma usable_iff: "usable doc \<longleftrightarrow> jwks_keys doc \<noteq> Map.empty"
  by (auto simp: jwks_keys_map_of usable_def list_ex_iff List.map_filter_def filter_empty_conv)

section \<open>The cache as a state machine\<close>

text \<open>Every lookup is a step; the cache is what the lookups so far have left.\<close>

definition run_lookups :: "(moment \<times> string) list \<Rightarrow> key_cache \<Rightarrow> key_cache" where
  "run_lookups calls c = fold (\<lambda>(m, kid) c. snd (keyFor m kid c)) calls c"

text \<open>A cache holds the keys of one fetched document, with the time of that fetch.\<close>

definition fetched_by :: "moment \<Rightarrow> key_cache \<Rightarrow> bool" where
  "fetched_by m c \<longleftrightarrow> (\<exists>doc. m_reply m = Some (200, Some doc) \<and> ck_keys c = jwks_keys doc \<and> ck_fetched c = m_after m)"

definition provenance :: "moment set \<Rightarrow> key_cache \<Rightarrow> bool" where
  "provenance M c \<longleftrightarrow> ck_keys c = Map.empty \<or> (\<exists>m \<in> M. fetched_by m c)"

lemma refreshLocked_cases:
  "refreshLocked reply t c = (ok, c') \<Longrightarrow> \<not> ok \<and> c' = c \<or>
    ok \<and> (\<exists>doc. reply = Some (200, Some doc) \<and> usable doc \<and> c' = \<lparr>ck_keys = jwks_keys doc, ck_fetched = t\<rparr>)"
  by (auto simp: refreshLocked_def split: option.splits if_splits)

lemma keyFor_cases:
  assumes "keyFor m kid c = (r, c')"
  shows "c' = c \<and> r = cached c (m_before m) kid \<or> fetched_by m c' \<and> r = ck_keys c' kid"
proof (cases "cached c (m_before m) kid")
  case None
  obtain ok d where d: "refreshLocked (m_reply m) (m_after m) c = (ok, d)" by (cases "refreshLocked (m_reply m) (m_after m) c")
  with assms None refreshLocked_cases [OF d] show ?thesis by (auto simp: keyFor_def fetched_by_def split: bool.splits)
qed (use assms in \<open>simp add: keyFor_def\<close>)

lemma keyFor_provenance: "provenance M c \<Longrightarrow> provenance (insert m M) (snd (keyFor m kid c))"
  using keyFor_cases [of m kid c] by (cases "keyFor m kid c") (auto simp: provenance_def)

lemma run_lookups_provenance: "provenance M c \<Longrightarrow> provenance (M \<union> fst ` set calls) (run_lookups calls c)"
proof (induction calls arbitrary: M c)
  case (Cons call calls)
  obtain m kid where [simp]: "call = (m, kid)" by (cases call)
  from Cons.IH [OF keyFor_provenance [OF Cons.prems, of m kid]] show ?case by (simp add: run_lookups_def)
qed (simp add: run_lookups_def)

text \<open>Signing keys are current. After any lookups, a key is returned only if it is the last usable key with
  that id in one document that was fetched with status 200, either during this very lookup or less than five
  minutes before it.\<close>

theorem keyFor_current:
  assumes "keyFor m kid (run_lookups calls empty_cache) = (Some k, c')"
  shows "\<exists>m0 doc. m_reply m0 = Some (200, Some doc) \<and> map_of (rev (List.map_filter rsa_key_of doc)) kid = Some k \<and>
    (m0 = m \<or> m0 \<in> fst ` set calls \<and> time_Sub (m_before m) (m_after m0) < jwksCacheTTL)"
proof -
  let ?c = "run_lookups calls empty_cache"
  have "provenance (fst ` set calls) ?c" using run_lookups_provenance [of "{}" empty_cache calls]
    by (simp add: provenance_def empty_cache_def)
  then have "(\<exists>m0 \<in> fst ` set calls. fetched_by m0 c' \<and> time_Sub (m_before m) (m_after m0) < jwksCacheTTL) \<or> fetched_by m c'"
    and k: "ck_keys c' kid = Some k"
    using keyFor_cases [OF assms] by (auto simp: provenance_def cached_def fetched_by_def split: if_splits)
  then obtain m0 where m0: "fetched_by m0 c'" "m0 = m \<or> m0 \<in> fst ` set calls \<and> time_Sub (m_before m) (m_after m0) < jwksCacheTTL"
    by auto
  obtain doc where "m_reply m0 = Some (200, Some doc)" "ck_keys c' = jwks_keys doc" using m0(1) by (auto simp: fetched_by_def)
  with m0(2) k show ?thesis by (intro exI [of _ m0] exI [of _ doc]) (simp add: jwks_keys_map_of)
qed

section \<open>Accepted tokens\<close>

lemma checkClaims_SomeD:
  assumes "checkClaims J v t cl = Some i"
  shows "checkIssuer J (oc_issuer v) cl" "\<exists>e. c_expires cl = Some (Some e) \<and> t \<le> e + leeway v"
    "\<exists>nbf. c_not_before cl = Some nbf \<and> (\<forall>b. nbf = Some b \<longrightarrow> b - leeway v \<le> t)"
    "oc_audience v \<noteq> [] \<longrightarrow> (\<exists>aud. c_audience cl = Some aud \<and> oc_audience v \<in> set aud)"
    "id_roles i = realm_roles cl" "id_provider i = claim_text (c_provider_id cl)"
    "RoleProvider \<in> realm_roles cl \<longrightarrow> id_provider i \<noteq> []"
  using assms
  by (auto simp: checkClaims_def audContains_def list_ex_iff Let_def split: if_splits option.splits)

text \<open>C28. Accepted tokens. An identity is returned only for a token that decodes to an RS256 token and that the
  library accepts under the key the cache holds for its key id; whose issuer is present and has the path of the
  configured one (if that has a path); that has an expiry, not past by more than the leeway, and is not used
  before its start by more than the leeway; that names the configured audience, if any is configured (so a token
  without an audience is then refused, although the comment of the validator says that the audience is only enforced
  on tokens that carry one). The roles are the texts in realm_access.roles, and a provider has a scope. Every other
  token is refused.\<close>

theorem ValidateToken_accepts:
  assumes "ValidateToken J v m tok c = (Some i, c')"
  shows "\<exists>t k. lib_decode J tok = Some t \<and> tk_alg t = ''RS256'' \<and> keyFor m (claim_text (tk_kid t)) c = (Some k, c') \<and>
    lib_accepts J tok k (m_library m) (leeway v) \<and>
    (\<exists>iss. c_issuer (tk_claims t) = Some iss \<and> iss \<noteq> [] \<and>
       (lib_url_path J (oc_issuer v) = Some [] \<or> lib_url_path J iss = lib_url_path J (oc_issuer v))) \<and>
    (\<exists>e. c_expires (tk_claims t) = Some (Some e) \<and> m_now m \<le> e + leeway v) \<and>
    (\<forall>b. c_not_before (tk_claims t) = Some (Some b) \<longrightarrow> b - leeway v \<le> m_now m) \<and>
    (oc_audience v \<noteq> [] \<longrightarrow> (\<exists>aud. c_audience (tk_claims t) = Some aud \<and> oc_audience v \<in> set aud)) \<and>
    id_roles i = realm_roles (tk_claims t) \<and> id_provider i = claim_text (c_provider_id (tk_claims t)) \<and>
    (HasRole i RoleProvider \<longrightarrow> id_provider i \<noteq> [])"
proof -
  obtain t k where t: "lib_decode J tok = Some t" "tk_alg t = ''RS256''" "keyFor m (claim_text (tk_kid t)) c = (Some k, c')"
      "lib_accepts J tok k (m_library m) (leeway v)" "checkClaims J v (m_now m) (tk_claims t) = Some i"
    using assms by (auto simp: ValidateToken_def split: option.splits if_splits prod.splits)
  note cl = checkClaims_SomeD [OF t(5)]
  have "\<exists>iss. c_issuer (tk_claims t) = Some iss \<and> iss \<noteq> [] \<and>
      (lib_url_path J (oc_issuer v) = Some [] \<or> lib_url_path J iss = lib_url_path J (oc_issuer v))"
    using cl(1) by (auto simp: checkIssuer_def split: option.splits)
  with t(1-4) cl show ?thesis by (intro exI [of _ t] exI [of _ k]) (auto simp: HasRole_def)
qed

section \<open>A concrete token\<close>

definition demo_key :: jwks_key where
  "demo_key = \<lparr>j_kid = ''1'', j_kty = ''RSA'', j_n = ''AQAB'', j_e = ''AQAB''\<rparr>"

definition demo_moment :: moment where
  "demo_moment = \<lparr>m_before = 0, m_reply = Some (200, Some [demo_key]), m_after = 5, m_library = 6, m_now = 7\<rparr>"

definition demo_claims :: claims where
  "demo_claims = \<lparr>c_issuer = Some ''http://k/realms/wallet'', c_expires = Some (Some 3), c_not_before = Some None,
     c_audience = Some [], c_realm_access = Some (CObj [(''roles'', CList [CStr ''provider'', COther])]),
     c_provider_id = Some (CStr ''prov'')\<rparr>"

text \<open>A library that decodes one text and accepts it under one key.\<close>

definition demo_library :: jwt_library where
  "demo_library = \<lparr>lib_decode = (\<lambda>s. if s = ''t'' then Some \<lparr>tk_alg = ''RS256'', tk_kid = Some (CStr ''1''), tk_claims = demo_claims\<rparr>
     else None), lib_accepts = (\<lambda>s k _ _. k_n k = 65537), lib_url_path = (\<lambda>_. Some ''/realms/wallet'')\<rparr>"

definition demo_config :: oidc_config where
  "demo_config = \<lparr>oc_issuer = ''http://l/realms/wallet'', oc_audience = [], oc_leeway = 0\<rparr>"

lemma demo_rsa: "rsa_key_of demo_key = Some (''1'', \<lparr>k_n = 65537, k_e = 65537\<rparr>)"
proof -
  have "b64_decode ''AQAB'' = Some [CHR 0x01, CHR 0x00, CHR 0x01]" by code_simp
  then show ?thesis by (simp add: rsa_key_of_def demo_key_def big_endian_def exponent_def)
qed

lemma demo_lookup: "keyFor demo_moment ''1'' empty_cache = (Some \<lparr>k_n = 65537, k_e = 65537\<rparr>,
    \<lparr>ck_keys = [''1'' \<mapsto> \<lparr>k_n = 65537, k_e = 65537\<rparr>], ck_fetched = 5\<rparr>)"
  by (simp add: keyFor_def cached_def empty_cache_def refreshLocked_def demo_moment_def usable_def jwks_keys_def demo_rsa)

lemma demo_validated:
  "ValidateToken demo_library demo_config demo_moment ''t'' empty_cache =
    (Some \<lparr>id_provider = ''prov'', id_roles = {''provider''}\<rparr>,
     \<lparr>ck_keys = [''1'' \<mapsto> \<lparr>k_n = 65537, k_e = 65537\<rparr>], ck_fetched = 5\<rparr>)"
  using demo_lookup
  by (simp add: ValidateToken_def demo_library_def claim_text_def checkClaims_def checkIssuer_def demo_claims_def demo_config_def
      realm_roles_def demo_moment_def leeway_def ClockSkewLeeway_def RoleProvider_def)

lemma keyFor_current_witness:
  "\<exists>m0 doc. m_reply m0 = Some (200, Some doc) \<and>
     map_of (rev (List.map_filter rsa_key_of doc)) ''1'' = Some \<lparr>k_n = 65537, k_e = 65537\<rparr> \<and> m0 = demo_moment"
proof -
  have "keyFor demo_moment ''1'' (run_lookups [] empty_cache) = (Some \<lparr>k_n = 65537, k_e = 65537\<rparr>,
      \<lparr>ck_keys = [''1'' \<mapsto> \<lparr>k_n = 65537, k_e = 65537\<rparr>], ck_fetched = 5\<rparr>)"
    using demo_lookup by (simp add: run_lookups_def)
  from keyFor_current [OF this] show ?thesis by force
qed

lemma ValidateToken_accepts_witness:
  "\<exists>t. lib_decode demo_library ''t'' = Some t \<and> tk_alg t = ''RS256'' \<and> realm_roles (tk_claims t) = {''provider''}"
  using ValidateToken_accepts [OF demo_validated]
proof (elim exE conjE, goal_cases)
  case (1 t)
  then show ?case by (intro exI [of _ t]) simp
qed

end
