(* ===== verification/Books.thy ===== *)
theory Books
  imports Store
begin

text \<open>
  The books of a wallet: its ledger entries in insertion order replay, from an empty wallet, to the
  stored balance and version. A wallet opened with zero starts at version 1 without an entry, a
  funded one with an opening entry of version 1; every later entry starts at the balance the one
  before it ended with and raises the version by one.
\<close>

section \<open>Replaying a ledger\<close>

definition entry_fits :: "int \<times> int \<Rightarrow> ledger_row \<Rightarrow> bool" where
  "entry_fits s e \<longleftrightarrow> sint (l_before e) = fst s \<and> sint (l_version e) = snd s + 1 \<and>
     sint (l_after e) = fst s + signed_amount (l_direction e) (l_amount e) \<and> 0 \<le> sint (l_after e) \<and>
     0 < sint (l_amount e) \<and> l_direction e \<in> {DirectionDebit, DirectionCredit}"

fun replay :: "int \<times> int \<Rightarrow> ledger_row list \<Rightarrow> (int \<times> int) option" where
  "replay s [] = Some s"
| "replay s (e # es) = (if entry_fits s e then replay (sint (l_after e), snd s + 1) es else None)"

definition books_of :: "wallet_row \<Rightarrow> ledger_row list \<Rightarrow> bool" where
  "books_of r es \<longleftrightarrow> replay (0, 1) es = Some (sint (wr_balance r), sint (wr_version r)) \<or>
     (es \<noteq> [] \<and> replay (0, 0) es = Some (sint (wr_balance r), sint (wr_version r)))"

lemma replay_append:
  "replay s (es @ fs) = (case replay s es of None \<Rightarrow> None | Some s' \<Rightarrow> replay s' fs)"
  by (induction es arbitrary: s) auto

lemma replay_sum:
  "replay s es = Some s' \<Longrightarrow> fst s' = fst s + (\<Sum>e\<leftarrow>es. signed_amount (l_direction e) (l_amount e)) \<and>
     snd s' = snd s + int (length es)"
  by (induction es arbitrary: s) (fastforce simp: entry_fits_def split: if_splits)+

lemma replay_versions:
  "replay s es = Some s' \<Longrightarrow> map (\<lambda>e. sint (l_version e)) es = map (\<lambda>i. snd s + 1 + int i) [0..<length es]"
proof (induction es arbitrary: s)
  case (Cons e es)
  then have "entry_fits s e" "replay (sint (l_after e), snd s + 1) es = Some s'"
    by (auto split: if_splits)
  with Cons.IH [OF this(2)] show ?case
    by (simp add: entry_fits_def upt_conv_Cons map_Suc_upt [symmetric] o_def algebra_simps del: upt_Suc)
qed simp

text \<open>The balance is the sum of the signed movements.\<close>

lemma books_sum: "books_of r es \<Longrightarrow> sint (wr_balance r) = (\<Sum>e\<leftarrow>es. signed_amount (l_direction e) (l_amount e))"
  unfolding books_of_def by (auto dest: replay_sum)

text \<open>The last entry carries the state of the wallet.\<close>

lemma replay_last: "replay s es = Some s' \<Longrightarrow> es \<noteq> [] \<Longrightarrow> sint (l_after (last es)) = fst s' \<and> sint (l_version (last es)) = snd s'"
  by (induction es arbitrary: s) (auto simp: entry_fits_def split: if_splits)

lemma books_last:
  assumes "books_of r es" "es \<noteq> []"
  shows "l_version (last es) = wr_version r \<and> l_after (last es) = wr_balance r"
  using assms replay_last by (fastforce simp: books_of_def sint_eq_iff)

lemma books_snoc:
  assumes "books_of r es" "entry_fits (sint (wr_balance r), sint (wr_version r)) e"
    "wr_balance r' = l_after e" "sint (wr_version r') = sint (wr_version r) + 1"
  shows "books_of r' (es @ [e])"
  using assms unfolding books_of_def by (auto simp: replay_append)

text \<open>Versions are consecutive, so reading by version is reading in insertion order.\<close>

lemma books_versions:
  assumes "books_of r es"
  obtains v where "map (\<lambda>e. sint (l_version e)) es = map (\<lambda>i. v + int i) [0..<length es]" "1 \<le> v"
    "es \<noteq> [] \<Longrightarrow> sint (wr_version r) = v + int (length es) - 1"
proof -
  from assms obtain s s' where "replay s es = Some s'" "0 \<le> snd s" "es \<noteq> [] \<longrightarrow> snd s' = sint (wr_version r)"
    unfolding books_of_def by fastforce
  with replay_versions [OF this(1)] replay_sum [OF this(1)] show ?thesis
    by (intro that [of "snd s + 1"]) auto
qed

lemma books_distinct_versions:
  assumes "books_of r es"
  shows "distinct (map (\<lambda>e. sint (l_version e)) es)" "sorted (map (\<lambda>e. sint (l_version e)) es)"
proof -
  obtain v where v: "map (\<lambda>e. sint (l_version e)) es = map (\<lambda>i. v + int i) [0..<length es]"
    using books_versions [OF assms] by blast
  show "distinct (map (\<lambda>e. sint (l_version e)) es)" unfolding v by (simp add: distinct_map inj_on_def)
  show "sorted (map (\<lambda>e. sint (l_version e)) es)" unfolding v
    by (simp add: sorted_iff_nth_mono)
qed

lemma by_version_books: "books_of r es \<Longrightarrow> by_version es = es"
  using books_distinct_versions(2) [of r es]
  by (simp add: by_version_def sort_key_id_if_sorted)

section \<open>The books of a store\<close>

definition books_ok :: "tables \<Rightarrow> bool" where
  "books_ok T \<longleftrightarrow> tbl_inv wr_id (wallets T) \<and>
     (\<forall>r \<in> set (wallets T). 0 \<le> sint (wr_balance r) \<and> 1 \<le> sint (wr_version r) \<and>
        books_of r (ledger_of (wr_id r) (ledger T))) \<and>
     (\<forall>e \<in> set (ledger T). l_wallet e \<in> wr_id ` set (wallets T))"

lemma ledger_of_append [simp]: "ledger_of w (es @ fs) = ledger_of w es @ ledger_of w fs"
  by (simp add: ledger_of_def)

lemma ledger_of_simps [simp]:
  "ledger_of w [] = []"
  "ledger_of w (e # es) = (if l_wallet e = w then e # ledger_of w es else ledger_of w es)"
  by (simp_all add: ledger_of_def)

lemma ledger_of_fresh: "(\<And>e. e \<in> set es \<Longrightarrow> l_wallet e \<noteq> w) \<Longrightarrow> ledger_of w es = []"
  by (simp add: ledger_of_def)

lemma books_ok_find:
  assumes "books_ok T" "tbl_find wr_id w (wallets T) = Some r"
  shows "r \<in> set (wallets T)" "wr_id r = w" "0 \<le> sint (wr_balance r)" "1 \<le> sint (wr_version r)"
    "books_of r (ledger_of w (ledger T))"
  using assms tbl_find_SomeD [OF assms(2)] by (auto simp: books_ok_def)

text \<open>A movement: one entry that fits the stored state of its wallet, and that state advanced.\<close>

definition set_balance :: "string \<Rightarrow> i64 \<Rightarrow> i64 \<Rightarrow> wallet_row list \<Rightarrow> wallet_row list" where
  "set_balance w b v = tbl_modify wr_id w (\<lambda>r. r\<lparr>wr_balance := b, wr_version := v\<rparr>)"

lemma set_balance_props:
  "map wr_id (set_balance w b v ws) = map wr_id ws"
  "tbl_inv wr_id (set_balance w b v ws) = tbl_inv wr_id ws"
  by (simp_all add: set_balance_def tbl_inv_def map_key_modify)

lemma books_move:
  assumes ok: "books_ok T" and r: "tbl_find wr_id w (wallets T) = Some r"
    and e: "entry_fits (sint (wr_balance r), sint (wr_version r)) e" "l_wallet e = w"
    and v: "1 \<le> sint (l_version e)"
    and T': "wallets T' = set_balance w (l_after e) (l_version e) (wallets T)" "ledger T' = ledger T @ [e]"
  shows "books_ok T'"
proof -
  have ids: "wr_id ` set (wallets T') = wr_id ` set (wallets T)"
    unfolding T' by (metis list.set_map set_balance_props(1))
  have "0 \<le> sint (wr_balance q) \<and> 1 \<le> sint (wr_version q) \<and> books_of q (ledger_of (wr_id q) (ledger T'))"
    if q': "q \<in> set (wallets T')" for q
  proof -
    from q' obtain q0 where q0: "q0 \<in> set (wallets T)"
      "q = (if wr_id q0 = w then q0\<lparr>wr_balance := l_after e, wr_version := l_version e\<rparr> else q0)"
      by (auto simp: T' set_balance_def tbl_modify_def)
    show ?thesis
    proof (cases "wr_id q0 = w")
      case True
      then have "q0 = r" using ok r q0(1) wallets.lookup_iff_rows [of "wallets T" w q0]
        by (simp add: books_ok_def)
      then show ?thesis
        using True q0(2) e v books_ok_find [OF ok r] books_snoc [of r _ e q]
        by (simp add: T' entry_fits_def)
    next
      case False
      then show ?thesis using ok q0 e by (auto simp: books_ok_def T')
    qed
  qed
  moreover have "tbl_inv wr_id (wallets T')" using ok by (simp add: T' set_balance_props books_ok_def)
  moreover have "\<forall>f \<in> set (ledger T'). l_wallet f \<in> wr_id ` set (wallets T')"
  proof -
    have "w \<in> wr_id ` set (wallets T)" using books_ok_find(1,2) [OF ok r] by (metis imageI)
    then show ?thesis using ok e(2) unfolding ids by (simp add: T' books_ok_def)
  qed
  ultimately show ?thesis by (simp add: books_ok_def)
qed

text \<open>Opening a wallet.\<close>

definition opening_books :: "wallet_row \<Rightarrow> ledger_row list \<Rightarrow> bool" where
  "opening_books r es \<longleftrightarrow> wr_version r = 1 \<and> 0 \<le> sint (wr_balance r) \<and>
     (case es of [] \<Rightarrow> wr_balance r = 0
      | [e] \<Rightarrow> entry_fits (0, 0) e \<and> l_wallet e = wr_id r \<and> l_after e = wr_balance r \<and> l_version e = 1
      | _ \<Rightarrow> False)"

lemma books_open:
  assumes ok: "books_ok T" and fresh: "tbl_find wr_id (wr_id r) (wallets T) = None"
    and o: "opening_books r es"
    and T': "wallets T' = wallets T @ [r]" "ledger T' = ledger T @ es"
  shows "books_ok T'"
proof -
  have n: "wr_id r \<notin> wr_id ` set (wallets T)" using fresh by (simp add: tbl_find_None_iff)
  then have old: "ledger_of (wr_id r) (ledger T) = []"
    using ok by (intro ledger_of_fresh) (metis books_ok_def)
  have es: "ledger_of (wr_id r) es = es" "\<And>q. q \<noteq> wr_id r \<Longrightarrow> ledger_of q es = []"
    "\<forall>e \<in> set es. l_wallet e = wr_id r"
    using o by (auto simp: opening_books_def split: list.splits)
  have "books_of r es" using o
    by (auto simp: opening_books_def books_of_def split: list.splits)
  moreover have "\<forall>q \<in> set (wallets T). ledger_of (wr_id q) es = []" using es(2) n by (metis imageI)
  ultimately show ?thesis using ok n o es(1,3) old
    unfolding books_ok_def T' by (auto simp: tbl_inv_def opening_books_def)
qed

end
