(* ===== verification/Lifecycle.thy ===== *)
theory Lifecycle
  imports Accept
begin

text \<open>
  What holds of the stored transactions as a whole, and the two ways their list changes: a row is
  put (inserted, or replaced while it is parked) and a processed reversal marks its target and frees
  a voided bet. The invariant \<open>reversals_ok\<close> is the anti-overpayment rule over the whole table.
\<close>

section \<open>Changes of the transaction table\<close>

definition put_tx :: "tx_row \<Rightarrow> tx_row list \<Rightarrow> tx_row list" where
  "put_tx x ts = (if tbl_find t_id (t_id x) ts = None then ts @ [x]
     else tbl_modify t_id (t_id x) (\<lambda>_. x) ts)"

text \<open>The columns that an update never writes.\<close>

definition same_request :: "tx_row \<Rightarrow> tx_row \<Rightarrow> bool" where
  "same_request q x \<longleftrightarrow> t_id x = t_id q \<and> t_origin x = t_origin q \<and> t_provider x = t_provider q \<and>
     t_external x = t_external q \<and> t_key x = t_key q \<and> t_hash x = t_hash q \<and> t_wallet x = t_wallet q \<and>
     t_player x = t_player q \<and> t_round x = t_round q \<and> t_game x = t_game q \<and> t_kind x = t_kind q \<and>
     t_amount x = t_amount q \<and> t_currency x = t_currency q \<and> t_ref_external x = t_ref_external q"

definition admissible :: "tx_row list \<Rightarrow> tx_row \<Rightarrow> bool" where
  "admissible ts x \<longleftrightarrow> t_reversed_tx x = None \<and>
     (case tbl_find t_id (t_id x) ts of
        None \<Rightarrow> \<not> (\<exists>q \<in> set ts. tx_clash x q)
      | Some q \<Rightarrow> t_state q = StatePendingReference \<and> same_request q x)"

definition mark_reversed :: "string \<Rightarrow> string \<Rightarrow> string \<Rightarrow> tx_row list \<Rightarrow> tx_row list" where
  "mark_reversed i k by_tx = tbl_modify t_id i (\<lambda>q. q\<lparr>t_reversed_kind := Some k, t_reversed_tx := Some by_tx\<rparr>)"

definition clear_reversal :: "string \<Rightarrow> tx_row list \<Rightarrow> tx_row list" where
  "clear_reversal i = tbl_modify t_id i (\<lambda>q. q\<lparr>t_reversed_kind := None, t_reversed_tx := None\<rparr>)"

definition mark_target :: "tx_row \<Rightarrow> tx_row \<Rightarrow> tx_row list \<Rightarrow> tx_row list" where
  "mark_target x t ts = (let ms = mark_reversed (t_id t) (kind_text (t_kind x)) (t_id x) ts in
     if t_kind x = KindRollback \<and> t_kind t = KindRefund then
       (case t_ref_tx t of None \<Rightarrow> ms | Some b \<Rightarrow> clear_reversal b ms)
     else ms)"

section \<open>Row lists\<close>

lemma put_tx_mem:
  assumes "tbl_inv t_id ts" "q \<in> set (put_tx x ts)"
  shows "q = x \<or> (q \<in> set ts \<and> t_id q \<noteq> t_id x)"
  using assms
  by (auto simp: put_tx_def tbl_modify_def tbl_find_None_all split: if_splits)

lemma put_tx_self: "x \<in> set (put_tx x ts)"
proof (cases "tbl_find t_id (t_id x) ts")
  case (Some q)
  then have "q \<in> set ts" "t_id q = t_id x" using tbl_find_SomeD by fastforce+
  with Some show ?thesis by (force simp: put_tx_def tbl_modify_def)
qed (simp add: put_tx_def)

lemma put_tx_keep: "q \<in> set ts \<Longrightarrow> t_id q \<noteq> t_id x \<Longrightarrow> q \<in> set (put_tx x ts)"
  by (force simp: put_tx_def tbl_modify_def)

lemma put_tx_set:
  assumes "tbl_inv t_id ts"
  shows "set (put_tx x ts) = insert x {q \<in> set ts. t_id q \<noteq> t_id x}"
  using put_tx_mem [OF assms] put_tx_self put_tx_keep by blast

lemma put_tx_inv: "tbl_inv t_id ts \<Longrightarrow> tbl_inv t_id (put_tx x ts)"
  by (cases "tbl_find t_id (t_id x) ts")
    (auto simp: put_tx_def tbl_inv_def tbl_find_None_iff tbl_modify_def o_def if_distrib cong: if_cong
      intro!: arg_cong [where f = distinct, THEN iffD1] )

text \<open>Marking changes two columns of at most two rows.\<close>

lemma mark_reversed_set:
  "set (mark_reversed i k b ts) =
    (\<lambda>q. if t_id q = i then q\<lparr>t_reversed_kind := Some k, t_reversed_tx := Some b\<rparr> else q) ` set ts"
  by (simp add: mark_reversed_def tbl_modify_def)

lemma clear_reversal_set:
  "set (clear_reversal i ts) =
    (\<lambda>q. if t_id q = i then q\<lparr>t_reversed_kind := None, t_reversed_tx := None\<rparr> else q) ` set ts"
  by (simp add: clear_reversal_def tbl_modify_def)

lemma map_id_marks [simp]:
  "map t_id (mark_reversed i k b ts) = map t_id ts" "map t_id (clear_reversal i ts) = map t_id ts"
  by (simp_all add: mark_reversed_def clear_reversal_def map_key_modify)

lemma map_id_mark_target [simp]: "map t_id (mark_target x t ts) = map t_id ts"
  by (simp add: mark_target_def Let_def split: option.splits)

text \<open>The row of \<open>q\<close> after the marking.\<close>

definition marked :: "tx_row \<Rightarrow> tx_row \<Rightarrow> tx_row \<Rightarrow> tx_row" where
  "marked x t q = (if t_kind x = KindRollback \<and> t_kind t = KindRefund \<and> t_ref_tx t = Some (t_id q)
     then q\<lparr>t_reversed_kind := None, t_reversed_tx := None\<rparr>
     else if t_id q = t_id t then q\<lparr>t_reversed_kind := Some (kind_text (t_kind x)), t_reversed_tx := Some (t_id x)\<rparr>
     else q)"

lemma mark_target_map: "mark_target x t ts = map (marked x t) ts"
  by (auto simp: mark_target_def marked_def Let_def mark_reversed_def clear_reversal_def tbl_modify_def
      split: option.splits)

lemma marked_simps [simp]:
  "t_id (marked x t q) = t_id q" "t_state (marked x t q) = t_state q" "t_kind (marked x t q) = t_kind q"
  "t_ref_tx (marked x t q) = t_ref_tx q" "t_wallet (marked x t q) = t_wallet q"
  "t_amount (marked x t q) = t_amount q" "t_currency (marked x t q) = t_currency q"
  "t_result (marked x t q) = t_result q" "t_version (marked x t q) = t_version q"
  "t_provider (marked x t q) = t_provider q" "t_external (marked x t q) = t_external q"
  "t_key (marked x t q) = t_key q" "t_hash (marked x t q) = t_hash q" "t_origin (marked x t q) = t_origin q"
  "t_failure (marked x t q) = t_failure q" "t_result_currency (marked x t q) = t_result_currency q"
  "t_round (marked x t q) = t_round q" "t_game (marked x t q) = t_game q" "t_player (marked x t q) = t_player q"
  "t_ref_external (marked x t q) = t_ref_external q"
  by (simp_all add: marked_def)

lemma marked_reversed:
  "t_reversed_tx (marked x t q) =
    (if t_kind x = KindRollback \<and> t_kind t = KindRefund \<and> t_ref_tx t = Some (t_id q) then None
     else if t_id q = t_id t then Some (t_id x) else t_reversed_tx q)"
  by (simp add: marked_def)

section \<open>The anti-overpayment invariant\<close>

text \<open>\<open>x\<close> is a processed reversal of \<open>t\<close> that has not been undone.\<close>

definition reverses :: "tx_row \<Rightarrow> tx_row \<Rightarrow> bool" where
  "reverses x t \<longleftrightarrow> t_state x = StateProcessed \<and> IsReversalKind (t_kind x) \<and> t_ref_tx x = Some (t_id t) \<and>
     t_reversed_tx x = None"

text \<open>\<open>t\<close> is a legal target of \<open>x\<close>: processed, of the same wallet, amount, currency and provider, and of
  a kind that \<open>x\<close> may refer to.\<close>

definition linked :: "tx_row \<Rightarrow> tx_row \<Rightarrow> bool" where
  "linked x t \<longleftrightarrow> t_state t = StateProcessed \<and> t_wallet t = t_wallet x \<and> t_amount t = t_amount x \<and>
     t_currency t = t_currency x \<and> t_provider t = t_provider x \<and>
     (if t_kind x = KindWin then t_kind t = KindBet else reversal_matrix (t_kind x) (t_kind t))"

definition links_ok :: "tx_row list \<Rightarrow> bool" where
  "links_ok ts \<longleftrightarrow> (\<forall>x \<in> set ts. \<forall>i. t_state x = StateProcessed \<and> t_ref_tx x = Some i \<longrightarrow>
     (\<exists>t \<in> set ts. t_id t = i \<and> linked x t))"

text \<open>A reversal mark names an effective reversal of the row, every effective reversal is so marked on
  its target, and a bet with a standing win is not reversed.\<close>

definition reversals_ok :: "tx_row list \<Rightarrow> bool" where
  "reversals_ok ts \<longleftrightarrow> links_ok ts \<and>
     (\<forall>t \<in> set ts. \<forall>i. t_reversed_tx t = Some i \<longrightarrow> t_state t = StateProcessed \<and> (\<exists>x \<in> set ts. t_id x = i \<and> reverses x t)) \<and>
     (\<forall>x \<in> set ts. t_state x = StateProcessed \<and> IsReversalKind (t_kind x) \<and> t_reversed_tx x = None \<longrightarrow>
        (\<exists>t \<in> set ts. t_ref_tx x = Some (t_id t) \<and> t_reversed_tx t = Some (t_id x))) \<and>
     (\<forall>b \<in> set ts. \<forall>w \<in> set ts. active_win (t_id b) w \<longrightarrow> t_reversed_tx b = None)"

text \<open>What the code has checked of the target when an operation with a reference is processed.\<close>

definition target_ok :: "tx_row list \<Rightarrow> tx_row \<Rightarrow> tx_row \<Rightarrow> bool" where
  "target_ok ts x t \<longleftrightarrow> t \<in> set ts \<and> t_ref_tx x = Some (t_id t) \<and> linked x t \<and> t_reversed_tx t = None \<and>
     (IsReversalKind (t_kind x) \<and> t_kind t = KindBet \<longrightarrow> \<not> (\<exists>w \<in> set ts. active_win (t_id t) w))"

lemma reversals_okD:
  assumes "reversals_ok ts"
  shows "links_ok ts"
    and "t \<in> set ts \<Longrightarrow> t_reversed_tx t = Some i \<Longrightarrow> t_state t = StateProcessed \<and> (\<exists>x \<in> set ts. t_id x = i \<and> reverses x t)"
    and "x \<in> set ts \<Longrightarrow> t_state x = StateProcessed \<Longrightarrow> IsReversalKind (t_kind x) \<Longrightarrow> t_reversed_tx x = None \<Longrightarrow>
      \<exists>t \<in> set ts. t_ref_tx x = Some (t_id t) \<and> t_reversed_tx t = Some (t_id x)"
    and "b \<in> set ts \<Longrightarrow> w \<in> set ts \<Longrightarrow> active_win (t_id b) w \<Longrightarrow> t_reversed_tx b = None"
  using assms unfolding reversals_ok_def by blast+

lemma links_okD:
  "links_ok ts \<Longrightarrow> x \<in> set ts \<Longrightarrow> t_state x = StateProcessed \<Longrightarrow> t_ref_tx x = Some i \<Longrightarrow>
   \<exists>t \<in> set ts. t_id t = i \<and> linked x t"
  unfolding links_ok_def by blast

lemma id_unique: "tbl_inv t_id ts \<Longrightarrow> q \<in> set ts \<Longrightarrow> r \<in> set ts \<Longrightarrow> t_id q = t_id r \<Longrightarrow> q = r"
  by (rule txs.rows_unique)

text \<open>The row that a put replaces is parked, so no processed row is lost.\<close>

lemma admissible_old:
  assumes "tbl_inv t_id ts" "admissible ts x" "q \<in> set ts" "t_id q = t_id x"
  shows "t_state q = StatePendingReference"
proof -
  have "tbl_find t_id (t_id x) ts = Some q" using assms by (simp add: tbl_find_iff)
  with assms(2) show ?thesis by (simp add: admissible_def)
qed

lemma processed_kept:
  assumes "tbl_inv t_id ts" "admissible ts x" "q \<in> set ts" "t_state q = StateProcessed"
  shows "q \<in> set (put_tx x ts)" "t_id q \<noteq> t_id x"
proof -
  show "t_id q \<noteq> t_id x" using admissible_old [OF assms(1-3)] assms(4) by auto
  then show "q \<in> set (put_tx x ts)" by (rule put_tx_keep [OF assms(3)])
qed

lemma links_put:
  assumes inv: "tbl_inv t_id ts" and adm: "admissible ts x" and ok: "links_ok ts"
    and x: "\<And>i. t_state x = StateProcessed \<Longrightarrow> t_ref_tx x = Some i \<Longrightarrow> \<exists>t \<in> set ts. t_id t = i \<and> linked x t"
  shows "links_ok (put_tx x ts)"
  unfolding links_ok_def
proof (intro ballI allI impI)
  fix y i assume y: "y \<in> set (put_tx x ts)" and p: "t_state y = StateProcessed \<and> t_ref_tx y = Some i"
  have "\<exists>t \<in> set ts. t_id t = i \<and> linked y t"
    using put_tx_mem [OF inv y] x links_okD [OF ok] p by blast
  then obtain t where t: "t \<in> set ts" "t_id t = i" "linked y t" by blast
  then have "t \<in> set (put_tx x ts)" using processed_kept [OF inv adm] by (auto simp: linked_def)
  with t show "\<exists>t \<in> set (put_tx x ts). t_id t = i \<and> linked y t" by blast
qed

lemma reversals_put_marks:
  assumes inv: "tbl_inv t_id ts" and adm: "admissible ts x" and ok: "reversals_ok ts"
    and t: "t \<in> set (put_tx x ts)" "t_reversed_tx t = Some i"
  shows "t_state t = StateProcessed \<and> (\<exists>y \<in> set (put_tx x ts). t_id y = i \<and> reverses y t)"
proof -
  have "t \<noteq> x" using adm t(2) by (auto simp: admissible_def)
  then have "t \<in> set ts" using put_tx_mem [OF inv t(1)] by blast
  from reversals_okD(2) [OF ok this t(2)] show ?thesis
    using processed_kept(1) [OF inv adm] by (auto simp: reverses_def)
qed

lemma reversals_put_effective:
  assumes inv: "tbl_inv t_id ts" and adm: "admissible ts x" and ok: "reversals_ok ts"
    and y: "y \<in> set (put_tx x ts)" "y \<noteq> x" "t_state y = StateProcessed" "IsReversalKind (t_kind y)"
      "t_reversed_tx y = None"
  shows "\<exists>t \<in> set (put_tx x ts). t_ref_tx y = Some (t_id t) \<and> t_reversed_tx t = Some (t_id y)"
proof -
  have "y \<in> set ts" using put_tx_mem [OF inv y(1)] y(2) by blast
  from reversals_okD(3) [OF ok this y(3-5)] obtain t where
    t: "t \<in> set ts" "t_ref_tx y = Some (t_id t)" "t_reversed_tx t = Some (t_id y)" by blast
  then have "t \<in> set (put_tx x ts)"
    using reversals_okD(2) [OF ok] processed_kept(1) [OF inv adm] by blast
  with t show ?thesis by blast
qed

lemma reversals_put_wins:
  assumes inv: "tbl_inv t_id ts" and adm: "admissible ts x" and ok: "reversals_ok ts"
    and x: "t_state x = StateProcessed \<Longrightarrow> t_kind x = KindWin \<Longrightarrow> t_ref_tx x = Some i \<Longrightarrow>
      \<exists>t \<in> set ts. t_id t = i \<and> t_reversed_tx t = None"
    and b: "b \<in> set (put_tx x ts)" "t_id b = i" and w: "w \<in> set (put_tx x ts)" "active_win i w"
  shows "t_reversed_tx b = None"
proof (cases "b = x")
  case True
  then show ?thesis using adm by (simp add: admissible_def)
next
  case False
  then have bts: "b \<in> set ts" using put_tx_mem [OF inv b(1)] by blast
  show ?thesis
  proof (cases "w = x")
    case True
    then obtain t where t: "t \<in> set ts" "t_id t = i" "t_reversed_tx t = None"
      using x w(2) unfolding active_win_def by blast
    then have "t = b" using id_unique [OF inv t(1) bts] b(2) by simp
    with t(3) show ?thesis by simp
  next
    case False
    then have "w \<in> set ts" using put_tx_mem [OF inv w(1)] by blast
    from reversals_okD(4) [OF ok bts this] w(2) b(2) show ?thesis by simp
  qed
qed

text \<open>Putting a row that is not an effective reversal.\<close>

lemma reversals_put:
  assumes inv: "tbl_inv t_id ts" and adm: "admissible ts x" and ok: "reversals_ok ts"
    and nr: "\<not> (t_state x = StateProcessed \<and> IsReversalKind (t_kind x))"
    and x: "\<And>i. t_state x = StateProcessed \<Longrightarrow> t_ref_tx x = Some i \<Longrightarrow> \<exists>t. t_id t = i \<and> target_ok ts x t"
  shows "reversals_ok (put_tx x ts)"
proof -
  have "links_ok (put_tx x ts)"
    using x reversals_okD(1) [OF ok] by (intro links_put [OF inv adm]) (auto simp: target_ok_def)
  have "t_state x = StateProcessed \<Longrightarrow> t_kind x = KindWin \<Longrightarrow> t_ref_tx x = Some i \<Longrightarrow>
      \<exists>t \<in> set ts. t_id t = i \<and> t_reversed_tx t = None" for i
    using x by (auto simp: target_ok_def)
  note w = reversals_put_wins [OF inv adm ok this]
  show ?thesis
    unfolding reversals_ok_def
  proof (intro conjI ballI allI)
    show "links_ok (put_tx x ts)" by fact
  next
    fix t i assume "t \<in> set (put_tx x ts)"
    from reversals_put_marks [OF inv adm ok this]
    show "t_reversed_tx t = Some i \<longrightarrow> t_state t = StateProcessed \<and> (\<exists>y \<in> set (put_tx x ts). t_id y = i \<and> reverses y t)"
      by blast
  next
    fix y assume y: "y \<in> set (put_tx x ts)"
    show "t_state y = StateProcessed \<and> IsReversalKind (t_kind y) \<and> t_reversed_tx y = None \<longrightarrow>
        (\<exists>t \<in> set (put_tx x ts). t_ref_tx y = Some (t_id t) \<and> t_reversed_tx t = Some (t_id y))"
    proof (cases "y = x")
      case False
      from reversals_put_effective [OF inv adm ok y False] show ?thesis by blast
    qed (use nr in auto)
  next
    fix b v assume "b \<in> set (put_tx x ts)" "v \<in> set (put_tx x ts)"
    with w [of "t_id b" b v] show "active_win (t_id b) v \<longrightarrow> t_reversed_tx b = None" by blast
  qed
qed

text \<open>The marks of a fresh reversal: what the marking can change about a row.\<close>

definition voids :: "tx_row \<Rightarrow> tx_row \<Rightarrow> tx_row \<Rightarrow> bool" where
  "voids x t q \<longleftrightarrow> t_kind x = KindRollback \<and> t_kind t = KindRefund \<and> t_ref_tx t = Some (t_id q)"

lemma marked_reversed_voids:
  "t_reversed_tx (marked x t q) =
    (if voids x t q then None else if t_id q = t_id t then Some (t_id x) else t_reversed_tx q)"
  by (simp add: marked_reversed voids_def)

text \<open>A reversal that is itself reversed is a refund, and the reversing rollback frees its bet.\<close>

lemma reversed_reversal:
  assumes "IsReversalKind (t_kind x)" "linked x t" "IsReversalKind (t_kind t)" "t_ref_tx t = Some (t_id u)"
  shows "voids x t u"
  using assms by (cases "t_kind x") (auto simp: linked_def voids_def IsReversalKind_def)

lemma voided_bet:
  assumes inv: "tbl_inv t_id ts" and ok: "reversals_ok ts" and t: "t \<in> set ts" "t_state t = StateProcessed"
    "t_reversed_tx t = None" and u: "u \<in> set ts" "voids x t u"
  shows "t_kind u = KindBet" "t_reversed_tx u = Some (t_id t)" "t_id u \<noteq> t_id t"
proof -
  have k: "t_kind t = KindRefund" "t_ref_tx t = Some (t_id u)" using u(2) by (simp_all add: voids_def)
  obtain v where v: "v \<in> set ts" "t_id v = t_id u" "linked t v"
    using links_okD [OF reversals_okD(1) [OF ok] t(1,2) k(2)] by blast
  then have "v = u" using id_unique [OF inv v(1) u(1)] by simp
  with v(3) k(1) show bet: "t_kind u = KindBet" by (simp add: linked_def)
  obtain z where z: "z \<in> set ts" "t_ref_tx t = Some (t_id z)" "t_reversed_tx z = Some (t_id t)"
    using reversals_okD(3) [OF ok t(1,2) _ t(3)] k(1) by (auto simp: IsReversalKind_def)
  then have "t_id z = t_id u" using k(2) by simp
  from id_unique [OF inv z(1) u(1) this] z(3) show r: "t_reversed_tx u = Some (t_id t)" by simp
  show "t_id u \<noteq> t_id t"
  proof
    assume "t_id u = t_id t"
    from id_unique [OF inv u(1) t(1) this] bet k(1) show False by simp
  qed
qed

text \<open>Putting an effective reversal and marking its target.\<close>

lemma linked_marked: "linked (marked x t y) (marked x t v) = linked y v"
  by (simp add: linked_def)

lemma links_marked:
  assumes "links_ok ts"
  shows "links_ok (map (marked x t) ts)"
  unfolding links_ok_def
proof (intro ballI allI impI)
  fix y' i assume "y' \<in> set (map (marked x t) ts)" and p: "t_state y' = StateProcessed \<and> t_ref_tx y' = Some i"
  then obtain y where y: "y \<in> set ts" "y' = marked x t y" by auto
  with p links_okD [OF assms y(1)] obtain v where "v \<in> set ts" "t_id v = i" "linked y v" by auto
  with y show "\<exists>v \<in> set (map (marked x t) ts). t_id v = i \<and> linked y' v"
    by (intro bexI [of _ "marked x t v"]) (simp_all add: linked_marked)
qed

lemma reversals_mark:
  assumes inv: "tbl_inv t_id ts" and adm: "admissible ts x" and ok: "reversals_ok ts"
    and xr: "t_state x = StateProcessed" "IsReversalKind (t_kind x)" and tgt: "target_ok ts x t"
  shows "reversals_ok (mark_target x t (put_tx x ts))"
proof -
  let ?ts = "put_tx x ts" and ?M = "marked x t"
  have tts: "t \<in> set ts" and ref: "t_ref_tx x = Some (t_id t)" and lnk: "linked x t" and tr: "t_reversed_tx t = None"
    using tgt by (simp_all add: target_ok_def)
  have tp: "t_state t = StateProcessed" using lnk by (simp add: linked_def)
  have t1: "t \<in> set ?ts" and tx: "t_id t \<noteq> t_id x" using processed_kept [OF inv adm tts tp] by simp_all
  have inv1: "tbl_inv t_id ?ts" by (rule put_tx_inv [OF inv])
  have xrev: "t_reversed_tx x = None" using adm by (simp add: admissible_def)
  have void: "u \<in> set ?ts \<Longrightarrow> voids x t u \<Longrightarrow> t_kind u = KindBet \<and> t_reversed_tx u = Some (t_id t) \<and> t_id u \<noteq> t_id t" for u
  proof -
    assume u: "u \<in> set ?ts" "voids x t u"
    have "u \<noteq> x"
    proof
      assume "u = x"
      with u(2) have "t_ref_tx t = Some (t_id x)" by (simp add: voids_def)
      from links_okD [OF reversals_okD(1) [OF ok] tts tp this] obtain v where
        v: "v \<in> set ts" "t_id v = t_id x" "t_state v = StateProcessed" by (auto simp: linked_def)
      with admissible_old [OF inv adm v(1,2)] show False by simp
    qed
    then have "u \<in> set ts" using put_tx_mem [OF inv u(1)] by blast
    from voided_bet [OF inv ok tts tp tr this u(2)] show ?thesis by blast
  qed
  have "links_ok ?ts" using reversals_okD(1) [OF ok] ref lnk tts by (intro links_put [OF inv adm]) auto
  then have links: "links_ok (map ?M ?ts)" by (rule links_marked)
  have marks: "t_state u' = StateProcessed \<and> (\<exists>y \<in> set (map ?M ?ts). t_id y = i \<and> reverses y u')"
    if u': "u' \<in> set (map ?M ?ts)" and r: "t_reversed_tx u' = Some i" for u' i
  proof -
    from u' obtain u where u: "u \<in> set ?ts" "u' = ?M u" by auto
    from r u have nv: "\<not> voids x t u" by (auto simp: marked_reversed_voids)
    show "t_state u' = StateProcessed \<and> (\<exists>y \<in> set (map ?M ?ts). t_id y = i \<and> reverses y u')"
    proof (cases "t_id u = t_id t")
      case True
      then have "u = t" by (rule id_unique [OF inv1 u(1) t1])
      moreover from this nv r u(2) have "i = t_id x" by (simp add: marked_reversed_voids)
      moreover have "reverses (?M x) (?M t)"
        using xr ref xrev tx by (simp add: reverses_def marked_reversed_voids)
      ultimately show ?thesis using u(2) tp put_tx_self [of x ts]
        by (intro conjI bexI [of _ "?M x"]) simp_all
    next
      case False
      with nv r u(2) have "t_reversed_tx u = Some i" by (simp add: marked_reversed_voids)
      from reversals_put_marks [OF inv adm ok u(1) this] obtain y where
        us: "t_state u = StateProcessed" and y: "y \<in> set ?ts" "t_id y = i" "reverses y u" by blast
      have "t_id y \<noteq> t_id t"
      proof
        assume "t_id y = t_id t"
        then have "y = t" by (rule id_unique [OF inv1 y(1) t1])
        with y(3) have "voids x t u"
          by (intro reversed_reversal [OF xr(2) lnk]) (simp_all add: reverses_def)
        with nv show False by simp
      qed
      with y(3) have "reverses (?M y) (?M u)" by (simp add: reverses_def marked_reversed_voids)
      with u(2) us y(1,2) show ?thesis by (intro conjI bexI [of _ "?M y"]) simp_all
    qed
  qed
  have effective: "\<exists>v \<in> set (map ?M ?ts). t_ref_tx y' = Some (t_id v) \<and> t_reversed_tx v = Some (t_id y')"
    if y': "y' \<in> set (map ?M ?ts)"
      and p: "t_state y' = StateProcessed \<and> IsReversalKind (t_kind y') \<and> t_reversed_tx y' = None" for y'
  proof -
    from y' obtain y where y: "y \<in> set ?ts" "y' = ?M y" by auto
    from p y have ys: "t_state y = StateProcessed" "IsReversalKind (t_kind y)" by simp_all
    have nt: "\<not> voids x t t" using void [OF t1] by blast
    show "\<exists>v \<in> set (map ?M ?ts). t_ref_tx y' = Some (t_id v) \<and> t_reversed_tx v = Some (t_id y')"
    proof (cases "y = x")
      case True
      with y(2) ref nt t1 show ?thesis
        by (intro bexI [of _ "?M t"]) (simp_all add: marked_reversed_voids)
    next
      case False
      have "\<not> voids x t y" using void [OF y(1)] ys(2) by (auto simp: IsReversalKind_def)
      with p y(2) have yr: "t_reversed_tx y = None" "t_id y \<noteq> t_id t"
        by (auto simp: marked_reversed_voids split: if_splits)
      from reversals_put_effective [OF inv adm ok y(1) False ys yr(1)] obtain v where
        v: "v \<in> set ?ts" "t_ref_tx y = Some (t_id v)" "t_reversed_tx v = Some (t_id y)" by blast
      have "\<not> voids x t v" using void [OF v(1)] v(3) yr(2) by auto
      moreover have "t_id v \<noteq> t_id t"
      proof
        assume "t_id v = t_id t"
        from id_unique [OF inv1 v(1) t1 this] v(3) tr show False by simp
      qed
      ultimately show ?thesis using v y(2)
        by (intro bexI [of _ "?M v"]) (simp_all add: marked_reversed_voids)
    qed
  qed
  have wins: "t_reversed_tx b' = None"
    if b': "b' \<in> set (map ?M ?ts)" and w': "w' \<in> set (map ?M ?ts)" and act: "active_win (t_id b') w'" for b' w'
  proof -
    from b' w' obtain b w where b: "b \<in> set ?ts" "b' = ?M b" and w: "w \<in> set ?ts" "w' = ?M w" by auto
    from act b(2) w(2) have wk: "t_kind w = KindWin" "t_state w = StateProcessed" "t_ref_tx w = Some (t_id b)"
      by (simp_all add: active_win_def)
    have "\<not> voids x t w" using void [OF w(1)] wk(1) by auto
    with act w(2) b(2) have aw: "active_win (t_id b) w"
      by (auto simp: active_win_def marked_reversed_voids split: if_splits)
    have "w \<noteq> x" using wk(1) xr(2) by (auto simp: IsReversalKind_def)
    then have wts: "w \<in> set ts" using put_tx_mem [OF inv w(1)] by blast
    have "t_kind x \<noteq> KindWin" using xr(2) by (auto simp: IsReversalKind_def)
    then have bn: "t_reversed_tx b = None"
      by (intro reversals_put_wins [OF inv adm ok _ b(1) refl w(1) aw]) simp
    have "t_id b \<noteq> t_id t"
    proof
      assume e: "t_id b = t_id t"
      from links_okD [OF reversals_okD(1) [OF ok] wts wk(2,3)] obtain v where
        v: "v \<in> set ts" "t_id v = t_id b" "linked w v" by blast
      have "t_id v = t_id t" using v(2) e by simp
      from id_unique [OF inv v(1) tts this] v(3) wk(1) have "t_kind t = KindBet" by (simp add: linked_def)
      with tgt xr(2) wts aw e show False by (auto simp: target_ok_def)
    qed
    with bn b(2) show "t_reversed_tx b' = None" by (simp add: marked_reversed_voids)
  qed
  from links marks effective wins show ?thesis unfolding reversals_ok_def mark_target_map by blast
qed

end
