(* ===== verification/Machine.thy ===== *)
theory Machine
  imports Books Lifecycle
begin

text \<open>
  The abstract specification of the store: a state machine on wallets, transactions, ledger and work
  items whose steps are opening a wallet, moving money for one transaction, settling a transaction
  without movement, parking one, and rescheduling. Its steps know nothing of SQL, errors or events.
  \<open>sound\<close> is the invariant; every step preserves it.
\<close>

section \<open>Transactions and their entries\<close>

definition direction_ok :: "tx_row list \<Rightarrow> tx_row \<Rightarrow> direction \<Rightarrow> bool" where
  "direction_ok ts x d \<longleftrightarrow> (case t_ref_tx x of
     None \<Rightarrow> d = (if t_kind x = KindBet then DirectionDebit else DirectionCredit)
   | Some i \<Rightarrow> \<exists>t \<in> set ts. t_id t = i \<and>
       d = (if t_kind x = KindWin then DirectionCredit else reversalDirection (t_kind x) (t_kind t)))"

definition posted :: "tx_row \<Rightarrow> ledger_row \<Rightarrow> bool" where
  "posted x e \<longleftrightarrow> t_state x = StateProcessed \<and> t_kind x \<noteq> KindLoss \<and> l_tx e = t_id x \<and> l_wallet e = t_wallet x \<and>
     l_amount e = t_amount x \<and> l_currency e = t_currency x \<and> t_result x = Some (l_after e) \<and>
     t_version x = Some (l_version e)"

definition entries_ok :: "tx_row list \<Rightarrow> ledger_row list \<Rightarrow> bool" where
  "entries_ok ts es \<longleftrightarrow> distinct (map l_tx es) \<and>
     (\<forall>e \<in> set es. \<exists>x \<in> set ts. posted x e \<and> direction_ok ts x (l_direction e)) \<and>
     (\<forall>x \<in> set ts. t_state x = StateProcessed \<and> t_kind x \<noteq> KindLoss \<longrightarrow> (\<exists>e \<in> set es. l_tx e = t_id x))"

lemma direction_ok_put:
  assumes inv: "tbl_inv t_id ts" and adm: "admissible ts x" and ok: "links_ok ts"
    and y: "y \<in> set ts" "t_state y = StateProcessed" "direction_ok ts y d"
  shows "direction_ok (put_tx x ts) y d"
proof (cases "t_ref_tx y")
  case (Some i)
  with y(3) obtain t where t: "t \<in> set ts" "t_id t = i"
    "d = (if t_kind y = KindWin then DirectionCredit else reversalDirection (t_kind y) (t_kind t))"
    by (auto simp: direction_ok_def)
  obtain v where v: "v \<in> set ts" "t_id v = i" "t_state v = StateProcessed"
    using links_okD [OF ok y(1,2) Some] by (auto simp: linked_def)
  have "t_id v = t_id t" using v(2) t(2) by simp
  from id_unique [OF inv v(1) t(1) this] v(3) have "t \<in> set (put_tx x ts)"
    using processed_kept [OF inv adm t(1)] by simp
  with t Some show ?thesis by (auto simp: direction_ok_def)
qed (use y(3) in \<open>simp add: direction_ok_def\<close>)

lemma direction_ok_marked: "direction_ok (map (marked x t) ts) (marked x t y) d = direction_ok ts y d"
  by (simp add: direction_ok_def split: option.splits)

lemma posted_marked [simp]: "posted (marked x t y) e = posted y e"
  by (simp add: posted_def)

lemma entries_marked:
  assumes "entries_ok ts es"
  shows "entries_ok (map (marked x t) ts) es"
  using assms unfolding entries_ok_def by (auto simp: direction_ok_marked)

text \<open>No entry is posted for a transaction that is still to be settled.\<close>

lemma no_entry_yet:
  assumes inv: "tbl_inv t_id ts" and adm: "admissible ts x" and ok: "entries_ok ts es"
  shows "t_id x \<notin> l_tx ` set es"
proof
  assume "t_id x \<in> l_tx ` set es"
  then obtain e where e: "e \<in> set es" "l_tx e = t_id x" by auto
  then obtain y where y: "y \<in> set ts" "posted y e" using ok by (auto simp: entries_ok_def)
  then have "t_id y = t_id x" "t_state y = StateProcessed" using e(2) by (auto simp: posted_def)
  with admissible_old [OF inv adm y(1)] show False by simp
qed

lemma entries_put:
  assumes inv: "tbl_inv t_id ts" and adm: "admissible ts x" and links: "links_ok ts" and ok: "entries_ok ts es"
    and x: "t_state x = StateProcessed \<Longrightarrow> t_kind x \<noteq> KindLoss \<Longrightarrow> \<exists>e. ns = [e]"
    and ns: "\<And>e. e \<in> set ns \<Longrightarrow> posted x e \<and> direction_ok (put_tx x ts) x (l_direction e)"
    and one: "length ns \<le> 1"
  shows "entries_ok (put_tx x ts) (es @ ns)"
proof -
  have "distinct (map l_tx (es @ ns))"
    using ok ns no_entry_yet [OF inv adm ok] one
    by (cases ns) (auto simp: entries_ok_def posted_def)
  moreover have "\<exists>y \<in> set (put_tx x ts). posted y e \<and> direction_ok (put_tx x ts) y (l_direction e)"
    if "e \<in> set (es @ ns)" for e
  proof (cases "e \<in> set ns")
    case True
    then show ?thesis using ns put_tx_self by blast
  next
    case False
    then obtain y where y: "y \<in> set ts" "posted y e" "direction_ok ts y (l_direction e)"
      using \<open>e \<in> set (es @ ns)\<close> ok by (auto simp: entries_ok_def)
    then have p: "t_state y = StateProcessed" by (simp add: posted_def)
    show ?thesis
      using y processed_kept(1) [OF inv adm y(1) p] direction_ok_put [OF inv adm links y(1) p y(3)] by blast
  qed
  moreover have "\<exists>e \<in> set (es @ ns). l_tx e = t_id y"
    if y: "y \<in> set (put_tx x ts)" "t_state y = StateProcessed" "t_kind y \<noteq> KindLoss" for y
  proof (cases "y = x")
    case True
    with x y obtain e where "ns = [e]" by blast
    with ns True show ?thesis by (auto simp: posted_def)
  next
    case False
    with put_tx_mem [OF inv y(1)] y ok show ?thesis by (fastforce simp: entries_ok_def)
  qed
  ultimately show ?thesis unfolding entries_ok_def by blast
qed

section \<open>Work items\<close>

definition works_ok :: "tx_row list \<Rightarrow> work_row list \<Rightarrow> bool" where
  "works_ok ts ks \<longleftrightarrow> tbl_inv k_tx ks \<and>
     (\<forall>k \<in> set ks. \<exists>x \<in> set ts. t_id x = k_tx k \<and> t_state x = StatePendingReference) \<and>
     (\<forall>x \<in> set ts. t_state x = StatePendingReference \<longrightarrow> (\<exists>k \<in> set ks. k_tx k = t_id x))"

definition drop_work :: "string \<Rightarrow> work_row list \<Rightarrow> work_row list" where
  "drop_work i ks = filter (\<lambda>k. k_tx k \<noteq> i) ks"

lemma works_settle:
  assumes inv: "tbl_inv t_id ts" and ok: "works_ok ts ks" and x: "t_state x \<noteq> StatePendingReference"
  shows "works_ok (put_tx x ts) (drop_work (t_id x) ks)"
proof -
  have "tbl_inv k_tx (drop_work (t_id x) ks)"
    using ok by (simp add: works_ok_def tbl_inv_def drop_work_def distinct_map_filter)
  moreover have "\<exists>y \<in> set (put_tx x ts). t_id y = k_tx k \<and> t_state y = StatePendingReference"
    if "k \<in> set (drop_work (t_id x) ks)" for k
  proof -
    have k: "k \<in> set ks" "k_tx k \<noteq> t_id x" using that by (simp_all add: drop_work_def)
    then obtain y where "y \<in> set ts" "t_id y = k_tx k" "t_state y = StatePendingReference"
      using ok by (auto simp: works_ok_def)
    with k(2) show ?thesis using put_tx_keep by metis
  qed
  moreover have "\<exists>k \<in> set (drop_work (t_id x) ks). k_tx k = t_id y"
    if y: "y \<in> set (put_tx x ts)" "t_state y = StatePendingReference" for y
  proof -
    have "y \<in> set ts" "t_id y \<noteq> t_id x" using put_tx_mem [OF inv y(1)] y(2) x by blast+
    with ok y(2) show ?thesis by (fastforce simp: works_ok_def drop_work_def)
  qed
  ultimately show ?thesis unfolding works_ok_def by blast
qed

lemma works_park:
  assumes ok: "works_ok ts ks" and x: "t_state x = StatePendingReference" "tbl_find t_id (t_id x) ts = None"
    and k: "k_tx k = t_id x"
  shows "works_ok (ts @ [x]) (ks @ [k])"
proof -
  have "\<forall>y \<in> set ts. t_id y \<noteq> t_id x" using x(2) by (simp add: tbl_find_None_all)
  then have "\<forall>q \<in> set ks. k_tx q \<noteq> k_tx k" using ok k unfolding works_ok_def by metis
  then show ?thesis using ok x k by (auto simp: works_ok_def tbl_inv_def)
qed

lemma works_marked: "works_ok (map (marked x t) ts) ks = works_ok ts ks"
  by (simp add: works_ok_def)

lemma works_ok_ids:
  "works_ok ts ks \<longleftrightarrow> distinct (map k_tx ks) \<and>
     (\<forall>i \<in> k_tx ` set ks. \<exists>x \<in> set ts. t_id x = i \<and> t_state x = StatePendingReference) \<and>
     (\<forall>x \<in> set ts. t_state x = StatePendingReference \<longrightarrow> t_id x \<in> k_tx ` set ks)"
proof -
  have "(\<exists>k \<in> set ks. k_tx k = i) = (i \<in> k_tx ` set ks)" for i by auto
  then show ?thesis by (simp add: works_ok_def tbl_inv_def)
qed

lemma works_same_keys:
  assumes "map k_tx ks' = map k_tx ks"
  shows "works_ok ts ks' = works_ok ts ks"
proof -
  have "k_tx ` set ks' = k_tx ` set ks" using assms by (metis list.set_map)
  then show ?thesis unfolding works_ok_ids assms by simp
qed

section \<open>Unique keys\<close>

definition keys_ok :: "tx_row list \<Rightarrow> bool" where
  "keys_ok ts \<longleftrightarrow> (\<forall>x \<in> set ts. \<forall>y \<in> set ts. tx_clash x y \<longrightarrow> t_id x = t_id y)"

lemma tx_clash_cong: "same_request x x' \<Longrightarrow> tx_clash x' y = tx_clash x y \<and> tx_clash y x' = tx_clash y x"
  by (simp add: same_request_def tx_clash_def split: origin.splits)

lemma tx_clash_sym: "tx_clash x y = tx_clash y x"
  by (auto simp: tx_clash_def split: origin.splits)

lemma keys_put:
  assumes inv: "tbl_inv t_id ts" and adm: "admissible ts x" and ok: "keys_ok ts"
  shows "keys_ok (put_tx x ts)"
proof -
  have x: "t_id x = t_id y" if y: "y \<in> set ts" "tx_clash x y" for y
  proof (cases "tbl_find t_id (t_id x) ts")
    case None
    with adm y show ?thesis by (auto simp: admissible_def)
  next
    case (Some q)
    with adm have q: "same_request q x" by (simp add: admissible_def)
    have "q \<in> set ts" "t_id q = t_id x" using tbl_find_SomeD [OF Some] by simp_all
    with ok y tx_clash_cong [OF q] show ?thesis by (simp add: keys_ok_def)
  qed
  show ?thesis
    unfolding keys_ok_def
  proof (intro ballI impI)
    fix y z assume y: "y \<in> set (put_tx x ts)" and z: "z \<in> set (put_tx x ts)" and c: "tx_clash y z"
    from put_tx_mem [OF inv y] put_tx_mem [OF inv z] c x ok tx_clash_sym [of y z]
    show "t_id y = t_id z" unfolding keys_ok_def by metis
  qed
qed

lemma keys_marked: "keys_ok (map (marked x t) ts) = keys_ok ts"
proof -
  have "tx_clash (marked x t a) (marked x t b) = tx_clash a b" for a b
    by (simp add: tx_clash_def split: origin.splits)
  then show ?thesis by (simp add: keys_ok_def)
qed

section \<open>The machine\<close>

text \<open>The columns that tie the row of a movement to its entry, and the reference it may have.\<close>

definition reference_ok :: "tx_row list \<Rightarrow> tx_row \<Rightarrow> direction \<Rightarrow> tx_row list \<Rightarrow> bool" where
  "reference_ok ts x d ts' \<longleftrightarrow>
     (t_ref_tx x = None \<and> t_kind x \<in> {KindBet, KindWin} \<and> ts' = put_tx x ts \<and>
        d = (if t_kind x = KindBet then DirectionDebit else DirectionCredit)) \<or>
     (\<exists>t. target_ok ts x t \<and> t_kind x = KindWin \<and> ts' = put_tx x ts \<and> d = DirectionCredit) \<or>
     (\<exists>t. target_ok ts x t \<and> IsReversalKind (t_kind x) \<and> ts' = mark_target x t (put_tx x ts) \<and>
        d = reversalDirection (t_kind x) (t_kind t))"

inductive machine :: "tables \<Rightarrow> tables \<Rightarrow> bool" for T where
  rescheduled: "machine T T'"
    if "wallets T' = wallets T" "txs T' = txs T" "ledger T' = ledger T"
       "map k_tx (works T') = map k_tx (works T)"
| opened: "machine T T'"
    if "tbl_find wr_id (wr_id r) (wallets T) = None" "opening_books r es" "tbl_inv l_id (ledger T @ es)"
       "xs = [] \<and> es = [] \<or> (\<exists>x e. xs = [x] \<and> es = [e] \<and> posted x e \<and> t_kind x = KindOpening \<and>
          t_ref_tx x = None \<and> l_direction e = DirectionCredit \<and>
          tbl_find t_id (t_id x) (txs T) = None \<and> admissible (txs T) x)"
       "wallets T' = wallets T @ [r]" "txs T' = txs T @ xs" "ledger T' = ledger T @ es" "works T' = works T"
| moved: "machine T T'"
    if "admissible (txs T) x" "tbl_find wr_id (t_wallet x) (wallets T) = Some r"
       "entry_fits (sint (wr_balance r), sint (wr_version r)) e" "1 \<le> sint (l_version e)"
       "tbl_inv l_id (ledger T @ [e])" "posted x e" "reference_ok (txs T) x (l_direction e) ts"
       "wallets T' = set_balance (t_wallet x) (l_after e) (l_version e) (wallets T)" "txs T' = ts"
       "ledger T' = ledger T @ [e]" "works T' = drop_work (t_id x) (works T)"
| settled: "machine T T'"
    if "admissible (txs T) x"
       "t_state x \<in> {StateRejected, StateFailed} \<or> (t_state x = StateProcessed \<and> t_kind x = KindLoss \<and> t_ref_tx x = None)"
       "wallets T' = wallets T" "txs T' = put_tx x (txs T)" "ledger T' = ledger T"
       "works T' = drop_work (t_id x) (works T)"
| parked: "machine T T'"
    if "admissible (txs T) x" "tbl_find t_id (t_id x) (txs T) = None" "t_state x = StatePendingReference"
       "k_tx k = t_id x" "wallets T' = wallets T" "txs T' = txs T @ [x]" "ledger T' = ledger T"
       "works T' = works T @ [k]"

definition sound :: "tables \<Rightarrow> bool" where
  "sound T \<longleftrightarrow> books_ok T \<and> tbl_inv l_id (ledger T) \<and> tbl_inv t_id (txs T) \<and> keys_ok (txs T) \<and>
     reversals_ok (txs T) \<and> entries_ok (txs T) (ledger T) \<and> works_ok (txs T) (works T)"

section \<open>Every step preserves soundness\<close>

lemma soundD:
  assumes "sound T"
  shows "books_ok T" "tbl_inv l_id (ledger T)" "tbl_inv t_id (txs T)" "keys_ok (txs T)" "reversals_ok (txs T)"
    "entries_ok (txs T) (ledger T)" "works_ok (txs T) (works T)"
  using assms by (simp_all add: sound_def)

lemma sound_rescheduled:
  assumes "sound T" "wallets T' = wallets T" "txs T' = txs T" "ledger T' = ledger T"
    "map k_tx (works T') = map k_tx (works T)"
  shows "sound T'"
  using assms works_same_keys [OF assms(5)] by (simp add: sound_def books_ok_def)

lemma put_fresh: "tbl_find t_id (t_id x) ts = None \<Longrightarrow> put_tx x ts = ts @ [x]"
  by (simp add: put_tx_def)

lemma sound_opened:
  assumes s: "sound T" and w: "tbl_find wr_id (wr_id r) (wallets T) = None" "opening_books r es"
    and l: "tbl_inv l_id (ledger T @ es)"
    and x: "posted x e" "t_kind x = KindOpening" "t_ref_tx x = None" "l_direction e = DirectionCredit"
      "tbl_find t_id (t_id x) (txs T) = None" "admissible (txs T) x" "es = [e]"
    and T': "wallets T' = wallets T @ [r]" "txs T' = txs T @ [x]" "ledger T' = ledger T @ es" "works T' = works T"
  shows "sound T'"
proof -
  note d = soundD [OF s]
  have st: "t_state x = StateProcessed" using x(1) by (simp add: posted_def)
  have p: "put_tx x (txs T) = txs T @ [x]" by (rule put_fresh [OF x(5)])
  have "books_ok T'" by (rule books_open [OF d(1) w T'(1,3)])
  moreover have "reversals_ok (txs T')"
    using reversals_put [OF d(3) x(6) d(5)] x(2,3) by (simp add: T' p IsReversalKind_def)
  moreover have "entries_ok (txs T') (ledger T')"
    using entries_put [OF d(3) x(6) reversals_okD(1) [OF d(5)] d(6), of "[e]"] x
    by (simp add: T' p direction_ok_def)
  moreover have "works_ok (txs T') (works T')"
  proof -
    have "drop_work (t_id x) (works T) = works T"
      using d(7) x(5) by (auto simp: drop_work_def works_ok_def tbl_find_None_all filter_id_conv)
    with works_settle [OF d(3,7), of x] show ?thesis by (simp add: T' p st)
  qed
  moreover have "tbl_inv t_id (txs T')" using put_tx_inv [OF d(3), of x] by (simp add: T' p)
  moreover have "keys_ok (txs T')" using keys_put [OF d(3) x(6) d(4)] by (simp add: T' p)
  ultimately show ?thesis using l by (simp add: sound_def T')
qed

lemma sound_opened_empty:
  assumes s: "sound T" and w: "tbl_find wr_id (wr_id r) (wallets T) = None" "opening_books r []"
    and T': "wallets T' = wallets T @ [r]" "txs T' = txs T" "ledger T' = ledger T" "works T' = works T"
  shows "sound T'"
  using books_open [OF soundD(1) [OF s] w T'(1)] s T' by (simp add: sound_def)

lemma sound_settled:
  assumes s: "sound T" and adm: "admissible (txs T) x"
    and st: "t_state x \<in> {StateRejected, StateFailed} \<or>
      (t_state x = StateProcessed \<and> t_kind x = KindLoss \<and> t_ref_tx x = None)"
    and T': "wallets T' = wallets T" "txs T' = put_tx x (txs T)" "ledger T' = ledger T"
      "works T' = drop_work (t_id x) (works T)"
  shows "sound T'"
proof -
  note d = soundD [OF s]
  have "reversals_ok (txs T')"
    unfolding T' using st by (intro reversals_put [OF d(3) adm d(5)]) (auto simp: IsReversalKind_def)
  moreover have "entries_ok (txs T') (ledger T')"
    using entries_put [OF d(3) adm reversals_okD(1) [OF d(5)] d(6), of "[]"] st by (auto simp: T')
  moreover have "works_ok (txs T') (works T')"
    unfolding T' using st by (intro works_settle [OF d(3,7)]) auto
  moreover have "books_ok T'" using d(1) by (simp add: books_ok_def T')
  ultimately show ?thesis
    using put_tx_inv [OF d(3)] keys_put [OF d(3) adm d(4)] d(2) by (simp add: sound_def T')
qed

lemma sound_parked:
  assumes s: "sound T" and adm: "admissible (txs T) x" and fresh: "tbl_find t_id (t_id x) (txs T) = None"
    and st: "t_state x = StatePendingReference" and k: "k_tx k = t_id x"
    and T': "wallets T' = wallets T" "txs T' = txs T @ [x]" "ledger T' = ledger T" "works T' = works T @ [k]"
  shows "sound T'"
proof -
  note d = soundD [OF s]
  have p: "txs T @ [x] = put_tx x (txs T)" by (rule put_fresh [OF fresh, symmetric])
  have "reversals_ok (txs T')"
    unfolding T' p using st by (intro reversals_put [OF d(3) adm d(5)]) auto
  moreover have "entries_ok (txs T') (ledger T')"
    using entries_put [OF d(3) adm reversals_okD(1) [OF d(5)] d(6), of "[]"] st by (auto simp: T' p)
  moreover have "works_ok (txs T') (works T')" unfolding T' by (rule works_park [OF d(7) st fresh k])
  moreover have "books_ok T'" using d(1) by (simp add: books_ok_def T')
  ultimately show ?thesis
    using put_tx_inv [OF d(3)] keys_put [OF d(3) adm d(4)] d(2) by (simp add: sound_def T' p)
qed

text \<open>The transaction side of a movement, in its three shapes.\<close>

lemma reference_txs:
  assumes inv: "tbl_inv t_id ts" and adm: "admissible ts x" and keys: "keys_ok ts" and rev: "reversals_ok ts"
    and ent: "entries_ok ts es" and p: "posted x e" and ref: "reference_ok ts x (l_direction e) ts'"
  shows "tbl_inv t_id ts' \<and> keys_ok ts' \<and> reversals_ok ts' \<and> entries_ok ts' (es @ [e])"
proof -
  have st: "t_state x = StateProcessed" using p by (simp add: posted_def)
  note links = reversals_okD(1) [OF rev]
  have entries: "entries_ok (put_tx x ts) (es @ [e])" if "direction_ok (put_tx x ts) x (l_direction e)"
    using entries_put [OF inv adm links ent, of "[e]"] p that by simp
  have kept: "t \<in> set (put_tx x ts)" if "target_ok ts x t" for t
    using processed_kept(1) [OF inv adm] that by (auto simp: target_ok_def linked_def)
  from ref show ?thesis
    unfolding reference_ok_def
  proof (elim disjE exE conjE)
    assume none: "t_ref_tx x = None" "t_kind x \<in> {KindBet, KindWin}" "ts' = put_tx x ts"
      "l_direction e = (if t_kind x = KindBet then DirectionDebit else DirectionCredit)"
    have "reversals_ok ts'" unfolding none(3)
      using none(1,2) by (intro reversals_put [OF inv adm rev]) (auto simp: IsReversalKind_def)
    moreover have "direction_ok (put_tx x ts) x (l_direction e)" using none(1,4) by (simp add: direction_ok_def)
    ultimately show ?thesis
      using put_tx_inv [OF inv] keys_put [OF inv adm keys] entries none(3) by simp
  next
    fix t assume win: "target_ok ts x t" "t_kind x = KindWin" "ts' = put_tx x ts" "l_direction e = DirectionCredit"
    have "reversals_ok ts'" unfolding win(3)
      using win(1,2) by (intro reversals_put [OF inv adm rev]) (auto simp: IsReversalKind_def target_ok_def)
    moreover have "direction_ok (put_tx x ts) x (l_direction e)"
      using win kept [OF win(1)] by (auto simp: direction_ok_def target_ok_def)
    ultimately show ?thesis
      using put_tx_inv [OF inv] keys_put [OF inv adm keys] entries win(3) by simp
  next
    fix t assume reversal: "target_ok ts x t" "IsReversalKind (t_kind x)" "ts' = mark_target x t (put_tx x ts)"
      "l_direction e = reversalDirection (t_kind x) (t_kind t)"
    have "reversals_ok ts'" unfolding reversal(3) by (rule reversals_mark [OF inv adm rev st reversal(2,1)])
    moreover have "direction_ok (put_tx x ts) x (l_direction e)"
      using reversal kept [OF reversal(1)] by (auto simp: direction_ok_def target_ok_def IsReversalKind_def)
    moreover have "tbl_inv t_id ts'" using put_tx_inv [OF inv, of x]
      unfolding reversal(3) tbl_inv_def by simp
    ultimately show ?thesis
      using entries_marked [OF entries] keys_put [OF inv adm keys]
      by (simp add: reversal(3) mark_target_map keys_marked)
  qed
qed

lemma reference_works:
  assumes "reference_ok ts x d ts'" "works_ok (put_tx x ts) ks"
  shows "works_ok ts' ks"
  using assms by (auto simp: reference_ok_def mark_target_map works_marked)

lemma sound_moved:
  assumes s: "sound T" and adm: "admissible (txs T) x"
    and r: "tbl_find wr_id (t_wallet x) (wallets T) = Some r"
    and e: "entry_fits (sint (wr_balance r), sint (wr_version r)) e" "1 \<le> sint (l_version e)"
    and l: "tbl_inv l_id (ledger T @ [e])" and p: "posted x e"
    and ref: "reference_ok (txs T) x (l_direction e) ts"
    and T': "wallets T' = set_balance (t_wallet x) (l_after e) (l_version e) (wallets T)" "txs T' = ts"
      "ledger T' = ledger T @ [e]" "works T' = drop_work (t_id x) (works T)"
  shows "sound T'"
proof -
  note d = soundD [OF s]
  have w: "l_wallet e = t_wallet x" "t_state x = StateProcessed" using p by (simp_all add: posted_def)
  have "books_ok T'" by (rule books_move [OF d(1) r e(1) w(1) e(2) T'(1,3)])
  moreover have "works_ok (txs T') (works T')"
    unfolding T' using w(2) by (intro reference_works [OF ref] works_settle [OF d(3,7)]) simp
  ultimately show ?thesis
    using reference_txs [OF d(3) adm d(4,5,6) p ref] l by (simp add: sound_def T')
qed

theorem machine_preserves_sound:
  assumes "machine T T'" "sound T"
  shows "sound T'"
  using assms
proof cases
  case (opened r es xs)
  then show ?thesis
    using sound_opened_empty [OF assms(2) opened(1)] sound_opened [OF assms(2) opened(1,2,3)] by auto
qed (use sound_rescheduled sound_moved sound_settled sound_parked assms(2) in blast)+

lemma sound_empty: "sound empty_tables"
  by (simp add: sound_def empty_tables_def books_ok_def tbl_inv_def keys_ok_def reversals_ok_def links_ok_def
      entries_ok_def works_ok_def)

lemma machine_star_sound: "machine\<^sup>*\<^sup>* T T' \<Longrightarrow> sound T \<Longrightarrow> sound T'"
  by (induction rule: rtranclp_induct) (auto intro: machine_preserves_sound)

end
