(* ===== verification/Specs.thy ===== *)
theory Specs
  imports Actions
begin

text \<open>
  Specifications of actions by the tables they leave. \<open>tspec m T Q R\<close>: started on the tables \<open>T\<close> in an
  open transaction, \<open>m\<close> either leaves the transaction aborted, or ends in a result with \<open>Q\<close> or in an
  error with \<open>R\<close> about the tables it leaves. An aborted transaction stays aborted under every action
  of the store (\<open>sticky\<close>), so whatever follows is rolled back; actions that open their own
  transaction leave none open (\<open>closed\<close>).
\<close>

named_theorems sticky_intros \<open>actions that keep an aborted transaction aborted\<close>
named_theorems tspec_intros \<open>specifications of actions, for use as introduction rules\<close>

definition sticky :: "'a action \<Rightarrow> bool" where
  "sticky m \<longleftrightarrow> (\<forall>w. aborted w \<longrightarrow> aborted (snd (m w)))"

definition closed :: "'a action \<Rightarrow> bool" where
  "closed m \<longleftrightarrow> (\<forall>w. \<not> aborted w \<longrightarrow> \<not> aborted (snd (m w)))"

definition tspec :: "'a action \<Rightarrow> tables \<Rightarrow> ('a \<Rightarrow> tables \<Rightarrow> bool) \<Rightarrow> (serr \<Rightarrow> tables \<Rightarrow> bool) \<Rightarrow> bool" where
  "tspec m T Q R \<longleftrightarrow> (\<forall>w. tabs w = T \<longrightarrow> \<not> aborted w \<longrightarrow>
     aborted (snd (m w)) \<or> (case fst (m w) of Inl e \<Rightarrow> R e (tabs (snd (m w))) | Inr x \<Rightarrow> Q x (tabs (snd (m w)))))"

section \<open>Aborted transactions stay aborted\<close>

lemma sticky_ret [sticky_intros]: "sticky (ret x)"
  by (simp add: sticky_def ret_def)

lemma sticky_fail [sticky_intros]: "sticky (fail e)"
  by (simp add: sticky_def fail_def)

lemma sticky_bind [sticky_intros]: "sticky m \<Longrightarrow> (\<And>x. sticky (f x)) \<Longrightarrow> sticky (bind m f)"
  by (fastforce simp: sticky_def bind_def split: prod.splits sum.splits)

lemma sticky_ignore [sticky_intros]: "sticky m \<Longrightarrow> sticky (ignore m)"
  by (simp add: sticky_def ignore_def)

lemma sticky_attempt [sticky_intros]: "sticky m \<Longrightarrow> sticky (attempt m)"
  by (simp add: sticky_def attempt_def)

lemma sticky_lift_domain [sticky_intros]: "sticky (lift_domain r)"
  by (cases r) (simp_all add: lift_domain_def sticky_ret sticky_fail)

lemma sticky_now [sticky_intros]: "sticky (now E)"
  by (simp add: sticky_def now_def)

lemma sticky_newID [sticky_intros]: "sticky (newID E)"
  by (simp add: sticky_def newID_def)

lemma sticky_int63n [sticky_intros]: "sticky (int63n E n)"
  by (simp add: sticky_def int63n_def)

lemma sticky_stmt [sticky_intros]: "sticky (stmt E f)"
  by (simp add: sticky_def stmt_def)

lemma sticky_if [sticky_intros]: "sticky m \<Longrightarrow> sticky m' \<Longrightarrow> sticky (if b then m else m')"
  by simp

lemma sticky_option [sticky_intros]: "sticky m \<Longrightarrow> (\<And>x. sticky (f x)) \<Longrightarrow> sticky (case p of None \<Rightarrow> m | Some x \<Rightarrow> f x)"
  by (cases p) simp_all

lemma sticky_sum [sticky_intros]:
  "(\<And>x. sticky (f x)) \<Longrightarrow> (\<And>x. sticky (g x)) \<Longrightarrow> sticky (case s of Inl x \<Rightarrow> f x | Inr x \<Rightarrow> g x)"
  by (cases s) simp_all

lemma sticky_prod [sticky_intros]: "(\<And>x y. sticky (f x y)) \<Longrightarrow> sticky (case p of (x, y) \<Rightarrow> f x y)"
  by (cases p) simp

lemma sticky_let [sticky_intros]: "sticky (f x) \<Longrightarrow> sticky (let y = x in f y)"
  by simp

section \<open>Rules for specifications\<close>

lemma tspec_mono:
  assumes "tspec m T Q R" "\<And>x T'. Q x T' \<Longrightarrow> Q' x T'" "\<And>e T'. R e T' \<Longrightarrow> R' e T'"
  shows "tspec m T Q' R'"
  unfolding tspec_def
proof (intro allI impI)
  fix w :: world assume "tabs w = T" "\<not> aborted w"
  with assms(1) have "aborted (snd (m w)) \<or> (case fst (m w) of Inl e \<Rightarrow> R e (tabs (snd (m w)))
    | Inr x \<Rightarrow> Q x (tabs (snd (m w))))" by (simp add: tspec_def)
  with assms(2,3) show "aborted (snd (m w)) \<or> (case fst (m w) of Inl e \<Rightarrow> R' e (tabs (snd (m w)))
    | Inr x \<Rightarrow> Q' x (tabs (snd (m w))))" by (auto split: sum.splits)
qed

lemma tspec_ret: "Q x T \<Longrightarrow> tspec (ret x) T Q R"
  by (simp add: tspec_def ret_def)

lemma tspec_fail: "R e T \<Longrightarrow> tspec (fail e) T Q R"
  by (simp add: tspec_def fail_def)

lemma tspec_InrD:
  assumes "tspec m T Q R" "tabs w = T" "\<not> aborted w" "m w = (Inr x, w')" "\<not> aborted w'"
  shows "Q x (tabs w')"
  using assms(1) [unfolded tspec_def, rule_format, OF assms(2,3)] assms(4,5) by simp

lemma tspec_InlD:
  assumes "tspec m T Q R" "tabs w = T" "\<not> aborted w" "m w = (Inl e, w')" "\<not> aborted w'"
  shows "R e (tabs w')"
  using assms(1) [unfolded tspec_def, rule_format, OF assms(2,3)] assms(4,5) by simp

lemma tspecI:
  assumes "\<And>w x w'. tabs w = T \<Longrightarrow> \<not> aborted w \<Longrightarrow> m w = (Inr x, w') \<Longrightarrow> \<not> aborted w' \<Longrightarrow> Q x (tabs w')"
    and "\<And>w e w'. tabs w = T \<Longrightarrow> \<not> aborted w \<Longrightarrow> m w = (Inl e, w') \<Longrightarrow> \<not> aborted w' \<Longrightarrow> R e (tabs w')"
  shows "tspec m T Q R"
  unfolding tspec_def using assms by (auto split: sum.splits) (metis prod.collapse)+

lemma bind_cases:
  "bind m f w = (r, w') \<Longrightarrow> (\<exists>e. m w = (Inl e, w') \<and> r = Inl e) \<or> (\<exists>x w1. m w = (Inr x, w1) \<and> f x w1 = (r, w'))"
  by (auto simp: bind_def split: prod.splits sum.splits)

lemma tspec_bind_gen:
  assumes "tspec m T (\<lambda>x T'. tspec (f x) T' Q R) R"
    and "\<And>x w w1 r w'. tabs w = T \<Longrightarrow> \<not> aborted w \<Longrightarrow> m w = (Inr x, w1) \<Longrightarrow> f x w1 = (r, w') \<Longrightarrow> \<not> aborted w' \<Longrightarrow>
      \<not> aborted w1"
  shows "tspec (bind m f) T Q R"
proof (rule tspecI)
  fix w x w' assume w: "tabs w = T" "\<not> aborted w" "bind m f w = (Inr x, w')" "\<not> aborted w'"
  then obtain y w1 where m: "m w = (Inr y, w1)" "f y w1 = (Inr x, w')" using bind_cases [OF w(3)] by blast
  then have a: "\<not> aborted w1" using assms(2) w by blast
  from tspec_InrD [OF assms(1) w(1,2) m(1) a] m(2) a w(4) show "Q x (tabs w')"
    by (auto dest: tspec_InrD)
next
  fix w e w' assume w: "tabs w = T" "\<not> aborted w" "bind m f w = (Inl e, w')" "\<not> aborted w'"
  from bind_cases [OF w(3)] show "R e (tabs w')"
  proof
    assume "\<exists>e'. m w = (Inl e', w') \<and> (Inl e :: serr + 'b) = Inl e'"
    then show ?thesis using tspec_InlD [OF assms(1) w(1,2) _ w(4)] by auto
  next
    assume "\<exists>y w1. m w = (Inr y, w1) \<and> f y w1 = (Inl e, w')"
    then obtain y w1 where m: "m w = (Inr y, w1)" "f y w1 = (Inl e, w')" by blast
    then have a: "\<not> aborted w1" using assms(2) w by blast
    from tspec_InrD [OF assms(1) w(1,2) m(1) a] m(2) a w(4) show "R e (tabs w')"
      by (auto dest: tspec_InlD)
  qed
qed

lemma tspec_bind:
  assumes "tspec m T (\<lambda>x T'. tspec (f x) T' Q R) R" "\<And>x. sticky (f x)"
  shows "tspec (bind m f) T Q R"
proof (rule tspec_bind_gen [OF assms(1)])
  fix x and w1 :: world and r w' assume "f x w1 = (r, w')" "\<not> aborted w'"
  then show "\<not> aborted w1" using assms(2) [of x] by (metis sticky_def snd_conv)
qed

lemma tspec_bind_closed:
  assumes "tspec m T (\<lambda>x T'. tspec (f x) T' Q R) R" "closed m"
  shows "tspec (bind m f) T Q R"
proof (rule tspec_bind_gen [OF assms(1)])
  fix x and w w1 :: world assume "\<not> aborted w" "m w = (Inr x, w1)"
  then show "\<not> aborted w1" using assms(2) by (metis closed_def snd_conv)
qed

lemma tspec_ignore:
  "tspec m T (\<lambda>_ T'. Q () T') (\<lambda>_ T'. Q () T') \<Longrightarrow> tspec (ignore m) T Q R"
  by (auto simp: tspec_def ignore_def split: sum.splits)

lemma tspec_attempt:
  "tspec m T (\<lambda>x T'. Q (Inr x) T') (\<lambda>e T'. Q (Inl e) T') \<Longrightarrow> tspec (attempt m) T Q R"
proof (rule tspecI)
  fix w x w' assume t: "tspec m T (\<lambda>x T'. Q (Inr x) T') (\<lambda>e T'. Q (Inl e) T')"
    and w: "tabs w = T" "\<not> aborted w" "attempt m w = (Inr x, w')" "\<not> aborted w'"
  then have m: "m w = (x, w')" by (auto simp: attempt_def)
  show "Q x (tabs w')"
  proof (cases x)
    case (Inl e)
    then show ?thesis using tspec_InlD [OF t w(1,2) _ w(4)] m by simp
  next
    case (Inr y)
    then show ?thesis using tspec_InrD [OF t w(1,2) _ w(4)] m by simp
  qed
qed (simp add: attempt_def)

lemma tspec_lift_domain:
  "(\<And>c. r = Inl c \<Longrightarrow> R (ErrDomain c) T) \<Longrightarrow> (\<And>x. r = Inr x \<Longrightarrow> Q x T) \<Longrightarrow> tspec (lift_domain r) T Q R"
  by (cases r) (simp_all add: lift_domain_def tspec_ret tspec_fail)

lemma tspec_now: "(\<And>t. Q t T) \<Longrightarrow> tspec (now E) T Q R"
  by (simp add: tspec_def now_def)

lemma tspec_newID: "(\<And>i. Q i T) \<Longrightarrow> tspec (newID E) T Q R"
  by (simp add: tspec_def newID_def)

lemma tspec_int63n: "(\<And>n. Q n T) \<Longrightarrow> tspec (int63n E k) T Q R"
  by (simp add: tspec_def int63n_def)

lemma tspec_if: "(b \<Longrightarrow> tspec m T Q R) \<Longrightarrow> (\<not> b \<Longrightarrow> tspec m' T Q R) \<Longrightarrow> tspec (if b then m else m') T Q R"
  by simp

lemma tspec_stmt: "(\<And>x T'. f T = Inr (x, T') \<Longrightarrow> Q x T') \<Longrightarrow> tspec (stmt E f) T Q R"
  by (auto simp: tspec_def stmt_def split: sum.splits prod.splits)

text \<open>A transaction that fails leaves the tables alone.\<close>

lemma tspec_transact:
  assumes "tspec m T Q R"
  shows "tspec (transact E m) T Q (\<lambda>_ T'. T' = T)"
  unfolding tspec_def
proof (intro allI impI disjI2)
  fix w :: world assume w: "tabs w = T" "\<not> aborted w"
  show "case fst (transact E m w) of Inl e \<Rightarrow> tabs (snd (transact E m w)) = T
    | Inr x \<Rightarrow> Q x (tabs (snd (transact E m w)))"
  proof (cases "transact E m w")
    case (Pair r w')
    show ?thesis
    proof (cases r)
      case (Inl e)
      with store_tx.error_rolls_back [of E m w e w'] Pair w show ?thesis by simp
    next
      case (Inr x)
      with store_tx.result_commits [of E m w x w'] Pair obtain w0 w1 where
        "tabs w0 = tabs w" "\<not> aborted w0" "m w0 = (Inr x, w1)" "\<not> aborted w1" "tabs w' = tabs w1"
        by blast
      with assms w Pair Inr show ?thesis unfolding tspec_def by fastforce
    qed
  qed
qed

lemma closed_transact [sticky_intros]: "closed (transact E m)"
  unfolding closed_def using store_tx.closed_after [of _ E m] by blast

lemma closed_bind [sticky_intros]: "closed m \<Longrightarrow> (\<And>x. closed (f x)) \<Longrightarrow> closed (bind m f)"
  by (fastforce simp: closed_def bind_def split: prod.splits sum.splits)

lemma closed_basic [sticky_intros]:
  "closed (ret x)" "closed (fail e)" "closed (now E)" "closed (newID E)" "closed (autocommit m)"
  "closed m \<Longrightarrow> closed (ignore m)" "closed m' \<Longrightarrow> closed (attempt m')"
  by (simp_all add: closed_def ret_def fail_def now_def newID_def autocommit_def ignore_def attempt_def
      split: prod.splits)

text \<open>A statement of its own: an error leaves the tables alone.\<close>

lemma tspec_autocommit_stmt:
  "(\<And>x T'. f T = Inr (x, T') \<Longrightarrow> Q x T') \<Longrightarrow> (\<And>e. R e T) \<Longrightarrow> tspec (autocommit (stmt E f)) T Q R"
  by (auto simp: tspec_def autocommit_def stmt_def split: sum.splits prod.splits)

lemma tspec_run:
  assumes "tspec m (tabs w) Q R" "closed m" "\<not> aborted w"
  shows "case m w of (Inl e, w') \<Rightarrow> R e (tabs w') | (Inr x, w') \<Rightarrow> Q x (tabs w')"
  using assms unfolding tspec_def closed_def by (cases "m w") (fastforce split: sum.splits)

end
