(* ===== verification/Store_Specs.thy ===== *)
theory Store_Specs
  imports Store Specs
begin

text \<open>
  What a successful SQL statement has changed, and the rules for the repository methods that follow.
  \<open>uuid_law\<close> states what is used of PostgreSQL's \<^verbatim>\<open>uuid\<close> type: it prints a value in a form that it reads
  back as itself, and the empty text is no \<^verbatim>\<open>uuid\<close>.
\<close>

definition uuid_law :: "env \<Rightarrow> bool" where
  "uuid_law E \<longleftrightarrow> e_uuid E [] = None \<and> (\<forall>s u. e_uuid E s = Some u \<longrightarrow> e_uuid E u = Some u)"

definition canon :: "env \<Rightarrow> string \<Rightarrow> bool" where
  "canon E s \<longleftrightarrow> e_uuid E s = Some s"

lemma uuid_in_Inr [simp]: "uuid_in E s = Inr u \<longleftrightarrow> e_uuid E s = Some u"
  by (simp add: uuid_in_def split: option.splits)

lemma uuid_in_canon: "canon E s \<Longrightarrow> uuid_in E s = Inr s"
  by (simp add: canon_def)

lemma uuid_opt_in_Inr: "uuid_opt_in E p = Inr q \<longleftrightarrow>
    (case p of None \<Rightarrow> q = None | Some s \<Rightarrow> \<exists>u. e_uuid E s = Some u \<and> q = Some u)"
  by (auto simp: uuid_opt_in_def uuid_in_def split: option.splits)

section \<open>Effects of statements\<close>

lemma tbl_add_Some: "tbl_add key r t = Some t' \<longleftrightarrow> tbl_find key (key r) t = None \<and> t' = t @ [r]"
  by (auto simp: tbl_add_def)

text \<open>The transaction row as it is stored.\<close>

definition stored_tx :: "env \<Rightarrow> tx_row \<Rightarrow> tx_row \<Rightarrow> bool" where
  "stored_tx E r x \<longleftrightarrow> e_uuid E (t_id r) = Some (t_id x) \<and> e_uuid E (t_wallet r) = Some (t_wallet x) \<and>
     e_uuid E (t_player r) = Some (t_player x) \<and> uuid_opt_in E (t_ref_tx r) = Inr (t_ref_tx x) \<and>
     uuid_opt_in E (t_reversed_tx r) = Inr (t_reversed_tx x) \<and>
     x = r\<lparr>t_id := t_id x, t_wallet := t_wallet x, t_player := t_player x, t_ref_tx := t_ref_tx x,
       t_reversed_tx := t_reversed_tx x\<rparr>"

lemma sql_insert_tx_InrD:
  assumes "sql_insert_tx E r T = Inr (u, T')"
  shows "\<exists>x. stored_tx E r x \<and> tx_checks x \<and> \<not> (\<exists>q \<in> set (txs T). tx_clash x q) \<and>
    tbl_find t_id (t_id x) (txs T) = None \<and> T' = T\<lparr>txs := txs T @ [x]\<rparr>"
proof -
  obtain i wid p ref rev where u: "e_uuid E (t_id r) = Some i" "e_uuid E (t_wallet r) = Some wid"
    "e_uuid E (t_player r) = Some p" "uuid_opt_in E (t_ref_tx r) = Inr ref" "uuid_opt_in E (t_reversed_tx r) = Inr rev"
    using assms unfolding sql_insert_tx_def by (auto elim!: rbind_InrE)
  let ?x = "r\<lparr>t_id := i, t_wallet := wid, t_player := p, t_ref_tx := ref, t_reversed_tx := rev\<rparr>"
  have "stored_tx E r ?x" using u by (simp add: stored_tx_def)
  moreover have "tx_checks ?x \<and> \<not> (\<exists>q \<in> set (txs T). tx_clash ?x q) \<and> tbl_find t_id i (txs T) = None \<and>
    T' = T\<lparr>txs := txs T @ [?x]\<rparr>"
    using assms u unfolding sql_insert_tx_def
    by (auto simp: uuid_in_def Let_def tbl_add_Some split: if_splits option.splits)
  ultimately show ?thesis by (intro exI [of _ ?x]) simp
qed

definition stored_ledger :: "env \<Rightarrow> ledger_row \<Rightarrow> ledger_row \<Rightarrow> bool" where
  "stored_ledger E r e \<longleftrightarrow> e_uuid E (l_id r) = Some (l_id e) \<and> e_uuid E (l_wallet r) = Some (l_wallet e) \<and>
     e_uuid E (l_tx r) = Some (l_tx e) \<and> e = r\<lparr>l_id := l_id e, l_wallet := l_wallet e, l_tx := l_tx e\<rparr>"

lemma sql_append_ledger_InrD:
  assumes "sql_append_ledger E r T = Inr (u, T')"
  shows "\<exists>e. stored_ledger E r e \<and> ledger_checks e \<and> tbl_find l_id (l_id e) (ledger T) = None \<and>
    tbl_find wr_id (l_wallet e) (wallets T) \<noteq> None \<and> T' = T\<lparr>ledger := ledger T @ [e]\<rparr>"
proof -
  obtain i wid t where u: "e_uuid E (l_id r) = Some i" "e_uuid E (l_wallet r) = Some wid" "e_uuid E (l_tx r) = Some t"
    using assms unfolding sql_append_ledger_def by (auto elim!: rbind_InrE)
  let ?e = "r\<lparr>l_id := i, l_wallet := wid, l_tx := t\<rparr>"
  have "stored_ledger E r ?e" using u by (simp add: stored_ledger_def)
  moreover have "ledger_checks ?e \<and> tbl_find l_id i (ledger T) = None \<and>
    tbl_find wr_id wid (wallets T) \<noteq> None \<and> T' = T\<lparr>ledger := ledger T @ [?e]\<rparr>"
    using assms u unfolding sql_append_ledger_def
    by (auto simp: uuid_in_def Let_def tbl_add_Some split: if_splits option.splits)
  ultimately show ?thesis by (intro exI [of _ ?e]) simp
qed

lemma sql_insert_outbox_InrD:
  assumes "sql_insert_outbox E r T = Inr (u, T')"
  shows "\<exists>b. e_uuid E (b_event r) = Some (b_event b) \<and> e_uuid E (b_aggregate r) = Some (b_aggregate b) \<and>
    b = r\<lparr>b_event := b_event b, b_aggregate := b_aggregate b\<rparr> \<and>
    tbl_find b_event (b_event b) (outbox T) = None \<and> T' = T\<lparr>outbox := outbox T @ [b]\<rparr>"
proof -
  obtain i a where u: "e_uuid E (b_event r) = Some i" "e_uuid E (b_aggregate r) = Some a"
    using assms unfolding sql_insert_outbox_def by (auto elim!: rbind_InrE)
  then show ?thesis
    using assms unfolding sql_insert_outbox_def
    by (intro exI [of _ "r\<lparr>b_event := i, b_aggregate := a\<rparr>"])
      (auto simp: uuid_in_def Let_def tbl_add_Some split: if_splits option.splits)
qed

lemma sql_insert_work_InrD:
  assumes "sql_insert_work E r T = Inr (u, T')"
  shows "\<exists>i. e_uuid E (k_tx r) = Some i \<and> T' = T\<lparr>works := works T @ [r\<lparr>k_tx := i\<rparr>]\<rparr> \<and> work_checks (r\<lparr>k_tx := i\<rparr>)"
  using assms unfolding sql_insert_work_def
  by (auto simp: uuid_in_def Let_def tbl_add_Some split: if_splits option.splits)

lemma sql_update_balance_InrD:
  assumes "sql_update_balance E w b v T = Inr (u, T')"
  shows "\<exists>i. e_uuid E w = Some i \<and> (tbl_find wr_id i (wallets T) \<noteq> None \<longrightarrow> 0 \<le> sint b \<and> 1 \<le> sint v) \<and>
    T' = T\<lparr>wallets := tbl_modify wr_id i (\<lambda>r. r\<lparr>wr_balance := b, wr_version := v\<rparr>) (wallets T)\<rparr>"
  using assms unfolding sql_update_balance_def
  by (auto simp: uuid_in_def split: if_splits option.splits)

lemma sql_update_state_InrD:
  assumes "sql_update_state E r T = Inr (u, T')"
  shows "\<exists>i ref. e_uuid E (t_id r) = Some i \<and> uuid_opt_in E (t_ref_tx r) = Inr ref \<and>
    T' = T\<lparr>txs := tbl_modify t_id i (\<lambda>q. q\<lparr>t_state := t_state r, t_failure := t_failure r,
      t_result := t_result r, t_result_currency := t_result_currency r, t_ref_tx := ref,
      t_version := t_version r\<rparr>) (txs T)\<rparr>"
  using assms unfolding sql_update_state_def
  by (auto simp: uuid_in_def elim!: rbind_InrE split: if_splits option.splits)

lemma sql_update_work_InrD:
  assumes "sql_update_work E i f T = Inr (u, T')"
  shows "\<exists>j. e_uuid E i = Some j \<and> T' = T\<lparr>works := tbl_modify k_tx j f (works T)\<rparr>"
  using assms unfolding sql_update_work_def
  by (auto simp: uuid_in_def split: if_splits option.splits)

section \<open>The repository methods keep an aborted transaction aborted\<close>

lemma sticky_absent [sticky_intros]: "sticky m \<Longrightarrow> sticky (absent_if_invalid m)"
  unfolding absent_if_invalid_def by (intro sticky_intros)

lemma sticky_repo [sticky_intros]:
  "sticky (LockForUpdate E w)" "sticky (wallet_Get E w)" "sticky (wallet_Insert E r)"
  "sticky (UpdateBalance E w b v)" "sticky (tx_Insert E x)" "sticky (tx_Get E i)"
  "sticky (FindByProviderKey E p kk)" "sticky (FindByProviderExternal E p e)" "sticky (FindDependents E p e)"
  "sticky (UpdateState E x)" "sticky (MarkReversed E i k j)" "sticky (ClearReversal E i)"
  "sticky (HasActiveWin E i)" "sticky (ledger_Append E l)" "sticky (ledger_Page E w v n)" "sticky (AllOrdered E w)"
  "sticky (InsertInbox E c m h)" "sticky (CompleteInbox E c m)" "sticky (FindInbox E c m)"
  "sticky (EnqueueOutbox E o_rec)" "sticky (MarkOutboxPublished E i)" "sticky (NackOutbox E i n1 t)"
  "sticky (EnqueueWork E k_rec)" "sticky (GetWork E i)" "sticky (TouchWork E i a1 b1 t c1)" "sticky (DeleteWork E i)"
  unfolding LockForUpdate_def wallet_Get_def wallet_Insert_def UpdateBalance_def tx_Insert_def tx_Get_def
    FindByProviderKey_def FindByProviderExternal_def FindDependents_def UpdateState_def MarkReversed_def
    ClearReversal_def HasActiveWin_def ledger_Append_def ledger_Page_def AllOrdered_def InsertInbox_def
    CompleteInbox_def FindInbox_def EnqueueOutbox_def MarkOutboxPublished_def NackOutbox_def EnqueueWork_def
    GetWork_def TouchWork_def DeleteWork_def
  by (intro sticky_intros)+

section \<open>Rules for the repository methods\<close>

lemma tspec_absent:
  assumes "tspec m T Q (\<lambda>_ _. False)"
  shows "tspec (absent_if_invalid m) T Q R"
  unfolding absent_if_invalid_def
proof (rule tspec_bind)
  show "tspec (attempt m) T (\<lambda>r T'. tspec (case r of Inl e \<Rightarrow> if isInvalidInput e then ret None else fail e
      | Inr x \<Rightarrow> ret x) T' Q R) R"
    by (intro tspec_attempt tspec_mono [OF assms]) (auto intro: tspec_ret)
qed (intro sticky_intros)

lemma tspec_LockForUpdate:
  assumes "Q None T" "\<And>u r. e_uuid E w = Some u \<Longrightarrow> tbl_find wr_id u (wallets T) = Some r \<Longrightarrow> Q (Some r) T"
  shows "tspec (LockForUpdate E w) T Q R"
  unfolding LockForUpdate_def
proof (intro tspec_absent tspec_stmt)
  fix x T' assume "sql_find_wallet E w T = Inr (x, T')"
  then obtain u where u: "e_uuid E w = Some u" "x = tbl_find wr_id u (wallets T)" "T' = T"
    by (auto simp: sql_find_wallet_def elim: rbind_InrE)
  show "Q x T'"
  proof (cases x)
    case (Some r)
    then show ?thesis using u assms(2) [of u r] by simp
  qed (use u assms(1) in simp)
qed

lemma tspec_wallet_Get:
  assumes "Q None T" "\<And>u r. e_uuid E w = Some u \<Longrightarrow> tbl_find wr_id u (wallets T) = Some r \<Longrightarrow> Q (Some r) T"
  shows "tspec (wallet_Get E w) T Q R"
proof -
  have "wallet_Get E w = LockForUpdate E w" by (simp add: wallet_Get_def LockForUpdate_def)
  then show ?thesis using tspec_LockForUpdate [of Q T E w R] assms by simp
qed

lemma tspec_tx_Get:
  assumes "\<And>u. e_uuid E i = Some u \<Longrightarrow> Q (tbl_find t_id u (txs T)) T"
  shows "tspec (tx_Get E i) T Q R"
  unfolding tx_Get_def
proof (intro tspec_absent tspec_stmt)
  fix x T' assume "sql_find_tx E i T = Inr (x, T')"
  then show "Q x T'" using assms by (auto simp: sql_find_tx_def elim: rbind_InrE)
qed

lemma tspec_FindByProviderKey:
  "Q (find_by_key p k (txs T)) T \<Longrightarrow> tspec (FindByProviderKey E p k) T Q R"
  unfolding FindByProviderKey_def by (rule tspec_stmt) simp

lemma tspec_FindByProviderExternal:
  "Q (find_by_external p e (txs T)) T \<Longrightarrow> tspec (FindByProviderExternal E p e) T Q R"
  unfolding FindByProviderExternal_def by (rule tspec_stmt) simp

lemma tspec_FindDependents:
  "Q (dependents p e (txs T)) T \<Longrightarrow> tspec (FindDependents E p e) T Q R"
  unfolding FindDependents_def by (rule tspec_stmt) simp

lemma tspec_HasActiveWin:
  "(\<And>u. e_uuid E i = Some u \<Longrightarrow> Q (\<exists>w \<in> set (txs T). active_win u w) T) \<Longrightarrow> tspec (HasActiveWin E i) T Q R"
  unfolding HasActiveWin_def
  by (rule tspec_stmt) (auto simp: sql_has_active_win_def filter_empty_conv elim!: rbind_InrE)

lemma tspec_GetWork: "(\<And>x. Q x T) \<Longrightarrow> tspec (GetWork E i) T Q R"
  unfolding GetWork_def by (rule tspec_stmt) (auto elim!: rbind_InrE)

lemma tspec_tx_Insert:
  assumes "\<And>x. stored_tx E r x \<Longrightarrow> tx_checks x \<Longrightarrow> \<not> (\<exists>q \<in> set (txs T). tx_clash x q) \<Longrightarrow>
    tbl_find t_id (t_id x) (txs T) = None \<Longrightarrow> Q () (T\<lparr>txs := txs T @ [x]\<rparr>)"
  shows "tspec (tx_Insert E r) T Q R"
  unfolding tx_Insert_def by (rule tspec_stmt) (use assms sql_insert_tx_InrD in fastforce)

lemma tspec_ledger_Append:
  assumes "\<And>e. stored_ledger E r e \<Longrightarrow> ledger_checks e \<Longrightarrow> tbl_find l_id (l_id e) (ledger T) = None \<Longrightarrow>
    tbl_find wr_id (l_wallet e) (wallets T) \<noteq> None \<Longrightarrow> Q () (T\<lparr>ledger := ledger T @ [e]\<rparr>)"
  shows "tspec (ledger_Append E r) T Q R"
  unfolding ledger_Append_def by (rule tspec_stmt) (use assms sql_append_ledger_InrD in fastforce)

lemma tspec_UpdateBalance:
  assumes "\<And>i. e_uuid E w = Some i \<Longrightarrow> (tbl_find wr_id i (wallets T) \<noteq> None \<Longrightarrow> 0 \<le> sint b \<and> 1 \<le> sint v) \<Longrightarrow>
    Q () (T\<lparr>wallets := tbl_modify wr_id i (\<lambda>r. r\<lparr>wr_balance := b, wr_version := v\<rparr>) (wallets T)\<rparr>)"
  shows "tspec (UpdateBalance E w b v) T Q R"
  unfolding UpdateBalance_def by (rule tspec_stmt) (use assms sql_update_balance_InrD in fastforce)

lemma tspec_UpdateState:
  assumes "\<And>i ref. e_uuid E (t_id r) = Some i \<Longrightarrow> uuid_opt_in E (t_ref_tx r) = Inr ref \<Longrightarrow>
    Q () (T\<lparr>txs := tbl_modify t_id i (\<lambda>q. q\<lparr>t_state := t_state r, t_failure := t_failure r,
      t_result := t_result r, t_result_currency := t_result_currency r, t_ref_tx := ref,
      t_version := t_version r\<rparr>) (txs T)\<rparr>)"
  shows "tspec (UpdateState E r) T Q R"
  unfolding UpdateState_def by (rule tspec_stmt) (use assms sql_update_state_InrD in fastforce)

lemma tspec_MarkReversed:
  assumes "\<And>i b. e_uuid E tgt = Some i \<Longrightarrow> e_uuid E by_tx = Some b \<Longrightarrow>
    Q () (T\<lparr>txs := tbl_modify t_id i (\<lambda>q. q\<lparr>t_reversed_kind := Some k, t_reversed_tx := Some b\<rparr>) (txs T)\<rparr>)"
  shows "tspec (MarkReversed E tgt k by_tx) T Q R"
  unfolding MarkReversed_def
  by (rule tspec_stmt) (use assms in \<open>auto simp: sql_mark_reversed_def elim!: rbind_InrE split: if_splits\<close>)

lemma tspec_ClearReversal:
  assumes "\<And>i. e_uuid E tgt = Some i \<Longrightarrow>
    Q () (T\<lparr>txs := tbl_modify t_id i (\<lambda>q. q\<lparr>t_reversed_kind := None, t_reversed_tx := None\<rparr>) (txs T)\<rparr>)"
  shows "tspec (ClearReversal E tgt) T Q R"
  unfolding ClearReversal_def
  by (rule tspec_stmt) (use assms in \<open>auto simp: sql_clear_reversal_def elim!: rbind_InrE\<close>)

lemma tspec_EnqueueOutbox:
  assumes "\<And>b. b_type b = ob_type e \<Longrightarrow> b_payload b = ob_payload e \<Longrightarrow> b_published b = None \<Longrightarrow>
      e_uuid E (ob_event e) = Some (b_event b) \<Longrightarrow> e_uuid E (ob_aggregate e) = Some (b_aggregate b) \<Longrightarrow>
      Q () (T\<lparr>outbox := outbox T @ [b]\<rparr>)"
  shows "tspec (EnqueueOutbox E e) T Q R"
  unfolding EnqueueOutbox_def
proof (rule tspec_bind [OF tspec_now])
  fix t
  let ?r = "\<lparr>b_event = ob_event e, b_aggregate = ob_aggregate e, b_type = ob_type e, b_payload = ob_payload e,
    b_occurred = t, b_attempts = ob_attempts e, b_next = zero_time, b_published = None, b_owner = None, b_lease = None\<rparr>"
  show "tspec (stmt E (sql_insert_outbox E ?r)) T Q R"
  proof (rule tspec_stmt)
    fix x T' assume "sql_insert_outbox E ?r T = Inr (x, T')"
    from sql_insert_outbox_InrD [OF this] obtain b where b: "e_uuid E (ob_event e) = Some (b_event b)"
      "e_uuid E (ob_aggregate e) = Some (b_aggregate b)" "b = ?r\<lparr>b_event := b_event b, b_aggregate := b_aggregate b\<rparr>"
      "T' = T\<lparr>outbox := outbox T @ [b]\<rparr>" by auto
    have "b_type b = ob_type e" "b_payload b = ob_payload e" "b_published b = None"
      by (subst b(3), simp)+
    with b assms show "Q x T'" by simp
  qed
qed (intro sticky_intros)

lemma tspec_EnqueueWork:
  assumes "\<And>k. e_uuid E (wi_tx w) = Some (k_tx k) \<Longrightarrow> k_kind k = wi_kind w \<Longrightarrow> k_ref k = wi_ref w \<Longrightarrow>
    k_next k = wi_next w \<Longrightarrow> Q () (T\<lparr>works := works T @ [k]\<rparr>)"
  shows "tspec (EnqueueWork E w) T Q R"
  unfolding EnqueueWork_def
  by (rule tspec_bind [OF tspec_now], rule tspec_stmt, drule sql_insert_work_InrD, auto intro!: assms sticky_intros)

lemma tspec_TouchWork:
  assumes "\<And>T'. map k_tx (works T') = map k_tx (works T) \<Longrightarrow> wallets T' = wallets T \<Longrightarrow> txs T' = txs T \<Longrightarrow>
    ledger T' = ledger T \<Longrightarrow> Q () T'"
  shows "tspec (TouchWork E i a b t c) T Q R"
  unfolding TouchWork_def
proof (rule tspec_stmt)
  fix x T' assume "sql_update_work E i (\<lambda>r. let r' = r\<lparr>k_ref := a, k_infra := b, k_next := t\<rparr> in
      if c then r'\<lparr>k_owner := None, k_lease := None\<rparr> else r') T = Inr (x, T')"
  from sql_update_work_InrD [OF this] show "Q x T'"
    by (auto simp: Let_def intro!: assms map_key_modify)
qed

lemma tspec_DeleteWork:
  assumes "\<And>j. e_uuid E i = Some j \<Longrightarrow> Q () (T\<lparr>works := filter (\<lambda>r. k_tx r \<noteq> j) (works T)\<rparr>)"
  shows "tspec (DeleteWork E i) T Q R"
  unfolding DeleteWork_def by (rule tspec_stmt) (use assms in \<open>auto elim!: rbind_InrE\<close>)

lemma tspec_InsertInbox:
  assumes "\<And>T'. T' = T\<lparr>inbox := inbox T'\<rparr> \<Longrightarrow> Q () T'"
  shows "tspec (InsertInbox E c m h) T Q R"
  unfolding InsertInbox_def
  by (rule tspec_stmt) (use assms in \<open>auto simp: sql_insert_inbox_def split: option.splits\<close>)

lemma tspec_CompleteInbox:
  assumes "\<And>T'. T' = T\<lparr>inbox := inbox T'\<rparr> \<Longrightarrow> Q () T'"
  shows "tspec (CompleteInbox E c m) T Q R"
  unfolding CompleteInbox_def
  by (rule tspec_bind [OF tspec_now], rule tspec_stmt) (use assms in \<open>auto intro: sticky_intros\<close>)

end
