(* ===== verification/Refine_Accept.thy ===== *)
theory Refine_Accept
  imports Machine Store_Specs
begin

text \<open>
  The acceptance of an operation implements the abstract machine: started on a sound store, the body
  of the transaction either fails, having written nothing or aborted the transaction, or has made
  exactly one step of the machine.
\<close>

section \<open>What the store keeps besides soundness\<close>

text \<open>Wallets are in valid currencies and the entries of a wallet are in its own.\<close>

definition currency_ok :: "wallet_row list \<Rightarrow> ledger_row list \<Rightarrow> bool" where
  "currency_ok ws es \<longleftrightarrow> (\<forall>r \<in> set ws. validCurrency (wr_currency r)) \<and>
     (\<forall>e \<in> set es. \<forall>r \<in> set ws. wr_id r = l_wallet e \<longrightarrow> l_currency e = wr_currency r)"

definition stored_ok :: "env \<Rightarrow> tables \<Rightarrow> bool" where
  "stored_ok E T \<longleftrightarrow> currency_ok (wallets T) (ledger T) \<and> (\<forall>r \<in> set (wallets T). canon E (wr_id r)) \<and>
     (\<forall>x \<in> set (txs T). canon E (t_id x) \<and> canon E (t_wallet x) \<and> (\<forall>b. t_ref_tx x = Some b \<longrightarrow> canon E b) \<and>
        tx_checks x \<and> t_state x \<noteq> StatePending)"

definition good :: "env \<Rightarrow> tables \<Rightarrow> bool" where
  "good E T \<longleftrightarrow> uuid_law E \<and> sound T \<and> stored_ok E T"

text \<open>One step of the machine, to a store that is as well kept.\<close>

definition advance :: "env \<Rightarrow> tables \<Rightarrow> tables \<Rightarrow> bool" where
  "advance E T T' \<longleftrightarrow> machine T T' \<and> stored_ok E T'"

definition same_core :: "tables \<Rightarrow> tables \<Rightarrow> bool" where
  "same_core T T' \<longleftrightarrow> wallets T' = wallets T \<and> txs T' = txs T \<and> ledger T' = ledger T \<and> works T' = works T"

lemma goodD:
  assumes "good E T"
  shows "uuid_law E" "sound T" "stored_ok E T" "tbl_inv t_id (txs T)" "tbl_inv wr_id (wallets T)"
    "reversals_ok (txs T)" "links_ok (txs T)"
  using assms by (simp_all add: good_def sound_def books_ok_def reversals_ok_def)

lemma advance_good: "good E T \<Longrightarrow> advance E T T' \<Longrightarrow> good E T'"
  using machine_preserves_sound by (auto simp: good_def advance_def)

lemma machine_same_core:
  assumes "machine T T1" "same_core T1 T2"
  shows "machine T T2"
  using assms(1)
proof cases
  case rescheduled
  then show ?thesis using assms(2) by (intro machine.rescheduled) (simp_all add: same_core_def)
next
  case (opened r es xs)
  then show ?thesis using assms(2) by (intro machine.opened [of r T es xs]) (auto simp: same_core_def)
next
  case (moved x r e ts)
  then show ?thesis using assms(2) by (intro machine.moved [of T x r e ts]) (auto simp: same_core_def)
next
  case (settled x)
  then show ?thesis using assms(2) by (intro machine.settled [of T x]) (auto simp: same_core_def)
next
  case (parked x k)
  then show ?thesis using assms(2) by (intro machine.parked [of T x k]) (auto simp: same_core_def)
qed

lemma advance_same_core: "advance E T T1 \<Longrightarrow> same_core T1 T2 \<Longrightarrow> advance E T T2"
  using machine_same_core by (auto simp: advance_def stored_ok_def same_core_def)

lemma advance_idle: "good E T \<Longrightarrow> same_core T T' \<Longrightarrow> advance E T T'"
  by (auto simp: advance_def good_def stored_ok_def same_core_def intro: machine.rescheduled)

lemma advance_rescheduled:
  assumes "good E T" "map k_tx (works T') = map k_tx (works T)" "wallets T' = wallets T" "txs T' = txs T"
    "ledger T' = ledger T"
  shows "advance E T T'"
  using assms machine.rescheduled [of T' T] by (simp add: advance_def good_def stored_ok_def)

text \<open>The columns of a stored row.\<close>

lemma stored_txD:
  assumes "stored_tx E r x"
  shows "e_uuid E (t_id r) = Some (t_id x)" "e_uuid E (t_wallet r) = Some (t_wallet x)"
    "uuid_opt_in E (t_ref_tx r) = Inr (t_ref_tx x)" "uuid_opt_in E (t_reversed_tx r) = Inr (t_reversed_tx x)"
    "t_origin x = t_origin r" "t_provider x = t_provider r" "t_kind x = t_kind r" "t_amount x = t_amount r"
    "t_currency x = t_currency r" "t_state x = t_state r" "t_result x = t_result r" "t_version x = t_version r"
    "t_external x = t_external r" "t_key x = t_key r" "t_hash x = t_hash r" "t_failure x = t_failure r"
    "t_ref_external x = t_ref_external r" "t_result_currency x = t_result_currency r"
proof -
  from assms have x: "x = r\<lparr>t_id := t_id x, t_wallet := t_wallet x, t_player := t_player x, t_ref_tx := t_ref_tx x,
       t_reversed_tx := t_reversed_tx x\<rparr>" by (simp add: stored_tx_def)
  show "e_uuid E (t_id r) = Some (t_id x)" "e_uuid E (t_wallet r) = Some (t_wallet x)"
    "uuid_opt_in E (t_ref_tx r) = Inr (t_ref_tx x)" "uuid_opt_in E (t_reversed_tx r) = Inr (t_reversed_tx x)"
    using assms by (simp_all add: stored_tx_def)
  show "t_origin x = t_origin r" "t_provider x = t_provider r" "t_kind x = t_kind r" "t_amount x = t_amount r"
    "t_currency x = t_currency r" "t_state x = t_state r" "t_result x = t_result r" "t_version x = t_version r"
    "t_external x = t_external r" "t_key x = t_key r" "t_hash x = t_hash r" "t_failure x = t_failure r"
    "t_ref_external x = t_ref_external r" "t_result_currency x = t_result_currency r"
    by (subst x, simp)+
qed

lemma stored_ledgerD:
  assumes "stored_ledger E r e"
  shows "e_uuid E (l_id r) = Some (l_id e)" "e_uuid E (l_wallet r) = Some (l_wallet e)"
    "e_uuid E (l_tx r) = Some (l_tx e)" "l_direction e = l_direction r" "l_amount e = l_amount r"
    "l_currency e = l_currency r" "l_before e = l_before r" "l_after e = l_after r" "l_version e = l_version r"
proof -
  from assms have e: "e = r\<lparr>l_id := l_id e, l_wallet := l_wallet e, l_tx := l_tx e\<rparr>" by (simp add: stored_ledger_def)
  show "e_uuid E (l_id r) = Some (l_id e)" "e_uuid E (l_wallet r) = Some (l_wallet e)"
    "e_uuid E (l_tx r) = Some (l_tx e)" using assms by (simp_all add: stored_ledger_def)
  show "l_direction e = l_direction r" "l_amount e = l_amount r"
    "l_currency e = l_currency r" "l_before e = l_before r" "l_after e = l_after r" "l_version e = l_version r"
    by (subst e, simp)+
qed

section \<open>The building blocks\<close>

lemma sticky_emit [sticky_intros]:
  "sticky (emitProcessed E w i s a b d)" "sticky (emitRejected E w i s a c)" "sticky (emitPendingRef E w i s)"
  unfolding emitProcessed_def emitRejected_def emitPendingRef_def by (intro sticky_intros)+

lemma sticky_outcomes [sticky_intros]:
  "sticky (insertTx E oc i w st fc m ref)" "sticky (processed E oc i w before after ref d)"
  "sticky (rejected E oc i w fc ref)" "sticky (parkReference E oc i t w)" "sticky (activeWin E x)"
  "sticky (markTarget E k i x)" "sticky (mustMinor a c)"
  unfolding insertTx_def processed_def rejected_def parkReference_def activeWin_def markTarget_def mustMinor_def
  by (intro sticky_intros)+

text \<open>Events only grow the outbox.\<close>

definition event_types :: "direction \<Rightarrow> string list" where
  "event_types d = (if d = DirectionOther [] then [EventProcessed] else [EventProcessed, EventBalance])"

lemma tspec_emitProcessed:
  assumes "\<And>bs. map b_type bs = event_types d \<Longrightarrow> Q () (T\<lparr>outbox := outbox T @ bs\<rparr>)"
  shows "tspec (emitProcessed E w i s a b d) T Q R"
  unfolding emitProcessed_def Let_def
  apply (intro tspec_bind tspec_now tspec_newID tspec_EnqueueOutbox sticky_intros)
  subgoal for t n r
    using assms [of "[r]"]
    by (auto intro!: tspec_ret tspec_bind tspec_newID tspec_EnqueueOutbox sticky_intros assms
        simp: event_types_def new_outbox_def)
  done

lemma tspec_emitRejected:
  assumes "\<And>b. b_type b = EventRejected \<Longrightarrow> Q () (T\<lparr>outbox := outbox T @ [b]\<rparr>)"
  shows "tspec (emitRejected E w i s a c) T Q R"
  unfolding emitRejected_def Let_def
  by (intro tspec_bind tspec_now tspec_newID tspec_EnqueueOutbox sticky_intros assms) (simp add: new_outbox_def)

lemma tspec_emitPendingRef:
  assumes "\<And>b. b_type b = EventPendingRef \<Longrightarrow> Q () (T\<lparr>outbox := outbox T @ [b]\<rparr>)"
  shows "tspec (emitPendingRef E w i s) T Q R"
  unfolding emitPendingRef_def Let_def
  by (intro tspec_bind tspec_now tspec_newID tspec_EnqueueOutbox sticky_intros assms) (simp add: new_outbox_def)

lemma tx_record_simps [simp]:
  "t_id (tx_record oc i w st fc m ref) = i" "t_origin (tx_record oc i w st fc m ref) = EXTERNAL"
  "t_provider (tx_record oc i w st fc m ref) = Some (s_provider (oc_in oc))"
  "t_external (tx_record oc i w st fc m ref) = Some (s_external (oc_in oc))"
  "t_key (tx_record oc i w st fc m ref) = Some (s_key (oc_in oc))"
  "t_hash (tx_record oc i w st fc m ref) = Some (oc_hash oc)"
  "t_wallet (tx_record oc i w st fc m ref) = s_wallet (oc_in oc)"
  "t_kind (tx_record oc i w st fc m ref) = s_kind (oc_in oc)"
  "t_amount (tx_record oc i w st fc m ref) = minor (oc_amount oc)"
  "t_currency (tx_record oc i w st fc m ref) = currency (oc_amount oc)"
  "t_ref_external (tx_record oc i w st fc m ref) = (if s_ref (oc_in oc) \<noteq> [] then Some (s_ref (oc_in oc)) else None)"
  "t_ref_tx (tx_record oc i w st fc m ref) = (if ref \<noteq> [] then Some ref else None)"
  "t_state (tx_record oc i w st fc m ref) = st"
  "t_failure (tx_record oc i w st fc m ref) = (if fc \<noteq> [] then Some fc else None)"
  "t_result (tx_record oc i w st fc m ref) = map_option minor m"
  "t_result_currency (tx_record oc i w st fc m ref) = map_option currency m"
  "t_reversed_tx (tx_record oc i w st fc m ref) = None"
  "t_version (tx_record oc i w st fc m ref) = map_option (\<lambda>_. w_version w) m"
  by (simp_all add: tx_record_def Let_def)

text \<open>An inserted row, and the facts about it that the table guarantees.\<close>

definition inserted :: "env \<Rightarrow> tables \<Rightarrow> tx_row \<Rightarrow> tx_row \<Rightarrow> bool" where
  "inserted E T r x \<longleftrightarrow> stored_tx E r x \<and> tx_checks x \<and> \<not> (\<exists>q \<in> set (txs T). tx_clash x q) \<and>
     tbl_find t_id (t_id x) (txs T) = None"

lemma inserted_stored: "inserted E T r x \<Longrightarrow> stored_tx E r x"
  by (simp add: inserted_def)

lemmas insertedD = stored_txD [OF inserted_stored]

lemma inserted_admissible:
  "inserted E T r x \<Longrightarrow> t_reversed_tx r = None \<Longrightarrow> admissible (txs T) x"
  using stored_txD(4) [of E r x] by (simp add: inserted_def admissible_def uuid_opt_in_Inr)

lemma inserted_put: "inserted E T r x \<Longrightarrow> put_tx x (txs T) = txs T @ [x]"
  by (simp add: inserted_def put_fresh)

lemma inserted_no_work:
  assumes "sound T" "inserted E T r x"
  shows "drop_work (t_id x) (works T) = works T"
  using soundD(7) [OF assms(1)] assms(2)
  by (fastforce simp: inserted_def drop_work_def works_ok_def tbl_find_None_all filter_id_conv)

lemma tspec_insertTx:
  assumes "\<And>x. inserted E T (tx_record oc i w st fc m ref) x \<Longrightarrow> Q () (T\<lparr>txs := txs T @ [x]\<rparr>)"
  shows "tspec (insertTx E oc i w st fc m ref) T Q R"
  unfolding insertTx_def by (rule tspec_tx_Insert) (simp add: assms inserted_def)

text \<open>A stored entry of a movement by the wallet \<open>w\<close> for the transaction text \<open>i\<close>.\<close>

definition booked :: "env \<Rightarrow> tables \<Rightarrow> wallet \<Rightarrow> string \<Rightarrow> direction \<Rightarrow> money \<Rightarrow> money \<Rightarrow> money \<Rightarrow> ledger_row \<Rightarrow> bool" where
  "booked E T w i d amount before after e \<longleftrightarrow> e_uuid E (w_id w) = Some (l_wallet e) \<and> e_uuid E i = Some (l_tx e) \<and>
     l_direction e = d \<and> l_amount e = minor amount \<and> l_currency e = currency amount \<and> l_before e = minor before \<and>
     l_after e = minor after \<and> l_version e = w_version w \<and> currency after = currency amount \<and>
     tbl_find l_id (l_id e) (ledger T) = None \<and> 1 \<le> sint (w_version w) \<and>
     sint (l_after e) = sint (l_before e) + signed_amount d (l_amount e) \<and> 0 \<le> sint (l_after e) \<and>
     0 < sint (l_amount e) \<and> d \<in> {DirectionDebit, DirectionCredit}"

lemma booked_intro:
  assumes "NewLedgerEntry en (w_id w) i d amount before after (w_version w) = Inr e"
    "stored_ledger E (toLedgerRecord e) f" "tbl_find l_id (l_id f) (ledger T) = None" "1 \<le> sint (w_version w)"
  shows "booked E T w i d amount before after f"
  using NewLedgerEntry_InrD [OF assms(1)] stored_ledgerD [OF assms(2)] assms(3,4)
  by (simp add: booked_def toLedgerRecord_def)

definition moved_tables :: "tables \<Rightarrow> tx_row list \<Rightarrow> ledger_row \<Rightarrow> outbox_row list \<Rightarrow> tables" where
  "moved_tables T ts e bs = T\<lparr>txs := ts, ledger := ledger T @ [e],
     wallets := set_balance (l_wallet e) (l_after e) (l_version e) (wallets T), outbox := outbox T @ bs\<rparr>"

definition done_result :: "string \<Rightarrow> wallet \<Rightarrow> money \<Rightarrow> submit_result" where
  "done_result i w after = \<lparr>sr_outcome = OutcomeProcessed, sr_tx = i, sr_balance = Some after, sr_failure = [],
     sr_version = w_version w, sr_replay = False\<rparr>"

lemma tspec_processed:
  assumes err: "\<And>c. R (ErrDomain c) T"
    and ok: "\<And>x e bs. inserted E T (tx_record oc i w StateProcessed [] (Some after) ref) x \<Longrightarrow>
      booked E T w i d (oc_amount oc) before after e \<Longrightarrow> map b_type bs = event_types d \<Longrightarrow>
      Q (done_result i w after) (moved_tables T (txs T @ [x]) e bs)"
  shows "tspec (processed E oc i w before after ref d) T Q R"
  unfolding processed_def
proof (intro tspec_bind tspec_newID tspec_lift_domain tspec_insertTx tspec_ledger_Append tspec_UpdateBalance
    tspec_emitProcessed tspec_ret sticky_intros err)
  fix en and e :: ledger_entry and x :: tx_row and f :: ledger_row and j and bs :: "outbox_row list"
  let ?T1 = "T\<lparr>txs := txs T @ [x]\<rparr>"
  let ?T2 = "?T1\<lparr>ledger := ledger ?T1 @ [f]\<rparr>"
  let ?T3 = "?T2\<lparr>wallets := tbl_modify wr_id j (\<lambda>r. r\<lparr>wr_balance := minor after, wr_version := w_version w\<rparr>) (wallets ?T2)\<rparr>"
  assume e: "NewLedgerEntry en (w_id w) i d (oc_amount oc) before after (w_version w) = Inr e"
    and x: "inserted E T (tx_record oc i w StateProcessed [] (Some after) ref) x"
    and f: "stored_ledger E (toLedgerRecord e) f" "tbl_find l_id (l_id f) (ledger ?T1) = None"
      "tbl_find wr_id (l_wallet f) (wallets ?T1) \<noteq> None"
    and j: "e_uuid E (w_id w) = Some j"
      "tbl_find wr_id j (wallets ?T2) \<noteq> None \<Longrightarrow> 0 \<le> sint (minor after) \<and> 1 \<le> sint (w_version w)"
    and bs: "map b_type bs = event_types d"
  have w: "l_wallet f = j"
    using stored_ledgerD(2) [OF f(1)] NewLedgerEntry_InrD(1) [OF e] j(1) by (simp add: toLedgerRecord_def)
  with j f have b: "booked E T w i d (oc_amount oc) before after f"
    by (intro booked_intro [OF e f(1)]) simp_all
  then have "l_after f = minor after" "l_version f = w_version w" by (simp_all add: booked_def)
  then show "Q \<lparr>sr_outcome = OutcomeProcessed, sr_tx = i, sr_balance = Some after, sr_failure = [],
      sr_version = w_version w, sr_replay = False\<rparr> (?T3\<lparr>outbox := outbox ?T3 @ bs\<rparr>)"
    using ok [OF x b bs] w by (simp add: done_result_def moved_tables_def set_balance_def)
qed

definition refused_result :: "string \<Rightarrow> wallet \<Rightarrow> string \<Rightarrow> submit_result" where
  "refused_result i w failure = \<lparr>sr_outcome = OutcomeRejected, sr_tx = i, sr_balance = Some (w_balance w),
     sr_failure = failure, sr_version = w_version w, sr_replay = False\<rparr>"

lemma tspec_rejected:
  assumes "\<And>x b. inserted E T (tx_record oc i w StateRejected failure (Some (w_balance w)) ref) x \<Longrightarrow>
    b_type b = EventRejected \<Longrightarrow>
    Q (refused_result i w failure) (T\<lparr>txs := txs T @ [x], outbox := outbox T @ [b]\<rparr>)"
  shows "tspec (rejected E oc i w failure ref) T Q R"
  unfolding rejected_def Let_def
  by (intro tspec_bind tspec_insertTx tspec_emitRejected tspec_ret sticky_intros)
    (use assms in \<open>simp add: refused_result_def\<close>)

definition parked_result :: "string \<Rightarrow> wallet \<Rightarrow> submit_result" where
  "parked_result i w = \<lparr>sr_outcome = OutcomePending, sr_tx = i, sr_balance = None, sr_failure = [],
     sr_version = w_version w, sr_replay = False\<rparr>"

lemma tspec_parkReference:
  assumes "\<And>x b k. inserted E T (tx_record oc i w StatePendingReference [] None []) x \<Longrightarrow>
    b_type b = EventPendingRef \<Longrightarrow> k_tx k = t_id x \<Longrightarrow> k_kind k = ''reference'' \<Longrightarrow>
    k_next k = t + sint BackoffBase \<Longrightarrow>
    Q (parked_result i w) (T\<lparr>txs := txs T @ [x], outbox := outbox T @ [b], works := works T @ [k]\<rparr>)"
  shows "tspec (parkReference E oc i t w) T Q R"
  unfolding parkReference_def
proof (intro tspec_bind tspec_insertTx tspec_emitPendingRef tspec_EnqueueWork tspec_ret sticky_intros)
  fix x :: tx_row and b :: outbox_row and k :: work_row
  let ?T1 = "T\<lparr>txs := txs T @ [x]\<rparr>"
  let ?T2 = "?T1\<lparr>outbox := outbox ?T1 @ [b]\<rparr>"
  let ?item = "\<lparr>wi_tx = i, wi_kind = ''reference'', wi_ref = 0, wi_infra = 0, wi_next = t + sint BackoffBase,
    wi_owner = [], wi_lease = None, wi_created = zero_time\<rparr>"
  assume x: "inserted E T (tx_record oc i w StatePendingReference [] None []) x" and b: "b_type b = EventPendingRef"
    and k: "e_uuid E (wi_tx ?item) = Some (k_tx k)" "k_kind k = wi_kind ?item" "k_next k = wi_next ?item"
  have "e_uuid E i = Some (t_id x)" using insertedD(1) [OF x] by simp
  with k have "k_tx k = t_id x" by simp
  from assms [OF x b this] k
  show "Q \<lparr>sr_outcome = OutcomePending, sr_tx = i, sr_balance = None, sr_failure = [], sr_version = w_version w,
      sr_replay = False\<rparr> (?T2\<lparr>works := works ?T2 @ [k]\<rparr>)"
    by (simp add: parked_result_def)
qed

section \<open>Steps of the machine\<close>

lemma canon_of: "uuid_law E \<Longrightarrow> e_uuid E s = Some u \<Longrightarrow> canon E u"
  by (auto simp: uuid_law_def canon_def)

lemma stored_ok_insert:
  assumes "good E T" "inserted E T r x" "t_state r \<noteq> StatePending"
  shows "stored_ok E (T\<lparr>txs := txs T @ [x]\<rparr>)"
proof -
  have s: "stored_tx E r x" "tx_checks x" using assms(2) by (simp_all add: inserted_def)
  have "canon E b" if "t_ref_tx x = Some b" for b
    using stored_txD(3) [OF s(1)] that goodD(1) [OF assms(1)]
    by (auto simp: uuid_opt_in_Inr intro: canon_of split: option.splits)
  then show ?thesis
    using goodD(3) [OF assms(1)] s assms(3) stored_txD(1,2,10) [OF s(1)] canon_of [OF goodD(1) [OF assms(1)]]
    by (auto simp: stored_ok_def)
qed

lemma stored_ok_marked: "stored_ok E T \<Longrightarrow> stored_ok E (T\<lparr>txs := map (marked x t) (txs T)\<rparr>)"
  by (auto simp: stored_ok_def tx_checks_def split: origin.splits)

lemma currency_ok_balance: "currency_ok ws es \<Longrightarrow> currency_ok (set_balance w b v ws) es"
  unfolding currency_ok_def set_balance_def tbl_modify_def by auto

lemma currency_ok_append:
  "currency_ok ws es \<Longrightarrow> (\<And>r. r \<in> set ws \<Longrightarrow> wr_id r = l_wallet e \<Longrightarrow> l_currency e = wr_currency r) \<Longrightarrow> currency_ok ws (es @ [e])"
  by (auto simp: currency_ok_def)

lemma currency_ok_wallet:
  "currency_ok ws es \<Longrightarrow> validCurrency (wr_currency r) \<Longrightarrow> wr_id r \<notin> l_wallet ` set es \<Longrightarrow> currency_ok (ws @ [r]) es"
  by (auto simp: currency_ok_def)

lemma currency_okD:
  assumes "currency_ok (wallets T) (ledger T)" "tbl_find wr_id u (wallets T) = Some r"
  shows "validCurrency (wr_currency r)" "\<forall>e \<in> set (ledger_of u (ledger T)). l_currency e = wr_currency r"
  using assms tbl_find_SomeD [OF assms(2)] by (auto simp: currency_ok_def ledger_of_def)

lemma stored_ok_cong:
  "stored_ok E T \<Longrightarrow> wallets T' = wallets T \<Longrightarrow> txs T' = txs T \<Longrightarrow> ledger T' = ledger T \<Longrightarrow> stored_ok E T'"
  by (simp add: stored_ok_def)

lemma advance_rejected:
  assumes g: "good E T" and x: "inserted E T (tx_record oc i w StateRejected failure m ref) x"
  shows "advance E T (T\<lparr>txs := txs T @ [x], outbox := bs\<rparr>)"
proof -
  have a: "admissible (txs T) x" by (rule inserted_admissible [OF x]) simp
  have st: "t_state x = StateRejected" using insertedD(10) [OF x] by simp
  have "machine T (T\<lparr>txs := txs T @ [x], outbox := bs\<rparr>)"
    using a st inserted_put [OF x] inserted_no_work [OF goodD(2) [OF g] x]
    by (intro machine.settled [of T x]) simp_all
  moreover have "stored_ok E (T\<lparr>txs := txs T @ [x], outbox := bs\<rparr>)"
    by (rule stored_ok_cong [OF stored_ok_insert [OF g x]]) simp_all
  ultimately show ?thesis by (simp add: advance_def)
qed

lemma advance_parked:
  assumes g: "good E T" and x: "inserted E T (tx_record oc i w StatePendingReference [] None []) x"
    and k: "k_tx k = t_id x"
  shows "advance E T (T\<lparr>txs := txs T @ [x], outbox := bs, works := works T @ [k]\<rparr>)"
proof -
  have a: "admissible (txs T) x" by (rule inserted_admissible [OF x]) simp
  have st: "t_state x = StatePendingReference" using insertedD(10) [OF x] by simp
  have "machine T (T\<lparr>txs := txs T @ [x], outbox := bs, works := works T @ [k]\<rparr>)"
    using a st k x by (intro machine.parked [of T x k]) (simp_all add: inserted_def)
  moreover have "stored_ok E (T\<lparr>txs := txs T @ [x], outbox := bs, works := works T @ [k]\<rparr>)"
    by (rule stored_ok_cong [OF stored_ok_insert [OF g x]]) simp_all
  ultimately show ?thesis by (simp add: advance_def)
qed

lemma advance_loss:
  assumes g: "good E T" and x: "inserted E T (tx_record oc i w StateProcessed [] m []) x"
    and k: "s_kind (oc_in oc) = KindLoss"
  shows "advance E T (T\<lparr>txs := txs T @ [x], outbox := bs\<rparr>)"
proof -
  have a: "admissible (txs T) x" by (rule inserted_admissible [OF x]) simp
  have st: "t_state x = StateProcessed" "t_kind x = KindLoss" "t_ref_tx x = None"
    using insertedD(3,7,10) [OF x] k by (simp_all add: uuid_opt_in_Inr)
  have "machine T (T\<lparr>txs := txs T @ [x], outbox := bs\<rparr>)"
    using a st inserted_put [OF x] inserted_no_work [OF goodD(2) [OF g] x]
    by (intro machine.settled [of T x]) simp_all
  moreover have "stored_ok E (T\<lparr>txs := txs T @ [x], outbox := bs\<rparr>)"
    by (rule stored_ok_cong [OF stored_ok_insert [OF g x]]) simp_all
  ultimately show ?thesis by (simp add: advance_def)
qed

lemma sint_succ: "0 \<le> sint v \<Longrightarrow> 1 \<le> sint (v + 1) \<Longrightarrow> sint (v + 1 :: i64) = sint v + 1"
proof -
  assume v: "0 \<le> sint v" "1 \<le> sint (v + 1)"
  have "sint v \<noteq> int64_max"
  proof
    assume "sint v = int64_max"
    then have "sint v = sint (word_of_int int64_max :: i64)" by simp
    then have "v = word_of_int int64_max" unfolding sint_eq_iff .
    then have "v + 1 = word_of_int int64_min" by simp
    with v(2) show False by simp
  qed
  with v(1) sint_upper [of v] show ?thesis by (intro sint_add_exact [THEN trans]) simp_all
qed

lemma stored_ok_reference:
  assumes "good E T" "inserted E T r x" "t_state r \<noteq> StatePending" "reference_ok (txs T) x d ts"
  shows "stored_ok E (T\<lparr>txs := ts\<rparr>)"
proof -
  have "ts = txs T @ [x] \<or> (\<exists>t. ts = map (marked x t) (txs T @ [x]))"
    using assms(4) inserted_put [OF assms(2)] by (auto simp: reference_ok_def mark_target_map)
  then show ?thesis
    using stored_ok_insert [OF assms(1-3)] stored_ok_marked [of E "T\<lparr>txs := txs T @ [x]\<rparr>" x] by auto
qed

text \<open>A movement for a row that has just been put: the entry that was booked for it and the stored
  balance make the step. \<open>w\<close> is the wallet after the movement.\<close>

lemma advance_posted:
  assumes g: "good E T" and r: "tbl_find wr_id (t_wallet x) (wallets T) = Some r" and adm: "admissible (txs T) x"
    and x: "e_uuid E i = Some (t_id x)" "t_state x = StateProcessed" "t_kind x \<noteq> KindLoss" "t_amount x = minor amount"
      "t_currency x = currency amount" "t_result x = Some (minor after)" "t_version x = Some (w_version w)"
    and e: "booked E T w i d amount before after e"
    and w: "w_id w = wr_id r" "w_version w = wr_version r + 1" "minor before = wr_balance r" "currency after = wr_currency r"
    and ref: "reference_ok (txs T) x d ts" and st: "stored_ok E (T\<lparr>txs := ts\<rparr>)"
    and T': "wallets T' = set_balance (l_wallet e) (l_after e) (l_version e) (wallets T)" "txs T' = ts"
      "ledger T' = ledger T @ [e]" "works T' = drop_work (t_id x) (works T)"
  shows "advance E T T'"
proof -
  have rT: "r \<in> set (wallets T)" "wr_id r = t_wallet x" using tbl_find_SomeD [OF r] by simp_all
  have "canon E (wr_id r)" using goodD(3) [OF g] rT(1) by (simp add: stored_ok_def)
  then have lw: "l_wallet e = t_wallet x" using e w(1) rT(2) by (simp add: booked_def canon_def)
  have wr: "0 \<le> sint (wr_balance r)" "1 \<le> sint (wr_version r)"
    using soundD(1) [OF goodD(2) [OF g]] rT(1) by (simp_all add: books_ok_def)
  have ver: "sint (l_version e) = sint (wr_version r) + 1"
  proof -
    have v: "l_version e = wr_version r + 1" using e unfolding booked_def w(2) by blast
    have "1 \<le> sint (wr_version r + 1)" using e unfolding booked_def w(2) by blast
    then show ?thesis using wr(2) sint_succ [of "wr_version r"] unfolding v by linarith
  qed
  have fits: "entry_fits (sint (wr_balance r), sint (wr_version r)) e"
    using e w(3) ver by (auto simp: entry_fits_def booked_def)
  have post: "posted x e" using e lw x by (simp add: posted_def booked_def)
  have ids: "tbl_inv l_id (ledger T @ [e])"
    using soundD(2) [OF goodD(2) [OF g]] e by (auto simp: tbl_inv_def booked_def tbl_find_None_all)
  have d: "l_direction e = d" and v1: "1 \<le> sint (l_version e)" using e by (simp_all add: booked_def)
  have "machine T T'"
    by (rule machine.moved [OF adm r fits v1 ids post ref [folded d]]) (simp_all add: T' lw)
  moreover have "stored_ok E T'"
  proof -
    have "l_currency e = currency amount" "currency after = currency amount" using e unfolding booked_def by blast+
    then have "l_currency e = wr_currency r" using w(4) by simp
    moreover have "r' = r" if "r' \<in> set (wallets T)" "wr_id r' = l_wallet e" for r' :: wallet_row
      using wallets.rows_unique [OF goodD(5) [OF g] that(1) rT(1)] that(2) rT(2) lw by simp
    moreover have "currency_ok (wallets T) (ledger T)" using st by (simp add: stored_ok_def)
    ultimately have "currency_ok (wallets T) (ledger T @ [e])" by (intro currency_ok_append) simp_all
    then have "currency_ok (wallets T') (ledger T')" unfolding T' by (rule currency_ok_balance)
    moreover have "wr_id ` set (wallets T') = wr_id ` set (wallets T)"
      using arg_cong [OF set_balance_props(1), of set] by (simp add: T'(1))
    then have "\<forall>i \<in> wr_id ` set (wallets T'). canon E i" using st by (simp add: stored_ok_def)
    then have "\<forall>q \<in> set (wallets T'). canon E (wr_id q)" by simp
    ultimately show ?thesis using st T'(2) by (simp add: stored_ok_def)
  qed
  ultimately show ?thesis by (simp add: advance_def)
qed

lemma advance_moved:
  assumes g: "good E T" and r: "tbl_find wr_id (t_wallet x) (wallets T) = Some r"
    and x: "inserted E T (tx_record oc i w StateProcessed [] (Some after) ref) x"
    and e: "booked E T w i d (oc_amount oc) before after e"
    and w: "w_id w = wr_id r" "w_version w = wr_version r + 1" "minor before = wr_balance r" "currency after = wr_currency r"
    and k: "s_kind (oc_in oc) \<noteq> KindLoss" and ref: "reference_ok (txs T) x d ts"
  shows "advance E T (moved_tables T ts e bs)"
proof -
  have adm: "admissible (txs T) x" by (rule inserted_admissible [OF x]) simp
  show ?thesis
    by (rule advance_posted [OF g r adm _ _ _ _ _ _ _ e w ref stored_ok_reference [OF g x _ ref]])
      (use insertedD [OF x] k inserted_no_work [OF goodD(2) [OF g] x] in \<open>simp_all add: moved_tables_def\<close>)
qed

section \<open>What the result reports\<close>

fun outcome_state :: "outcome \<Rightarrow> tx_state" where
  "outcome_state OutcomeProcessed = StateProcessed"
| "outcome_state OutcomeRejected = StateRejected"
| "outcome_state _ = StatePendingReference"

text \<open>The row that an accepted operation leaves carries the request and what the caller was told.\<close>

definition reports :: "env \<Rightarrow> op_context \<Rightarrow> submit_result \<Rightarrow> tx_row \<Rightarrow> bool" where
  "reports E oc r x \<longleftrightarrow> e_uuid E (sr_tx r) = Some (t_id x) \<and> t_provider x = Some (s_provider (oc_in oc)) \<and>
     t_external x = Some (s_external (oc_in oc)) \<and> t_key x = Some (s_key (oc_in oc)) \<and> t_hash x = Some (oc_hash oc) \<and>
     t_kind x = s_kind (oc_in oc) \<and> t_state x = outcome_state (sr_outcome r) \<and> str (t_failure x) = sr_failure r \<and>
     t_result x = map_option minor (sr_balance r) \<and> t_result_currency x = map_option currency (sr_balance r) \<and>
     (sr_balance r \<noteq> None \<longrightarrow> t_version x = Some (sr_version r)) \<and>
     (\<forall>b. sr_balance r = Some b \<longrightarrow> validCurrency (currency b)) \<and>
     (sr_balance r = None \<longleftrightarrow> sr_outcome r = OutcomePending) \<and> \<not> sr_replay r \<and> sr_outcome r \<noteq> OutcomeReplay \<and>
     (sr_failure r = [] \<longleftrightarrow> sr_outcome r \<noteq> OutcomeRejected)"

definition accepted :: "env \<Rightarrow> op_context \<Rightarrow> tables \<Rightarrow> submit_result \<Rightarrow> tables \<Rightarrow> bool" where
  "accepted E oc T r T' \<longleftrightarrow> advance E T T' \<and>
     (\<exists>x \<in> set (txs T'). tbl_find t_id (t_id x) (txs T) = None \<and> reports E oc r x)"

lemma reports_marked: "reports E oc r (marked x t y) = reports E oc r y"
  by (simp add: reports_def)

lemma reports_done:
  "inserted E T (tx_record oc i w StateProcessed [] (Some after) ref) x \<Longrightarrow> validCurrency (currency after) \<Longrightarrow>
    reports E oc (done_result i w after) x"
  using insertedD [of E T "tx_record oc i w StateProcessed [] (Some after) ref" x]
  by (simp add: reports_def done_result_def)

lemma reports_refused:
  "inserted E T (tx_record oc i w StateRejected fc (Some (w_balance w)) ref) x \<Longrightarrow>
    validCurrency (currency (w_balance w)) \<Longrightarrow> fc \<noteq> [] \<Longrightarrow> reports E oc (refused_result i w fc) x"
  using insertedD [of E T "tx_record oc i w StateRejected fc (Some (w_balance w)) ref" x]
  by (simp add: reports_def refused_result_def)

lemma reports_parked:
  "inserted E T (tx_record oc i w StatePendingReference [] None []) x \<Longrightarrow> reports E oc (parked_result i w) x"
  using insertedD [of E T "tx_record oc i w StatePendingReference [] None []" x]
  by (simp add: reports_def parked_result_def)

section \<open>The operations\<close>

definition wallet_of :: "wallet_row \<Rightarrow> wallet" where
  "wallet_of r = \<lparr>w_id = wr_id r, w_player = wr_player r, w_currency = wr_currency r,
     w_balance = mk_money (wr_balance r) (wr_currency r), w_version = wr_version r\<rparr>"

text \<open>The context in which an operation is applied: its wallet row is the locked one.\<close>

definition ready :: "env \<Rightarrow> tables \<Rightarrow> op_context \<Rightarrow> bool" where
  "ready E T oc \<longleftrightarrow> good E T \<and> e_uuid E (s_wallet (oc_in oc)) = Some (wr_id (oc_wallet oc)) \<and>
     tbl_find wr_id (wr_id (oc_wallet oc)) (wallets T) = Some (oc_wallet oc) \<and>
     validCurrency (currency (oc_amount oc)) \<and> validCurrency (wr_currency (oc_wallet oc))"

definition movement :: "wallet \<Rightarrow> string \<Rightarrow> direction \<Rightarrow> money \<Rightarrow> money \<Rightarrow> money \<Rightarrow> wallet \<Rightarrow> bool" where
  "movement w p d amount before after w' \<longleftrightarrow>
     (d = DirectionCredit \<and> Credit w p amount = Inr (before, after, w')) \<or>
     (d = DirectionDebit \<and> Debit w p amount = Inr (before, after, w'))"

lemma movementD:
  assumes "movement (wallet_of r) p d amount before after w'"
  shows "w_id w' = wr_id r" "w_version w' = wr_version r + 1" "minor before = wr_balance r"
    "currency after = wr_currency r"
  using assms Credit_InrD [of "wallet_of r" p amount before after w'] Debit_InrD [of "wallet_of r" p amount before after w']
  by (auto simp: movement_def wallet_of_def)

lemma readyD:
  assumes "ready E T oc" "inserted E T (tx_record oc i w st fc m ref) x"
  shows "t_wallet x = wr_id (oc_wallet oc)" "tbl_find wr_id (t_wallet x) (wallets T) = Some (oc_wallet oc)"
  using assms(1) insertedD(2) [OF assms(2)] by (simp_all add: ready_def)

lemma accepted_intro:
  "advance E T T' \<Longrightarrow> x \<in> set (txs T') \<Longrightarrow> inserted E T r y \<Longrightarrow> t_id x = t_id y \<Longrightarrow> reports E oc res x \<Longrightarrow> accepted E oc T res T'"
  unfolding accepted_def inserted_def by (intro conjI bexI [of _ x]) auto

lemma accepted_moved:
  assumes rd: "ready E T oc" and mv: "movement (wallet_of (oc_wallet oc)) p d (oc_amount oc) before after w'"
    and x: "inserted E T (tx_record oc i w' StateProcessed [] (Some after) ref) x"
    and e: "booked E T w' i d (oc_amount oc) before after e" and k: "s_kind (oc_in oc) \<noteq> KindLoss"
    and ref: "reference_ok (txs T) x d ts"
  shows "accepted E oc T (done_result i w' after) (moved_tables T ts e bs)"
proof -
  have a: "advance E T (moved_tables T ts e bs)"
    using rd advance_moved [OF _ readyD(2) [OF rd x] x e movementD [OF mv] k ref] by (simp add: ready_def)
  have "x \<in> set ts \<or> (\<exists>t. marked x t x \<in> set ts)"
  proof -
    have "ts = put_tx x (txs T) \<or> (\<exists>t. ts = map (marked x t) (put_tx x (txs T)))"
      using ref by (auto simp: reference_ok_def mark_target_map)
    then show ?thesis using put_tx_self [of x "txs T"] by (metis image_eqI list.set_map)
  qed
  then obtain y where "y \<in> set ts" "t_id y = t_id x" "reports E oc (done_result i w' after) y"
    using reports_done [OF x] reports_marked movementD(4) [OF mv] rd by (fastforce simp: ready_def)
  with a x show ?thesis by (intro accepted_intro [OF a _ x]) (simp_all add: moved_tables_def)
qed

text \<open>An operation without a reference that moves money.\<close>

lemma tspec_processed_accept:
  assumes rd: "ready E T oc" and mv: "movement (wallet_of (oc_wallet oc)) p d (oc_amount oc) before after w'"
    and k: "s_kind (oc_in oc) \<noteq> KindLoss"
    and ref: "\<And>x. inserted E T (tx_record oc i w' StateProcessed [] (Some after) ref) x \<Longrightarrow>
      reference_ok (txs T) x d (txs T @ [x])"
  shows "tspec (processed E oc i w' before after ref d) T (accepted E oc T) (\<lambda>_ T'. T' = T)"
  by (rule tspec_processed) (use accepted_moved [OF rd mv _ _ k ref] in blast)+

lemma tspec_rejected_accept:
  assumes rd: "ready E T oc" and fc: "failure \<noteq> []"
  shows "tspec (rejected E oc i (wallet_of (oc_wallet oc)) failure ref) T (accepted E oc T) (\<lambda>_ T'. T' = T)"
proof (rule tspec_rejected)
  fix x :: tx_row and b :: outbox_row
  let ?w = "wallet_of (oc_wallet oc)"
  assume x: "inserted E T (tx_record oc i ?w StateRejected failure (Some (w_balance ?w)) ref) x"
  from rd have g: "good E T" and v: "validCurrency (currency (w_balance ?w))" by (simp_all add: ready_def wallet_of_def)
  from advance_rejected [OF g x] reports_refused [OF x v fc]
  show "accepted E oc T (refused_result i ?w failure) (T\<lparr>txs := txs T @ [x], outbox := outbox T @ [b]\<rparr>)"
    by (intro accepted_intro [OF _ _ x, of _ x]) simp_all
qed

lemma tspec_park_accept:
  assumes rd: "ready E T oc"
  shows "tspec (parkReference E oc i t w) T (accepted E oc T) (\<lambda>_ T'. T' = T)"
proof (rule tspec_parkReference)
  fix x :: tx_row and b :: outbox_row and k :: work_row
  assume x: "inserted E T (tx_record oc i w StatePendingReference [] None []) x" and k: "k_tx k = t_id x"
  from rd have "good E T" by (simp add: ready_def)
  from advance_parked [OF this x k] reports_parked [OF x]
  show "accepted E oc T (parked_result i w) (T\<lparr>txs := txs T @ [x], outbox := outbox T @ [b], works := works T @ [k]\<rparr>)"
    by (intro accepted_intro [OF _ _ x, of _ x]) simp_all
qed

lemma tspec_applyBet:
  assumes rd: "ready E T oc" and k: "s_kind (oc_in oc) = KindBet"
  shows "tspec (applyBet E oc i (wallet_of (oc_wallet oc))) T (accepted E oc T) (\<lambda>_ T'. T' = T)"
proof (cases "Debit (wallet_of (oc_wallet oc)) (s_player (oc_in oc)) (oc_amount oc)")
  case (Inl c)
  then show ?thesis using tspec_rejected_accept [OF rd] by (simp add: applyBet_def tspec_fail)
next
  case (Inr res)
  obtain b a w' where res: "res = (b, a, w')" by (cases res)
  have mv: "movement (wallet_of (oc_wallet oc)) (s_player (oc_in oc)) DirectionDebit (oc_amount oc) b a w'"
    using Inr res by (simp add: movement_def)
  have "reference_ok (txs T) x DirectionDebit (txs T @ [x])"
    if "inserted E T (tx_record oc i w' StateProcessed [] (Some a) []) x" for x
    using insertedD(3,7) [OF that] inserted_put [OF that] k by (simp add: reference_ok_def uuid_opt_in_Inr)
  from tspec_processed_accept [OF rd mv _ this] Inr res k show ?thesis by (simp add: applyBet_def)
qed

lemma tspec_applyFreeWin:
  assumes rd: "ready E T oc" and k: "s_kind (oc_in oc) = KindWin"
  shows "tspec (applyFreeWin E oc i (wallet_of (oc_wallet oc))) T (accepted E oc T) (\<lambda>_ T'. T' = T)"
  unfolding applyFreeWin_def
proof (intro tspec_bind tspec_lift_domain sticky_intros)
  fix res assume res: "Credit (wallet_of (oc_wallet oc)) (s_player (oc_in oc)) (oc_amount oc) = Inr res"
  obtain b a w' where r: "res = (b, a, w')" by (cases res)
  have mv: "movement (wallet_of (oc_wallet oc)) (s_player (oc_in oc)) DirectionCredit (oc_amount oc) b a w'"
    using res r by (simp add: movement_def)
  have "reference_ok (txs T) x DirectionCredit (txs T @ [x])"
    if "inserted E T (tx_record oc i w' StateProcessed [] (Some a) []) x" for x
    using insertedD(3,7) [OF that] inserted_put [OF that] k by (simp add: reference_ok_def uuid_opt_in_Inr)
  from tspec_processed_accept [OF rd mv _ this] r k
  show "tspec (case res of (before, after, w') \<Rightarrow> processed E oc i w' before after [] DirectionCredit) T
      (accepted E oc T) (\<lambda>_ T'. T' = T)" by simp
qed simp

lemma tspec_applyLoss:
  assumes rd: "ready E T oc" and k: "s_kind (oc_in oc) = KindLoss"
  shows "tspec (applyLoss E oc i (wallet_of (oc_wallet oc))) T (accepted E oc T) (\<lambda>_ T'. T' = T)"
  unfolding applyLoss_def Let_def
proof (intro tspec_bind tspec_insertTx tspec_emitProcessed tspec_ret sticky_intros)
  fix x :: tx_row and bs :: "outbox_row list"
  let ?w = "wallet_of (oc_wallet oc)"
  assume x: "inserted E T (tx_record oc i ?w StateProcessed [] (Some (w_balance ?w)) []) x"
  from rd have g: "good E T" and v: "validCurrency (currency (w_balance ?w))" by (simp_all add: ready_def wallet_of_def)
  from advance_loss [OF g x k] reports_done [OF x v]
  show "accepted E oc T \<lparr>sr_outcome = OutcomeProcessed, sr_tx = i, sr_balance = Some (w_balance ?w), sr_failure = [],
      sr_version = w_version ?w, sr_replay = False\<rparr>
    (T\<lparr>txs := txs T @ [x]\<rparr>\<lparr>outbox := outbox (T\<lparr>txs := txs T @ [x]\<rparr>) @ bs\<rparr>)"
    by (intro accepted_intro [OF _ _ x, of _ x]) (simp_all add: done_result_def)
qed

section \<open>Targets\<close>

text \<open>The row that a reference resolves to, once the code has found that it agrees.\<close>

lemma find_by_external_Some:
  "find_by_external p ext ts = Some t \<Longrightarrow> t \<in> set ts \<and> t_provider t = Some p \<and> t_external t = Some ext"
  unfolding find_by_external_def find_Some_iff by auto

lemma agreed_amount:
  assumes "o_amount op = money_or_zero a c" "validCurrency (currency (o_amount op))"
  shows "o_amount op = mk_money a c" "NewMoneyFromMinor a c = Inr (mk_money a c)"
proof -
  have "validCurrency c"
    using assms by (auto simp: money_or_zero_def NewMoneyFromMinor_def zero_money_def validCurrency_def split: if_splits)
  with assms show "o_amount op = mk_money a c" "NewMoneyFromMinor a c = Inr (mk_money a c)"
    by (simp_all add: money_or_zero_def NewMoneyFromMinor_def)
qed

definition resolved :: "env \<Rightarrow> tables \<Rightarrow> op_context \<Rightarrow> tx_row \<Rightarrow> bool" where
  "resolved E T oc t \<longleftrightarrow> t \<in> set (txs T) \<and> t_provider t = Some (s_provider (oc_in oc)) \<and> t_state t = StateProcessed"

lemma referenceView_simps [simp]:
  "f_kind (referenceView t) = t_kind t" "f_amount (referenceView t) = money_or_zero (t_amount t) (t_currency t)"
  "f_provider (referenceView t) = str (t_provider t)" "f_player (referenceView t) = t_player t"
  "f_wallet (referenceView t) = t_wallet t" "f_round (referenceView t) = str (t_round t)"
  "f_state (referenceView t) = t_state t" "f_reversed (referenceView t) = (t_reversed_tx t \<noteq> None)"
  by (simp_all add: referenceView_def)

lemma agrees_target:
  assumes rd: "ready E T oc" and t: "resolved E T oc t"
    and ag: "agrees op (referenceView t)" and op: "op \<in> {winOperation (oc_in oc) (oc_amount oc), reversalOperation (oc_in oc) (oc_amount oc)}"
    and x: "inserted E T (tx_record oc i w StateProcessed [] m (t_id t)) x"
  shows "t_ref_tx x = Some (t_id t)" "t_wallet t = t_wallet x" "t_amount t = t_amount x" "t_currency t = t_currency x"
    "t_provider t = t_provider x" "t_kind x = s_kind (oc_in oc)" "t_id t \<noteq> []"
proof -
  have law: "uuid_law E" and st: "canon E (t_id t)" "canon E (t_wallet t)"
    using rd t goodD(1,3) [of E T] by (auto simp: ready_def resolved_def stored_ok_def)
  then show ne: "t_id t \<noteq> []" by (auto simp: uuid_law_def canon_def)
  with st insertedD(3) [OF x] show "t_ref_tx x = Some (t_id t)" by (simp add: uuid_opt_in_Inr canon_def)
  have w: "s_wallet (oc_in oc) = t_wallet t" and z: "oc_amount oc = money_or_zero (t_amount t) (t_currency t)"
    using ag op by (auto simp: agrees_def winOperation_def reversalOperation_def)
  have "oc_amount oc = mk_money (t_amount t) (t_currency t)"
    using agreed_amount(1) [of "winOperation (oc_in oc) (oc_amount oc)" "t_amount t" "t_currency t"] z rd
    by (simp add: winOperation_def ready_def)
  with w show "t_wallet t = t_wallet x" "t_amount t = t_amount x" "t_currency t = t_currency x"
    using insertedD(2,8,9) [OF x] st(2) by (simp_all add: canon_def)
  show "t_provider t = t_provider x" "t_kind x = s_kind (oc_in oc)"
    using insertedD(6,7) [OF x] t by (simp_all add: resolved_def)
qed

lemma tspec_applyWin:
  assumes rd: "ready E T oc" and k: "s_kind (oc_in oc) = KindWin" and t: "resolved E T oc t"
  shows "tspec (applyWin E oc i (wallet_of (oc_wallet oc)) t) T (accepted E oc T) (\<lambda>_ T'. T' = T)"
proof (cases "ValidateWinReference (winOperation (oc_in oc) (oc_amount oc)) (Some (referenceView t))")
  case (Inl c)
  then show ?thesis using tspec_rejected_accept [OF rd] by (simp add: applyWin_def)
next
  case (Inr u)
  then have v: "t_kind t = KindBet" "t_reversed_tx t = None"
    "agrees (winOperation (oc_in oc) (oc_amount oc)) (referenceView t)"
    using ValidateWinReference_Inr_iff [of "winOperation (oc_in oc) (oc_amount oc)" "referenceView t"]
    by simp_all
  have "tspec (bind (lift_domain (Credit (wallet_of (oc_wallet oc)) (s_player (oc_in oc)) (oc_amount oc)))
      (\<lambda>(before, after, w'). processed E oc i w' before after (t_id t) DirectionCredit)) T (accepted E oc T) (\<lambda>_ T'. T' = T)"
  proof (intro tspec_bind tspec_lift_domain sticky_intros)
    fix res assume res: "Credit (wallet_of (oc_wallet oc)) (s_player (oc_in oc)) (oc_amount oc) = Inr res"
    obtain b a w' where r: "res = (b, a, w')" by (cases res)
    have mv: "movement (wallet_of (oc_wallet oc)) (s_player (oc_in oc)) DirectionCredit (oc_amount oc) b a w'"
      using res r by (simp add: movement_def)
    have "reference_ok (txs T) x DirectionCredit (txs T @ [x])"
      if x: "inserted E T (tx_record oc i w' StateProcessed [] (Some a) (t_id t)) x" for x
    proof -
      note a = agrees_target [OF rd t v(3) _ x]
      have "target_ok (txs T) x t"
        using a t v(1,2) k by (simp add: target_ok_def linked_def resolved_def IsReversalKind_def)
      then show ?thesis using a(6) k inserted_put [OF x] by (auto simp: reference_ok_def)
    qed
    from tspec_processed_accept [OF rd mv _ this] r k
    show "tspec (case res of (before, after, w') \<Rightarrow> processed E oc i w' before after (t_id t) DirectionCredit) T
      (accepted E oc T) (\<lambda>_ T'. T' = T)" by simp
  qed simp
  then show ?thesis using Inr by (simp add: applyWin_def)
qed

section \<open>Reversals\<close>

lemma tspec_activeWin:
  assumes "canon E (t_id t)" "Q (t_kind t = KindBet \<and> (\<exists>w \<in> set (txs T). active_win (t_id t) w)) T"
  shows "tspec (activeWin E t) T Q R"
  unfolding activeWin_def using assms
  by (auto simp: canon_def intro!: tspec_HasActiveWin tspec_ret)

lemma tspec_markTarget:
  assumes i: "e_uuid E i = Some (t_id x)" "t_kind x = k" and c: "canon E (t_id t)" "\<And>b. t_ref_tx t = Some b \<Longrightarrow> canon E b"
    and q: "Q () (T\<lparr>txs := mark_target x t (txs T)\<rparr>)"
  shows "tspec (markTarget E k i t) T Q R"
  unfolding markTarget_def
proof (intro tspec_bind tspec_MarkReversed sticky_intros)
  fix j b assume j: "e_uuid E (t_id t) = Some j" "e_uuid E i = Some b"
  let ?T1 = "T\<lparr>txs := tbl_modify t_id j (\<lambda>q. q\<lparr>t_reversed_kind := Some (kind_text k), t_reversed_tx := Some b\<rparr>) (txs T)\<rparr>"
  have jb: "j = t_id t" "b = t_id x" using j i(1) c(1) by (simp_all add: canon_def)
  have m: "txs ?T1 = mark_reversed (t_id t) (kind_text (t_kind x)) (t_id x) (txs T)"
    by (simp add: jb mark_reversed_def i(2))
  show "tspec (if k = KindRollback \<and> t_kind t = KindRefund then (case t_ref_tx t of None \<Rightarrow> ret () | Some bet \<Rightarrow> ClearReversal E bet)
      else ret ()) ?T1 Q R"
  proof (cases "k = KindRollback \<and> t_kind t = KindRefund \<and> t_ref_tx t \<noteq> None")
    case True
    then obtain bet where bet: "t_ref_tx t = Some bet" by auto
    have "mark_target x t (txs T) = clear_reversal bet (txs ?T1)"
      unfolding m using True bet i(2) by (simp add: mark_target_def Let_def)
    then show ?thesis using True bet q c(2) [OF bet]
      by (auto simp: clear_reversal_def canon_def intro!: tspec_ClearReversal)
  next
    case False
    then have "mark_target x t (txs T) = txs ?T1"
      unfolding m using i(2) by (auto simp: mark_target_def Let_def split: option.splits)
    with q have "Q () ?T1" by simp
    then show ?thesis using False by (auto intro!: tspec_ret split: option.splits)
  qed
qed

lemma reversal_kind_not_loss: "reversal_matrix k k' \<Longrightarrow> IsReversalKind k \<and> k \<noteq> KindLoss \<and> k \<noteq> KindWin"
  by (cases k) (simp_all add: IsReversalKind_def)

lemma moved_tables_txs:
  "(moved_tables T ts e bs)\<lparr>txs := f (txs (moved_tables T ts e bs))\<rparr> = moved_tables T (f ts) e bs"
  by (cases T) (simp add: moved_tables_def)

text \<open>The movement of a reversal that passed every check, and the marks it leaves.\<close>

lemma tspec_reversal_move:
  assumes rd: "ready E T oc" and t: "resolved E T oc t"
    and ag: "agrees (reversalOperation (oc_in oc) (oc_amount oc)) (referenceView t)"
    and mx: "reversal_matrix (s_kind (oc_in oc)) (t_kind t)" and nr: "t_reversed_tx t = None"
    and nw: "t_kind t = KindBet \<Longrightarrow> \<not> (\<exists>w \<in> set (txs T). active_win (t_id t) w)"
    and mv: "movement (wallet_of (oc_wallet oc)) p d (oc_amount oc) b a w'"
    and d: "d = reversalDirection (s_kind (oc_in oc)) (t_kind t)"
  shows "tspec (bind (processed E oc i w' b a (t_id t) d)
      (\<lambda>r. bind (markTarget E (s_kind (oc_in oc)) i t) (\<lambda>_. ret r))) T (accepted E oc T) (\<lambda>_ T'. T' = T)"
proof (rule tspec_bind, rule tspec_processed)
  fix x :: tx_row and e :: ledger_row and bs :: "outbox_row list"
  assume x: "inserted E T (tx_record oc i w' StateProcessed [] (Some a) (t_id t)) x"
    and e: "booked E T w' i d (oc_amount oc) b a e"
  note tg = agrees_target [OF rd t ag _ x]
  have tT: "t \<in> set (txs T)" and st: "stored_ok E T" using t rd goodD(3) by (auto simp: resolved_def ready_def)
  note kk = reversal_kind_not_loss [OF mx]
  have "target_ok (txs T) x t"
    using tg t nr nw mx kk by (simp add: target_ok_def linked_def resolved_def)
  then have ref: "reference_ok (txs T) x d (mark_target x t (txs T @ [x]))"
    using tg(6) kk d inserted_put [OF x] by (auto simp: reference_ok_def)
  have acc: "accepted E oc T (done_result i w' a) (moved_tables T (mark_target x t (txs T @ [x])) e bs)"
    using accepted_moved [OF rd mv x e _ ref] kk by simp
  show "tspec (bind (markTarget E (s_kind (oc_in oc)) i t) (\<lambda>_. ret (done_result i w' a)))
      (moved_tables T (txs T @ [x]) e bs) (accepted E oc T) (\<lambda>_ T'. T' = T)"
  proof (intro tspec_bind tspec_markTarget tspec_ret sticky_intros)
    show "e_uuid E i = Some (t_id x)" using insertedD(1) [OF x] by simp
    show "t_kind x = s_kind (oc_in oc)" using tg(6) by simp
    show "canon E (t_id t)" "\<And>b. t_ref_tx t = Some b \<Longrightarrow> canon E b" using st tT by (auto simp: stored_ok_def)
    show "accepted E oc T (done_result i w' a)
        ((moved_tables T (txs T @ [x]) e bs)\<lparr>txs := mark_target x t (txs (moved_tables T (txs T @ [x]) e bs))\<rparr>)"
      using acc by (simp only: moved_tables_txs)
  qed
qed (simp_all add: sticky_intros)

lemma targetDomain_simps [simp]:
  "x_kind (targetDomain t m) = t_kind t" "x_state (targetDomain t m) = t_state t"
  "x_has_reversal (targetDomain t m) = (t_reversed_tx t \<noteq> None)"
  by (auto simp: targetDomain_def Let_def RehydrateTransaction_def tx_MarkReversed_def)

lemma reversalMovement_Inr:
  "reversalMovement k k' w p m = Inr (b, a, w') \<Longrightarrow> movement w p (reversalDirection k k') m b a w'"
  by (auto simp: reversalMovement_def movement_def reversalDirection_def split: if_splits)

text \<open>A reversal of a resolved target: refused, failed without a trace, or moved and marked.\<close>

lemma tspec_mustMinor:
  "(\<And>c. NewMoneyFromMinor a cur = Inl c \<Longrightarrow> R (ErrOther ''panic'') T) \<Longrightarrow>
   (\<And>m. NewMoneyFromMinor a cur = Inr m \<Longrightarrow> Q m T) \<Longrightarrow> tspec (mustMinor a cur) T Q R"
  by (auto simp: mustMinor_def tspec_ret tspec_fail split: sum.splits)

lemma tspec_applyReversal:
  assumes rd: "ready E T oc" and t: "resolved E T oc t"
  shows "tspec (applyReversal E oc i (wallet_of (oc_wallet oc)) t) T (accepted E oc T) (\<lambda>_ T'. T' = T)"
proof (cases "ValidateReferenceAgreement (reversalOperation (oc_in oc) (oc_amount oc)) (referenceView t)")
  case (Inl c)
  then show ?thesis using tspec_rejected_accept [OF rd] by (simp add: applyReversal_def Let_def)
next
  case (Inr u)
  then have ag: "agrees (reversalOperation (oc_in oc) (oc_amount oc)) (referenceView t)"
    by (simp add: ValidateReferenceAgreement_Inr_iff)
  let ?k = "s_kind (oc_in oc)" and ?w = "wallet_of (oc_wallet oc)"
  let ?act = "\<lambda>m win. case ValidateReversalTarget ?k (Some (targetDomain t m)) win of
      Inl c \<Rightarrow> rejected E oc i ?w (code_text c) (t_id t)
    | Inr _ \<Rightarrow> (let dir = reversalDirection ?k (t_kind t) in
        case reversalMovement ?k (t_kind t) ?w (s_player (oc_in oc)) (oc_amount oc) of
          Inl c \<Rightarrow> if dir = DirectionDebit \<and> c = CodeInsufficientBalance
            then rejected E oc i ?w (code_text CodeRollbackInsufficientBalance) (t_id t) else fail (ErrDomain c)
        | Inr (before, after, w') \<Rightarrow> bind (processed E oc i w' before after (t_id t) dir)
            (\<lambda>r. bind (markTarget E ?k i t) (\<lambda>_. ret r)))"
  have act: "tspec (?act m win) T (accepted E oc T) (\<lambda>_ T'. T' = T)"
    if win: "t_kind t = KindBet \<Longrightarrow> win = (\<exists>w \<in> set (txs T). active_win (t_id t) w)" for m win
  proof (cases "ValidateReversalTarget ?k (Some (targetDomain t m)) win")
    case (Inl c)
    then show ?thesis using tspec_rejected_accept [OF rd] by simp
  next
    case (Inr v)
    then have v: "reversal_matrix ?k (t_kind t)" "t_reversed_tx t = None" "\<not> (t_kind t = KindBet \<and> win)"
      by (simp_all add: ValidateReversalTarget_Inr_iff)
    show ?thesis
    proof (cases "reversalMovement ?k (t_kind t) ?w (s_player (oc_in oc)) (oc_amount oc)")
      case (Inl c)
      then show ?thesis using Inr tspec_rejected_accept [OF rd] by (simp add: tspec_fail)
    next
      case (Inr res)
      obtain b a w' where res: "res = (b, a, w')" by (cases res)
      have mv: "movement ?w (s_player (oc_in oc)) (reversalDirection ?k (t_kind t)) (oc_amount oc) b a w'"
        using reversalMovement_Inr Inr res by blast
      have nw: "t_kind t = KindBet \<Longrightarrow> \<not> (\<exists>w \<in> set (txs T). active_win (t_id t) w)" using win v(3) by blast
      show ?thesis
        using tspec_reversal_move [OF rd t ag v(1,2) nw mv refl, of i] \<open>_ = Inr v\<close> Inr res by simp
    qed
  qed
  have c: "canon E (t_id t)" using rd t by (auto simp: ready_def resolved_def good_def stored_ok_def)
  have "tspec (bind (mustMinor (t_amount t) (t_currency t)) (\<lambda>m. bind (activeWin E t) (\<lambda>win. ?act m win))) T
      (accepted E oc T) (\<lambda>_ T'. T' = T)"
    by (intro tspec_bind tspec_mustMinor tspec_activeWin c act) (auto intro!: sticky_intros simp: Let_def)
  then show ?thesis using Inr by (simp add: applyReversal_def Let_def)
qed

end
