(* ===== verification/Refine_Submit.thy ===== *)
theory Refine_Submit
  imports Refine_Accept Submit
begin

text \<open>
  The acceptance of a whole submission implements the machine: dispatch on the kind and on the state
  of the reference, the idempotency lookups, the inbox record, and the SQL transaction around them.
\<close>

section \<open>Dispatch\<close>

lemma tspec_applyWithReference:
  assumes rd: "ready E T oc"
    and to: "\<And>t. resolved E T oc t \<Longrightarrow> tspec (apply_to t) T (accepted E oc T) (\<lambda>_ T'. T' = T)"
    and st: "\<And>t. sticky (apply_to t)"
  shows "tspec (applyWithReference E oc apply_to (parkReference E oc i c w) (rejected E oc i (wallet_of (oc_wallet oc)))) T
    (accepted E oc T) (\<lambda>_ T'. T' = T)"
  unfolding applyWithReference_def
proof (rule tspec_bind [OF tspec_FindByProviderExternal])
  let ?r = "find_by_external (s_provider (oc_in oc)) (s_ref (oc_in oc)) (txs T)"
  show "tspec (case ?r of None \<Rightarrow> parkReference E oc i c w
      | Some t \<Rightarrow> (case t_state t of StatePending \<Rightarrow> parkReference E oc i c w
          | StatePendingReference \<Rightarrow> parkReference E oc i c w | StateProcessed \<Rightarrow> apply_to t
          | _ \<Rightarrow> rejected E oc i (wallet_of (oc_wallet oc)) (code_text CodeReferenceNotProcessed) (t_id t))) T (accepted E oc T) (\<lambda>_ T'. T' = T)"
  proof (cases ?r)
    case None
    then show ?thesis by (simp add: tspec_park_accept [OF rd])
  next
    case (Some t)
    then have "resolved E T oc t" if "t_state t = StateProcessed"
      using find_by_external_Some [OF Some] that by (simp add: resolved_def)
    then show ?thesis using Some
      by (simp add: tspec_park_accept [OF rd] tspec_rejected_accept [OF rd] to split: tx_state.splits)
  qed
qed (auto intro!: sticky_intros st split: option.splits tx_state.splits)

lemma sticky_applyWin [sticky_intros]: "sticky (applyWin E oc i w t)"
  unfolding applyWin_def by (intro sticky_intros)

lemma sticky_applyReversal [sticky_intros]: "sticky (applyReversal E oc i w t)"
  unfolding applyReversal_def Let_def by (intro sticky_intros)

lemma tspec_applyOperation:
  assumes rd: "ready E T oc"
  shows "tspec (applyOperation E oc) T (accepted E oc T) (\<lambda>_ T'. T' = T)"
proof -
  let ?r = "oc_wallet oc"
  let ?apply = "\<lambda>txID t w. case s_kind (oc_in oc) of
      KindBet \<Rightarrow> applyBet E oc txID w
    | KindWin \<Rightarrow> if s_ref (oc_in oc) = [] then applyFreeWin E oc txID w
        else applyWithReference E oc (applyWin E oc txID w) (parkReference E oc txID t w) (rejected E oc txID w)
    | KindLoss \<Rightarrow> applyLoss E oc txID w
    | KindRefund \<Rightarrow> applyWithReference E oc (applyReversal E oc txID w) (parkReference E oc txID t w) (rejected E oc txID w)
    | KindRollback \<Rightarrow> applyWithReference E oc (applyReversal E oc txID w) (parkReference E oc txID t w) (rejected E oc txID w)
    | _ \<Rightarrow> fail (ErrCorrectable CodeInvalidReq)"
  have op: "tspec (?apply txID t w) T (accepted E oc T) (\<lambda>_ T'. T' = T)" if "w = wallet_of ?r" for txID t w
    unfolding that
    by (cases "s_kind (oc_in oc)")
      (simp_all add: tspec_applyBet [OF rd] tspec_applyFreeWin [OF rd] tspec_applyLoss [OF rd] tspec_fail
        tspec_applyWithReference [OF rd] tspec_applyWin [OF rd] tspec_applyReversal [OF rd] sticky_intros)
  have st: "sticky (?apply txID t w)" for txID t w
    by (cases "s_kind (oc_in oc)")
      (auto simp: applyBet_def applyFreeWin_def applyLoss_def applyWithReference_def Let_def
        intro!: sticky_intros split: sum.splits option.splits tx_state.splits prod.splits)
  show ?thesis
    unfolding applyOperation_def Let_def
  proof (intro tspec_bind tspec_newID tspec_now tspec_lift_domain)
    fix txID t w
    assume "RehydrateWallet (wr_id ?r) (wr_player ?r) (wr_currency ?r) (wr_balance ?r) (wr_version ?r) = Inr w"
    then have "w = wallet_of ?r" by (auto dest: RehydrateWallet_InrD simp: wallet_of_def)
    then show "tspec (?apply txID t w) T (accepted E oc T) (\<lambda>_ T'. T' = T)" by (rule op)
  qed (intro sticky_bind sticky_now sticky_lift_domain st | simp)+
qed

section \<open>The body of the transaction\<close>

text \<open>The stored transaction that a submission repeats: by its idempotency key first, then by its
  external id.\<close>

definition existing :: "submit_input \<Rightarrow> tables \<Rightarrow> tx_row option" where
  "existing i T = (case find_by_key (s_provider i) (s_key i) (txs T) of
     Some prev \<Rightarrow> Some prev | None \<Rightarrow> find_by_external (s_provider i) (s_external i) (txs T))"

text \<open>The wallet that a submission names, checked to be of its player and currency.\<close>

definition own_wallet :: "env \<Rightarrow> submit_input \<Rightarrow> tables \<Rightarrow> wallet_row \<Rightarrow> bool" where
  "own_wallet E i T r \<longleftrightarrow> e_uuid E (s_wallet i) = Some (wr_id r) \<and> r \<in> set (wallets T) \<and>
     s_player i = wr_player r \<and> s_currency i = wr_currency r"

text \<open>What a submission that returns a result has done: a replay answers from the stored row and leaves
  everything as it was; otherwise the operation was new, and its acceptance made one step.\<close>

definition submitted :: "env \<Rightarrow> submit_input \<Rightarrow> money \<Rightarrow> string \<Rightarrow> tables \<Rightarrow> submit_result \<Rightarrow> tables \<Rightarrow> bool" where
  "submitted E i a h T r T' \<longleftrightarrow> (\<exists>q. own_wallet E i T q) \<and> (case existing i T of
     Some prev \<Rightarrow> str (t_hash prev) = h \<and> r = replayResult prev \<and> T' = T
   | None \<Rightarrow> \<exists>oc. oc_in oc = i \<and> oc_amount oc = a \<and> oc_hash oc = h \<and> accepted E oc T r T')"

lemma accepted_same_core:
  assumes "accepted E oc T r T1" "same_core T1 T2"
  shows "accepted E oc T r T2"
  using assms advance_same_core by (auto simp: accepted_def same_core_def)

lemma tspec_record_inbox:
  assumes "\<And>T'. T' = T\<lparr>inbox := inbox T'\<rparr> \<Longrightarrow> Q () T'"
  shows "tspec (record_inbox E i h) T Q R"
proof (cases "s_message i = []")
  case True
  then show ?thesis using assms [of T] by (simp add: record_inbox_def tspec_ret)
next
  case False
  show ?thesis
    unfolding record_inbox_def if_not_P [OF False]
  proof (intro tspec_bind tspec_InsertInbox tspec_CompleteInbox sticky_intros)
    fix T1 T2 :: tables assume "T1 = T\<lparr>inbox := inbox T1\<rparr>" "T2 = T1\<lparr>inbox := inbox T2\<rparr>"
    then have "T2 = T\<lparr>inbox := inbox T2\<rparr>" by (metis tables.update_convs(4) tables.surjective)
    then show "Q () T2" by (rule assms)
  qed
qed

lemma tspec_replay_or_conflict:
  "(str (t_hash prev) = h \<Longrightarrow> Q (replayResult prev) T) \<Longrightarrow> (\<And>e. R e T) \<Longrightarrow> tspec (replay_or_conflict prev h) T Q R"
  by (simp add: replay_or_conflict_def tspec_ret tspec_fail)

lemma sticky_submit [sticky_intros]:
  "sticky (replay_or_conflict prev h)" "sticky (record_inbox E i h)"
  unfolding replay_or_conflict_def record_inbox_def by (intro sticky_intros)+

lemma sticky_applyOperation [sticky_intros]: "sticky (applyOperation E oc)"
  unfolding applyOperation_def applyBet_def applyFreeWin_def applyLoss_def applyWithReference_def Let_def
  by (intro sticky_intros; auto intro!: sticky_intros split: kind.splits sum.splits option.splits tx_state.splits)

lemma tspec_submit_body:
  assumes g: "good E T" and a: "validCurrency (currency a)" "currency a = s_currency i"
  shows "tspec (submit_body E i a h) T (submitted E i a h T) (\<lambda>_ T'. T' = T)"
  unfolding submit_body_def
proof (rule tspec_bind [OF tspec_LockForUpdate])
  show "tspec (case None of None \<Rightarrow> fail (ErrCorrectable CodeWalletMissing) | Some r \<Rightarrow> m r) T
      (submitted E i a h T) (\<lambda>_ T'. T' = T)" for m :: "wallet_row \<Rightarrow> submit_result action"
    by (simp add: tspec_fail)
next
  fix u r assume u: "e_uuid E (s_wallet i) = Some u" "tbl_find wr_id u (wallets T) = Some r"
  let ?oc = "\<lparr>oc_in = i, oc_amount = a, oc_hash = h, oc_wallet = r\<rparr>"
  let ?new = "bind (applyOperation E ?oc) (\<lambda>res. bind (record_inbox E i h) (\<lambda>_. ret res))"
  have "wr_id r = u" using tbl_find_SomeD [OF u(2)] by simp
  with g a u have rd: "ready E T ?oc" if "s_currency i = wr_currency r" using that by (simp add: ready_def)
  have own: "\<exists>q. own_wallet E i T q" if "s_player i = wr_player r" "s_currency i = wr_currency r"
    using tbl_find_SomeD [OF u(2)] u(1) that by (auto simp: own_wallet_def)
  have new: "tspec ?new T (submitted E i a h T) (\<lambda>_ T'. T' = T)"
    if none: "existing i T = None" and cur: "s_currency i = wr_currency r" and pl: "s_player i = wr_player r"
  proof (rule tspec_bind [OF tspec_mono [OF tspec_applyOperation [OF rd [OF cur]]]])
    fix res T1 assume acc: "accepted E ?oc T res T1"
    show "tspec (bind (record_inbox E i h) (\<lambda>_. ret res)) T1 (submitted E i a h T) (\<lambda>_ T'. T' = T)"
    proof (intro tspec_bind tspec_record_inbox tspec_ret sticky_intros)
      fix T2 :: tables assume "T2 = T1\<lparr>inbox := inbox T2\<rparr>"
      then have "same_core T1 T2" by (metis same_core_def tables.simps(1,2,3,6) tables.surjective tables.update_convs(4))
      from accepted_same_core [OF acc this] none own [OF pl cur] show "submitted E i a h T res T2"
        unfolding submitted_def by (auto intro!: exI [of _ ?oc])
    qed
  qed (auto intro!: sticky_intros)
  have replay: "tspec (replay_or_conflict prev h) T (submitted E i a h T) (\<lambda>_ T'. T' = T)"
    if "existing i T = Some prev" "s_player i = wr_player r" "s_currency i = wr_currency r" for prev
    using that own by (intro tspec_replay_or_conflict) (simp_all add: submitted_def)
  show "tspec (case Some r of None \<Rightarrow> fail (ErrCorrectable CodeWalletMissing) | Some r \<Rightarrow>
      if s_player i \<noteq> wr_player r then fail (ErrCorrectable (code_text CodeWalletPlayerMismatch))
      else if s_currency i \<noteq> wr_currency r then fail (ErrCorrectable (code_text CodeCurrencyMismatch))
      else bind (FindByProviderKey E (s_provider i) (s_key i)) (\<lambda>byKey. case byKey of
        Some prev \<Rightarrow> replay_or_conflict prev h
      | None \<Rightarrow> bind (FindByProviderExternal E (s_provider i) (s_external i)) (\<lambda>byExt. case byExt of
          Some prev \<Rightarrow> replay_or_conflict prev h
        | None \<Rightarrow>
          bind (applyOperation E \<lparr>oc_in = i, oc_amount = a, oc_hash = h, oc_wallet = r\<rparr>) (\<lambda>res.
          bind (record_inbox E i h) (\<lambda>_. ret res))))) T (submitted E i a h T) (\<lambda>_ T'. T' = T)"
    unfolding option.case(2)
  proof (intro tspec_if)
    show "tspec (bind (FindByProviderKey E (s_provider i) (s_key i)) (\<lambda>byKey. case byKey of
        Some prev \<Rightarrow> replay_or_conflict prev h
      | None \<Rightarrow> bind (FindByProviderExternal E (s_provider i) (s_external i)) (\<lambda>byExt. case byExt of
          Some prev \<Rightarrow> replay_or_conflict prev h | None \<Rightarrow> ?new))) T (submitted E i a h T) (\<lambda>_ T'. T' = T)"
      if "\<not> s_player i \<noteq> wr_player r" "\<not> s_currency i \<noteq> wr_currency r"
    proof (rule tspec_bind [OF tspec_FindByProviderKey])
      show "tspec (case find_by_key (s_provider i) (s_key i) (txs T) of
          Some prev \<Rightarrow> replay_or_conflict prev h
        | None \<Rightarrow> bind (FindByProviderExternal E (s_provider i) (s_external i)) (\<lambda>byExt. case byExt of
            Some prev \<Rightarrow> replay_or_conflict prev h | None \<Rightarrow> ?new)) T (submitted E i a h T) (\<lambda>_ T'. T' = T)"
      proof (cases "find_by_key (s_provider i) (s_key i) (txs T)")
        case (Some prev)
        with replay [of prev] that show ?thesis by (simp add: existing_def)
      next
        case None
        have "tspec (case find_by_external (s_provider i) (s_external i) (txs T) of
            Some prev \<Rightarrow> replay_or_conflict prev h | None \<Rightarrow> ?new) T (submitted E i a h T) (\<lambda>_ T'. T' = T)"
          using None replay new that by (cases "find_by_external (s_provider i) (s_external i) (txs T)") (simp_all add: existing_def)
        then show ?thesis using None
          by (simp add: tspec_bind [OF tspec_FindByProviderExternal] sticky_intros)
      qed
    qed (auto intro!: sticky_intros)
  qed (simp_all add: tspec_fail)
qed (auto intro!: sticky_intros)

end
