(* ===== verification/Refine_Resume.thy ===== *)
theory Refine_Resume
  imports Refine_Submit
begin

text \<open>
  Resuming a parked operation implements the machine: \<open>resumeOne\<close> either fails without a trace or
  makes one step (a settlement, a movement, or a rescheduling), and leaves every other parked row as it
  was.
\<close>

section \<open>Parked rows\<close>

definition parked :: "env \<Rightarrow> tables \<Rightarrow> tx_row \<Rightarrow> bool" where
  "parked E T q \<longleftrightarrow> good E T \<and> q \<in> set (txs T) \<and> t_state q = StatePendingReference"

text \<open>\<open>x\<close> is \<open>q\<close> with its outcome columns rewritten.\<close>

definition updated :: "tx_row \<Rightarrow> tx_row \<Rightarrow> bool" where
  "updated q x \<longleftrightarrow> x = q\<lparr>t_state := t_state x, t_failure := t_failure x, t_result := t_result x,
     t_result_currency := t_result_currency x, t_ref_tx := t_ref_tx x, t_version := t_version x\<rparr>"

lemma updatedD:
  assumes "updated q x"
  shows "t_id x = t_id q" "t_wallet x = t_wallet q" "t_kind x = t_kind q" "t_amount x = t_amount q"
    "t_currency x = t_currency q" "t_provider x = t_provider q" "t_reversed_tx x = t_reversed_tx q"
    "tx_checks x = tx_checks q" "same_request q x" "t_ref_external x = t_ref_external q"
proof -
  from assms have x: "x = q\<lparr>t_state := t_state x, t_failure := t_failure x, t_result := t_result x,
     t_result_currency := t_result_currency x, t_ref_tx := t_ref_tx x, t_version := t_version x\<rparr>"
    by (simp add: updated_def)
  show r: "same_request q x" by (subst x) (simp add: same_request_def)
  show "t_reversed_tx x = t_reversed_tx q" by (subst x) simp
  show "t_id x = t_id q" "t_wallet x = t_wallet q" "t_kind x = t_kind q" "t_amount x = t_amount q"
    "t_currency x = t_currency q" "t_provider x = t_provider q" "t_ref_external x = t_ref_external q"
    using r by (simp_all add: same_request_def)
  show "tx_checks x = tx_checks q" using r by (cases "t_origin q") (simp_all add: same_request_def tx_checks_def)
qed

lemma parkedD:
  assumes "parked E T q"
  shows "good E T" "q \<in> set (txs T)" "t_state q = StatePendingReference" "canon E (t_id q)" "canon E (t_wallet q)"
    "t_reversed_tx q = None" "tbl_find t_id (t_id q) (txs T) = Some q" "tx_checks q"
    "\<And>b. t_ref_tx q = Some b \<Longrightarrow> canon E b"
proof -
  show g: "good E T" and q: "q \<in> set (txs T)" and s: "t_state q = StatePendingReference"
    using assms by (simp_all add: parked_def)
  show "canon E (t_id q)" "canon E (t_wallet q)" "tx_checks q" "\<And>b. t_ref_tx q = Some b \<Longrightarrow> canon E b"
    using goodD(3) [OF g] q unfolding stored_ok_def by blast+
  show "tbl_find t_id (t_id q) (txs T) = Some q" using goodD(4) [OF g] q by (simp add: tbl_find_iff)
  show "t_reversed_tx q = None"
    using reversals_okD(2) [OF goodD(6) [OF g] q] s by (cases "t_reversed_tx q") auto
qed

lemma updated_admissible:
  assumes p: "parked E T q" and x: "updated q x"
  shows "admissible (txs T) x"
  using parkedD [OF p] updatedD [OF x] by (simp add: admissible_def)

lemma stored_ok_put:
  assumes p: "parked E T q" and x: "updated q x" "\<And>b. t_ref_tx x = Some b \<Longrightarrow> canon E b" "t_state x \<noteq> StatePending"
  shows "stored_ok E (T\<lparr>txs := put_tx x (txs T)\<rparr>)"
proof -
  note d = parkedD [OF p] and u = updatedD [OF x(1)]
  have "canon E (t_id y) \<and> canon E (t_wallet y) \<and> (\<forall>b. t_ref_tx y = Some b \<longrightarrow> canon E b) \<and> tx_checks y \<and>
      t_state y \<noteq> StatePending"
    if "y \<in> set (put_tx x (txs T))" for y
    using put_tx_mem [OF goodD(4) [OF d(1)] that] d u x(2,3) goodD(3) [OF d(1)] by (auto simp: stored_ok_def)
  then show ?thesis using goodD(3) [OF d(1)] by (simp add: stored_ok_def)
qed

text \<open>The other parked rows are still there.\<close>

definition keeps_parked :: "string \<Rightarrow> tables \<Rightarrow> tables \<Rightarrow> bool" where
  "keeps_parked i T T' \<longleftrightarrow>
     (\<forall>p \<in> set (txs T). t_id p \<noteq> i \<and> t_state p = StatePendingReference \<longrightarrow> p \<in> set (txs T'))"

definition resumed :: "env \<Rightarrow> tables \<Rightarrow> tx_row \<Rightarrow> tables \<Rightarrow> bool" where
  "resumed E T q T' \<longleftrightarrow> advance E T T' \<and> keeps_parked (t_id q) T T'"

lemma keeps_parked_put: "txs T' = put_tx x (txs T) \<Longrightarrow> t_id x = i \<Longrightarrow> keeps_parked i T T'"
  using put_tx_keep by (auto simp: keeps_parked_def)

text \<open>Marks touch processed rows only.\<close>

lemma marked_same:
  assumes "t_id p \<noteq> t_id t" "\<And>b. t_ref_tx t = Some b \<Longrightarrow> t_id p \<noteq> b"
  shows "marked x t p = p"
  using assms by (auto simp: marked_def)

lemma keeps_parked_marked:
  assumes g: "good E T" and t: "target_ok (txs T) x t" and T': "txs T' = mark_target x t (put_tx x (txs T))"
  shows "keeps_parked (t_id x) T T'"
  unfolding keeps_parked_def
proof (intro ballI impI)
  fix p assume p: "p \<in> set (txs T)" "t_id p \<noteq> t_id x \<and> t_state p = StatePendingReference"
  have tt: "t \<in> set (txs T)" "t_state t = StateProcessed" using t by (auto simp: target_ok_def linked_def)
  have "t_id p \<noteq> t_id t"
  proof
    assume "t_id p = t_id t"
    from id_unique [OF goodD(4) [OF g] p(1) tt(1) this] p(2) tt(2) show False by simp
  qed
  moreover have "t_id p \<noteq> b" if b: "t_ref_tx t = Some b" for b
  proof
    obtain v where v: "v \<in> set (txs T)" "t_id v = b" "t_state v = StateProcessed"
      using links_okD [OF goodD(7) [OF g] tt b] by (auto simp: linked_def)
    assume "t_id p = b"
    then have "t_id p = t_id v" using v(2) by simp
    from id_unique [OF goodD(4) [OF g] p(1) v(1) this] p(2) v(3) show False by simp
  qed
  ultimately have "marked x t p = p" by (rule marked_same)
  moreover have "p \<in> set (put_tx x (txs T))" using put_tx_keep p by blast
  ultimately show "p \<in> set (txs T')" unfolding T' mark_target_map by force
qed

section \<open>Settling\<close>

lemma tspec_UpdateState_parked:
  assumes p: "parked E T q" and x: "updated q x" "\<And>b. t_ref_tx x = Some b \<Longrightarrow> canon E b"
    and Q: "Q () (T\<lparr>txs := put_tx x (txs T)\<rparr>)"
  shows "tspec (UpdateState E x) T Q R"
proof (rule tspec_UpdateState)
  fix i ref assume i: "e_uuid E (t_id x) = Some i" and ref: "uuid_opt_in E (t_ref_tx x) = Inr ref"
  note d = parkedD [OF p] and u = updatedD [OF x(1)]
  have i': "i = t_id q" using i d(4) u(1) by (simp add: canon_def)
  have ref': "ref = t_ref_tx x" using ref x(2) by (auto simp: uuid_opt_in_Inr canon_def split: option.splits)
  have row: "r\<lparr>t_state := t_state x, t_failure := t_failure x, t_result := t_result x,
      t_result_currency := t_result_currency x, t_ref_tx := ref, t_version := t_version x\<rparr> = x"
    if "r \<in> set (txs T)" "t_id r = i" for r
  proof -
    have "t_id r = t_id q" using that(2) i' by simp
    from id_unique [OF goodD(4) [OF d(1)] that(1) d(2) this] show ?thesis
      using x(1) ref' by (simp add: updated_def)
  qed
  have "tbl_modify t_id i (\<lambda>r. r\<lparr>t_state := t_state x, t_failure := t_failure x, t_result := t_result x,
      t_result_currency := t_result_currency x, t_ref_tx := ref, t_version := t_version x\<rparr>) (txs T) = put_tx x (txs T)"
    using row d(7) u(1) i' by (simp add: put_tx_def tbl_modify_def)
  then show "Q () (T\<lparr>txs := tbl_modify t_id i (\<lambda>q. q\<lparr>t_state := t_state x, t_failure := t_failure x,
      t_result := t_result x, t_result_currency := t_result_currency x, t_ref_tx := ref,
      t_version := t_version x\<rparr>) (txs T)\<rparr>)" using Q by simp
qed

lemma tspec_DeleteWork_parked:
  assumes "canon E i" "Q () (T\<lparr>works := drop_work i (works T)\<rparr>)"
  shows "tspec (DeleteWork E i) T Q R"
  by (rule tspec_DeleteWork) (use assms in \<open>simp add: canon_def drop_work_def\<close>)

lemma sticky_settle [sticky_intros]:
  "sticky (settleProcessedExisting E w q i ref d b a)" "sticky (settleRejectedExisting E w q i ref c)"
  unfolding settleProcessedExisting_def settleRejectedExisting_def Let_def by (intro sticky_intros)+

text \<open>The rows that the two settlements write.\<close>

definition refused_row :: "tx_row \<Rightarrow> wallet \<Rightarrow> string \<Rightarrow> string \<Rightarrow> tx_row" where
  "refused_row q w ref failure = q\<lparr>t_state := StateRejected, t_failure := Some failure,
     t_result := Some (minor (w_balance w)), t_result_currency := Some (currency (w_balance w)),
     t_version := Some (w_version w), t_ref_tx := (if ref \<noteq> [] then Some ref else t_ref_tx q)\<rparr>"

definition settled_row :: "tx_row \<Rightarrow> wallet \<Rightarrow> string \<Rightarrow> money \<Rightarrow> tx_row" where
  "settled_row q w ref after = q\<lparr>t_state := StateProcessed, t_result := Some (minor after),
     t_result_currency := Some (currency after), t_version := Some (w_version w),
     t_ref_tx := (if ref \<noteq> [] then Some ref else t_ref_tx q)\<rparr>"

lemma updated_rows: "updated q (refused_row q w ref failure)" "updated q (settled_row q w ref after)"
  by (simp_all add: updated_def refused_row_def settled_row_def)

lemma refused_row_simps [simp]:
  "t_id (refused_row q w ref c) = t_id q" "t_state (refused_row q w ref c) = StateRejected"
  "t_failure (refused_row q w ref c) = Some c"
  "t_ref_tx (refused_row q w ref c) = (if ref \<noteq> [] then Some ref else t_ref_tx q)"
  by (simp_all add: refused_row_def)

lemma settled_row_simps [simp]:
  "t_id (settled_row q w ref a) = t_id q" "t_state (settled_row q w ref a) = StateProcessed"
  "t_kind (settled_row q w ref a) = t_kind q" "t_wallet (settled_row q w ref a) = t_wallet q"
  "t_amount (settled_row q w ref a) = t_amount q" "t_currency (settled_row q w ref a) = t_currency q"
  "t_provider (settled_row q w ref a) = t_provider q" "t_result (settled_row q w ref a) = Some (minor a)"
  "t_version (settled_row q w ref a) = Some (w_version w)"
  "t_ref_tx (settled_row q w ref a) = (if ref \<noteq> [] then Some ref else t_ref_tx q)"
  by (simp_all add: settled_row_def)

text \<open>What \<open>resumeOne\<close> reports: settled for good, or left parked for another attempt.\<close>

definition settles :: "env \<Rightarrow> tables \<Rightarrow> tx_row \<Rightarrow> bool \<Rightarrow> tables \<Rightarrow> bool" where
  "settles E T q b T' \<longleftrightarrow> resumed E T q T' \<and>
     (if b then \<exists>x \<in> set (txs T'). t_id x = t_id q \<and> IsTerminal (t_state x) else txs T' = txs T)"

lemma resumed_refused:
  assumes p: "parked E T q" and ref: "ref \<noteq> [] \<Longrightarrow> canon E ref"
    and T': "wallets T' = wallets T" "txs T' = put_tx (refused_row q w ref c) (txs T)" "ledger T' = ledger T"
      "works T' = drop_work (t_id q) (works T)"
  shows "settles E T q True T'"
proof -
  let ?x = "refused_row q w ref c"
  note u = updated_rows(1) [of q w ref c]
  have "machine T T'"
    using updated_admissible [OF p u] T' by (intro machine.settled [of T ?x]) simp_all
  moreover have "canon E b" if "t_ref_tx ?x = Some b" for b
    using that ref parkedD(9) [OF p] by (auto split: if_splits)
  then have "stored_ok E T'"
    using stored_ok_cong [OF stored_ok_put [OF p u]] T' by simp
  moreover have "keeps_parked (t_id q) T T'" using T'(2) by (rule keeps_parked_put) simp
  moreover have "?x \<in> set (txs T')" unfolding T' by (rule put_tx_self)
  ultimately show ?thesis
    by (auto simp: settles_def resumed_def advance_def IsTerminal_def intro!: bexI [of _ ?x])
qed

lemma tspec_settleRejected:
  assumes p: "parked E T q" and ref: "ref \<noteq> [] \<Longrightarrow> canon E ref"
  shows "tspec (settle_true (settleRejectedExisting E w q i ref c)) T (settles E T q) R"
  unfolding settle_true_def settleRejectedExisting_def Let_def refused_row_def [symmetric]
proof (intro tspec_bind tspec_emitRejected sticky_intros tspec_UpdateState_parked [OF p updated_rows(1)])
  fix b assume "t_ref_tx (refused_row q w ref c) = Some b"
  then show "canon E b" using ref parkedD(9) [OF p] by (auto split: if_splits)
next
  fix b
  let ?T1 = "T\<lparr>txs := put_tx (refused_row q w ref c) (txs T)\<rparr>"
  let ?T2 = "?T1\<lparr>outbox := outbox ?T1 @ [b]\<rparr>"
  show "tspec (DeleteWork E (t_id q)) ?T2 (\<lambda>_ T'. tspec (ret True) T' (settles E T q) R) R"
    using parkedD(4) [OF p] resumed_refused [OF p ref]
    by (intro tspec_DeleteWork_parked tspec_ret) simp_all
qed

definition resumed_tables :: "tables \<Rightarrow> tx_row \<Rightarrow> tx_row list \<Rightarrow> ledger_row \<Rightarrow> outbox_row list \<Rightarrow> tables" where
  "resumed_tables T q ts e bs = (moved_tables T ts e bs)\<lparr>works := drop_work (t_id q) (works T)\<rparr>"

lemma tspec_settleProcessed:
  assumes p: "parked E T q" and am: "money_or_zero (t_amount q) (t_currency q) = amount" and ref: "ref \<noteq> [] \<Longrightarrow> canon E ref"
    and err: "\<And>c. R (ErrDomain c) T"
    and ok: "\<And>e bs. booked E T w (t_id q) d amount before after e \<Longrightarrow> map b_type bs = event_types d \<Longrightarrow>
      Q () (resumed_tables T q (put_tx (settled_row q w ref after) (txs T)) e bs)"
  shows "tspec (settleProcessedExisting E w q i ref d before after) T Q R"
  unfolding settleProcessedExisting_def Let_def settled_row_def [symmetric] am
proof (intro tspec_bind tspec_newID tspec_lift_domain tspec_ledger_Append tspec_UpdateBalance
    tspec_emitProcessed sticky_intros err tspec_UpdateState_parked [OF p updated_rows(2)])
  fix b assume "t_ref_tx (settled_row q w ref after) = Some b"
  then show "canon E b" using ref parkedD(9) [OF p] by (auto split: if_splits)
next
  fix en and e :: ledger_entry and f :: ledger_row and j and bs :: "outbox_row list"
  let ?T1 = "T\<lparr>txs := put_tx (settled_row q w ref after) (txs T)\<rparr>"
  let ?T2 = "?T1\<lparr>ledger := ledger ?T1 @ [f]\<rparr>"
  let ?T3 = "?T2\<lparr>wallets := tbl_modify wr_id j (\<lambda>r. r\<lparr>wr_balance := minor after, wr_version := w_version w\<rparr>) (wallets ?T2)\<rparr>"
  let ?T4 = "?T3\<lparr>outbox := outbox ?T3 @ bs\<rparr>"
  assume e: "NewLedgerEntry en (w_id w) (t_id q) d amount before after (w_version w) = Inr e"
    and f: "stored_ledger E (toLedgerRecord e) f" "tbl_find l_id (l_id f) (ledger ?T1) = None"
      "tbl_find wr_id (l_wallet f) (wallets ?T1) \<noteq> None"
    and j: "e_uuid E (w_id w) = Some j"
      "tbl_find wr_id j (wallets ?T2) \<noteq> None \<Longrightarrow> 0 \<le> sint (minor after) \<and> 1 \<le> sint (w_version w)"
    and bs: "map b_type bs = event_types d"
  have w: "l_wallet f = j"
    using stored_ledgerD(2) [OF f(1)] NewLedgerEntry_InrD(1) [OF e] j(1) by (simp add: toLedgerRecord_def)
  with j f have b: "booked E T w (t_id q) d amount before after f"
    by (intro booked_intro [OF e f(1)]) simp_all
  then have "l_after f = minor after" "l_version f = w_version w" by (simp_all add: booked_def)
  then have "?T4\<lparr>works := drop_work (t_id q) (works ?T4)\<rparr> =
      resumed_tables T q (put_tx (settled_row q w ref after) (txs T)) f bs"
    using w by (simp add: resumed_tables_def moved_tables_def set_balance_def)
  with ok [OF b bs] parkedD(4) [OF p] show "tspec (DeleteWork E (t_id q)) ?T4 Q R"
    by (intro tspec_DeleteWork_parked) simp_all
qed

lemma stored_ok_settled:
  assumes p: "parked E T q" and u: "updated q x" and c: "\<And>b. t_ref_tx x = Some b \<Longrightarrow> canon E b"
    and np: "t_state x \<noteq> StatePending" and ref: "reference_ok (txs T) x d ts"
  shows "stored_ok E (T\<lparr>txs := ts\<rparr>)"
proof -
  have "ts = put_tx x (txs T) \<or> (\<exists>t. ts = map (marked x t) (put_tx x (txs T)))"
    using ref by (auto simp: reference_ok_def mark_target_map)
  then show ?thesis
    using stored_ok_put [OF p u c np] stored_ok_marked [of E "T\<lparr>txs := put_tx x (txs T)\<rparr>" x] by auto
qed

text \<open>A movement that settles a parked row is one step, and reports it settled.\<close>

lemma settles_moved:
  assumes p: "parked E T q" and r: "tbl_find wr_id (t_wallet q) (wallets T) = Some r"
    and mv: "movement (wallet_of r) pl d (mk_money (t_amount q) (t_currency q)) before after w'"
    and k: "t_kind q \<noteq> KindLoss" and c: "ref \<noteq> [] \<Longrightarrow> canon E ref"
    and rf: "reference_ok (txs T) (settled_row q w' ref after) d ts"
    and e: "booked E T w' (t_id q) d (mk_money (t_amount q) (t_currency q)) before after e"
  shows "settles E T q True (resumed_tables T q ts e bs)"
proof -
  let ?x = "settled_row q w' ref after" and ?T' = "resumed_tables T q ts e bs"
  note d = parkedD [OF p] and u = updated_rows(2) [of q w' ref after]
  have "canon E b" if "t_ref_tx ?x = Some b" for b
    using that c d(9) by (auto split: if_splits)
  then have st: "stored_ok E (T\<lparr>txs := ts\<rparr>)" by (rule stored_ok_settled [OF p u _ _ rf]) simp_all
  have adv: "advance E T ?T'"
    by (rule advance_posted [OF d(1) _ updated_admissible [OF p u] _ _ _ _ _ _ _ e movementD [OF mv] rf st])
      (use d(4) r k in \<open>simp_all add: resumed_tables_def moved_tables_def canon_def\<close>)
  have ts: "txs ?T' = ts" by (simp add: resumed_tables_def moved_tables_def)
  have "keeps_parked (t_id q) T ?T'"
  proof -
    have "ts = put_tx ?x (txs T) \<or> (\<exists>t. target_ok (txs T) ?x t \<and> ts = mark_target ?x t (put_tx ?x (txs T)))"
      using rf by (auto simp: reference_ok_def)
    then show ?thesis
      using keeps_parked_put [of ?T' ?x T] keeps_parked_marked [OF d(1), of ?x _ ?T'] ts by auto
  qed
  moreover have "\<exists>y \<in> set ts. t_id y = t_id q \<and> IsTerminal (t_state y)"
  proof -
    have "ts = put_tx ?x (txs T) \<or> (\<exists>t. ts = map (marked ?x t) (put_tx ?x (txs T)))"
      using rf by (auto simp: reference_ok_def mark_target_map)
    then have "?x \<in> set ts \<or> (\<exists>t. marked ?x t ?x \<in> set ts)"
      using put_tx_self [of ?x "txs T"] by (metis image_eqI list.set_map)
    then show ?thesis
    proof
      assume "?x \<in> set ts"
      then show ?thesis by (rule bexI [rotated]) (simp add: IsTerminal_def)
    next
      assume "\<exists>t. marked ?x t ?x \<in> set ts"
      then obtain t where "marked ?x t ?x \<in> set ts" ..
      then show ?thesis by (rule bexI [rotated]) (simp add: IsTerminal_def)
    qed
  qed
  ultimately show ?thesis using adv ts by (simp add: settles_def resumed_def)
qed

section \<open>Targets of parked rows\<close>

definition target_of :: "tables \<Rightarrow> tx_row \<Rightarrow> tx_row \<Rightarrow> bool" where
  "target_of T q t \<longleftrightarrow> t \<in> set (txs T) \<and> t_provider t = Some (str (t_provider q)) \<and> t_state t = StateProcessed"

lemma external_provider: "tx_checks q \<Longrightarrow> t_kind q \<noteq> KindOpening \<Longrightarrow> t_provider q = Some (str (t_provider q))"
  by (auto simp: tx_checks_def split: origin.splits)

lemma parked_input_simps [simp]:
  "s_kind (parked_input q m) = t_kind q" "s_player (parked_input q m) = t_player q"
  "s_provider (parked_input q m) = str (t_provider q)" "s_wallet (parked_input q m) = t_wallet q"
  "s_ref (parked_input q m) = str (t_ref_external q)"
  by (simp_all add: parked_input_def)

lemma agrees_parked:
  assumes p: "parked E T q" and t: "target_of T q t" and v: "validCurrency (t_currency q)"
    and am: "amount = mk_money (t_amount q) (t_currency q)" and k: "t_kind q \<noteq> KindOpening"
    and ag: "agrees op (referenceView t)"
    and op: "op \<in> {winOperation (parked_input q amount) amount, reversalOperation (parked_input q amount) amount}"
  shows "t_ref_tx (settled_row q w (t_id t) a) = Some (t_id t)" "t_wallet t = t_wallet q" "t_amount t = t_amount q"
    "t_currency t = t_currency q" "t_provider t = t_provider q" "canon E (t_id t)"
proof -
  have g: "uuid_law E" "stored_ok E T" using goodD(1,3) [OF parkedD(1) [OF p]] by simp_all
  show c: "canon E (t_id t)" using g(2) t by (simp add: stored_ok_def target_of_def)
  then have "t_id t \<noteq> []" using g(1) by (auto simp: uuid_law_def canon_def)
  then show "t_ref_tx (settled_row q w (t_id t) a) = Some (t_id t)" by simp
  have m: "amount = money_or_zero (t_amount t) (t_currency t)" and w: "t_wallet q = t_wallet t"
    using ag op by (auto simp: agrees_def winOperation_def reversalOperation_def)
  have "amount = mk_money (t_amount t) (t_currency t)"
  proof -
    have "validCurrency (currency amount)" using v am by simp
    with m show ?thesis
      using agreed_amount(1) [of "winOperation (parked_input q amount) amount" "t_amount t" "t_currency t"]
      unfolding winOperation_def by simp
  qed
  then show "t_amount t = t_amount q" "t_currency t = t_currency q" using am by simp_all
  show "t_wallet t = t_wallet q" using w by simp
  show "t_provider t = t_provider q"
    using t external_provider [OF parkedD(8) [OF p] k] by (simp add: target_of_def)
qed

lemma tspec_resumeWin:
  assumes p: "parked E T q" and r: "tbl_find wr_id (t_wallet q) (wallets T) = Some r" and t: "target_of T q t"
    and v: "validCurrency (t_currency q)" and am: "amount = mk_money (t_amount q) (t_currency q)"
    and k: "t_kind q = KindWin"
  shows "tspec (resumeWin E (wallet_of r) q (parked_input q amount) amount t) T (settles E T q) (\<lambda>_ T'. T' = T)"
proof (cases "ValidateWinReference (winOperation (parked_input q amount) amount) (Some (referenceView t))")
  case (Inl c)
  have "canon E (t_id t)" using t goodD(3) [OF parkedD(1) [OF p]] by (simp add: stored_ok_def target_of_def)
  then show ?thesis using Inl tspec_settleRejected [OF p] by (simp add: resumeWin_def)
next
  case (Inr u)
  then have a: "t_kind t = KindBet" "t_reversed_tx t = None"
    "agrees (winOperation (parked_input q amount) amount) (referenceView t)"
    using ValidateWinReference_Inr_iff [of "winOperation (parked_input q amount) amount" "referenceView t"] by simp_all
  have ko: "t_kind q \<noteq> KindOpening" using k by simp
  have am': "money_or_zero (t_amount q) (t_currency q) = amount"
    using v am by (simp add: money_or_zero_def NewMoneyFromMinor_def)
  note ap = agrees_parked [OF p t v am ko a(3)]
  have "tspec (bind (lift_domain (Credit (wallet_of r) (t_player q) amount)) (\<lambda>(before, after, w').
      settle_true (settleProcessedExisting E w' q (parked_input q amount) (t_id t) DirectionCredit before after))) T
      (settles E T q) (\<lambda>_ T'. T' = T)"
  proof (intro tspec_bind tspec_lift_domain)
    fix res assume res: "Credit (wallet_of r) (t_player q) amount = Inr res"
    obtain b af w' where e: "res = (b, af, w')" by (cases res)
    have mv: "movement (wallet_of r) (t_player q) DirectionCredit amount b af w'" using res e by (simp add: movement_def)
    let ?x = "settled_row q w' (t_id t) af"
    have "target_ok (txs T) ?x t"
      using ap t a(1,2) k by (simp add: target_ok_def linked_def target_of_def IsReversalKind_def)
    then have rf: "reference_ok (txs T) ?x DirectionCredit (put_tx ?x (txs T))"
      using k by (auto simp: reference_ok_def)
    have "tspec (settle_true (settleProcessedExisting E w' q (parked_input q amount) (t_id t) DirectionCredit b af)) T
        (settles E T q) (\<lambda>_ T'. T' = T)"
      unfolding settle_true_def
    proof (intro tspec_bind tspec_settleProcessed [OF p am'] tspec_ret sticky_intros)
      show "canon E (t_id t)" using ap(6) by simp
    next
      fix e :: ledger_row and bs :: "outbox_row list" assume "booked E T w' (t_id q) DirectionCredit amount b af e"
      then show "settles E T q True (resumed_tables T q (put_tx ?x (txs T)) e bs)"
        using settles_moved [OF p r mv [unfolded am] _ _ rf] k ap(6) am by simp
    qed simp
    then show "tspec (case res of (before, after, w') \<Rightarrow>
      settle_true (settleProcessedExisting E w' q (parked_input q amount) (t_id t) DirectionCredit before after)) T
      (settles E T q) (\<lambda>_ T'. T' = T)" using e by simp
  qed (auto simp: settle_true_def intro!: sticky_intros)
  then show ?thesis using Inr by (simp add: resumeWin_def)
qed

section \<open>Parked reversals\<close>

lemma sticky_markTarget_true [sticky_intros]: "sticky m \<Longrightarrow> sticky (settle_true m)"
  unfolding settle_true_def by (intro sticky_intros)

lemma resumed_tables_txs:
  "(resumed_tables T q ts e bs)\<lparr>txs := f (txs (resumed_tables T q ts e bs))\<rparr> = resumed_tables T q (f ts) e bs"
  by (cases T) (simp add: resumed_tables_def moved_tables_def)

text \<open>The movement of a parked reversal that passed every check, and the marks it leaves.\<close>

lemma tspec_resumed_move:
  assumes p: "parked E T q" and r: "tbl_find wr_id (t_wallet q) (wallets T) = Some r" and t: "target_of T q t"
    and v: "validCurrency (t_currency q)" and am: "amount = mk_money (t_amount q) (t_currency q)"
    and ag: "agrees (reversalOperation (parked_input q amount) amount) (referenceView t)"
    and mx: "reversal_matrix (t_kind q) (t_kind t)" and nr: "t_reversed_tx t = None"
    and nw: "t_kind t = KindBet \<Longrightarrow> \<not> (\<exists>w \<in> set (txs T). active_win (t_id t) w)"
    and mv: "movement (wallet_of r) pl d amount b a w'" and d: "d = reversalDirection (t_kind q) (t_kind t)"
  shows "tspec (bind (settleProcessedExisting E w' q i (t_id t) d b a)
      (\<lambda>_. settle_true (markTarget E (t_kind q) (t_id q) t))) T (settles E T q) (\<lambda>_ T'. T' = T)"
proof (rule tspec_bind [OF tspec_settleProcessed [OF p]])
  note kk = reversal_kind_not_loss [OF mx]
  have ko: "t_kind q \<noteq> KindOpening" using kk by (auto simp: IsReversalKind_def)
  note ap = agrees_parked [OF p t v am ko ag]
  let ?x = "settled_row q w' (t_id t) a"
  show "money_or_zero (t_amount q) (t_currency q) = amount" using v am by (simp add: money_or_zero_def NewMoneyFromMinor_def)
  show "canon E (t_id t)" using ap(6) by simp
  have "target_ok (txs T) ?x t"
    using ap t nr nw mx kk by (simp add: target_ok_def linked_def target_of_def)
  then have rf: "reference_ok (txs T) ?x d (mark_target ?x t (put_tx ?x (txs T)))"
    using kk d by (auto simp: reference_ok_def)
  fix e :: ledger_row and bs :: "outbox_row list" assume e: "booked E T w' (t_id q) d amount b a e"
  have s: "settles E T q True (resumed_tables T q (mark_target ?x t (put_tx ?x (txs T))) e bs)"
    using settles_moved [OF p r mv [unfolded am] _ _ rf] e kk ap(6) am by simp
  show "tspec (settle_true (markTarget E (t_kind q) (t_id q) t)) (resumed_tables T q (put_tx ?x (txs T)) e bs)
      (settles E T q) (\<lambda>_ T'. T' = T)"
    unfolding settle_true_def
  proof (intro tspec_bind tspec_markTarget tspec_ret sticky_intros)
    show "e_uuid E (t_id q) = Some (t_id ?x)" using parkedD(4) [OF p] by (simp add: canon_def)
    show "t_kind ?x = t_kind q" by simp
    show "canon E (t_id t)" by (rule ap(6)) simp
    show "\<And>b. t_ref_tx t = Some b \<Longrightarrow> canon E b"
      using goodD(3) [OF parkedD(1) [OF p]] t by (auto simp: stored_ok_def target_of_def)
    show "settles E T q True ((resumed_tables T q (put_tx ?x (txs T)) e bs)\<lparr>txs :=
        mark_target ?x t (txs (resumed_tables T q (put_tx ?x (txs T)) e bs))\<rparr>)"
      using s by (simp only: resumed_tables_txs)
  qed
qed (auto intro!: sticky_intros)

lemma tspec_resumeReversal:
  assumes p: "parked E T q" and r: "tbl_find wr_id (t_wallet q) (wallets T) = Some r" and t: "target_of T q t"
    and v: "validCurrency (t_currency q)" and am: "amount = mk_money (t_amount q) (t_currency q)"
  shows "tspec (resumeReversal E (wallet_of r) q (parked_input q amount) amount t) T (settles E T q) (\<lambda>_ T'. T' = T)"
proof (cases "ValidateReferenceAgreement (reversalOperation (parked_input q amount) amount) (referenceView t)")
  case (Inl c)
  have "canon E (t_id t)" using t goodD(3) [OF parkedD(1) [OF p]] by (simp add: stored_ok_def target_of_def)
  then show ?thesis using Inl tspec_settleRejected [OF p] by (simp add: resumeReversal_def Let_def)
next
  case (Inr u)
  then have ag: "agrees (reversalOperation (parked_input q amount) amount) (referenceView t)"
    by (simp add: ValidateReferenceAgreement_Inr_iff)
  have c: "canon E (t_id t)" using t goodD(3) [OF parkedD(1) [OF p]] by (simp add: stored_ok_def target_of_def)
  let ?k = "t_kind q" and ?w = "wallet_of r" and ?i = "parked_input q amount"
  let ?act = "\<lambda>m win. case ValidateReversalTarget ?k (Some (targetDomain t m)) win of
      Inl c \<Rightarrow> settle_true (settleRejectedExisting E ?w q ?i (t_id t) (code_text c))
    | Inr _ \<Rightarrow> (let dir = reversalDirection ?k (t_kind t) in
        case reversalMovement ?k (t_kind t) ?w (t_player q) amount of
          Inl c \<Rightarrow> if dir = DirectionDebit \<and> c = CodeInsufficientBalance
            then settle_true (settleRejectedExisting E ?w q ?i (t_id t) (code_text CodeRollbackInsufficientBalance))
            else fail (ErrDomain c)
        | Inr (before, after, w') \<Rightarrow> bind (settleProcessedExisting E w' q ?i (t_id t) dir before after)
            (\<lambda>_. settle_true (markTarget E ?k (t_id q) t)))"
  have act: "tspec (?act m win) T (settles E T q) (\<lambda>_ T'. T' = T)"
    if win: "t_kind t = KindBet \<Longrightarrow> win = (\<exists>w \<in> set (txs T). active_win (t_id t) w)" for m win
  proof (cases "ValidateReversalTarget ?k (Some (targetDomain t m)) win")
    case (Inl c)
    then show ?thesis using tspec_settleRejected [OF p] \<open>canon E (t_id t)\<close> by simp
  next
    case (Inr v')
    then have v': "reversal_matrix ?k (t_kind t)" "t_reversed_tx t = None" "\<not> (t_kind t = KindBet \<and> win)"
      by (simp_all add: ValidateReversalTarget_Inr_iff)
    show ?thesis
    proof (cases "reversalMovement ?k (t_kind t) ?w (t_player q) amount")
      case (Inl c)
      then show ?thesis using Inr tspec_settleRejected [OF p] \<open>canon E (t_id t)\<close> by (simp add: tspec_fail)
    next
      case (Inr res)
      obtain b a w' where res: "res = (b, a, w')" by (cases res)
      have mv: "movement ?w (t_player q) (reversalDirection ?k (t_kind t)) amount b a w'"
        using reversalMovement_Inr Inr res by blast
      have nw: "t_kind t = KindBet \<Longrightarrow> \<not> (\<exists>w \<in> set (txs T). active_win (t_id t) w)" using win v'(3) by blast
      show ?thesis
        using tspec_resumed_move [OF p r t v am ag v'(1,2) nw mv refl, of ?i] \<open>_ = Inr v'\<close> Inr res by simp
    qed
  qed
  have "tspec (bind (mustMinor (t_amount t) (t_currency t)) (\<lambda>m. bind (activeWin E t) (\<lambda>win. ?act m win))) T
      (settles E T q) (\<lambda>_ T'. T' = T)"
    by (intro tspec_bind tspec_mustMinor tspec_activeWin c act) (auto intro!: sticky_intros simp: Let_def)
  then show ?thesis unfolding resumeReversal_def parked_input_simps by (simp only: Inr sum.case)
qed

section \<open>One resumption\<close>

lemma tspec_BackoffFullJitter: "(\<And>d. Q d T) \<Longrightarrow> tspec (BackoffFullJitter E n b c) T Q R"
  unfolding BackoffFullJitter_def Let_def by (auto intro!: tspec_ret tspec_bind tspec_int63n sticky_intros)

lemma sticky_BackoffFullJitter [sticky_intros]: "sticky (BackoffFullJitter E n b c)"
  unfolding BackoffFullJitter_def Let_def by (intro sticky_intros)

lemma tspec_workCreatedAt: "(\<And>t. Q t T) \<Longrightarrow> tspec (workCreatedAt E i) T Q R"
  unfolding workCreatedAt_def
  by (intro tspec_bind tspec_attempt tspec_GetWork)
    (auto intro!: tspec_ret sticky_intros split: sum.splits option.splits)

lemma tspec_workRefAttempts: "(\<And>n. Q n T) \<Longrightarrow> tspec (workRefAttempts E i) T Q R"
  unfolding workRefAttempts_def
  by (intro tspec_bind tspec_attempt tspec_GetWork)
    (auto intro!: tspec_ret sticky_intros split: sum.splits option.splits)

lemma sticky_work [sticky_intros]: "sticky (workCreatedAt E i)" "sticky (workRefAttempts E i)"
  unfolding workCreatedAt_def workRefAttempts_def by (intro sticky_intros)+

lemma sticky_wait [sticky_intros]: "sticky (wait_again E q t)" "sticky (ref_exhausted E q t)"
  unfolding wait_again_def ref_exhausted_def by (intro sticky_intros)+

lemma tspec_wait_again:
  assumes p: "parked E T q"
  shows "tspec (wait_again E q t) T (settles E T q) R"
  unfolding wait_again_def
proof (intro tspec_bind tspec_workRefAttempts tspec_BackoffFullJitter tspec_TouchWork tspec_ret sticky_intros)
  fix T' :: tables assume T': "map k_tx (works T') = map k_tx (works T)" "wallets T' = wallets T" "txs T' = txs T"
    "ledger T' = ledger T"
  show "settles E T q False T'"
    using advance_rescheduled [OF parkedD(1) [OF p] T'] T'(3) by (simp add: settles_def resumed_def keeps_parked_def)
qed

lemma sticky_resume [sticky_intros]:
  "sticky (resumeWin E w q i a t)" "sticky (resumeReversal E w q i a t)" "sticky (resumeApply E w q i a t)"
  unfolding resumeApply_def resumeWin_def resumeReversal_def Let_def by (intro sticky_intros)+

lemma tspec_resumeApply:
  assumes "parked E T q" "tbl_find wr_id (t_wallet q) (wallets T) = Some r" "target_of T q t"
    "validCurrency (t_currency q)" "amount = mk_money (t_amount q) (t_currency q)"
  shows "tspec (resumeApply E (wallet_of r) q (parked_input q amount) amount t) T (settles E T q) (\<lambda>_ T'. T' = T)"
  using tspec_resumeWin [OF assms] tspec_resumeReversal [OF assms] by (simp add: resumeApply_def)

lemma tspec_ref_exhausted: "(\<And>b. Q b T) \<Longrightarrow> tspec (ref_exhausted E q t) T Q R"
  unfolding ref_exhausted_def
  by (intro tspec_bind tspec_workCreatedAt tspec_if tspec_workRefAttempts tspec_ret sticky_intros)

text \<open>After the wallet is locked and the reference looked up.\<close>

definition resume_found :: "env \<Rightarrow> tx_row \<Rightarrow> time \<Rightarrow> wallet \<Rightarrow> money \<Rightarrow> tx_row option \<Rightarrow> bool action" where
  "resume_found E q t w amount mt = (case mt of
      None \<Rightarrow> bind (ref_exhausted E q t) (\<lambda>over.
        if over then settle_true (settleRejectedExisting E w q (parked_input q amount) [] CodeRefNotFound)
        else wait_again E q t)
    | Some target \<Rightarrow> (case t_state target of
        StatePending \<Rightarrow> wait_again E q t
      | StatePendingReference \<Rightarrow> wait_again E q t
      | StateProcessed \<Rightarrow> resumeApply E w q (parked_input q amount) amount target
      | _ \<Rightarrow> settle_true (settleRejectedExisting E w q (parked_input q amount) (t_id target)
          (code_text CodeReferenceNotProcessed))))"

lemma resumeOne_found:
  "resumeOne E q = bind (now E) (\<lambda>t. bind (LockForUpdate E (t_wallet q)) (\<lambda>mw. case mw of
      None \<Rightarrow> fail (ErrOther ''wallet vanished'')
    | Some r \<Rightarrow>
      bind (lift_domain (RehydrateWallet (wr_id r) (wr_player r) (wr_currency r) (wr_balance r) (wr_version r))) (\<lambda>w.
      bind (lift_domain (NewMoneyFromMinor (t_amount q) (t_currency q))) (\<lambda>amount.
      bind (FindByProviderExternal E (str (t_provider q)) (str (t_ref_external q))) (resume_found E q t w amount)))))"
  unfolding resumeOne_def resume_found_def Let_def parked_input_simps by simp

lemma sticky_resume_found [sticky_intros]: "sticky (resume_found E q t w amount mt)"
  unfolding resume_found_def
  by (cases mt) (auto intro!: sticky_intros split: tx_state.splits)

lemma tspec_resume_found:
  assumes p: "parked E T q" and r: "tbl_find wr_id (t_wallet q) (wallets T) = Some r"
    and v: "validCurrency (t_currency q)" and am: "amount = mk_money (t_amount q) (t_currency q)"
    and mt: "mt = find_by_external (str (t_provider q)) (str (t_ref_external q)) (txs T)"
  shows "tspec (resume_found E q t (wallet_of r) amount mt) T (settles E T q) (\<lambda>_ T'. T' = T)"
proof (cases mt)
  case None
  show ?thesis unfolding resume_found_def None option.case
    by (intro tspec_bind tspec_ref_exhausted tspec_if tspec_wait_again [OF p] tspec_settleRejected [OF p] sticky_intros) simp
next
  case (Some g)
  then have g: "g \<in> set (txs T)" "t_provider g = Some (str (t_provider q))"
    using find_by_external_Some [of _ _ "txs T" g] mt by simp_all
  then have "canon E (t_id g)" using goodD(3) [OF parkedD(1) [OF p]] by (simp add: stored_ok_def)
  moreover have "target_of T q g" if "t_state g = StateProcessed" using g that by (simp add: target_of_def)
  ultimately show ?thesis unfolding resume_found_def Some option.case
    by (cases "t_state g")
      (simp_all add: tspec_wait_again [OF p] tspec_settleRejected [OF p] tspec_resumeApply [OF p r _ v am])
qed

lemma tspec_resumeOne:
  assumes p: "parked E T q"
  shows "tspec (resumeOne E q) T (settles E T q) (\<lambda>_ T'. T' = T)"
  unfolding resumeOne_found
proof (intro tspec_bind tspec_now tspec_LockForUpdate)
  fix t u r assume u: "e_uuid E (t_wallet q) = Some u" "tbl_find wr_id u (wallets T) = Some r"
  have r: "tbl_find wr_id (t_wallet q) (wallets T) = Some r" using u parkedD(5) [OF p] by (simp add: canon_def)
  have "tspec (bind (lift_domain (RehydrateWallet (wr_id r) (wr_player r) (wr_currency r) (wr_balance r) (wr_version r))) (\<lambda>w.
      bind (lift_domain (NewMoneyFromMinor (t_amount q) (t_currency q))) (\<lambda>amount.
      bind (FindByProviderExternal E (str (t_provider q)) (str (t_ref_external q))) (resume_found E q t w amount))))
      T (settles E T q) (\<lambda>_ T'. T' = T)"
  proof (intro tspec_bind tspec_lift_domain tspec_FindByProviderExternal)
    fix w amount
    assume w: "RehydrateWallet (wr_id r) (wr_player r) (wr_currency r) (wr_balance r) (wr_version r) = Inr w"
      and a: "NewMoneyFromMinor (t_amount q) (t_currency q) = Inr amount"
    have w': "w = wallet_of r" using RehydrateWallet_InrD [OF w] by (simp add: wallet_of_def)
    have a': "validCurrency (t_currency q)" "amount = mk_money (t_amount q) (t_currency q)"
      using a by (auto simp: NewMoneyFromMinor_def split: if_splits)
    from tspec_resume_found [OF p r a' refl]
    show "tspec (resume_found E q t w amount (find_by_external (str (t_provider q)) (str (t_ref_external q)) (txs T))) T
        (settles E T q) (\<lambda>_ T'. T' = T)" unfolding w' .
  qed (auto intro!: sticky_intros)
  then show "tspec (case Some r of None \<Rightarrow> fail (ErrOther ''wallet vanished'') | Some r \<Rightarrow>
      bind (lift_domain (RehydrateWallet (wr_id r) (wr_player r) (wr_currency r) (wr_balance r) (wr_version r))) (\<lambda>w.
      bind (lift_domain (NewMoneyFromMinor (t_amount q) (t_currency q))) (\<lambda>amount.
      bind (FindByProviderExternal E (str (t_provider q)) (str (t_ref_external q))) (resume_found E q t w amount))))
      T (settles E T q) (\<lambda>_ T'. T' = T)" by simp
qed (auto intro!: sticky_intros tspec_fail)

lemma sticky_resumeOne [sticky_intros]: "sticky (resumeOne E q)"
  unfolding resumeOne_found by (intro sticky_intros)

end
