(* ===== verification/Refine_Work.thy ===== *)
theory Refine_Work
  imports Refine_Resume
begin

text \<open>
  The two callers of \<open>resumeOne\<close>, \<open>ReevaluateDependents\<close> and \<open>ProcessDueWork\<close>, make a sequence of steps
  of the machine, whatever statements are lost on the way.
\<close>

section \<open>Sequences of steps\<close>

definition progress :: "env \<Rightarrow> tables \<Rightarrow> tables \<Rightarrow> bool" where
  "progress E T T' \<longleftrightarrow> machine\<^sup>*\<^sup>* T T' \<and> stored_ok E T'"

lemma progress_refl: "good E T \<Longrightarrow> progress E T T"
  by (simp add: progress_def good_def)

lemma progress_advance: "advance E T T' \<Longrightarrow> progress E T T'"
  unfolding progress_def advance_def by blast

lemma progress_trans: "progress E T T1 \<Longrightarrow> progress E T1 T2 \<Longrightarrow> progress E T T2"
  unfolding progress_def using rtranclp_trans by meson

lemma progress_good: "good E T \<Longrightarrow> progress E T T' \<Longrightarrow> good E T'"
  using machine_star_sound by (auto simp: good_def progress_def)

lemma sticky_resume_all [sticky_intros]: "sticky (resume_all E ds)"
  by (induction ds) (auto intro!: sticky_intros)

text \<open>A list of parked rows with different ids; resuming one leaves the others parked.\<close>

lemma tspec_resume_all:
  assumes "good E T" "distinct (map t_id ds)"
    "\<And>q. q \<in> set ds \<Longrightarrow> t_state q = StatePendingReference \<Longrightarrow> q \<in> set (txs T)"
  shows "tspec (resume_all E ds) T (\<lambda>_ T'. progress E T T') (\<lambda>_ _. False)"
  using assms
proof (induction ds arbitrary: T)
  case Nil
  then show ?case by (simp add: tspec_ret progress_refl)
next
  case (Cons q ds)
  show ?case
  proof (cases "t_state q = StatePendingReference")
    case False
    then show ?thesis using Cons.IH [of T] Cons.prems by simp
  next
    case True
    have p: "parked E T q" using Cons.prems(1,3) True by (simp add: parked_def)
    have rest: "tspec (resume_all E ds) T1 (\<lambda>_ T'. progress E T T') (\<lambda>_ _. False)"
      if T1: "T1 = T \<or> settles E T q b T1" for T1 b
    proof -
      have pr: "progress E T T1" using T1 progress_refl [OF Cons.prems(1)] progress_advance
        by (auto simp: settles_def resumed_def)
      have "d \<in> set (txs T1)" if d: "d \<in> set ds" "t_state d = StatePendingReference" for d
      proof -
        have "t_id d \<in> t_id ` set ds" using d(1) by (rule imageI)
        then have "t_id d \<noteq> t_id q" using Cons.prems(2) by auto
        then show ?thesis using T1 d Cons.prems(3) [of d] by (auto simp: settles_def resumed_def keeps_parked_def)
      qed
      then have "tspec (resume_all E ds) T1 (\<lambda>_ T'. progress E T1 T') (\<lambda>_ _. False)"
        using Cons.IH [of T1] progress_good [OF Cons.prems(1) pr] Cons.prems(2) by simp
      then show ?thesis using progress_trans [OF pr] by (auto intro: tspec_mono)
    qed
    have "tspec (bind (ignore (resumeOne E q)) (\<lambda>_. resume_all E ds)) T (\<lambda>_ T'. progress E T T') (\<lambda>_ _. False)"
      by (intro tspec_bind tspec_ignore tspec_mono [OF tspec_resumeOne [OF p]] sticky_intros) (use rest in blast)+
    then show ?thesis using True by simp
  qed
qed

lemma tspec_ReevaluateDependents:
  assumes "good E T"
  shows "tspec (ReevaluateDependents E p e) T (\<lambda>_ T'. progress E T T') (\<lambda>_ T'. T' = T)"
  unfolding ReevaluateDependents_def
proof (intro tspec_transact tspec_bind tspec_FindDependents sticky_intros)
  have "distinct (map t_id (dependents p e (txs T)))"
    using goodD(4) [OF assms] by (simp add: dependents_def tbl_inv_def distinct_map_filter)
  then show "tspec (resume_all E (dependents p e (txs T))) T (\<lambda>_ T'. progress E T T') (\<lambda>_ _. False)"
    by (intro tspec_resume_all assms) (auto simp: dependents_def)
qed

section \<open>Due work\<close>

text \<open>A work item exists for parked rows only, so deleting another one changes nothing.\<close>

lemma drop_idle:
  assumes "good E T" "\<And>x. x \<in> set (txs T) \<Longrightarrow> t_id x = i \<Longrightarrow> t_state x \<noteq> StatePendingReference"
  shows "drop_work i (works T) = works T"
  using soundD(7) [OF goodD(2) [OF assms(1)]] assms(2)
  by (auto simp: drop_work_def works_ok_def filter_id_conv)

lemma tspec_DeleteWork_idle:
  assumes g: "good E T" and i: "\<And>u x. e_uuid E i = Some u \<Longrightarrow> x \<in> set (txs T) \<Longrightarrow> t_id x = u \<Longrightarrow>
      t_state x \<noteq> StatePendingReference" and Q: "\<And>T'. same_core T T' \<Longrightarrow> Q () T'"
  shows "tspec (DeleteWork E i) T Q R"
proof (rule tspec_DeleteWork)
  fix j assume "e_uuid E i = Some j"
  then have "drop_work j (works T) = works T" using drop_idle [OF g] i by blast
  then show "Q () (T\<lparr>works := filter (\<lambda>r. k_tx r \<noteq> j) (works T)\<rparr>)"
    using Q [of "T\<lparr>works := drop_work j (works T)\<rparr>"] by (simp add: same_core_def drop_work_def)
qed

definition failed_row :: "tx_row \<Rightarrow> tx_row" where
  "failed_row q = q\<lparr>t_state := StateFailed, t_failure := Some ''INFRA_EXHAUSTED''\<rparr>"

lemma updated_failed: "updated q (failed_row q)"
  by (simp add: updated_def failed_row_def)

lemma failed_row_simps [simp]:
  "t_id (failed_row q) = t_id q" "t_state (failed_row q) = StateFailed" "t_ref_tx (failed_row q) = t_ref_tx q"
  by (simp_all add: failed_row_def)

lemma advance_failed:
  assumes p: "parked E T q" and T': "wallets T' = wallets T" "txs T' = put_tx (failed_row q) (txs T)"
    "ledger T' = ledger T" "works T' = drop_work (t_id q) (works T)"
  shows "advance E T T'"
proof -
  have "machine T T'"
    using updated_admissible [OF p updated_failed] T' by (intro machine.settled [of T "failed_row q"]) simp_all
  moreover have "stored_ok E T'"
    using stored_ok_cong [OF stored_ok_put [OF p updated_failed]] parkedD(9) [OF p] T' by simp
  ultimately show ?thesis by (simp add: advance_def)
qed

text \<open>An infrastructure attempt on the item of a parked row.\<close>

lemma tspec_noteInfra:
  assumes p: "parked E T q" and i: "e_uuid E (wi_tx item) = Some (t_id q)"
  shows "tspec (noteInfra E item) T (\<lambda>_ T'. progress E T T') R"
proof (cases "wi_infra item + 1 \<ge> MaxInfraAttempts")
  case True
  have "tspec (bind (tx_Get E (wi_tx item)) (\<lambda>m. bind (case m of None \<Rightarrow> ret ()
      | Some rec \<Rightarrow> UpdateState E (rec\<lparr>t_state := StateFailed, t_failure := Some ''INFRA_EXHAUSTED''\<rparr>))
      (\<lambda>_. DeleteWork E (wi_tx item)))) T (\<lambda>_ T'. progress E T T') R"
  proof (rule tspec_bind [OF tspec_tx_Get])
    fix u assume "e_uuid E (wi_tx item) = Some u"
    then have u: "tbl_find t_id u (txs T) = Some q" using i parkedD(7) [OF p] by simp
    have "tspec (bind (UpdateState E (failed_row q)) (\<lambda>_. DeleteWork E (wi_tx item))) T (\<lambda>_ T'. progress E T T') R"
    proof (intro tspec_bind tspec_UpdateState_parked [OF p updated_failed] tspec_DeleteWork sticky_intros)
      fix j assume "e_uuid E (wi_tx item) = Some j"
      then have j: "j = t_id q" using i by simp
      show "progress E T ((T\<lparr>txs := put_tx (failed_row q) (txs T)\<rparr>)\<lparr>works := filter (\<lambda>r. k_tx r \<noteq> j)
          (works (T\<lparr>txs := put_tx (failed_row q) (txs T)\<rparr>))\<rparr>)"
        by (intro progress_advance advance_failed [OF p]) (simp_all add: j drop_work_def)
    qed (use parkedD(9) [OF p] in auto)
    then show "tspec (bind (case tbl_find t_id u (txs T) of None \<Rightarrow> ret ()
        | Some rec \<Rightarrow> UpdateState E (rec\<lparr>t_state := StateFailed, t_failure := Some ''INFRA_EXHAUSTED''\<rparr>))
        (\<lambda>_. DeleteWork E (wi_tx item))) T (\<lambda>_ T'. progress E T T') R"
      by (simp add: u failed_row_def)
  qed (auto intro!: sticky_intros split: option.splits)
  with True show ?thesis by (simp add: noteInfra_def Let_def)
next
  case False
  have "tspec (bind (now E) (\<lambda>_. bind (now E) (\<lambda>t. bind (BackoffFullJitter E (wi_infra item + 1) BackoffBase BackoffCap)
      (\<lambda>d. TouchWork E (wi_tx item) (wi_ref item) (wi_infra item + 1) (t + d) False)))) T (\<lambda>_ T'. progress E T T') R"
    by (intro tspec_bind tspec_now tspec_BackoffFullJitter tspec_TouchWork sticky_intros progress_advance
        advance_rescheduled [OF parkedD(1) [OF p]])
  with False show ?thesis by (simp add: noteInfra_def Let_def)
qed

lemma sticky_noteInfra [sticky_intros]: "sticky (noteInfra E item)"
  unfolding noteInfra_def Let_def by (intro sticky_intros)

text \<open>What follows the read of the row in the transaction of an item.\<close>

definition finish_item :: "env \<Rightarrow> work_item \<Rightarrow> serr + tx_row option \<Rightarrow> bool action" where
  "finish_item E item r = (case r of
     Inl _ \<Rightarrow> bind (noteInfra E item) (\<lambda>_. ret False)
   | Inr m \<Rightarrow>
     if (case m of None \<Rightarrow> True | Some rec \<Rightarrow> IsTerminal (t_state rec))
     then bind (ignore (DeleteWork E (wi_tx item))) (\<lambda>_. ret True)
     else bind (attempt (resumeOne E (the m))) (\<lambda>d. case d of
         Inl _ \<Rightarrow> bind (noteInfra E item) (\<lambda>_. ret False)
       | Inr done_now \<Rightarrow> ret done_now))"

lemma processWorkItem_finish:
  "processWorkItem E item = transact E (bind (attempt (tx_Get E (wi_tx item))) (finish_item E item))"
  by (simp add: processWorkItem_def finish_item_def [abs_def])

lemma sticky_finish_item [sticky_intros]: "sticky (finish_item E item r)"
  unfolding finish_item_def by (auto intro!: sticky_intros split: sum.splits)

lemma tspec_finish_item:
  assumes g: "good E T" and u: "e_uuid E (wi_tx item) = Some u"
  shows "tspec (finish_item E item (Inr (tbl_find t_id u (txs T)))) T (\<lambda>_ T'. progress E T T') (\<lambda>_ _. True)"
proof -
  let ?m = "tbl_find t_id u (txs T)"
  have "tspec (if (case ?m of None \<Rightarrow> True | Some rec \<Rightarrow> IsTerminal (t_state rec))
      then bind (ignore (DeleteWork E (wi_tx item))) (\<lambda>_. ret True)
      else bind (attempt (resumeOne E (the ?m))) (\<lambda>d. case d of
          Inl _ \<Rightarrow> bind (noteInfra E item) (\<lambda>_. ret False) | Inr done_now \<Rightarrow> ret done_now))
      T (\<lambda>_ T'. progress E T T') (\<lambda>_ _. True)"
  proof (rule tspec_if)
    assume t: "case ?m of None \<Rightarrow> True | Some rec \<Rightarrow> IsTerminal (t_state rec)"
    show "tspec (bind (ignore (DeleteWork E (wi_tx item))) (\<lambda>_. ret True)) T (\<lambda>_ T'. progress E T T') (\<lambda>_ _. True)"
    proof (intro tspec_bind tspec_ignore tspec_DeleteWork_idle [OF g] tspec_ret sticky_intros)
      fix v x assume v: "e_uuid E (wi_tx item) = Some v" and x: "x \<in> set (txs T)" "t_id x = v"
      then have "?m = Some x" using u goodD(4) [OF g] by (simp add: tbl_find_iff)
      with t show "t_state x \<noteq> StatePendingReference" by (auto simp: IsTerminal_def)
    qed (use progress_advance advance_idle [OF g] in blast)
  next
    assume t: "\<not> (case ?m of None \<Rightarrow> True | Some rec \<Rightarrow> IsTerminal (t_state rec))"
    then obtain q where q: "?m = Some q" "\<not> IsTerminal (t_state q)" by (auto split: option.splits)
    have qT: "q \<in> set (txs T)" "t_id q = u" using tbl_find_SomeD [OF q(1)] by simp_all
    have "t_state q \<noteq> StatePending" using goodD(3) [OF g] qT(1) by (simp add: stored_ok_def)
    then have "t_state q = StatePendingReference" using q(2) by (cases "t_state q") (simp_all add: IsTerminal_def)
    then have p: "parked E T q" using g qT(1) by (simp add: parked_def)
    have i: "e_uuid E (wi_tx item) = Some (t_id q)" using u qT(2) by simp
    have "tspec (bind (attempt (resumeOne E q)) (\<lambda>d. case d of
        Inl _ \<Rightarrow> bind (noteInfra E item) (\<lambda>_. ret False) | Inr done_now \<Rightarrow> ret done_now))
      T (\<lambda>_ T'. progress E T T') (\<lambda>_ _. True)"
    proof (intro tspec_bind tspec_attempt tspec_mono [OF tspec_resumeOne [OF p]])
      fix b T1 assume "settles E T q b T1"
      then show "tspec (case Inr b of Inl e \<Rightarrow> bind (noteInfra E item) (\<lambda>_. ret False) | Inr b \<Rightarrow> ret b) T1
          (\<lambda>_ T'. progress E T T') (\<lambda>_ _. True)"
        by (auto simp: settles_def resumed_def intro: tspec_ret progress_advance)
    next
      fix e :: serr and T1 :: tables assume "T1 = T"
      moreover have "tspec (bind (noteInfra E item) (\<lambda>_. ret False)) T (\<lambda>_ T'. progress E T T') (\<lambda>_ _. True)"
        by (intro tspec_bind tspec_mono [OF tspec_noteInfra [OF p i]] tspec_ret sticky_intros)
      ultimately show "tspec (case Inl e of Inl e \<Rightarrow> bind (noteInfra E item) (\<lambda>_. ret False) | Inr b \<Rightarrow> ret b) T1
          (\<lambda>_ T'. progress E T T') (\<lambda>_ _. True)" by simp
    qed (auto intro!: sticky_intros split: sum.splits)
    then show "tspec (bind (attempt (resumeOne E (the ?m))) (\<lambda>d. case d of
        Inl _ \<Rightarrow> bind (noteInfra E item) (\<lambda>_. ret False) | Inr done_now \<Rightarrow> ret done_now))
      T (\<lambda>_ T'. progress E T T') (\<lambda>_ _. True)" by (simp add: q(1))
  qed
  then show ?thesis by (simp add: finish_item_def)
qed

lemma tspec_processWorkItem:
  assumes g: "good E T"
  shows "tspec (processWorkItem E item) T (\<lambda>_ T'. progress E T T') (\<lambda>_ T'. T' = T)"
  unfolding processWorkItem_finish
  by (rule tspec_transact, intro tspec_bind tspec_attempt tspec_tx_Get sticky_intros, erule tspec_finish_item [OF g])

lemma closed_processWorkItem: "closed (processWorkItem E item)"
  unfolding processWorkItem_def by (rule closed_transact)

lemma tspec_process_items:
  assumes "good E T"
  shows "tspec (process_items E is) T (\<lambda>_ T'. progress E T T') (\<lambda>_ _. False)"
  using assms
proof (induction "is" arbitrary: T)
  case Nil
  then show ?case by (simp add: tspec_ret progress_refl)
next
  case (Cons item items)
  have rest: "tspec (bind (process_items E items) (\<lambda>n. ret (f n))) T1 (\<lambda>_ T'. progress E T T') (\<lambda>_ _. False)"
    if pr: "progress E T T1" for T1 and f :: "nat \<Rightarrow> nat"
    using Cons.IH [OF progress_good [OF Cons.prems pr]] progress_trans [OF pr]
    by (intro tspec_bind sticky_intros) (auto intro!: tspec_ret elim!: tspec_mono)
  show ?case
    unfolding process_items.simps
    by (intro tspec_bind_closed tspec_attempt tspec_mono [OF tspec_processWorkItem [OF Cons.prems]] rest
        closed_basic closed_processWorkItem) (use Cons.prems progress_refl in auto)
qed

lemma sticky_lease_work [sticky_intros]: "sticky (lease_work E owner t rs)"
  by (induction rs) (auto intro!: sticky_intros)

lemma tspec_lease_work:
  assumes "\<And>x T'. map k_tx (works T') = map k_tx (works T) \<Longrightarrow> wallets T' = wallets T \<Longrightarrow> txs T' = txs T \<Longrightarrow>
    ledger T' = ledger T \<Longrightarrow> Q x T'"
  shows "tspec (lease_work E owner t rs) T Q R"
  using assms
proof (induction rs arbitrary: T Q)
  case Nil
  then show ?case by (simp add: tspec_ret)
next
  case (Cons r rs)
  show ?case
    unfolding lease_work.simps
  proof (intro tspec_bind tspec_stmt sticky_intros Cons.IH tspec_ret)
    fix u and T1 :: tables and x and T2 :: tables
    assume "sql_update_work E (k_tx r) (\<lambda>q. q\<lparr>k_owner := Some owner, k_lease := Some t\<rparr>) T = Inr (u, T1)"
      and T2: "map k_tx (works T2) = map k_tx (works T1)" "wallets T2 = wallets T1" "txs T2 = txs T1" "ledger T2 = ledger T1"
    from sql_update_work_InrD [OF this(1)] have T1: "map k_tx (works T1) = map k_tx (works T)" "wallets T1 = wallets T"
      "txs T1 = txs T" "ledger T1 = ledger T" by (auto intro!: map_key_modify)
    show "Q (to_work_item owner (Some t) r # x) T2" by (rule Cons.prems) (simp_all add: T1 T2)
  qed
qed

lemma tspec_ClaimWork:
  assumes g: "good E T"
  shows "tspec (ClaimWork E owner ttl limit) T (\<lambda>_ T'. progress E T T') (\<lambda>_ T'. T' = T)"
  unfolding ClaimWork_def
proof (rule tspec_bind_closed [OF tspec_now])
  fix t
  have "tspec (bind (stmt E (\<lambda>T. Inr (due_work t limit (works T), T))) (lease_work E owner (t + ttl))) T
      (\<lambda>_ T'. progress E T T') (\<lambda>_ _. True)"
    by (intro tspec_bind tspec_stmt sticky_intros tspec_lease_work progress_advance advance_rescheduled [OF g]) auto
  then show "tspec (transact E (bind (stmt E (\<lambda>T. Inr (due_work t limit (works T), T))) (lease_work E owner (t + ttl)))) T
      (\<lambda>_ T'. progress E T T') (\<lambda>_ T'. T' = T)" by (rule tspec_transact)
qed (rule closed_basic)

text \<open>Whatever happens, a round of the worker makes steps of the machine.\<close>

lemma tspec_ProcessDueWork:
  assumes g: "good E T"
  shows "tspec (ProcessDueWork E owner limit) T (\<lambda>_ T'. progress E T T') (\<lambda>_ T'. T' = T)"
  unfolding ProcessDueWork_def
proof (rule tspec_bind_closed)
  have "tspec (process_items E items) T1 (\<lambda>_ T'. progress E T T') (\<lambda>_ T'. T' = T)" if pr: "progress E T T1" for items T1
    by (rule tspec_mono [OF tspec_process_items [OF progress_good [OF g pr]]]) (use progress_trans [OF pr] in blast)+
  then show "tspec (ClaimWork E owner WorkLeaseTTL limit) T
      (\<lambda>items T'. tspec (process_items E items) T' (\<lambda>_ T'. progress E T T') (\<lambda>_ T'. T' = T)) (\<lambda>_ T'. T' = T)"
    by (intro tspec_mono [OF tspec_ClaimWork [OF g]])
  show "closed (ClaimWork E owner WorkLeaseTTL limit)"
    unfolding ClaimWork_def by (intro closed_bind closed_basic closed_transact)
qed

end
