(* ===== verification/Refine_Open.thy ===== *)
theory Refine_Open
  imports Refine_Accept Open_Wallet
begin

text \<open>
  Opening a wallet implements the machine's step \<open>opened\<close>: the wallet alone, or the wallet with its
  opening transaction and entry.
\<close>

definition stored_wallet :: "env \<Rightarrow> wallet_row \<Rightarrow> wallet_row \<Rightarrow> bool" where
  "stored_wallet E r x \<longleftrightarrow> e_uuid E (wr_id r) = Some (wr_id x) \<and> e_uuid E (wr_player r) = Some (wr_player x) \<and>
     x = r\<lparr>wr_id := wr_id x, wr_player := wr_player x\<rparr>"

lemma stored_walletD:
  assumes "stored_wallet E r x"
  shows "e_uuid E (wr_id r) = Some (wr_id x)" "wr_currency x = wr_currency r" "wr_balance x = wr_balance r"
    "wr_version x = wr_version r"
proof -
  from assms have x: "x = r\<lparr>wr_id := wr_id x, wr_player := wr_player x\<rparr>" by (simp add: stored_wallet_def)
  show "e_uuid E (wr_id r) = Some (wr_id x)" using assms by (simp add: stored_wallet_def)
  show "wr_currency x = wr_currency r" "wr_balance x = wr_balance r" "wr_version x = wr_version r"
    by (subst x, simp)+
qed

lemma sql_insert_wallet_InrD:
  assumes "sql_insert_wallet E r T = Inr (u, T')"
  shows "\<exists>x. stored_wallet E r x \<and> tbl_find wr_id (wr_id x) (wallets T) = None \<and>
    \<not> (\<exists>q \<in> set (wallets T). wr_player q = wr_player x \<and> wr_currency q = wr_currency x) \<and>
    T' = T\<lparr>wallets := wallets T @ [x]\<rparr>"
proof -
  obtain i p where u: "e_uuid E (wr_id r) = Some i" "e_uuid E (wr_player r) = Some p"
    using assms unfolding sql_insert_wallet_def by (auto elim!: rbind_InrE)
  let ?x = "r\<lparr>wr_id := i, wr_player := p\<rparr>"
  have "stored_wallet E r ?x" using u by (simp add: stored_wallet_def)
  moreover have "tbl_find wr_id i (wallets T) = None \<and>
    \<not> (\<exists>q \<in> set (wallets T). wr_player q = p \<and> wr_currency q = wr_currency r) \<and> T' = T\<lparr>wallets := wallets T @ [?x]\<rparr>"
    using assms u unfolding sql_insert_wallet_def
    by (auto simp: uuid_in_def Let_def tbl_add_Some split: if_splits option.splits)
  ultimately show ?thesis by (intro exI [of _ ?x]) simp
qed

lemma sticky_wallet_Insert [sticky_intros]: "sticky (wallet_Insert E r)"
  unfolding wallet_Insert_def by (rule sticky_stmt)

lemma tspec_insert_new_wallet:
  assumes "\<And>x. stored_wallet E r x \<Longrightarrow> tbl_find wr_id (wr_id x) (wallets T) = None \<Longrightarrow>
    \<not> (\<exists>q \<in> set (wallets T). wr_player q = wr_player x \<and> wr_currency q = wr_currency x) \<Longrightarrow>
    Q () (T\<lparr>wallets := wallets T @ [x]\<rparr>)"
  shows "tspec (insert_new_wallet E r) T Q R"
  unfolding insert_new_wallet_def wallet_Insert_def
proof (intro tspec_bind tspec_attempt tspec_stmt)
  fix u T' assume "sql_insert_wallet E r T = Inr (u, T')"
  from sql_insert_wallet_InrD [OF this] assms
  show "tspec (case Inr u of Inl e \<Rightarrow> if isUniqueViolation e then fail (ErrConflict CodeConflict) else fail e
      | Inr x \<Rightarrow> ret ()) T' Q R" by (auto intro!: tspec_ret)
qed (auto intro!: sticky_intros split: sum.splits)

lemma sticky_open [sticky_intros]:
  "sticky (insert_new_wallet E r)" "sticky (fund_wallet E w p c s m)"
  unfolding insert_new_wallet_def fund_wallet_def Let_def by (intro sticky_intros)+

lemma opening_tx_simps [simp]:
  "t_id (opening_tx i w p c m) = i" "t_wallet (opening_tx i w p c m) = w" "t_kind (opening_tx i w p c m) = KindOpening"
  "t_amount (opening_tx i w p c m) = minor m" "t_currency (opening_tx i w p c m) = c"
  "t_ref_tx (opening_tx i w p c m) = None" "t_state (opening_tx i w p c m) = StateProcessed"
  "t_result (opening_tx i w p c m) = Some (minor m)" "t_version (opening_tx i w p c m) = Some 1"
  "t_reversed_tx (opening_tx i w p c m) = None"
  by (simp_all add: opening_tx_def)

lemma tspec_fund_wallet:
  assumes v: "validCurrency c" "currency m = c"
    and ok: "\<And>i x e bs. inserted E T (opening_tx i w p c m) x \<Longrightarrow> e_uuid E w = Some (l_wallet e) \<Longrightarrow>
      e_uuid E i = Some (l_tx e) \<Longrightarrow> l_direction e = DirectionCredit \<Longrightarrow> l_amount e = minor m \<Longrightarrow> l_currency e = c \<Longrightarrow>
      l_before e = 0 \<Longrightarrow> l_after e = minor m \<Longrightarrow> l_version e = 1 \<Longrightarrow> 0 < sint (minor m) \<Longrightarrow>
      tbl_find l_id (l_id e) (ledger T) = None \<Longrightarrow> map b_type bs = [EventProcessed, EventBalance] \<Longrightarrow>
      Q () (T\<lparr>txs := txs T @ [x], ledger := ledger T @ [e], outbox := outbox T @ bs\<rparr>)"
  shows "tspec (fund_wallet E w p c s m) T Q (\<lambda>_ T'. True)"
  unfolding fund_wallet_def Let_def
proof (intro tspec_bind tspec_newID tspec_now tspec_lift_domain tspec_tx_Insert tspec_ledger_Append tspec_EnqueueOutbox
    sticky_intros TrueI)
  fix i t eid en and x :: tx_row and f :: ledger_row and procID and b :: outbox_row and balID and b' :: outbox_row
  let ?T1 = "T\<lparr>txs := txs T @ [x]\<rparr>"
  let ?T2 = "?T1\<lparr>ledger := ledger ?T1 @ [f]\<rparr>"
  let ?T3 = "?T2\<lparr>outbox := outbox ?T2 @ [b]\<rparr>"
  assume en: "NewLedgerEntry eid w i DirectionCredit m (money_or_zero 0 c) m 1 = Inr en"
    and x: "stored_tx E (opening_tx i w p c m) x" "tx_checks x" "\<not> (\<exists>q \<in> set (txs T). tx_clash x q)"
      "tbl_find t_id (t_id x) (txs T) = None"
    and f: "stored_ledger E (toLedgerRecord en) f" "tbl_find l_id (l_id f) (ledger ?T1) = None"
    and b: "b_type b = ob_type (new_outbox procID w EventProcessed (mustEventPayload procID EventProcessed w [] t 1
      (opening_proc_data i p w s c m)))"
    and b': "b_type b' = ob_type (new_outbox balID w EventBalance (mustEventPayload balID EventBalance w [] t 1
      (opening_bal_data i w s c (money_or_zero 0 c) m)))"
  have z: "money_or_zero 0 c = mk_money 0 c" using v(1) by (simp add: money_or_zero_def NewMoneyFromMinor_def)
  have ins: "inserted E T (opening_tx i w p c m) x" using x by (simp add: inserted_def)
  note n = NewLedgerEntry_InrD(1,6) [OF en] and fd = stored_ledgerD [OF f(1)]
  have rec: "toLedgerRecord en = \<lparr>l_id = eid, l_wallet = w, l_tx = i, l_direction = DirectionCredit, l_amount = minor m,
      l_currency = c, l_before = 0, l_after = minor m, l_version = 1\<rparr>"
    by (simp add: n(1) toLedgerRecord_def z v(2))
  have "map b_type [b, b'] = [EventProcessed, EventBalance]" using b b' by (simp add: new_outbox_def)
  then have "Q () (T\<lparr>txs := txs T @ [x], ledger := ledger T @ [f], outbox := outbox T @ [b, b']\<rparr>)"
    using fd f(2) n(2) unfolding rec by (intro ok [OF ins]) simp_all
  then show "Q () (?T3\<lparr>outbox := outbox ?T3 @ [b']\<rparr>)" by simp
qed

text \<open>A new wallet is the only one of its player and currency.\<close>

definition opens :: "env \<Rightarrow> tables \<Rightarrow> string \<Rightarrow> string \<Rightarrow> money \<Rightarrow> wallet_row \<Rightarrow> tables \<Rightarrow> bool" where
  "opens E T p c m r T' \<longleftrightarrow> advance E T T' \<and> (\<exists>x \<in> set (wallets T'). tbl_find wr_id (wr_id x) (wallets T) = None \<and>
     e_uuid E (wr_id r) = Some (wr_id x) \<and> wr_balance x = minor m \<and> wr_currency x = c \<and> wr_version x = 1 \<and>
     e_uuid E p = Some (wr_player x) \<and> \<not> (\<exists>q \<in> set (wallets T). wr_player q = wr_player x \<and> wr_currency q = c))"

lemma currency_ok_opened:
  assumes "good E T" "tbl_find wr_id (wr_id x) (wallets T) = None" "validCurrency (wr_currency x)"
  shows "currency_ok (wallets T @ [x]) (ledger T)"
proof -
  have "wr_id x \<notin> wr_id ` set (wallets T)" using assms(2) by (auto simp: tbl_find_None_all)
  moreover have "l_wallet ` set (ledger T) \<subseteq> wr_id ` set (wallets T)"
    using soundD(1) [OF goodD(2) [OF assms(1)]] by (auto simp: books_ok_def)
  ultimately show ?thesis
    using goodD(3) [OF assms(1)] assms(3) by (intro currency_ok_wallet) (auto simp: stored_ok_def)
qed

lemma opens_empty:
  assumes g: "good E T" and x: "stored_wallet E r x" "tbl_find wr_id (wr_id x) (wallets T) = None"
    and un: "\<not> (\<exists>q \<in> set (wallets T). wr_player q = wr_player x \<and> wr_currency q = wr_currency x)" "wr_player r = p"
    and r: "wr_balance r = 0" "wr_version r = 1" "wr_currency r = c" "validCurrency c" and m: "minor m = 0"
  shows "opens E T p c m r (T\<lparr>wallets := wallets T @ [x]\<rparr>)"
proof -
  note xs = stored_walletD [OF x(1)]
  have "machine T (T\<lparr>wallets := wallets T @ [x]\<rparr>)"
    using x(2) xs r soundD(2) [OF goodD(2) [OF g]]
    by (intro machine.opened [of x T "[]" "[]"]) (simp_all add: opening_books_def)
  moreover have "stored_ok E (T\<lparr>wallets := wallets T @ [x]\<rparr>)"
    using goodD(3) [OF g] canon_of [OF goodD(1) [OF g] xs(1)] currency_ok_opened [OF g x(2)] r xs by (auto simp: stored_ok_def)
  ultimately show ?thesis using x(2) xs r m un x(1) by (auto simp: opens_def advance_def stored_wallet_def)
qed

lemma opens_funded:
  assumes g: "good E T" and x: "stored_wallet E r x" "tbl_find wr_id (wr_id x) (wallets T) = None"
    and un: "\<not> (\<exists>q \<in> set (wallets T). wr_player q = wr_player x \<and> wr_currency q = wr_currency x)" "wr_player r = p"
    and r: "wr_balance r = minor m" "wr_version r = 1" "wr_currency r = c" "wr_id r = w" "validCurrency c"
    and y: "inserted E T (opening_tx i w p c m) y"
    and e: "e_uuid E w = Some (l_wallet e)" "e_uuid E i = Some (l_tx e)" "l_direction e = DirectionCredit"
      "l_amount e = minor m" "l_currency e = c" "l_before e = 0" "l_after e = minor m" "l_version e = 1"
      "0 < sint (minor m)" "tbl_find l_id (l_id e) (ledger T) = None"
    and T': "wallets T' = wallets T @ [x]" "txs T' = txs T @ [y]" "ledger T' = ledger T @ [e]" "works T' = works T"
  shows "opens E T p c m r T'"
proof -
  note xs = stored_walletD [OF x(1)] and ys = insertedD [OF y]
  have u: "l_wallet e = wr_id x" "l_tx e = t_id y" "t_wallet y = wr_id x" using e(1,2) xs(1) ys(1,2) r(4) by simp_all
  have post: "posted y e" using u ys e r by (simp add: posted_def)
  have ids: "tbl_inv l_id (ledger T @ [e])"
    using soundD(2) [OF goodD(2) [OF g]] e(10) by (auto simp: tbl_inv_def tbl_find_None_all)
  have books: "opening_books x [e]"
    using xs r e u by (simp add: opening_books_def entry_fits_def)
  have adm: "admissible (txs T) y" by (rule inserted_admissible [OF y]) simp
  have "machine T T'"
    by (rule machine.opened [OF x(2) books ids _ T'])
      (use post e(3) ys y adm in \<open>simp add: inserted_def uuid_opt_in_Inr\<close>)
  moreover have "stored_ok E T'"
  proof -
    have "stored_ok E (T\<lparr>txs := txs T @ [y]\<rparr>)" by (rule stored_ok_insert [OF g y]) simp
    moreover have "currency_ok (wallets T') (ledger T')"
    proof -
      have "currency_ok (wallets T @ [x]) (ledger T)" by (rule currency_ok_opened [OF g x(2)]) (use r xs in simp)
      moreover have "wr_currency x = l_currency e" using r xs e(5) by simp
      then have "l_currency e = wr_currency q" if "q \<in> set (wallets T @ [x])" "wr_id q = l_wallet e" for q :: wallet_row
        using that u(1) x(2) by (auto simp: tbl_find_None_all)
      ultimately show ?thesis unfolding T' by (intro currency_ok_append) simp_all
    qed
    moreover have "canon E (wr_id x)" using canon_of [OF goodD(1) [OF g]] xs(1) by blast
    ultimately show ?thesis unfolding stored_ok_def T'(1,2) by simp
  qed
  ultimately show ?thesis using x(2) xs r T' un x(1) by (auto simp: opens_def advance_def stored_wallet_def)
qed

lemma tspec_open_body:
  assumes g: "good E T"
  shows "tspec (open_body E w p c s m) T (opens E T p c m) (\<lambda>_ _. True)"
proof (cases "NewWallet w p c m")
  case (Inl e)
  then show ?thesis by (simp add: open_body_def tspec_fail)
next
  case (Inr v)
  then have v: "wallet_record v = \<lparr>wr_id = w, wr_player = p, wr_currency = c, wr_balance = minor m, wr_version = 1\<rparr>"
    "validCurrency c" "currency m = c"
    using NewWallet_InrD [OF Inr] by (auto simp: wallet_record_def NewWallet_def split: if_splits)
  have "tspec (bind (insert_new_wallet E (wallet_record v)) (\<lambda>_. if IsZero m then ret (wallet_record v)
      else bind (fund_wallet E w p c s m) (\<lambda>_. ret (wallet_record v)))) T (opens E T p c m) (\<lambda>_ _. True)"
  proof (intro tspec_bind tspec_insert_new_wallet tspec_if tspec_ret sticky_intros tspec_fund_wallet v(2,3))
    fix x assume x: "stored_wallet E (wallet_record v) x" "tbl_find wr_id (wr_id x) (wallets T) = None"
      and un: "\<not> (\<exists>q \<in> set (wallets T). wr_player q = wr_player x \<and> wr_currency q = wr_currency x)" and z: "IsZero m"
    show "opens E T p c m (wallet_record v) (T\<lparr>wallets := wallets T @ [x]\<rparr>)"
      using z v(1,2) un by (intro opens_empty [OF g x]) (simp_all add: IsZero_def)
  next
    fix x and i y and e :: ledger_row and bs :: "outbox_row list"
    let ?T1 = "T\<lparr>wallets := wallets T @ [x]\<rparr>"
    assume x: "stored_wallet E (wallet_record v) x" "tbl_find wr_id (wr_id x) (wallets T) = None"
      and un: "\<not> (\<exists>q \<in> set (wallets T). wr_player q = wr_player x \<and> wr_currency q = wr_currency x)"
      and y: "inserted E ?T1 (opening_tx i w p c m) y"
      and e: "e_uuid E w = Some (l_wallet e)" "e_uuid E i = Some (l_tx e)" "l_direction e = DirectionCredit"
        "l_amount e = minor m" "l_currency e = c" "l_before e = 0" "l_after e = minor m" "l_version e = 1"
        "0 < sint (minor m)" "tbl_find l_id (l_id e) (ledger ?T1) = None"
    have y': "inserted E T (opening_tx i w p c m) y" using y by (simp add: inserted_def)
    show "opens E T p c m (wallet_record v)
        (?T1\<lparr>txs := txs ?T1 @ [y], ledger := ledger ?T1 @ [e], outbox := outbox ?T1 @ bs\<rparr>)"
      using e v(1,2) un by (intro opens_funded [OF g x _ _ _ _ _ _ _ y' e(1-9)]) simp_all
  qed
  then show ?thesis using Inr by (simp add: open_body_def)
qed

lemma closed_OpenWallet: "closed (OpenWallet E p c s)"
  unfolding OpenWallet_def
  by (auto intro!: closed_basic closed_bind closed_transact split: sum.splits)

text \<open>What an opened wallet holds, and what a failed opening leaves.\<close>

lemma tspec_OpenWallet:
  assumes g: "good E T"
  shows "tspec (OpenWallet E p c s) T (\<lambda>r T'. \<exists>m. ParseMoney s c = Inr m \<and> opens E T p c m r T') (\<lambda>_ T'. T' = T)"
proof (cases "ParseMoney s c")
  case (Inl e)
  then show ?thesis by (simp add: OpenWallet_def tspec_fail)
next
  case (Inr m)
  have "tspec (bind (newID E) (\<lambda>w. transact E (open_body E w p c s m))) T
      (\<lambda>r T'. \<exists>m. ParseMoney s c = Inr m \<and> opens E T p c m r T') (\<lambda>_ T'. T' = T)"
    by (intro tspec_bind_closed tspec_newID tspec_transact tspec_mono [OF tspec_open_body [OF g]] closed_basic)
      (use Inr in auto)
  then show ?thesis using Inr by (simp add: OpenWallet_def tspec_fail)
qed

end
