(* ===== verification/Publisher.thy ===== *)
theory Publisher
  imports Store Backoff
begin

text \<open>
  \<^verbatim>\<open>internal/adapters/sqs/publisher.go\<close>: the publication of due outbox events. The broker enters as the answer to
  each message that is sent to the events queue; \<open>sent\<close> records the messages that it took.
\<close>

definition OutboxLeaseTTL :: int where "OutboxLeaseTTL = 30000000000"

text \<open>\<^verbatim>\<open>SQSPublisher.Publish\<close>: the wallet is the message group and the event id deduplicates.\<close>

record publication =
  pub_body :: string
  pub_group :: string
  pub_dedup :: string

definition Publish :: "outbox_record \<Rightarrow> publication" where
  "Publish e = \<lparr>pub_body = ob_payload e, pub_group = ob_aggregate e, pub_dedup = ob_event e\<rparr>"

record tick_result =
  sent :: "publication list"
  published :: nat
  pub_error :: "serr option"

text \<open>One claimed event after the other. A refused one is rescheduled with back-off; an error of the database
  ends the loop, after what was sent so far.\<close>

fun publish_all ::
  "env \<Rightarrow> (publication \<Rightarrow> bool) \<Rightarrow> time \<Rightarrow> outbox_record list \<Rightarrow> tick_result \<Rightarrow> tick_result action" where
  "publish_all E send t [] acc = ret acc"
| "publish_all E send t (r # rs) acc =
    (if \<not> send (Publish r)
     then bind (BackoffFullJitter E (ob_attempts r + 1) BackoffBase BackoffCap) (\<lambda>d.
       bind (attempt (autocommit (NackOutbox E (ob_event r) (ob_attempts r + 1) (t + d)))) (\<lambda>res. case res of
         Inl e \<Rightarrow> ret (acc\<lparr>pub_error := Some e\<rparr>)
       | Inr _ \<Rightarrow> publish_all E send t rs acc))
     else let acc1 = acc\<lparr>sent := sent acc @ [Publish r]\<rparr> in
       bind (attempt (autocommit (MarkOutboxPublished E (ob_event r)))) (\<lambda>res. case res of
         Inl e \<Rightarrow> ret (acc1\<lparr>pub_error := Some e\<rparr>)
       | Inr _ \<Rightarrow> publish_all E send t rs (acc1\<lparr>published := Suc (published acc1)\<rparr>)))"

definition PublishDueOutbox :: "env \<Rightarrow> (publication \<Rightarrow> bool) \<Rightarrow> string \<Rightarrow> nat \<Rightarrow> tick_result action" where
  "PublishDueOutbox E send owner limit = bind (now E) (\<lambda>t.
     bind (ClaimOutbox E owner OutboxLeaseTTL limit) (\<lambda>records.
     publish_all E send t records \<lparr>sent = [], published = 0, pub_error = None\<rparr>))"

end
