(* ===== verification/Frames.thy ===== *)
theory Frames
  imports Actions
begin

text \<open>
  What every run of an action does to the tables, whatever its outcome: a relation that is reflexive and
  transitive holds between the tables before and after an action as soon as it holds across each statement,
  because transactions either keep what their body did or restore the tables.
\<close>

definition keeps :: "(tables \<Rightarrow> tables \<Rightarrow> bool) \<Rightarrow> 'a action \<Rightarrow> bool" where
  "keeps R m \<longleftrightarrow> (\<forall>w. R (tabs w) (tabs (snd (m w))))"

locale frame =
  fixes R :: "tables \<Rightarrow> tables \<Rightarrow> bool"
  assumes frame_refl: "R T T" and frame_trans: "R T T1 \<Longrightarrow> R T1 T2 \<Longrightarrow> R T T2"
begin

lemma keeps_basic:
  "keeps R (ret x)" "keeps R (fail e)" "keeps R (now E)" "keeps R (newID E)" "keeps R (int63n E n)" "keeps R (lift_domain d)"
  by (simp_all add: keeps_def ret_def fail_def now_def newID_def int63n_def lift_domain_def frame_refl split: sum.splits)

lemma keeps_bind: "keeps R m \<Longrightarrow> (\<And>x. keeps R (f x)) \<Longrightarrow> keeps R (bind m f)"
  unfolding keeps_def
proof
  fix w assume m: "\<forall>w. R (tabs w) (tabs (snd (m w)))" and f: "\<And>x. \<forall>w. R (tabs w) (tabs (snd (f x w)))"
  obtain r w1 where r: "m w = (r, w1)" by fastforce
  then have "R (tabs w) (tabs w1)" using m by (metis snd_conv)
  then show "R (tabs w) (tabs (snd (bind m f w)))" using r f frame_trans by (cases r) (auto simp: bind_def)
qed

lemma keeps_attempt: "keeps R m \<Longrightarrow> keeps R (attempt m)"
  by (simp add: keeps_def attempt_def)

lemma keeps_ignore: "keeps R m \<Longrightarrow> keeps R (ignore m)"
  by (simp add: keeps_def ignore_def)

lemma keeps_stmt: "(\<And>T x T'. f T = Inr (x, T') \<Longrightarrow> R T T') \<Longrightarrow> keeps R (stmt E f)"
  by (auto simp: keeps_def stmt_def frame_refl split: sum.splits prod.splits)

lemma keeps_autocommit: "keeps R m \<Longrightarrow> keeps R (autocommit m)"
  unfolding keeps_def autocommit_def
proof
  fix w assume *: "\<forall>w. R (tabs w) (tabs (snd (m w)))"
  from *[rule_format, of "w\<lparr>aborted := False\<rparr>"]
  show "R (tabs w) (tabs (snd (case m (w\<lparr>aborted := False\<rparr>) of (r, w') \<Rightarrow> (r, w'\<lparr>aborted := False\<rparr>))))"
    by (cases "m (w\<lparr>aborted := False\<rparr>)") simp
qed

lemma keeps_transact:
  assumes "keeps R m"
  shows "keeps R (transact E m)"
  unfolding keeps_def
proof
  fix w
  from assms have "R (tabs w) (tabs (snd (m (tock (w\<lparr>aborted := False\<rparr>)))))"
    unfolding keeps_def by (metis (no_types, lifting) world.select_convs(1) world.surjective world.update_convs(3) tock_simps(1))
  then show "R (tabs w) (tabs (snd (transact E m w)))"
    by (auto simp: transact_def frame_refl split: prod.splits sum.splits)
qed

lemma keeps_case:
  "keeps R m \<Longrightarrow> keeps R m' \<Longrightarrow> keeps R (if b then m else m')"
  "keeps R n \<Longrightarrow> (\<And>x. keeps R (f x)) \<Longrightarrow> keeps R (case p of None \<Rightarrow> n | Some x \<Rightarrow> f x)"
  "(\<And>x. keeps R (g x)) \<Longrightarrow> (\<And>x. keeps R (h x)) \<Longrightarrow> keeps R (case s of Inl x \<Rightarrow> g x | Inr x \<Rightarrow> h x)"
  "(\<And>x y. keeps R (k x y)) \<Longrightarrow> keeps R (case q of (x, y) \<Rightarrow> k x y)"
  "keeps R (l z) \<Longrightarrow> keeps R (let y = z in l y)"
  by (cases p; cases s; cases q; simp)+

lemmas keeps_rules = keeps_case keeps_basic keeps_bind keeps_attempt keeps_ignore keeps_autocommit keeps_transact

lemma keeps_run: "keeps R m \<Longrightarrow> m w = (r, w') \<Longrightarrow> R (tabs w) (tabs w')"
  unfolding keeps_def by (metis snd_conv)

end

end
