(* ===== verification/Use_Cases.thy ===== *)
theory Use_Cases
  imports Refine_Work Refine_Open Publisher Frames
begin

text \<open>
  The use-cases as a whole: \<open>Submit\<close>, \<open>OpenWallet\<close>, \<open>ProcessDueWork\<close> and \<open>PublishDueOutbox\<close> each run as their
  own transactions over the store. \<open>block\<close> is one such transaction; \<open>serves\<close> is one call of a use-case by anybody, one
  transaction of a call whose other transactions run at other times, or anything that only reads the clock, the ids
  or the tables. The stores that any sequence of these reaches are the reachable ones.
\<close>

section \<open>A submission as a whole\<close>

lemma tspec_inbox_check:
  assumes "Q () T" "\<And>e. R e T"
  shows "tspec (inbox_check E i h) T Q R"
proof (cases "s_message i = []")
  case True
  then show ?thesis using assms(1) by (simp add: inbox_check_def tspec_ret)
next
  case False
  have "tspec (bind (autocommit (FindInbox E (s_consumer i) (s_message i))) (\<lambda>r. case r of
       None \<Rightarrow> ret () | Some (stored, _) \<Rightarrow> if stored \<noteq> h then fail (ErrPoison (s_message i) stored h) else ret ())) T Q R"
    unfolding FindInbox_def
    by (rule tspec_bind_closed [OF tspec_autocommit_stmt closed_basic(5)])
      (use assms in \<open>auto intro!: tspec_ret tspec_fail split: option.splits prod.splits\<close>)
  with False show ?thesis by (simp add: inbox_check_def)
qed

lemma closed_inbox_check: "closed (inbox_check E i h)"
  unfolding inbox_check_def
  by (auto intro!: closed_bind closed_basic split: option.splits)

lemma closed_ReevaluateDependents: "closed (ReevaluateDependents E p e)"
  unfolding ReevaluateDependents_def by (rule closed_transact)

lemma closed_Submit: "closed (Submit E i)"
  unfolding Submit_def reevaluate_def
  by (auto intro!: closed_bind closed_basic closed_transact closed_inbox_check closed_ReevaluateDependents
      split: sum.splits)

lemma ParseMoney_currency: "ParseMoney s c = Inr m \<Longrightarrow> currency m = c \<and> validCurrency c"
  by (auto simp: ParseMoney_def Let_def split: if_splits option.splits)

lemma validate_input_InrD:
  assumes "validate_input i = Inr (a, h)"
  shows "ParseMoney (s_amount i) (s_currency i) = Inr a" "PayloadHash (hash_input_of i) = Some h"
    "validCurrency (currency a)" "s_provider i \<noteq> []" "s_external i \<noteq> []" "s_key i \<noteq> []"
    "ValidateExternalKind (s_kind i) = Inr ()" "ValidateAmountForKind (s_kind i) a = Inr ()"
    "IsReversalKind (s_kind i) \<Longrightarrow> s_ref i \<noteq> []"
  using assms ParseMoney_currency [of "s_amount i" "s_currency i" a]
  by (auto simp: validate_input_def split: if_splits sum.splits option.splits)

definition submit_post :: "env \<Rightarrow> submit_input \<Rightarrow> tables \<Rightarrow> submit_result \<Rightarrow> tables \<Rightarrow> bool" where
  "submit_post E i T r T' \<longleftrightarrow> (\<exists>a h T1. validate_input i = Inr (a, h) \<and> submitted E i a h T r T1 \<and>
     (if sr_outcome r = OutcomeProcessed \<and> resultIsReferenceTarget (s_kind i) then progress E T1 T' else T' = T1))"

lemma submitted_good: "good E T \<Longrightarrow> submitted E i a h T r T1 \<Longrightarrow> good E T1"
  using advance_good by (auto simp: submitted_def accepted_def split: option.splits)

lemma tspec_reevaluate:
  assumes "good E T"
  shows "tspec (reevaluate E i r) T (\<lambda>_ T'. if sr_outcome r = OutcomeProcessed \<and> resultIsReferenceTarget (s_kind i)
    then progress E T T' else T' = T) (\<lambda>_ _. False)"
proof (cases "sr_outcome r = OutcomeProcessed \<and> resultIsReferenceTarget (s_kind i)")
  case True
  have "tspec (ignore (ReevaluateDependents E (s_provider i) (s_external i))) T (\<lambda>_ T'. progress E T T') (\<lambda>_ _. False)"
    by (intro tspec_ignore tspec_mono [OF tspec_ReevaluateDependents [OF assms]]) (use progress_refl [OF assms] in auto)
  with True show ?thesis by (simp add: reevaluate_def)
next
  case False
  then have "reevaluate E i r = ret ()" by (auto simp: reevaluate_def)
  with False show ?thesis by (auto intro: tspec_ret)
qed

lemma tspec_Submit:
  assumes g: "good E T"
  shows "tspec (Submit E i) T (submit_post E i T) (\<lambda>_ T'. T' = T)"
proof (cases "validate_input i")
  case (Inl c)
  then show ?thesis by (simp add: Submit_def tspec_fail)
next
  case (Inr ah)
  obtain a h where ah: "ah = (a, h)" by (cases ah)
  have v: "validCurrency (currency a)" "currency a = s_currency i"
    using validate_input_InrD(1,3) [of i a h] ParseMoney_currency Inr ah by blast+
  have "tspec (bind (inbox_check E i h) (\<lambda>_. bind (transact E (submit_body E i a h)) (\<lambda>r.
      bind (reevaluate E i r) (\<lambda>_. ret r)))) T (submit_post E i T) (\<lambda>_ T'. T' = T)"
  proof (rule tspec_bind_closed [OF tspec_inbox_check closed_inbox_check], rule tspec_bind_closed)
    show "tspec (transact E (submit_body E i a h)) T
        (\<lambda>r T1. tspec (bind (reevaluate E i r) (\<lambda>_. ret r)) T1 (submit_post E i T) (\<lambda>_ T'. T' = T)) (\<lambda>_ T'. T' = T)"
    proof (intro tspec_mono [OF tspec_transact [OF tspec_submit_body [OF g v]]])
      fix r T1 assume s: "submitted E i a h T r T1"
      show "tspec (bind (reevaluate E i r) (\<lambda>_. ret r)) T1 (submit_post E i T) (\<lambda>_ T'. T' = T)"
        by (intro tspec_bind tspec_mono [OF tspec_reevaluate [OF submitted_good [OF g s]]] tspec_ret sticky_intros)
          (use s Inr ah in \<open>auto simp: submit_post_def\<close>)
    qed auto
  qed (auto intro: closed_transact)
  then show ?thesis by (simp add: Submit_def Inr ah)
qed

section \<open>The publisher leaves the core alone\<close>

interpretation core: frame same_core
  by unfold_locales (auto simp: same_core_def)

lemma core_update_outbox: "keeps same_core (stmt E (sql_update_outbox E e f))"
  by (rule core.keeps_stmt) (auto simp: sql_update_outbox_def rbind_def same_core_def split: sum.splits if_splits)

lemma core_ClaimOutbox: "keeps same_core (ClaimOutbox E owner ttl n)"
proof -
  have "keeps same_core (lease_outbox E owner t rs)" for t rs
    by (induction rs) (auto intro!: core.keeps_rules core_update_outbox)
  then show ?thesis
    unfolding ClaimOutbox_def by (intro core.keeps_rules core.keeps_stmt) (auto simp: same_core_def)
qed

lemma core_publish_all: "keeps same_core (publish_all E send t rs acc)"
proof (induction rs arbitrary: acc)
  case (Cons r rs)
  then show ?case
    by (auto intro!: core.keeps_rules core_update_outbox
        simp: Let_def BackoffFullJitter_def NackOutbox_def MarkOutboxPublished_def split: sum.split)
qed (simp add: core.keeps_basic)

lemma core_PublishDueOutbox: "keeps same_core (PublishDueOutbox E send owner n)"
  unfolding PublishDueOutbox_def by (intro core.keeps_rules core_ClaimOutbox core_publish_all)

lemma closed_PublishDueOutbox: "closed (PublishDueOutbox E send owner n)"
proof -
  have "closed (publish_all E send t rs acc)" for t rs acc
  proof (induction rs arbitrary: acc)
    case (Cons r rs)
    have "closed (BackoffFullJitter E k b c)" for k b c
      by (auto simp: BackoffFullJitter_def Let_def int63n_def closed_def bind_def ret_def)
    with Cons show ?case by (auto intro!: closed_bind closed_basic simp: Let_def split: sum.split)
  qed (simp add: closed_basic)
  then show ?thesis unfolding PublishDueOutbox_def ClaimOutbox_def by (intro closed_bind closed_basic closed_transact)
qed

section \<open>Calls\<close>

text \<open>The transactions of the calls, and the statements that commit by themselves. The arguments that an earlier
  transaction of the same call has computed are arbitrary here, because the tables may have changed since. Each is
  taken at one moment. The code's \<open>resuming\<close> and \<open>reevaluating\<close> read parked rows before they have the lock of
  the wallet, so that others may commit in between: \<open>Overlaps\<close> splits them there.\<close>

inductive block :: "env \<Rightarrow> world \<Rightarrow> world \<Rightarrow> bool" for E where
  accepting: "validate_input i = Inr (a, h) \<Longrightarrow> block E w (snd (transact E (submit_body E i a h) w))"
| reevaluating: "block E w (snd (ReevaluateDependents E p x w))"
| creating: "ParseMoney s c = Inr m \<Longrightarrow> \<not> IsNegative m \<Longrightarrow> block E w (snd (transact E (open_body E u p c s m) w))"
| claiming: "block E w (snd (ClaimWork E owner ttl n w))"
| resuming: "block E w (snd (processWorkItem E item w))"
| leasing: "block E w (snd (ClaimOutbox E owner ttl n w))"
| rescheduling: "block E w (snd (autocommit (NackOutbox E e k t) w))"
| marking: "block E w (snd (autocommit (MarkOutboxPublished E e) w))"

inductive serves :: "env \<Rightarrow> world \<Rightarrow> world \<Rightarrow> bool" for E where
  submission: "serves E w (snd (Submit E i w))"
| opened_wallet: "serves E w (snd (OpenWallet E p c s w))"
| worker: "serves E w (snd (ProcessDueWork E owner n w))"
| publisher: "serves E w (snd (PublishDueOutbox E send owner n w))"
| part: "block E w w' \<Longrightarrow> serves E w w'"
| elapses: "serves E w (w\<lparr>tick := n\<rparr>)"

definition idle :: "env \<Rightarrow> world \<Rightarrow> bool" where
  "idle E w \<longleftrightarrow> good E (tabs w) \<and> \<not> aborted w"

lemma closed_ProcessDueWork: "closed (ProcessDueWork E owner n)"
proof -
  have "closed (process_items E is)" for "is"
    by (induction "is") (auto intro!: closed_bind closed_basic closed_processWorkItem)
  then show ?thesis unfolding ProcessDueWork_def ClaimWork_def by (intro closed_bind closed_basic closed_transact)
qed

lemma submit_post_progress: "good E T \<Longrightarrow> submit_post E i T r T' \<Longrightarrow> progress E T T'"
proof -
  assume g: "good E T" and "submit_post E i T r T'"
  then obtain a h T1 where s: "submitted E i a h T r T1" and p: "progress E T1 T' \<or> T' = T1"
    unfolding submit_post_def by (auto split: if_splits)
  from s have "progress E T T1"
    using progress_refl [OF g] progress_advance by (auto simp: submitted_def accepted_def split: option.splits)
  then show ?thesis using p progress_trans by blast
qed

lemma run_cases:
  assumes "tspec m (tabs w) Q R" "closed m" "\<not> aborted w" "m w = (r, w')"
  shows "(case r of Inl e \<Rightarrow> R e (tabs w') | Inr x \<Rightarrow> Q x (tabs w')) \<and> \<not> aborted w'"
proof -
  have "\<not> aborted w'" using assms(2-4) unfolding closed_def by (metis snd_conv)
  then show ?thesis using tspec_run [OF assms(1-3)] assms(4) by (auto split: sum.splits)
qed

lemma ran_idle:
  assumes "idle E w" "tspec m (tabs w) (\<lambda>_ T'. progress E (tabs w) T') (\<lambda>_ T'. T' = tabs w)" "closed m"
  shows "progress E (tabs w) (tabs (snd (m w))) \<and> idle E (snd (m w))"
proof (cases "m w")
  case (Pair r w')
  have g: "good E (tabs w)" and a: "\<not> aborted w" using assms(1) by (simp_all add: idle_def)
  have "progress E (tabs w) (tabs w') \<and> \<not> aborted w'"
    using run_cases [OF assms(2,3) a Pair] progress_refl [OF g] by (auto split: sum.splits)
  then show ?thesis using Pair progress_good [OF g] by (simp add: idle_def)
qed

lemma core_idle:
  assumes "idle E w" "keeps same_core m" "closed m"
  shows "progress E (tabs w) (tabs (snd (m w))) \<and> idle E (snd (m w))"
proof -
  have g: "good E (tabs w)" and a: "\<not> aborted w" using assms(1) by (simp_all add: idle_def)
  have "same_core (tabs w) (tabs (snd (m w)))" using assms(2) by (simp add: keeps_def)
  then have "progress E (tabs w) (tabs (snd (m w)))" by (rule progress_advance [OF advance_idle [OF g]])
  moreover have "\<not> aborted (snd (m w))" using assms(3) a unfolding closed_def by blast
  ultimately show ?thesis using progress_good [OF g] by (simp add: idle_def)
qed

lemma submitted_progress: "good E T \<Longrightarrow> submitted E i a h T r T1 \<Longrightarrow> progress E T T1"
  using progress_refl progress_advance by (auto simp: submitted_def accepted_def split: option.splits)

lemma closed_blocks:
  "closed (ReevaluateDependents E p x)" "closed (ClaimWork E owner ttl n)" "closed (ClaimOutbox E owner ttl n)"
  unfolding ReevaluateDependents_def ClaimWork_def ClaimOutbox_def by (intro closed_bind closed_basic closed_transact)+

lemma block_progress:
  assumes "block E w w'" "idle E w"
  shows "progress E (tabs w) (tabs w') \<and> idle E w'"
proof -
  have g: "good E (tabs w)" using assms(2) by (simp add: idle_def)
  from assms(1) show ?thesis
  proof cases
    case (accepting i a h)
    have v: "validCurrency (currency a)" "currency a = s_currency i"
      using validate_input_InrD(1,3) [OF accepting(2)] ParseMoney_currency by blast+
    show ?thesis unfolding accepting
      by (rule ran_idle [OF assms(2) tspec_mono [OF tspec_transact [OF tspec_mono [OF tspec_submit_body [OF g v]]]] closed_transact])
        (use submitted_progress [OF g] in auto)
  next
    case (reevaluating p x)
    show ?thesis unfolding reevaluating
      by (rule ran_idle [OF assms(2) tspec_ReevaluateDependents [OF g] closed_blocks(1)])
  next
    case (creating s c m u p)
    show ?thesis unfolding creating
      by (rule ran_idle [OF assms(2) tspec_transact [OF tspec_mono [OF tspec_open_body [OF g]]] closed_transact])
        (auto simp: opens_def intro: progress_advance)
  next
    case (claiming owner ttl n)
    show ?thesis unfolding claiming by (rule ran_idle [OF assms(2) tspec_ClaimWork [OF g] closed_blocks(2)])
  next
    case (resuming item)
    show ?thesis unfolding resuming by (rule ran_idle [OF assms(2) tspec_processWorkItem [OF g] closed_processWorkItem])
  next
    case (leasing owner ttl n)
    show ?thesis unfolding leasing by (rule core_idle [OF assms(2) core_ClaimOutbox closed_blocks(3)])
  next
    case (rescheduling e k t)
    have "keeps same_core (NackOutbox E e k t)" unfolding NackOutbox_def by (rule core_update_outbox)
    then show ?thesis unfolding rescheduling by (intro core_idle [OF assms(2)] core.keeps_rules closed_basic)
  next
    case (marking e)
    have "keeps same_core (MarkOutboxPublished E e)"
      unfolding MarkOutboxPublished_def by (intro core.keeps_rules core_update_outbox)
    then show ?thesis unfolding marking by (intro core_idle [OF assms(2)] core.keeps_rules closed_basic)
  qed
qed

lemma serves_progress:
  assumes "serves E w w'" "idle E w"
  shows "progress E (tabs w) (tabs w') \<and> idle E w'"
proof -
  have g: "good E (tabs w)" using assms(2) by (simp add: idle_def)
  from assms(1) show ?thesis
  proof cases
    case (submission i)
    show ?thesis unfolding submission
      by (rule ran_idle [OF assms(2) tspec_mono [OF tspec_Submit [OF g]] closed_Submit]) (use submit_post_progress [OF g] in auto)
  next
    case (opened_wallet p c s)
    show ?thesis unfolding opened_wallet
      by (rule ran_idle [OF assms(2) tspec_mono [OF tspec_OpenWallet [OF g]] closed_OpenWallet])
        (auto simp: opens_def intro: progress_advance)
  next
    case (worker owner n)
    show ?thesis unfolding worker by (rule ran_idle [OF assms(2) tspec_ProcessDueWork [OF g] closed_ProcessDueWork])
  next
    case (publisher send owner n)
    show ?thesis unfolding publisher by (rule core_idle [OF assms(2) core_PublishDueOutbox closed_PublishDueOutbox])
  next
    case part
    then show ?thesis using block_progress assms(2) by blast
  next
    case (elapses n)
    then show ?thesis using g assms(2) progress_refl [OF g] by (simp add: idle_def)
  qed
qed

lemma runs_progress:
  assumes "(serves E)\<^sup>*\<^sup>* w w'" "idle E w"
  shows "progress E (tabs w) (tabs w') \<and> idle E w'"
  using assms
proof (induction rule: rtranclp_induct)
  case base
  then show ?case by (simp add: idle_def progress_refl)
next
  case (step w1 w2)
  then show ?case using serves_progress progress_trans by blast
qed

text \<open>The service starts on an empty database.\<close>

definition fresh :: "env \<Rightarrow> world \<Rightarrow> bool" where
  "fresh E w \<longleftrightarrow> uuid_law E \<and> tabs w = empty_tables \<and> \<not> aborted w"

lemma fresh_idle: "fresh E w \<Longrightarrow> idle E w"
  using sound_empty by (auto simp: fresh_def idle_def good_def stored_ok_def currency_ok_def) (simp_all add: empty_tables_def)

definition reachable :: "env \<Rightarrow> tables \<Rightarrow> bool" where
  "reachable E T \<longleftrightarrow> (\<exists>w w'. fresh E w \<and> (serves E)\<^sup>*\<^sup>* w w' \<and> T = tabs w')"

lemma reachableI: "fresh E w \<Longrightarrow> (serves E)\<^sup>*\<^sup>* w w' \<Longrightarrow> reachable E (tabs w')"
  unfolding reachable_def by blast

lemma reachable_good: "reachable E T \<Longrightarrow> good E T"
  using runs_progress fresh_idle unfolding reachable_def idle_def by blast

end
