(* ===== verification/Evolution.thy ===== *)
theory Evolution
  imports Machine
begin

text \<open>
  What the steps of the machine never change: wallets keep their identity, the ledger only grows at its
  end, a transaction keeps the columns of its request, and a terminal one keeps its outcome.
\<close>

definition evolves :: "tx_row \<Rightarrow> tx_row \<Rightarrow> bool" where
  "evolves x y \<longleftrightarrow> same_request x y \<and> (IsTerminal (t_state x) \<longrightarrow> t_state y = t_state x \<and> t_failure y = t_failure x \<and>
     t_result y = t_result x \<and> t_result_currency y = t_result_currency x \<and> t_version y = t_version x \<and>
     t_ref_tx y = t_ref_tx x)"

definition same_wallet :: "wallet_row \<Rightarrow> wallet_row \<Rightarrow> bool" where
  "same_wallet r s \<longleftrightarrow> wr_id s = wr_id r \<and> wr_player s = wr_player r \<and> wr_currency s = wr_currency r"

definition later :: "tables \<Rightarrow> tables \<Rightarrow> bool" where
  "later T T' \<longleftrightarrow> (\<forall>x \<in> set (txs T). \<exists>y \<in> set (txs T'). evolves x y) \<and> (\<exists>es. ledger T' = ledger T @ es) \<and>
     (\<forall>r \<in> set (wallets T). \<exists>s \<in> set (wallets T'). same_wallet r s)"

lemma evolves_refl [simp]: "evolves x x"
  by (simp add: evolves_def same_request_def)

lemma evolves_trans: "evolves x y \<Longrightarrow> evolves y z \<Longrightarrow> evolves x z"
  by (auto simp: evolves_def same_request_def)

lemma same_wallet_refl [simp]: "same_wallet r r"
  by (simp add: same_wallet_def)

lemma evolves_marked: "evolves q (marked x t q)"
  by (simp add: evolves_def same_request_def)

lemma kept: "x \<in> set ts \<Longrightarrow> \<exists>y \<in> set ts. evolves x y" "r \<in> set ws \<Longrightarrow> \<exists>s \<in> set ws. same_wallet r s"
  using evolves_refl same_wallet_refl by blast+

lemma later_refl [simp]: "later T T"
  by (simp add: later_def kept)

lemma later_trans:
  assumes "later T T1" "later T1 T2"
  shows "later T T2"
proof -
  have "\<exists>z \<in> set (txs T2). evolves x z" if "x \<in> set (txs T)" for x
    using assms that evolves_trans unfolding later_def by meson
  moreover have "\<exists>z \<in> set (wallets T2). same_wallet x z" if x: "x \<in> set (wallets T)" for x
  proof -
    obtain y where y: "y \<in> set (wallets T1)" "same_wallet x y" using assms(1) x unfolding later_def by blast
    then obtain z where "z \<in> set (wallets T2)" "same_wallet y z" using assms(2) unfolding later_def by blast
    with y(2) show ?thesis by (auto simp: same_wallet_def)
  qed
  ultimately show ?thesis using assms by (auto simp: later_def)
qed

lemma later_put:
  assumes inv: "tbl_inv t_id ts" and adm: "admissible ts x" and q: "q \<in> set ts"
  shows "\<exists>y \<in> set (put_tx x ts). evolves q y"
proof (cases "t_id q = t_id x")
  case True
  then have "tbl_find t_id (t_id x) ts = Some q" using inv q by (simp add: tbl_find_iff)
  with adm have "t_state q = StatePendingReference" "same_request q x" by (simp_all add: admissible_def)
  then have "evolves q x" by (simp add: evolves_def IsTerminal_def)
  then show ?thesis using put_tx_self by blast
next
  case False
  then show ?thesis using put_tx_keep [OF q False] by (intro bexI [of _ q]) simp_all
qed

lemma later_reference:
  assumes "tbl_inv t_id ts" "admissible ts x" "reference_ok ts x d ts'" "q \<in> set ts"
  shows "\<exists>y \<in> set ts'. evolves q y"
proof -
  obtain y where y: "y \<in> set (put_tx x ts)" "evolves q y" using later_put [OF assms(1,2,4)] by blast
  have "ts' = put_tx x ts \<or> (\<exists>t. ts' = map (marked x t) (put_tx x ts))"
    using assms(3) by (auto simp: reference_ok_def mark_target_map)
  then show ?thesis
  proof
    assume "\<exists>t. ts' = map (marked x t) (put_tx x ts)"
    then obtain t where "ts' = map (marked x t) (put_tx x ts)" ..
    then have "marked x t y \<in> set ts'" using y(1) by simp
    then show ?thesis using evolves_trans [OF y(2) evolves_marked] by blast
  qed (use y in blast)
qed

lemma later_set_balance: "r \<in> set ws \<Longrightarrow> \<exists>s \<in> set (set_balance w b v ws). same_wallet r s"
  unfolding set_balance_def tbl_modify_def
  by (rule bexI [of _ "if wr_id r = w then r\<lparr>wr_balance := b, wr_version := v\<rparr> else r"])
    (simp_all add: same_wallet_def)

lemma machine_later:
  assumes "machine T T'" "tbl_inv t_id (txs T)"
  shows "later T T'"
  using assms(1)
proof cases
  case rescheduled
  then show ?thesis by (simp add: later_def kept)
next
  case (opened r es xs)
  then show ?thesis using kept(1) [of _ "txs T"] kept(2) [of _ "wallets T"] by (simp add: later_def) blast?
next
  case (moved x r e ts)
  then show ?thesis using later_reference [OF assms(2)] later_set_balance by (simp add: later_def)
next
  case (settled x)
  then show ?thesis using later_put [OF assms(2)] kept by (simp add: later_def)
next
  case (parked x k)
  then show ?thesis using kept(1) [of _ "txs T"] kept(2) [of _ "wallets T"] by (simp add: later_def) blast?
qed

lemma machine_star_later:
  assumes "machine\<^sup>*\<^sup>* T T'" "sound T"
  shows "later T T'"
  using assms
proof (induction rule: rtranclp_induct)
  case (step T1 T2)
  then have "sound T1" using machine_star_sound by blast
  with step show ?case using machine_later [of T1 T2] later_trans by (auto simp: sound_def)
qed simp

end
