(* ===== verification/Idempotency.thy ===== *)
theory Idempotency
  imports Use_Cases Evolution
begin

text \<open>
  Idempotency of submissions over any run of the service: a repetition is answered from the row that the
  first acceptance left, moves nothing, and gives the answer that was given before.
\<close>

section \<open>The row that answers\<close>

lemma provider_external: "tx_checks x \<Longrightarrow> t_provider x = Some p \<Longrightarrow> t_origin x = EXTERNAL"
  by (auto simp: tx_checks_def split: origin.splits)

lemma same_key_same_row:
  assumes g: "good E T" and x: "x \<in> set (txs T)" "t_provider x = Some p" and y: "y \<in> set (txs T)" "t_provider y = Some p"
    and k: "t_key x = t_key y \<or> t_external x = t_external y"
  shows "x = y"
proof -
  have "tx_checks x" "tx_checks y" using goodD(3) [OF g] x(1) y(1) by (simp_all add: stored_ok_def)
  then have "t_origin x = EXTERNAL" "t_origin y = EXTERNAL" using provider_external x(2) y(2) by blast+
  then have "tx_clash x y" using x(2) y(2) k by (auto simp: tx_clash_def)
  then have "t_id x = t_id y" using soundD(4) [OF goodD(2) [OF g]] x(1) y(1) by (auto simp: keys_ok_def)
  from id_unique [OF goodD(4) [OF g] x(1) y(1) this] show ?thesis .
qed

lemma find_by_key_Some:
  "find_by_key p k ts = Some t \<Longrightarrow> t \<in> set ts \<and> t_provider t = Some p \<and> t_key t = Some k"
  unfolding find_by_key_def find_Some_iff by auto

lemma existing_row:
  assumes g: "good E T" and x: "x \<in> set (txs T)" "t_provider x = Some (s_provider i)" "t_key x = Some (s_key i)"
  shows "existing i T = Some x"
proof -
  have "find_by_key (s_provider i) (s_key i) (txs T) \<noteq> None"
    using x by (auto simp: find_by_key_def find_None_iff)
  then obtain y where y: "find_by_key (s_provider i) (s_key i) (txs T) = Some y" by blast
  then have "y = x" using find_by_key_Some [OF y] same_key_same_row [OF g _ _ x(1,2)] x(3) by auto
  with y show ?thesis by (simp add: existing_def)
qed

section \<open>Repeating a submission\<close>

text \<open>The answer of a repetition: the same transaction, marked as a replay; once it is settled also the
  same balance, failure code and wallet version as before.\<close>

definition answers :: "env \<Rightarrow> submit_result \<Rightarrow> submit_result \<Rightarrow> bool" where
  "answers E r r2 \<longleftrightarrow> sr_replay r2 \<and> e_uuid E (sr_tx r) = Some (sr_tx r2) \<and>
     (if sr_outcome r = OutcomePending then True
      else sr_outcome r2 = OutcomeReplay \<and> sr_balance r2 = sr_balance r \<and> sr_failure r2 = sr_failure r \<and>
        sr_version r2 = sr_version r)"

lemma reports_key:
  assumes "reports E oc r x"
  shows "t_provider x = Some (s_provider (oc_in oc))" "t_key x = Some (s_key (oc_in oc))" "t_hash x = Some (oc_hash oc)"
    "t_external x = Some (s_external (oc_in oc))"
  using assms by (simp_all add: reports_def)

lemma settled_has_balance:
  assumes "reports E oc r x" "sr_outcome r \<noteq> OutcomePending"
  shows "t_state x = StateProcessed \<or> t_state x = StateRejected"
  using assms by (cases "sr_outcome r") (simp_all add: reports_def)

lemma answers_row:
  assumes r: "reports E oc r x" and e: "evolves x y"
  shows "answers E r (replayResult y)"
proof (cases "sr_outcome r = OutcomePending")
  case True
  then show ?thesis
    using r e by (simp add: answers_def replayResult_def reports_def evolves_def same_request_def Let_def split: tx_state.splits)
next
  case False
  then obtain b where b: "sr_balance r = Some b" using r by (auto simp: reports_def)
  have cur: "validCurrency (currency b)" using r b by (simp add: reports_def)
  have st: "t_state x = StateProcessed \<or> t_state x = StateRejected" by (rule settled_has_balance [OF r False])
  then have same: "t_state y = t_state x" "t_failure y = t_failure x" "t_result y = t_result x"
    "t_result_currency y = t_result_currency x" "t_version y = t_version x" "t_id y = t_id x"
    using e by (auto simp: evolves_def IsTerminal_def same_request_def)
  have cols: "t_result x = Some (minor b)" "t_result_currency x = Some (currency b)" "t_version x = Some (sr_version r)"
    "str (t_failure x) = sr_failure r" "e_uuid E (sr_tx r) = Some (t_id x)"
    using r b by (simp_all add: reports_def)
  show ?thesis
    using st cur False b by (auto simp: answers_def replayResult_def Let_def same cols NewMoneyFromMinor_def)
qed

lemma run_submit:
  assumes "idle E w" "Submit E i w = (Inr r, w')"
  shows "submit_post E i (tabs w) r (tabs w') \<and> idle E w'"
proof -
  have g: "good E (tabs w)" "\<not> aborted w" using assms(1) by (simp_all add: idle_def)
  from run_cases [OF tspec_Submit [OF g(1)] closed_Submit g(2) assms(2)]
  have p: "submit_post E i (tabs w) r (tabs w')" "\<not> aborted w'" by simp_all
  then show ?thesis using progress_good [OF g(1) submit_post_progress [OF g(1) p(1)]] by (simp add: idle_def)
qed

lemma replayResult_replay [simp]: "sr_replay (replayResult x)"
  by (simp add: replayResult_def Let_def split: tx_state.splits)

lemma submit_new_row:
  assumes p: "submit_post E i T r T'" and n: "\<not> sr_replay r" and g: "good E T"
  obtains a h oc x where "validate_input i = Inr (a, h)" "oc_in oc = i" "oc_hash oc = h" "reports E oc r x"
    "\<exists>y \<in> set (txs T'). evolves x y"
proof -
  obtain a h T1 where v: "validate_input i = Inr (a, h)" and s: "submitted E i a h T r T1"
    and pr: "T' = T1 \<or> progress E T1 T'" using p unfolding submit_post_def by (auto split: if_splits)
  have "existing i T = None" using s n by (auto simp: submitted_def split: option.splits)
  with s obtain oc where oc: "oc_in oc = i" "oc_hash oc = h" "accepted E oc T r T1" by (auto simp: submitted_def)
  then obtain x where x: "x \<in> set (txs T1)" "reports E oc r x" by (auto simp: accepted_def)
  have "later T1 T'"
    using pr machine_star_later goodD(2) [OF submitted_good [OF g s]] by (auto simp: progress_def)
  then have "\<exists>y \<in> set (txs T'). evolves x y" using x(1) by (simp add: later_def)
  with that v oc x show ?thesis by blast
qed

lemma runs_later:
  assumes "(serves E)\<^sup>*\<^sup>* w w'" "idle E w"
  shows "later (tabs w) (tabs w')"
  using runs_progress [OF assms] machine_star_later goodD(2) assms(2) by (auto simp: progress_def idle_def)

lemma replay_existing:
  assumes p: "submit_post E i T r T'" and x: "existing i T = Some x"
  shows "r = replayResult x" "T' = T"
proof -
  obtain a h T1 where s: "submitted E i a h T r T1"
    and pr: "if sr_outcome r = OutcomeProcessed \<and> resultIsReferenceTarget (s_kind i) then progress E T1 T' else T' = T1"
    using p unfolding submit_post_def by blast
  from s x show r: "r = replayResult x" by (simp add: submitted_def)
  have "sr_outcome r \<noteq> OutcomeProcessed" unfolding r by (simp add: replayResult_def Let_def split: tx_state.splits)
  with pr s x show "T' = T" by (simp add: submitted_def)
qed

lemma later_existing:
  assumes g: "good E T" and r: "reports E oc r x" and y: "y \<in> set (txs T)" "evolves x y"
  shows "existing (oc_in oc) T = Some y"
  using reports_key [OF r] y by (intro existing_row [OF g y(1)]) (simp_all add: evolves_def same_request_def)

end
