(* ===== verification/Success.thy ===== *)
theory Success
  imports Use_Cases
begin

text \<open>
  What happens when no statement is lost: the repository methods on the rows they are meant for, and a
  bet on a funded wallet from its first statement to its commit. The equations are over \<open>wp\<close>, so they
  say that the action returns, and what it returns.
\<close>

definition sure :: "env \<Rightarrow> bool" where
  "sure E \<longleftrightarrow> (\<forall>n. \<not> e_fault E n)"

text \<open>The identifiers drawn from now on are well formed, pairwise different and not in use.\<close>

definition new_ids :: "env \<Rightarrow> world \<Rightarrow> bool" where
  "new_ids E w \<longleftrightarrow> inj (e_ids E) \<and> (\<forall>n. canon E (e_ids E n) \<and> e_ids E n \<noteq> [] \<and> (tick w \<le> n \<longrightarrow>
     tbl_find t_id (e_ids E n) (txs (tabs w)) = None \<and> tbl_find l_id (e_ids E n) (ledger (tabs w)) = None \<and>
     tbl_find b_event (e_ids E n) (outbox (tabs w)) = None))"

lemma wp_stmt_ok:
  "sure E \<Longrightarrow> \<not> aborted w \<Longrightarrow> f (tabs w) = Inr (x, T) \<Longrightarrow> wp (stmt E f) Q R w = Q x (tock (w\<lparr>tabs := T\<rparr>))"
  by (simp add: wp_stmt sure_def)

lemma wp_absent_ok:
  "wp m (\<lambda>x. Q x) (\<lambda>_ _. False) w \<Longrightarrow> wp (absent_if_invalid m) Q R w"
  by (auto simp: absent_if_invalid_def wp_def bind_def attempt_def ret_def split: sum.splits prod.splits)

lemma wp_LockForUpdate_ok:
  assumes "sure E" "\<not> aborted w" "e_uuid E s = Some u" "Q (tbl_find wr_id u (wallets (tabs w))) (tock w)"
  shows "wp (LockForUpdate E s) Q R w"
  unfolding LockForUpdate_def
  by (rule wp_absent_ok) (use assms in \<open>simp add: wp_stmt sure_def sql_find_wallet_def uuid_in_def rbind_def\<close>)

lemma wp_FindByProviderKey_ok:
  "sure E \<Longrightarrow> \<not> aborted w \<Longrightarrow> wp (FindByProviderKey E p k) Q R w = Q (find_by_key p k (txs (tabs w))) (tock w)"
  by (simp add: FindByProviderKey_def wp_stmt sure_def)

lemma wp_FindByProviderExternal_ok:
  "sure E \<Longrightarrow> \<not> aborted w \<Longrightarrow> wp (FindByProviderExternal E p k) Q R w = Q (find_by_external p k (txs (tabs w))) (tock w)"
  by (simp add: FindByProviderExternal_def wp_stmt sure_def)

lemma wp_FindDependents_ok:
  "sure E \<Longrightarrow> \<not> aborted w \<Longrightarrow> wp (FindDependents E p k) Q R w = Q (dependents p k (txs (tabs w))) (tock w)"
  by (simp add: FindDependents_def wp_stmt sure_def)

lemma wp_tx_Insert_ok:
  assumes "sure E" "\<not> aborted w" "canon E (t_id r)" "e_uuid E (t_wallet r) = Some wid" "e_uuid E (t_player r) = Some p"
    "t_ref_tx r = None" "t_reversed_tx r = None" "tx_checks r" "\<not> (\<exists>q \<in> set (txs (tabs w)). tx_clash (r\<lparr>t_wallet := wid, t_player := p\<rparr>) q)"
    "tbl_find t_id (t_id r) (txs (tabs w)) = None" "tbl_find wr_id wid (wallets (tabs w)) \<noteq> None"
  shows "wp (tx_Insert E r) Q R w = Q () (tock (w\<lparr>tabs := (tabs w)\<lparr>txs := txs (tabs w) @ [r\<lparr>t_wallet := wid, t_player := p\<rparr>]\<rparr>\<rparr>))"
proof -
  let ?x = "r\<lparr>t_wallet := wid, t_player := p\<rparr>"
  have "tx_checks ?x" using assms(8) by (simp add: tx_checks_def split: origin.splits)
  then have "sql_insert_tx E r (tabs w) = Inr ((), (tabs w)\<lparr>txs := txs (tabs w) @ [?x]\<rparr>)"
    using assms(3-7,9-11)
    by (cases r) (simp add: sql_insert_tx_def uuid_in_def uuid_opt_in_def canon_def rbind_def Let_def tbl_add_def tx_ref_ok_def)
  then show ?thesis unfolding tx_Insert_def by (rule wp_stmt_ok [OF assms(1,2)])
qed

lemma wp_ledger_Append_ok:
  assumes "sure E" "\<not> aborted w" "canon E (l_id e)" "canon E (l_wallet e)" "canon E (l_tx e)" "ledger_checks e"
    "\<not> (\<exists>q \<in> set (ledger (tabs w)). l_wallet q = l_wallet e \<and> l_tx q = l_tx e)"
    "tbl_find l_id (l_id e) (ledger (tabs w)) = None" "tbl_find wr_id (l_wallet e) (wallets (tabs w)) \<noteq> None"
    "tbl_find t_id (l_tx e) (txs (tabs w)) \<noteq> None"
  shows "wp (ledger_Append E e) Q R w = Q () (tock (w\<lparr>tabs := (tabs w)\<lparr>ledger := ledger (tabs w) @ [e]\<rparr>\<rparr>))"
proof -
  have "sql_append_ledger E e (tabs w) = Inr ((), (tabs w)\<lparr>ledger := ledger (tabs w) @ [e]\<rparr>)"
    using assms(3-10) by (simp add: sql_append_ledger_def uuid_in_def canon_def rbind_def Let_def tbl_add_def)
  then show ?thesis unfolding ledger_Append_def by (rule wp_stmt_ok [OF assms(1,2)])
qed

lemma wp_UpdateBalance_ok:
  assumes "sure E" "\<not> aborted w" "canon E u" "0 \<le> sint b" "1 \<le> sint v"
  shows "wp (UpdateBalance E u b v) Q R w = Q () (tock (w\<lparr>tabs := (tabs w)\<lparr>wallets := set_balance u b v (wallets (tabs w))\<rparr>\<rparr>))"
proof -
  have "sql_update_balance E u b v (tabs w) = Inr ((), (tabs w)\<lparr>wallets := set_balance u b v (wallets (tabs w))\<rparr>)"
    using assms(3-5) by (simp add: sql_update_balance_def uuid_in_def canon_def rbind_def set_balance_def)
  then show ?thesis unfolding UpdateBalance_def by (rule wp_stmt_ok [OF assms(1,2)])
qed

definition staged :: "outbox_record \<Rightarrow> time \<Rightarrow> outbox_row" where
  "staged e t = \<lparr>b_event = ob_event e, b_aggregate = ob_aggregate e, b_type = ob_type e, b_payload = ob_payload e,
     b_occurred = t, b_attempts = ob_attempts e, b_next = zero_time, b_published = None, b_owner = None, b_lease = None\<rparr>"

lemma staged_simps [simp]: "b_event (staged e t) = ob_event e" "b_type (staged e t) = ob_type e"
  by (simp_all add: staged_def)

lemma wp_EnqueueOutbox_ok:
  assumes "sure E" "\<not> aborted w" "canon E (ob_event e)" "canon E (ob_aggregate e)" "ob_attempts e = 0"
    "tbl_find b_event (ob_event e) (outbox (tabs w)) = None"
  shows "wp (EnqueueOutbox E e) Q R w =
    Q () (tock (tock (w\<lparr>tabs := (tabs w)\<lparr>outbox := outbox (tabs w) @ [staged e (e_clock E (tick w))]\<rparr>\<rparr>)))"
proof -
  let ?b = "staged e (e_clock E (tick w))"
  have "sql_insert_outbox E ?b (tabs w) = Inr ((), (tabs w)\<lparr>outbox := outbox (tabs w) @ [?b]\<rparr>)"
    using assms(3-6) by (simp add: sql_insert_outbox_def uuid_in_def canon_def rbind_def Let_def tbl_add_def staged_def)
  then have "wp (stmt E (sql_insert_outbox E ?b)) Q R (tock w) =
      Q () (tock ((tock w)\<lparr>tabs := (tabs w)\<lparr>outbox := outbox (tabs w) @ [?b]\<rparr>\<rparr>))"
    using assms(1,2) by (intro wp_stmt_ok) simp_all
  then show ?thesis by (simp add: EnqueueOutbox_def wp_bind wp_now staged_def tock_def)
qed

text \<open>A transaction whose body succeeds commits.\<close>

lemma transact_ok:
  assumes "sure E" "wp m (\<lambda>x w'. \<not> aborted w' \<and> Q x (tabs w')) (\<lambda>_ _. False) (tock (w\<lparr>aborted := False\<rparr>))"
  shows "\<exists>x w'. transact E m w = (Inr x, w') \<and> Q x (tabs w') \<and> (\<not> aborted w \<longrightarrow> \<not> aborted w')"
  using assms by (auto simp: wp_def transact_def sure_def split: prod.splits sum.splits)

section \<open>A movement from its entry to its events\<close>

text \<open>What a movement needs of the request and of the store.\<close>

definition bookable :: "env \<Rightarrow> world \<Rightarrow> op_context \<Rightarrow> string \<Rightarrow> wallet \<Rightarrow> bool" where
  "bookable E w oc i v \<longleftrightarrow> sure E \<and> \<not> aborted w \<and> new_ids E w \<and> canon E i \<and> canon E (w_id v) \<and> 1 \<le> sint (w_version v) \<and>
     e_uuid E (s_wallet (oc_in oc)) = Some (w_id v) \<and> e_uuid E (s_player (oc_in oc)) \<noteq> None \<and>
     tbl_find wr_id (w_id v) (wallets (tabs w)) \<noteq> None \<and> tbl_find t_id i (txs (tabs w)) = None \<and>
     i \<notin> l_tx ` set (ledger (tabs w)) \<and> s_kind (oc_in oc) \<in> {KindBet, KindWin} \<and>
     \<not> (\<exists>q \<in> set (txs (tabs w)). t_provider q = Some (s_provider (oc_in oc)) \<and>
        (t_key q = Some (s_key (oc_in oc)) \<or> t_external q = Some (s_external (oc_in oc))))"

lemma new_idsD:
  assumes "new_ids E w" "tick w \<le> n"
  shows "canon E (e_ids E n)" "e_ids E n \<noteq> []" "tbl_find t_id (e_ids E n) (txs (tabs w)) = None"
    "tbl_find l_id (e_ids E n) (ledger (tabs w)) = None" "tbl_find b_event (e_ids E n) (outbox (tabs w)) = None"
  using assms by (simp_all add: new_ids_def)

lemma new_ids_inj: "new_ids E w \<Longrightarrow> e_ids E m = e_ids E n \<longleftrightarrow> m = n"
  by (auto simp: new_ids_def inj_def)

lemma tbl_find_snoc: "tbl_find k i (ts @ [r]) = (case tbl_find k i ts of None \<Rightarrow> if k r = i then Some r else None | Some x \<Rightarrow> Some x)"
  by (induction ts) (auto simp: tbl_find_def)

lemma wp_emitProcessed_ok:
  assumes "sure E" "\<not> aborted w" "new_ids E w" "canon E (w_id v)"
  shows "wp (emitProcessed E v i s a b d) (\<lambda>_ w'. \<not> aborted w') (\<lambda>_ _. False) w"
proof -
  have "tbl_find b_event (e_ids E n) (outbox (tabs w)) = None" if "tick w \<le> n" for n
    using new_idsD(5) [OF assms(3) that] .
  then show ?thesis
    unfolding emitProcessed_def Let_def
    using assms(1,2,4) new_idsD(1) [OF assms(3)]
    by (auto simp: wp_bind wp_now wp_newID wp_ret wp_EnqueueOutbox_ok new_outbox_def tbl_find_snoc new_ids_inj [OF assms(3)] )
qed

definition entry_of :: "string \<Rightarrow> wallet \<Rightarrow> string \<Rightarrow> direction \<Rightarrow> money \<Rightarrow> money \<Rightarrow> money \<Rightarrow> ledger_entry" where
  "entry_of eid v i d amount b a = \<lparr>e_id = eid, e_wallet = w_id v, e_tx = i, e_direction = d, e_amount = amount,
     e_before = b, e_after = a, e_version = w_version v\<rparr>"

lemma ledger_checks_entry:
  assumes "NewLedgerEntry eid (w_id v) i d amount b a (w_version v) = Inr (entry_of eid v i d amount b a)"
  shows "ledger_checks (toLedgerRecord (entry_of eid v i d amount b a))"
  using NewLedgerEntry_InrD [OF assms] by (auto simp: ledger_checks_def toLedgerRecord_def entry_of_def)

lemma new_ids_grow:
  assumes "new_ids E w" "tick w < tick w'" "\<And>n. tick w \<le> n \<Longrightarrow> t_id x \<noteq> e_ids E n"
    "l_id e = e_ids E (tick w)" "txs (tabs w') = txs (tabs w) @ [x]" "ledger (tabs w') = ledger (tabs w) @ [e]"
    "outbox (tabs w') = outbox (tabs w)"
  shows "new_ids E w'"
  unfolding new_ids_def
proof (intro conjI allI impI)
  show "inj (e_ids E)" using assms(1) by (simp add: new_ids_def)
  fix n
  show "canon E (e_ids E n)" "e_ids E n \<noteq> []" using assms(1) by (simp_all add: new_ids_def)
  assume n: "tick w' \<le> n"
  then have le: "tick w \<le> n" and ne: "e_ids E (tick w) \<noteq> e_ids E n"
    using assms(2) new_ids_inj [OF assms(1)] by auto
  note d = new_idsD [OF assms(1) le]
  show "tbl_find t_id (e_ids E n) (txs (tabs w')) = None" using d(3) assms(3) [OF le] assms(5) by (simp add: tbl_find_snoc)
  show "tbl_find l_id (e_ids E n) (ledger (tabs w')) = None" using d(4) ne assms(4,6) by (simp add: tbl_find_snoc)
  show "tbl_find b_event (e_ids E n) (outbox (tabs w')) = None" using d(5) assms(7) by simp
qed

lemma wp_processed_ok:
  assumes bk: "bookable E w oc i v" and i: "\<And>n. tick w \<le> n \<Longrightarrow> i \<noteq> e_ids E n"
    and entry: "\<And>eid. eid \<noteq> [] \<Longrightarrow> NewLedgerEntry eid (w_id v) i d (oc_amount oc) b a (w_version v) =
      Inr (entry_of eid v i d (oc_amount oc) b a)"
  shows "wp (processed E oc i v b a [] d) (\<lambda>r w'. \<not> aborted w' \<and> r = done_result i v a) (\<lambda>_ _. False) w"
proof -
  let ?eid = "e_ids E (tick w)" and ?w1 = "tock w" and ?rec = "tx_record oc i v StateProcessed [] (Some a) []"
  have E: "sure E" "\<not> aborted w" "new_ids E w" using bk by (simp_all add: bookable_def)
  obtain p where p: "e_uuid E (s_player (oc_in oc)) = Some p" using bk by (auto simp: bookable_def)
  note id0 = new_idsD [OF E(3) order.refl] and en = entry [OF id0(2)]
  let ?e = "toLedgerRecord (entry_of ?eid v i d (oc_amount oc) b a)"
  let ?x = "?rec\<lparr>t_wallet := w_id v, t_player := p\<rparr>"
  let ?T1 = "(tabs w)\<lparr>txs := txs (tabs w) @ [?x]\<rparr>" and ?w2 = "tock (?w1\<lparr>tabs := (tabs w)\<lparr>txs := txs (tabs w) @ [?x]\<rparr>\<rparr>)"
  have chk: "tx_checks ?rec" using bk by (auto simp: tx_checks_def tx_record_def bookable_def Let_def)
  have pl: "t_player ?rec = s_player (oc_in oc)" by (simp add: tx_record_def Let_def)
  have nc: "\<not> (\<exists>q \<in> set (txs (tabs w)). tx_clash ?x q)" using bk by (auto simp: tx_clash_def bookable_def)
  have ins: "wp (insertTx E oc i v StateProcessed [] (Some a) []) Q R ?w1 = Q () ?w2" for Q R
    unfolding insertTx_def
    by (subst wp_tx_Insert_ok [where wid = "w_id v" and p = p]) (use bk p chk nc pl in \<open>simp_all add: bookable_def\<close>)
  have e: "l_id ?e = ?eid" "l_wallet ?e = w_id v" "l_tx ?e = i" by (simp_all add: toLedgerRecord_def entry_of_def)
  let ?w3 = "tock (?w2\<lparr>tabs := ?T1\<lparr>ledger := ledger ?T1 @ [?e]\<rparr>\<rparr>)"
  have app: "wp (ledger_Append E ?e) Q R ?w2 = Q () ?w3" for Q R
    by (subst wp_ledger_Append_ok)
      (use bk e id0 ledger_checks_entry [OF en] in \<open>auto simp: bookable_def tbl_find_snoc split: option.splits\<close>)
  let ?w4 = "tock (?w3\<lparr>tabs := (tabs ?w3)\<lparr>wallets := set_balance (w_id v) (minor a) (w_version v) (wallets (tabs ?w3))\<rparr>\<rparr>)"
  have upd: "wp (UpdateBalance E (w_id v) (minor a) (w_version v)) Q R ?w3 = Q () ?w4" for Q R
    by (subst wp_UpdateBalance_ok) (use bk NewLedgerEntry_InrD(8) [OF en] in \<open>simp_all add: bookable_def\<close>)
  have "new_ids E ?w4" by (rule new_ids_grow [OF E(3), of _ ?x ?e]) (use i e in simp_all)
  then have emit: "wp (emitProcessed E v i (oc_in oc) a b d) (\<lambda>_ w'. \<not> aborted w') (\<lambda>_ _. False) ?w4"
    using bk by (intro wp_emitProcessed_ok) (simp_all add: bookable_def)
  show ?thesis
    unfolding processed_def wp_bind wp_newID wp_lift_domain en sum.case ins app upd
    by (rule wp_mono [OF emit]) (simp_all add: wp_ret done_result_def)
qed

lemma new_ids_tick: "new_ids E w \<Longrightarrow> tabs w' = tabs w \<Longrightarrow> tick w \<le> tick w' \<Longrightarrow> new_ids E w'"
  by (simp add: new_ids_def)

section \<open>A refusal from its row to its event\<close>

lemma wp_emitRejected_ok:
  assumes "sure E" "\<not> aborted w" "new_ids E w" "canon E (w_id v)"
  shows "wp (emitRejected E v i s a c) (\<lambda>_ w'. \<not> aborted w') (\<lambda>_ _. False) w"
  unfolding emitRejected_def Let_def
  using assms(1,2,4) new_idsD(1,5) [OF assms(3)]
  by (auto simp: wp_bind wp_now wp_newID wp_ret wp_EnqueueOutbox_ok new_outbox_def)

lemma wp_rejected_ok:
  assumes bk: "bookable E w oc i v"
  shows "wp (rejected E oc i v c []) (\<lambda>r w'. \<not> aborted w' \<and> r = refused_result i v c) (\<lambda>_ _. False) w"
proof -
  let ?rec = "tx_record oc i v StateRejected c (Some (w_balance v)) []"
  have E: "sure E" "\<not> aborted w" "new_ids E w" using bk by (simp_all add: bookable_def)
  obtain p where p: "e_uuid E (s_player (oc_in oc)) = Some p" using bk by (auto simp: bookable_def)
  let ?x = "?rec\<lparr>t_wallet := w_id v, t_player := p\<rparr>"
  let ?w1 = "tock (w\<lparr>tabs := (tabs w)\<lparr>txs := txs (tabs w) @ [?x]\<rparr>\<rparr>)"
  have chk: "tx_checks ?rec" using bk by (auto simp: tx_checks_def tx_record_def bookable_def Let_def)
  have pl: "t_player ?rec = s_player (oc_in oc)" by (simp add: tx_record_def Let_def)
  have nc: "\<not> (\<exists>q \<in> set (txs (tabs w)). tx_clash ?x q)" using bk by (auto simp: tx_clash_def bookable_def)
  have ins: "wp (insertTx E oc i v StateRejected c (Some (w_balance v)) []) Q R w = Q () ?w1" for Q R
    unfolding insertTx_def
    by (subst wp_tx_Insert_ok [where wid = "w_id v" and p = p]) (use bk p chk nc pl in \<open>simp_all add: bookable_def\<close>)
  have f: "canon E (e_ids E (tick ?w1))" "tbl_find b_event (e_ids E (tick ?w1)) (outbox (tabs ?w1)) = None"
    using new_idsD(1,5) [OF E(3), of "tick ?w1"] by simp_all
  have emit: "wp (emitRejected E v i (oc_in oc) (w_balance v) c) (\<lambda>_ w'. \<not> aborted w') (\<lambda>_ _. False) ?w1"
    unfolding emitRejected_def Let_def
    using f bk by (auto simp: wp_bind wp_now wp_newID wp_ret wp_EnqueueOutbox_ok new_outbox_def bookable_def)
  show ?thesis
    unfolding rejected_def Let_def wp_bind ins
    by (rule wp_mono [OF emit]) (simp_all add: wp_ret refused_result_def)
qed

section \<open>A bet\<close>

definition bet_result :: "string \<Rightarrow> wallet_row \<Rightarrow> money \<Rightarrow> submit_result" where
  "bet_result i r a = (if sint (minor a) \<le> sint (wr_balance r)
     then \<lparr>sr_outcome = OutcomeProcessed, sr_tx = i, sr_balance = Some (mk_money (wr_balance r - minor a) (wr_currency r)),
       sr_failure = [], sr_version = wr_version r + 1, sr_replay = False\<rparr>
     else \<lparr>sr_outcome = OutcomeRejected, sr_tx = i, sr_balance = Some (mk_money (wr_balance r) (wr_currency r)),
       sr_failure = code_text CodeInsufficientBalance, sr_version = wr_version r, sr_replay = False\<rparr>)"

lemma wp_applyBet_ok:
  assumes bk: "bookable E w oc i (wallet_of r)" and bk': "\<And>m. bookable E w oc i ((wallet_of r)\<lparr>w_balance := m, w_version := wr_version r + 1\<rparr>)"
    and i: "i \<noteq> []" "\<And>n. tick w \<le> n \<Longrightarrow> i \<noteq> e_ids E n" and rid: "wr_id r \<noteq> []"
    and r: "wallet_ok (wallet_of r)" "s_player (oc_in oc) = wr_player r" "currency (oc_amount oc) = wr_currency r"
    and a: "IsPositive (oc_amount oc)"
  shows "wp (applyBet E oc i (wallet_of r)) (\<lambda>res w'. \<not> aborted w' \<and> res = bet_result i r (oc_amount oc)) (\<lambda>_ _. False) w"
proof -
  let ?v = "wallet_of r" and ?a = "oc_amount oc"
  have w: "w_player ?v = wr_player r" "w_currency ?v = wr_currency r" "w_balance ?v = mk_money (wr_balance r) (wr_currency r)"
    "w_version ?v = wr_version r" "w_id ?v = wr_id r" by (simp_all add: wallet_of_def)
  have D: "Debit ?v (s_player (oc_in oc)) ?a = (if sint (minor ?a) \<le> sint (wr_balance r)
     then Inr (w_balance ?v, mk_money (wr_balance r - minor ?a) (wr_currency r),
       ?v\<lparr>w_balance := mk_money (wr_balance r - minor ?a) (wr_currency r), w_version := wr_version r + 1\<rparr>)
     else Inl CodeInsufficientBalance)"
    using Debit_own [OF r(1), of ?a] r(2,3) a by (simp add: w)
  show ?thesis
  proof (cases "sint (minor ?a) \<le> sint (wr_balance r)")
    case True
    let ?m = "mk_money (wr_balance r - minor ?a) (wr_currency r)"
    let ?v' = "?v\<lparr>w_balance := ?m, w_version := wr_version r + 1\<rparr>"
    have d: "Debit ?v (s_player (oc_in oc)) ?a = Inr (w_balance ?v, ?m, ?v')" using D True by simp
    have en: "NewLedgerEntry eid (w_id ?v') i DirectionDebit ?a (w_balance ?v) ?m (w_version ?v') =
        Inr (entry_of eid ?v' i DirectionDebit ?a (w_balance ?v) ?m)" if "eid \<noteq> []" for eid
      using NewLedgerEntry_debit [OF d r(1) that _ i(1)] rid by (simp add: w entry_of_def)
    have "done_result i ?v' ?m = bet_result i r ?a" using True by (simp add: done_result_def bet_result_def)
    then show ?thesis using wp_processed_ok [OF bk' i(2) en] d by (simp add: applyBet_def)
  next
    case False
    have "refused_result i ?v (code_text CodeInsufficientBalance) = bet_result i r ?a"
      using False by (simp add: refused_result_def bet_result_def w)
    then show ?thesis using wp_rejected_ok [OF bk, of "code_text CodeInsufficientBalance"] D False by (simp add: applyBet_def)
  qed
qed

section \<open>The whole submission of a bet\<close>

text \<open>A submission that will be applied: nothing in the store answers it, and its wallet is the locked one.\<close>

definition fresh_submission :: "env \<Rightarrow> submit_input \<Rightarrow> wallet_row \<Rightarrow> tables \<Rightarrow> bool" where
  "fresh_submission E i r T \<longleftrightarrow> e_uuid E (s_wallet i) = Some (wr_id r) \<and> tbl_find wr_id (wr_id r) (wallets T) = Some r \<and>
     s_player i = wr_player r \<and> s_currency i = wr_currency r \<and> e_uuid E (s_player i) \<noteq> None \<and>
     existing i T = None \<and> s_message i = [] \<and> sint (wr_version r) < int64_max"

lemma existing_None:
  assumes "existing i T = None"
  shows "find_by_key (s_provider i) (s_key i) (txs T) = None" "find_by_external (s_provider i) (s_external i) (txs T) = None"
    "\<not> (\<exists>q \<in> set (txs T). t_provider q = Some (s_provider i) \<and> (t_key q = Some (s_key i) \<or> t_external q = Some (s_external i)))"
  using assms
  by (auto simp: existing_def find_by_key_def find_by_external_def find_None_iff split: option.splits)

lemma fresh_bookable:
  assumes g: "good E (tabs w)" and w: "sure E" "\<not> aborted w" "new_ids E w" "k < tick w" "new_ids E w0" "k = tick w0" "tabs w0 = tabs w"
    and fr: "fresh_submission E (oc_in oc) r (tabs w)" and kind: "s_kind (oc_in oc) \<in> {KindBet, KindWin}"
    and v: "w_id v = wr_id r" "1 \<le> sint (w_version v)"
  shows "bookable E w oc (e_ids E k) v"
proof -
  let ?i = "e_ids E k"
  have "r \<in> set (wallets (tabs w))" using fr tbl_find_SomeD [of wr_id "wr_id r"] by (auto simp: fresh_submission_def)
  then have c: "canon E (wr_id r)" using goodD(3) [OF g] by (simp add: stored_ok_def)
  have none: "tbl_find t_id ?i (txs (tabs w)) = None" "canon E ?i"
    using new_idsD(1,3) [OF w(5), of k] w(6,7) by simp_all
  have "?i \<notin> l_tx ` set (ledger (tabs w))"
  proof
    assume "?i \<in> l_tx ` set (ledger (tabs w))"
    then obtain e where e: "e \<in> set (ledger (tabs w))" "l_tx e = ?i" by auto
    then obtain x where "x \<in> set (txs (tabs w))" "t_id x = ?i"
      using goodD(2) [OF g] by (fastforce simp: sound_def entries_ok_def posted_def)
    then show False using none(1) by (auto simp: tbl_find_None_all)
  qed
  then show ?thesis
    using assms none c existing_None(3) [of "oc_in oc" "tabs w"] by (auto simp: bookable_def fresh_submission_def)
qed

lemma wp_submit_body_bet:
  assumes g: "good E (tabs w)" and w: "sure E" "\<not> aborted w" "new_ids E w"
    and val: "validate_input i = Inr (a, h)" and kind: "s_kind i = KindBet" and fr: "fresh_submission E i r (tabs w)"
  shows "wp (submit_body E i a h) (\<lambda>x w'. \<not> aborted w' \<and> (\<exists>k. x = bet_result (e_ids E k) r a)) (\<lambda>_ _. False) w"
proof -
  let ?oc = "\<lparr>oc_in = i, oc_amount = a, oc_hash = h, oc_wallet = r\<rparr>" and ?w3 = "tock (tock (tock w))"
  let ?w5 = "tock (tock ?w3)" and ?i = "e_ids E (tick ?w3)"
  note f = fr [unfolded fresh_submission_def]
  note v = validate_input_InrD [OF val] and ne = existing_None [of i "tabs w"]
  have cur: "currency a = wr_currency r" using ParseMoney_currency [OF v(1)] f by simp
  have b: "0 \<le> sint (wr_balance r)" "1 \<le> sint (wr_version r)"
    using books_ok_find(3,4) [of "tabs w" "wr_id r" r] goodD(2) [OF g] f by (simp_all add: sound_def)
  have pos: "IsPositive a" using v(8) kind by (auto simp: ValidateAmountForKind_def split: if_splits)
  have ids: "new_ids E ?w3" "new_ids E ?w5" using w(3) by (simp_all add: new_ids_def)
  have rid: "wr_id r \<noteq> []"
    using goodD(1,3) [OF g] f tbl_find_SomeD [of wr_id "wr_id r" "wallets (tabs w)" r]
    by (auto simp: stored_ok_def uuid_law_def canon_def)
  have ok: "wallet_ok (wallet_of r)"
    using b cur v(3) rid by (simp add: wallet_ok_def wallet_of_def)
  have re: "RehydrateWallet (wr_id r) (wr_player r) (wr_currency r) (wr_balance r) (wr_version r) = Inr (wallet_of r)"
    using b cur v(3) rid by (simp add: RehydrateWallet_def wallet_of_def NewMoneyFromMinor_def)
  have sv: "1 \<le> sint (wr_version r + 1)" using b f sint_add_exact [of "wr_version r" 1] by (simp add: in_int64_def)
  have "wp (applyBet E ?oc ?i (wallet_of r)) (\<lambda>res w'. \<not> aborted w' \<and> res = bet_result ?i r a) (\<lambda>_ _. False) ?w5"
  proof (rule wp_applyBet_ok [where oc = ?oc, simplified])
    show "bookable E ?w5 ?oc ?i (wallet_of r)" 
      by (rule fresh_bookable [of E ?w5 _ ?w3 _ r]) (use g w ids fr kind b in \<open>simp_all add: wallet_of_def\<close>)
    show "bookable E ?w5 ?oc ?i (wallet_of r\<lparr>w_balance := m, w_version := wr_version r + 1\<rparr>)" for m
      by (rule fresh_bookable [of E ?w5 _ ?w3 _ r]) (use g w ids fr kind sv in \<open>simp_all add: wallet_of_def\<close>)
  qed (use new_idsD(2) [OF ids(1)] new_ids_inj [OF ids(1)] ok cur pos f rid in auto)
  then have "wp (applyOperation E ?oc) (\<lambda>res w'. \<not> aborted w' \<and> res = bet_result ?i r a) (\<lambda>_ _. False) ?w3"
    by (simp add: applyOperation_def wp_bind wp_newID wp_now wp_lift_domain re kind Let_def)
  then have new: "wp (bind (applyOperation E ?oc) (\<lambda>res. bind (record_inbox E i h) (\<lambda>_. ret res)))
      (\<lambda>x w'. \<not> aborted w' \<and> (\<exists>k. x = bet_result (e_ids E k) r a)) (\<lambda>_ _. False) ?w3"
    unfolding wp_bind by (rule wp_mono) (use f in \<open>auto simp: record_inbox_def wp_ret\<close>)
  show ?thesis
    unfolding submit_body_def wp_bind [of "LockForUpdate _ _"]
    by (intro wp_LockForUpdate_ok [of E w _ "wr_id r"])
      (use w f ne new in \<open>simp_all add: wp_bind [of "FindByProviderKey _ _ _"] wp_bind [of "FindByProviderExternal _ _ _"]
        wp_FindByProviderKey_ok wp_FindByProviderExternal_ok\<close>)
qed


lemma reevaluate_returns: "\<exists>w'. reevaluate E i r w = (Inr (), w')"
  by (simp add: reevaluate_def ignore_def ret_def)

lemma Submit_bet_returns:
  assumes g: "idle E w" and w: "sure E" "new_ids E w" and val: "validate_input i = Inr (a, h)" and kind: "s_kind i = KindBet"
    and fr: "fresh_submission E i r (tabs w)"
  shows "\<exists>k w'. Submit E i w = (Inr (bet_result (e_ids E k) r a), w')"
proof -
  have gd: "good E (tabs w)" "\<not> aborted w" using g by (simp_all add: idle_def)
  have "wp (submit_body E i a h) (\<lambda>x w'. \<not> aborted w' \<and> (\<exists>k. x = bet_result (e_ids E k) r a)) (\<lambda>_ _. False) (tock (w\<lparr>aborted := False\<rparr>))"
    by (rule wp_submit_body_bet [OF _ w(1) _ _ val kind]) (use gd w fr in \<open>simp_all add: new_ids_def\<close>)
  then obtain x w1 where x: "transact E (submit_body E i a h) w = (Inr x, w1)" "\<exists>k. x = bet_result (e_ids E k) r a"
    using transact_ok [OF w(1), of "submit_body E i a h" "\<lambda>x _. \<exists>k. x = bet_result (e_ids E k) r a" w] by auto
  obtain w2 where "reevaluate E i x w1 = (Inr (), w2)" using reevaluate_returns by blast
  then have "Submit E i w = (Inr x, w2)"
    using x(1) fr by (simp add: Submit_def val bind_def inbox_check_def ret_def fresh_submission_def)
  with x(2) show ?thesis by blast
qed

end
