(* ===== verification/Liveness.thy ===== *)
theory Liveness
  imports Idempotency Success
begin

text \<open>
  Calls that do return, when no statement is lost: a repeated submission is answered, and one with other
  contents under a used key is refused.
\<close>

section \<open>A submission that the store already answers\<close>

text \<open>The message of the submission, if it has one, was not used for other contents.\<close>

definition calm :: "submit_input \<Rightarrow> string \<Rightarrow> tables \<Rightarrow> bool" where
  "calm i h T \<longleftrightarrow> s_message i = [] \<or>
     (case tbl_find i_id (s_consumer i, s_message i) (inbox T) of None \<Rightarrow> True | Some b \<Rightarrow> i_hash b = h)"

lemma inbox_check_calm:
  assumes "sure E" "calm i h (tabs w)"
  shows "\<exists>w'. inbox_check E i h w = (Inr (), w') \<and> tabs w' = tabs w \<and> (\<not> aborted w \<longrightarrow> \<not> aborted w')"
  using assms
  by (auto simp: inbox_check_def calm_def sure_def FindInbox_def bind_def autocommit_def stmt_def ret_def fail_def
      split: option.splits)

lemma transact_fail:
  assumes "sure E" "wp m (\<lambda>_ _. False) (\<lambda>e _. R e) (tock (w\<lparr>aborted := False\<rparr>))"
  shows "\<exists>e w'. transact E m w = (Inl e, w') \<and> R e \<and> tabs w' = tabs w"
  using assms by (auto simp: wp_def transact_def sure_def split: prod.splits sum.splits)

definition known_answer :: "tx_row \<Rightarrow> string \<Rightarrow> serr + submit_result" where
  "known_answer x h = (if str (t_hash x) = h then Inr (replayResult x) else Inl (ErrConflict CodeConflict))"

lemma wp_submit_body_known:
  assumes "good E (tabs w)" "sure E" "\<not> aborted w" "own_wallet E i (tabs w) r" "existing i (tabs w) = Some x"
  shows "wp (submit_body E i a h) (\<lambda>y w'. \<not> aborted w' \<and> tabs w' = tabs w \<and> known_answer x h = Inr y)
    (\<lambda>e _. known_answer x h = Inl e) w"
proof -
  have find: "tbl_find wr_id (wr_id r) (wallets (tabs w)) = Some r"
    using goodD(5) [OF assms(1)] assms(4) by (simp add: tbl_find_iff own_wallet_def)
  have reply: "wp (replay_or_conflict x h) (\<lambda>y w'. \<not> aborted w' \<and> tabs w' = tabs w \<and> known_answer x h = Inr y)
      (\<lambda>e _. known_answer x h = Inl e) w'" if "\<not> aborted w'" "tabs w' = tabs w" for w'
    using that by (simp add: replay_or_conflict_def known_answer_def wp_ret wp_fail)
  have "wp (bind (FindByProviderKey E (s_provider i) (s_key i)) (\<lambda>byKey. case byKey of
        Some prev \<Rightarrow> replay_or_conflict prev h
      | None \<Rightarrow> bind (FindByProviderExternal E (s_provider i) (s_external i)) (\<lambda>byExt. case byExt of
          Some prev \<Rightarrow> replay_or_conflict prev h | None \<Rightarrow> m)))
      (\<lambda>y w'. \<not> aborted w' \<and> tabs w' = tabs w \<and> known_answer x h = Inr y) (\<lambda>e _. known_answer x h = Inl e) (tock w)" for m
    using assms reply
    by (cases "find_by_key (s_provider i) (s_key i) (txs (tabs w))")
      (simp_all add: existing_def wp_bind wp_FindByProviderKey_ok wp_FindByProviderExternal_ok)
  then show ?thesis
    unfolding submit_body_def wp_bind [of "LockForUpdate _ _"]
    by (intro wp_LockForUpdate_ok [of E w _ "wr_id r"]) (use assms find in \<open>simp_all add: own_wallet_def\<close>)
qed

lemma Submit_known:
  assumes w: "idle E w" "sure E" and val: "validate_input i = Inr (a, h)" and own: "own_wallet E i (tabs w) r"
    and x: "existing i (tabs w) = Some x" and calm: "calm i h (tabs w)"
  shows "\<exists>w'. Submit E i w = (known_answer x h, w') \<and> tabs w' = tabs w"
proof -
  obtain w1 where w1: "inbox_check E i h w = (Inr (), w1)" "tabs w1 = tabs w" "\<not> aborted w1"
    using inbox_check_calm [OF w(2) calm] w(1) by (auto simp: idle_def)
  let ?w = "tock (w1\<lparr>aborted := False\<rparr>)" and ?m = "submit_body E i a h"
  have "good E (tabs w)" using w(1) by (simp add: idle_def)
  then have body: "wp ?m (\<lambda>y w'. \<not> aborted w' \<and> tabs w' = tabs w \<and> known_answer x h = Inr y)
      (\<lambda>e _. known_answer x h = Inl e) ?w"
    using wp_submit_body_known [of E ?w i r x] w1 w own x by simp
  show ?thesis
  proof (cases "known_answer x h")
    case (Inl e)
    have "wp ?m (\<lambda>_ _. False) (\<lambda>e' _. e' = e) ?w" by (rule wp_mono [OF body]) (use Inl in auto)
    then obtain w2 where "transact E ?m w1 = (Inl e, w2)" "tabs w2 = tabs w1"
      using transact_fail [OF w(2), of ?m "\<lambda>e'. e' = e" w1] by auto
    then show ?thesis using w1 Inl by (simp add: Submit_def val bind_def)
  next
    case (Inr y)
    have "wp ?m (\<lambda>y' w'. \<not> aborted w' \<and> y' = y \<and> tabs w' = tabs w) (\<lambda>_ _. False) ?w"
      by (rule wp_mono [OF body]) (use Inr in auto)
    then obtain w2 where t: "transact E ?m w1 = (Inr y, w2)" "tabs w2 = tabs w"
      using transact_ok [OF w(2), of ?m "\<lambda>y' T. y' = y \<and> T = tabs w" w1] by auto
    have "sr_outcome y \<noteq> OutcomeProcessed"
      using Inr by (auto simp: known_answer_def replayResult_def Let_def split: if_splits tx_state.splits)
    with t w1 Inr show ?thesis by (simp add: Submit_def val bind_def reevaluate_def ret_def)
  qed
qed

section \<open>After an acceptance\<close>

lemma accepted_row_later:
  assumes w: "idle E w" and s: "Submit E i w = (Inr r, w1)" "\<not> sr_replay r" and run: "(serves E)\<^sup>*\<^sup>* w1 w2"
  obtains a h oc x y q where "validate_input i = Inr (a, h)" "oc_in oc = i" "oc_hash oc = h" "reports E oc r x"
    "evolves x y" "y \<in> set (txs (tabs w2))" "idle E w2" "own_wallet E i (tabs w2) q"
proof -
  have g: "good E (tabs w)" using w by (simp add: idle_def)
  have p: "submit_post E i (tabs w) r (tabs w1)" and i1: "idle E w1" using run_submit [OF w s(1)] by blast+
  obtain a h oc x where x: "validate_input i = Inr (a, h)" "oc_in oc = i" "oc_hash oc = h" "reports E oc r x"
      "\<exists>y \<in> set (txs (tabs w1)). evolves x y"
    using submit_new_row [OF p s(2) g] by metis
  have l1: "later (tabs w) (tabs w1)"
    using submit_post_progress [OF g p] machine_star_later goodD(2) [OF g] by (auto simp: progress_def)
  have l2: "later (tabs w1) (tabs w2)" by (rule runs_later [OF run i1])
  obtain y where y: "evolves x y" "y \<in> set (txs (tabs w2))"
    using x(5) l2 evolves_trans unfolding later_def by meson
  obtain q where q: "own_wallet E i (tabs w) q" using p by (auto simp: submit_post_def submitted_def)
  then obtain q' where "q' \<in> set (wallets (tabs w2))" "same_wallet q q'"
    using later_trans [OF l1 l2] by (auto simp: later_def own_wallet_def)
  with q have "own_wallet E i (tabs w2) q'" by (simp add: own_wallet_def same_wallet_def)
  with that x(1-4) y runs_progress [OF run i1] show ?thesis by blast
qed

text \<open>The stored row that a result names.\<close>

lemma result_row:
  assumes g: "good E T" and p: "submit_post E i T r T'"
  shows "\<exists>x \<in> set (txs T'). e_uuid E (sr_tx r) = Some (t_id x) \<and> t_provider x = Some (s_provider i) \<and>
    (t_key x = Some (s_key i) \<or> t_external x = Some (s_external i))"
proof (cases "existing i T")
  case (Some x)
  from replay_existing [OF p Some] have r: "r = replayResult x" "T' = T" .
  have x: "x \<in> set (txs T)" "t_provider x = Some (s_provider i)" "t_key x = Some (s_key i) \<or> t_external x = Some (s_external i)"
    using Some find_by_key_Some [of "s_provider i" "s_key i" "txs T" x] find_by_external_Some [of "s_provider i" "s_external i" "txs T" x]
    by (auto simp: existing_def split: option.splits)
  then have "canon E (t_id x)" using goodD(3) [OF g] by (simp add: stored_ok_def)
  moreover have "sr_tx r = t_id x" unfolding r by (simp add: replayResult_def Let_def split: tx_state.splits)
  ultimately show ?thesis using x r(2) by (auto simp: canon_def)
next
  case None
  then have "\<not> sr_replay r" using p by (auto simp: submit_post_def submitted_def accepted_def reports_def)
  then obtain oc x y where "oc_in oc = i" "reports E oc r x" "y \<in> set (txs T')" "evolves x y"
    using submit_new_row [OF p _ g] by metis
  then show ?thesis by (intro bexI [of _ y]) (auto simp: reports_def evolves_def same_request_def)
qed

lemma same_key_existing:
  assumes g: "good E T" and r: "reports E oc r x" and y: "y \<in> set (txs T)" "evolves x y"
    and j: "s_provider j = s_provider (oc_in oc)" "s_key j = s_key (oc_in oc)"
  shows "existing j T = Some y"
  using reports_key [OF r] y j by (intro existing_row [OF g y(1)]) (simp_all add: evolves_def same_request_def)

lemma repeated_is_answered:
  assumes "idle E w" "sure E" "Submit E i w = (Inr r, w1)" "\<not> sr_replay r" "(serves E)\<^sup>*\<^sup>* w1 w2" "s_message i = []"
  shows "\<exists>r2 w3. Submit E i w2 = (Inr r2, w3) \<and> tabs w3 = tabs w2 \<and> answers E r r2"
proof -
  obtain a h oc x y q where *: "validate_input i = Inr (a, h)" "oc_in oc = i" "oc_hash oc = h" "reports E oc r x"
      "evolves x y" "y \<in> set (txs (tabs w2))" "idle E w2" "own_wallet E i (tabs w2) q"
    using accepted_row_later [OF assms(1,3-5)] by metis
  have ex: "existing i (tabs w2) = Some y" using later_existing [OF _ *(4,6,5)] *(2,7) by (simp add: idle_def)
  have "str (t_hash y) = h" using reports_key(3) [OF *(4)] *(3,5) by (simp add: evolves_def same_request_def)
  then show ?thesis
    using Submit_known [OF *(7) assms(2) *(1,8) ex] assms(6) answers_row [OF *(4,5)] by (auto simp: known_answer_def calm_def)
qed

text \<open>C18. Liveness of repetitions. When no statement is lost, repeating an accepted HTTP submission (after
  any calls in between) does return, and gives the answer of the first one.\<close>

theorem Submit_repeat_answered:
  assumes "idle E w" "sure E" "Submit E i w = (Inr r, w1)" "\<not> sr_replay r" "(serves E)\<^sup>*\<^sup>* w1 w2" "s_message i = []"
  shows "\<exists>r2 w3. Submit E i w2 = (Inr r2, w3) \<and> tabs w3 = tabs w2 \<and> answers E r r2"
  by (rule repeated_is_answered [OF assms])

lemma Submit_same_key:
  assumes "idle E w" "Submit E i w = (Inr r, w1)" "\<not> sr_replay r" "(serves E)\<^sup>*\<^sup>* w1 w2"
    and "s_provider j = s_provider i" "s_key j = s_key i" "Submit E j w2 = (res, w3)"
  shows "tabs w3 = tabs w2 \<and> (\<forall>r2. res = Inr r2 \<longrightarrow> answers E r r2 \<and>
    PayloadHash (hash_input_of j) = PayloadHash (hash_input_of i))"
proof -
  obtain a h oc x y q where *: "validate_input i = Inr (a, h)" "oc_in oc = i" "oc_hash oc = h" "reports E oc r x"
      "evolves x y" "y \<in> set (txs (tabs w2))" "idle E w2"
    using accepted_row_later [OF assms(1-4)] by metis
  have g2: "good E (tabs w2)" "\<not> aborted w2" using *(7) by (simp_all add: idle_def)
  have ex: "existing j (tabs w2) = Some y"
    using same_key_existing [OF g2(1) *(4,6,5)] *(2) assms(5,6) by simp
  have hy: "str (t_hash y) = h" using reports_key(3) [OF *(4)] *(3,5) by (simp add: evolves_def same_request_def)
  show ?thesis
  proof (cases res)
    case (Inl e)
    with run_cases [OF tspec_Submit [OF g2(1)] closed_Submit g2(2) assms(7)] show ?thesis by simp
  next
    case (Inr r2)
    then have post: "submit_post E j (tabs w2) r2 (tabs w3)" using run_submit [OF *(7)] assms(7) by blast
    then obtain a' h' where h': "validate_input j = Inr (a', h')" "str (t_hash y) = h'"
      using ex by (auto simp: submit_post_def submitted_def)
    then have "PayloadHash (hash_input_of j) = PayloadHash (hash_input_of i)"
      using validate_input_InrD(2) *(1) hy by metis
    with replay_existing [OF post ex] answers_row [OF *(4,5)] Inr show ?thesis by simp
  qed
qed

text \<open>C1. Idempotency. Take an accepted submission and, after any calls of any use-cases in between, any
  submission with the same provider and idempotency key. Whatever it returns, no table changes. It returns a
  result only if its payload hash is the one of the first (otherwise it is refused), and then the result is
  a replay that names the same transaction and, if the first answer was definite, repeats its balance,
  failure code and wallet version.\<close>

theorem Submit_key_reuse:
  assumes "idle E w" "Submit E i w = (Inr r, w1)" "\<not> sr_replay r" "(serves E)\<^sup>*\<^sup>* w1 w2"
    and "s_provider j = s_provider i" "s_key j = s_key i"
  shows "case Submit E j w2 of (Inl e, w3) \<Rightarrow> tabs w3 = tabs w2
    | (Inr r2, w3) \<Rightarrow> tabs w3 = tabs w2 \<and> answers E r r2 \<and> PayloadHash (hash_input_of j) = PayloadHash (hash_input_of i)"
proof -
  obtain res w3 where run: "Submit E j w2 = (res, w3)" by fastforce
  from Submit_same_key [OF assms run] show ?thesis unfolding run by (cases res) simp_all
qed

end
