(* ===== verification/Liveness_Open.thy ===== *)
theory Liveness_Open
  imports Success
begin

text \<open>
  Opening a wallet does open it, when no statement is lost, for a player and currency that have none yet.
\<close>

lemma new_ids_extend:
  assumes "new_ids E w" "tick w \<le> tick w'" "txs (tabs w') = txs (tabs w) @ xs" "ledger (tabs w') = ledger (tabs w) @ es"
    "outbox (tabs w') = outbox (tabs w) @ bs"
    and old: "t_id ` set xs \<union> l_id ` set es \<union> b_event ` set bs \<subseteq> e_ids E ` {..<tick w'}"
  shows "new_ids E w'"
proof -
  have f: "e_ids E n \<notin> t_id ` set xs \<union> l_id ` set es \<union> b_event ` set bs" if n: "tick w' \<le> n" for n
  proof
    assume "e_ids E n \<in> t_id ` set xs \<union> l_id ` set es \<union> b_event ` set bs"
    then obtain k where "k < tick w'" "e_ids E n = e_ids E k" using old by blast
    then show False using n new_ids_inj [OF assms(1), of n k] by simp
  qed
  have none: "tbl_find t_id (e_ids E n) (txs (tabs w')) = None" "tbl_find l_id (e_ids E n) (ledger (tabs w')) = None"
      "tbl_find b_event (e_ids E n) (outbox (tabs w')) = None" if n: "tick w' \<le> n" for n
    using f [OF n] new_idsD(3-5) [OF assms(1), of n] n assms(2-5) by (simp_all only: tbl_find_None_iff) auto
  with assms(1) show ?thesis unfolding new_ids_def by blast
qed

text \<open>The row of a wallet opened with \<open>m\<close>.\<close>

definition opened_row :: "string \<Rightarrow> string \<Rightarrow> string \<Rightarrow> money \<Rightarrow> wallet_row" where
  "opened_row i p c m = \<lparr>wr_id = i, wr_player = p, wr_currency = c, wr_balance = minor m, wr_version = 1\<rparr>"

lemma wp_insert_new_wallet_ok:
  assumes "sure E" "\<not> aborted w" "canon E (wr_id r)" "e_uuid E (wr_player r) = Some p" "0 \<le> sint (wr_balance r)"
    "1 \<le> sint (wr_version r)" "tbl_find wr_id (wr_id r) (wallets (tabs w)) = None"
    "\<not> (\<exists>q \<in> set (wallets (tabs w)). wr_player q = p \<and> wr_currency q = wr_currency r)"
  shows "wp (insert_new_wallet E r) Q R w =
    Q () (tock (w\<lparr>tabs := (tabs w)\<lparr>wallets := wallets (tabs w) @ [r\<lparr>wr_player := p\<rparr>]\<rparr>\<rparr>))"
proof -
  have "sql_insert_wallet E r (tabs w) = Inr ((), (tabs w)\<lparr>wallets := wallets (tabs w) @ [r\<lparr>wr_player := p\<rparr>]\<rparr>)"
    using assms(3-8) by (cases r) (simp add: sql_insert_wallet_def uuid_in_def canon_def rbind_def Let_def tbl_add_def)
  then show ?thesis
    unfolding insert_new_wallet_def wp_bind wp_attempt wallet_Insert_def
    by (subst wp_stmt_ok [OF assms(1,2)]) (simp_all add: wp_ret)
qed

definition opened_world :: "env \<Rightarrow> world \<Rightarrow> world \<Rightarrow> bool" where
  "opened_world E w w' \<longleftrightarrow> \<not> aborted w' \<and> new_ids E w' \<and> wallets (tabs w') = wallets (tabs w) \<and>
     (\<exists>xs. txs (tabs w') = txs (tabs w) @ xs \<and> (\<forall>x \<in> set xs. t_provider x = None))"

lemma opening_entry:
  assumes "eid \<noteq> []" "i \<noteq> []" "tx \<noteq> []" "currency m = c" "0 < sint (minor m)"
  shows "NewLedgerEntry eid i tx DirectionCredit m (mk_money 0 c) m 1 =
    Inr \<lparr>e_id = eid, e_wallet = i, e_tx = tx, e_direction = DirectionCredit, e_amount = m, e_before = mk_money 0 c,
     e_after = m, e_version = 1\<rparr>"
  using assms sint_upper [of "minor m"] sint_lower [of "minor m"]
  by (simp add: NewLedgerEntry_def IsPositive_def IsNegative_def money_Add_eq money_Equal_iff in_int64_def)

lemma wp_fund_wallet_ok:
  assumes E: "sure E" "\<not> aborted w" "new_ids E w" and wid: "canon E i" "i \<noteq> []" "tbl_find wr_id i (wallets (tabs w)) \<noteq> None"
    and p: "e_uuid E p \<noteq> None" and m: "validCurrency c" "currency m = c" "0 < sint (minor m)"
    and unused: "i \<notin> t_wallet ` set (txs (tabs w))"
    and new: "\<And>e. e \<in> set (ledger (tabs w)) \<Longrightarrow> l_tx e \<in> t_id ` set (txs (tabs w))"
  shows "wp (fund_wallet E i p c s m) (\<lambda>_. opened_world E w) (\<lambda>_ _. False) w"
proof -
  let ?n = "tick w" and ?z = "mk_money 0 c"
  let ?tx = "e_ids E ?n" and ?eid = "e_ids E (Suc (Suc ?n))"
  let ?w1 = "tock (tock (tock w))"
  note id = new_idsD [OF E(3)]
  obtain u where u: "e_uuid E p = Some u" using p by blast
  let ?en = "\<lparr>e_id = ?eid, e_wallet = i, e_tx = ?tx, e_direction = DirectionCredit, e_amount = m, e_before = ?z,
     e_after = m, e_version = 1\<rparr>"
  have z: "money_or_zero 0 c = ?z" using m(1) by (simp add: money_or_zero_def NewMoneyFromMinor_def)
  have en: "NewLedgerEntry ?eid i ?tx DirectionCredit m ?z m 1 = Inr ?en"
    using m id(2) wid(2) by (intro opening_entry) simp_all
  let ?r = "opening_tx ?tx i p c m"
  let ?x = "?r\<lparr>t_wallet := i, t_player := u\<rparr>"
  let ?w2 = "tock (?w1\<lparr>tabs := (tabs w)\<lparr>txs := txs (tabs w) @ [?x]\<rparr>\<rparr>)"
  have chk: "tx_checks ?r" by (simp add: tx_checks_def opening_tx_def)
  have nc: "\<not> (\<exists>q \<in> set (txs (tabs w)). tx_clash ?x q)" using unused by (auto simp: tx_clash_def opening_tx_def)
  have pl: "t_player ?r = p" "t_reversed_tx ?r = None" by (simp_all add: opening_tx_def)
  have ins: "wp (tx_Insert E ?r) Q R ?w1 = Q () ?w2" for Q R
    by (subst wp_tx_Insert_ok [where wid = i and p = u])
      (use E wid id u chk nc pl in \<open>simp_all add: canon_def\<close>)
  let ?e = "toLedgerRecord ?en"
  have e: "l_id ?e = ?eid" "l_wallet ?e = i" "l_tx ?e = ?tx" by (simp_all add: toLedgerRecord_def)
  have ec: "ledger_checks ?e" using m by (simp add: ledger_checks_def toLedgerRecord_def)
  have nl: "\<not> (\<exists>q \<in> set (ledger (tabs w)). l_wallet q = i \<and> l_tx q = ?tx)"
    using new id(3) [OF order.refl] by (force simp: tbl_find_None_all)
  let ?w3 = "tock (?w2\<lparr>tabs := (tabs ?w2)\<lparr>ledger := ledger (tabs w) @ [?e]\<rparr>\<rparr>)"
  have app: "wp (ledger_Append E ?e) Q R ?w2 = Q () ?w3" for Q R
    by (subst wp_ledger_Append_ok)
      (use E e id wid nl ec in \<open>auto simp: tbl_find_snoc split: option.splits\<close>)
  have ev: "b_event b = e_ids E k \<Longrightarrow> k < n \<Longrightarrow> b_event b \<in> e_ids E ` {..<n}" for b k n by simp
  have fin: "opened_world E w w'"
    if "\<not> aborted w'" "tick ?w3 \<le> tick w'" "txs (tabs w') = txs (tabs w) @ [?x]" "ledger (tabs w') = ledger (tabs w) @ [?e]"
      "outbox (tabs w') = outbox (tabs w) @ bs" "b_event ` set bs \<subseteq> e_ids E ` {..<tick w'}"
      "wallets (tabs w') = wallets (tabs w)" for w' bs
  proof -
    have "new_ids E w'"
      by (rule new_ids_extend [OF E(3) _ that(3-5)]) (use that(2,6) e in auto)
    then show ?thesis using that by (auto simp: opened_world_def opening_tx_def)
  qed
  show ?thesis
    unfolding fund_wallet_def Let_def wp_bind wp_newID wp_now wp_lift_domain
    using E wid(1) new_idsD(1,5) [OF E(3)]
    by (simp add: z en ins app wp_EnqueueOutbox_ok new_outbox_def tbl_find_snoc new_ids_inj [OF E(3)])
      (rule fin, auto)
qed

lemma transact_commits:
  assumes "sure E" "wp m (\<lambda>x w'. \<not> aborted w' \<and> Q x w') (\<lambda>_ _. False) (tock (w\<lparr>aborted := False\<rparr>))"
  shows "\<exists>x w'. transact E m w = (Inr x, tock w') \<and> Q x w'"
  using assms by (auto simp: wp_def transact_def sure_def split: prod.splits sum.splits)

text \<open>A player and currency without a wallet, and an identifier that nothing uses.\<close>

definition wallet_free :: "env \<Rightarrow> string \<Rightarrow> string \<Rightarrow> string \<Rightarrow> tables \<Rightarrow> bool" where
  "wallet_free E i p c T \<longleftrightarrow> tbl_find wr_id i (wallets T) = None \<and> i \<notin> t_wallet ` set (txs T) \<and>
     \<not> (\<exists>q \<in> set (wallets T). wr_player q = p \<and> wr_currency q = c)"

lemma entry_has_tx: "good E T \<Longrightarrow> e \<in> set (ledger T) \<Longrightarrow> l_tx e \<in> t_id ` set (txs T)"
  using goodD(2) [of E T] by (fastforce simp: sound_def entries_ok_def posted_def)

lemma OpenWallet_returns:
  assumes g: "idle E w" and E: "sure E" "new_ids E w" and m: "ParseMoney s c = Inr m" "\<not> IsNegative m"
    and p: "e_uuid E p = Some p'" "p \<noteq> []" and free: "wallet_free E (e_ids E (tick w)) p' c (tabs w)"
  shows "\<exists>w'. OpenWallet E p c s w = (Inr (opened_row (e_ids E (tick w)) p c m), w') \<and> idle E w' \<and> new_ids E w' \<and>
    wallets (tabs w') = wallets (tabs w) @ [opened_row (e_ids E (tick w)) p' c m] \<and>
    (\<exists>xs. txs (tabs w') = txs (tabs w) @ xs \<and> (\<forall>x \<in> set xs. t_provider x = None))"
proof -
  let ?i = "e_ids E (tick w)" and ?w1 = "tock w"
  let ?row = "opened_row ?i p' c m" and ?rec = "opened_row ?i p c m"
  have gd: "good E (tabs w)" "\<not> aborted w" using g by (simp_all add: idle_def)
  note id = new_idsD [OF E(2) order.refl]
  have c: "currency m = c" "validCurrency c" using ParseMoney_currency [OF m(1)] by simp_all
  let ?v = "\<lparr>w_id = ?i, w_player = p, w_currency = c, w_balance = m, w_version = 1\<rparr>"
  have nw: "NewWallet ?i p c m = Inr ?v" "wallet_record ?v = ?rec"
    using c m(2) p(2) id(2) by (simp_all add: NewWallet_def wallet_record_def opened_row_def)
  let ?w2 = "tock (?w1\<lparr>aborted := False\<rparr>)"
  let ?w3 = "tock (?w2\<lparr>tabs := (tabs w)\<lparr>wallets := wallets (tabs w) @ [?row]\<rparr>\<rparr>)"
  have ins: "wp (insert_new_wallet E ?rec) Q R ?w2 = Q () ?w3" for Q R
    by (subst wp_insert_new_wallet_ok [where p = p'])
      (use E(1) id(1) p m(2) free in \<open>simp_all add: opened_row_def IsNegative_def wallet_free_def\<close>)
  have ids: "new_ids E ?w3" using E(2) by (simp add: new_ids_def)
  let ?P = "\<lambda>x T. x = ?rec \<and> wallets T = wallets (tabs w) @ [?row] \<and> (\<exists>xs. txs T = txs (tabs w) @ xs \<and> (\<forall>x \<in> set xs. t_provider x = None))"
  have body: "wp (open_body E ?i p c s m) (\<lambda>x w'. \<not> aborted w' \<and> new_ids E w' \<and> ?P x (tabs w')) (\<lambda>_ _. False) ?w2"
  proof (cases "IsZero m")
    case True
    then show ?thesis using ids by (simp add: open_body_def nw wp_bind ins wp_ret)
  next
    case False
    then have pos: "0 < sint (minor m)" using m(2) sint_eq_iff [of "minor m" 0] by (simp add: IsZero_def IsNegative_def)
    have "wp (fund_wallet E ?i p c s m) (\<lambda>_. opened_world E ?w3) (\<lambda>_ _. False) ?w3"
      by (rule wp_fund_wallet_ok [OF E(1) _ ids])
        (use id c p pos free entry_has_tx [OF gd(1)] in \<open>auto simp: tbl_find_snoc opened_row_def wallet_free_def split: option.splits\<close>)
    then have "wp (fund_wallet E ?i p c s m) (\<lambda>_. wp (ret ?rec) (\<lambda>x w'. \<not> aborted w' \<and> new_ids E w' \<and> ?P x (tabs w'))
        (\<lambda>_ _. False)) (\<lambda>_ _. False) ?w3"
      by (rule wp_mono) (simp_all add: opened_world_def wp_ret)
    then show ?thesis using False by (simp add: open_body_def nw wp_bind ins)
  qed
  obtain w1 where "transact E (open_body E ?i p c s m) ?w1 = (Inr ?rec, tock w1)" "?P ?rec (tabs w1)" "new_ids E w1"
    using transact_commits [OF E(1) body] by blast
  then obtain w' where run: "transact E (open_body E ?i p c s m) ?w1 = (Inr ?rec, w')" "?P ?rec (tabs w')" "new_ids E w'"
    by (metis new_ids_tick tock_simps(1,3) le_SucI order.refl)
  have eq: "OpenWallet E p c s w = (Inr ?rec, w')" using run(1) m by (simp add: OpenWallet_def bind_def newID_def)
  have "idle E w'" using serves_progress [OF serves.opened_wallet g, of p c s] eq by simp
  with eq run(2,3) show ?thesis by blast
qed

end
