(* ===== verification/Example_Run.thy ===== *)
theory Example_Run
  imports Liveness Liveness_Open
begin

text \<open>
  A concrete environment and a concrete run, on which the properties with hypotheses are instantiated: an
  empty database, a player with a funded wallet, and a bet.
\<close>

definition demo_env :: env where
  "demo_env = \<lparr>e_clock = (\<lambda>n. int n * 1000000000), e_rand = (\<lambda>n. n), e_ids = (\<lambda>n. replicate (Suc n) CHR ''a''),
     e_fault = (\<lambda>_. False), e_uuid = (\<lambda>s. if s = [] then None else Some s)\<rparr>"

definition demo_empty :: world where
  "demo_empty = \<lparr>tabs = empty_tables, tick = 0, aborted = False\<rparr>"

definition demo_bet :: submit_input where
  "demo_bet = \<lparr>s_provider = ''prov'', s_external = ''x1'', s_key = ''k1'', s_player = ''p'', s_wallet = ''a'', s_round = ''r1'',
     s_game = ''g1'', s_kind = KindBet, s_amount = ''2.50'', s_currency = ''BRL'', s_ref = [], s_consumer = [],
     s_message = [], s_correlation = []\<rparr>"

definition demo_wallet :: wallet_row where
  "demo_wallet = opened_row ''a'' ''p'' ''BRL'' (mk_money 1000 ''BRL'')"

definition demo_answer :: "string \<Rightarrow> submit_result" where
  "demo_answer k = bet_result k demo_wallet (mk_money 250 ''BRL'')"

lemma demo_wallet_simps [simp]:
  "wr_id demo_wallet = ''a''" "wr_player demo_wallet = ''p''" "wr_currency demo_wallet = ''BRL''" "wr_balance demo_wallet = 1000"
  "wr_version demo_wallet = 1"
  by (simp_all add: demo_wallet_def opened_row_def)

lemma demo_answer_simps [simp]:
  "sr_outcome (demo_answer k) = OutcomeProcessed" "sr_balance (demo_answer k) = Some (mk_money 750 ''BRL'')"
  "sr_failure (demo_answer k) = []" "sr_version (demo_answer k) = 2" "\<not> sr_replay (demo_answer k)" "sr_tx (demo_answer k) = k"
  by (simp_all add: demo_answer_def bet_result_def)

lemma demo_bet_simps [simp]: "s_message demo_bet = []" "s_kind demo_bet = KindBet" "s_ref demo_bet = []"
  by (simp_all add: demo_bet_def)

lemma demo_env_props: "sure demo_env" "fresh demo_env demo_empty" "idle demo_env demo_empty" "new_ids demo_env demo_empty"
proof -
  show "sure demo_env" by (simp add: sure_def demo_env_def)
  show f: "fresh demo_env demo_empty" by (auto simp: fresh_def uuid_law_def demo_env_def demo_empty_def)
  show "idle demo_env demo_empty" by (rule fresh_idle [OF f])
  show "new_ids demo_env demo_empty"
    by (auto simp: new_ids_def demo_env_def demo_empty_def empty_tables_def canon_def inj_def)
qed

lemma demo_amounts:
  "ParseMoney ''10.00'' ''BRL'' = Inr (mk_money 1000 ''BRL'')" "ParseMoney ''2.50'' ''BRL'' = Inr (mk_money 250 ''BRL'')"
  by code_simp+

lemma demo_bet_valid: "\<exists>h. validate_input demo_bet = Inr (mk_money 250 ''BRL'', h)"
  by (simp add: validate_input_def demo_bet_def demo_amounts PayloadHash_eq ValidateExternalKind_def ValidateAmountForKind_def
      IsReversalKind_def IsPositive_def)

lemma demo_opened:
  obtains w where "OpenWallet demo_env ''p'' ''BRL'' ''10.00'' demo_empty = (Inr demo_wallet, w)"
    "idle demo_env w" "new_ids demo_env w" "fresh_submission demo_env demo_bet demo_wallet (tabs w)" "wallets (tabs w) = [demo_wallet]"
proof -
  have id: "e_ids demo_env (tick demo_empty) = ''a''" by (simp add: demo_env_def demo_empty_def)
  have "wallet_free demo_env ''a'' ''p'' ''BRL'' (tabs demo_empty)"
    by (simp add: wallet_free_def demo_empty_def empty_tables_def)
  then obtain w xs where w: "OpenWallet demo_env ''p'' ''BRL'' ''10.00'' demo_empty = (Inr demo_wallet, w)" "idle demo_env w"
      "new_ids demo_env w" "wallets (tabs w) = [demo_wallet]" "txs (tabs w) = xs" "\<forall>x \<in> set xs. t_provider x = None"
    using OpenWallet_returns [OF demo_env_props(3,1,4) demo_amounts(1), of "''p''" "''p''"] id
    by (auto simp: demo_env_def demo_empty_def empty_tables_def IsNegative_def demo_wallet_def)
  then have "fresh_submission demo_env demo_bet demo_wallet (tabs w)"
    by (auto simp: fresh_submission_def demo_bet_def demo_env_def existing_def find_by_key_def
        find_by_external_def find_None_iff split: option.splits)
  with w that show ?thesis by blast
qed

text \<open>The bet on that wallet; both stores are reachable.\<close>

lemma demo_run:
  "\<exists>w k w'. idle demo_env w \<and> wallets (tabs w) = [demo_wallet] \<and> reachable demo_env (tabs w) \<and>
    Submit demo_env demo_bet w = (Inr (demo_answer k), w') \<and> idle demo_env w' \<and> reachable demo_env (tabs w')"
proof -
  obtain w where w: "OpenWallet demo_env ''p'' ''BRL'' ''10.00'' demo_empty = (Inr demo_wallet, w)"
      "idle demo_env w" "new_ids demo_env w" "fresh_submission demo_env demo_bet demo_wallet (tabs w)"
      "wallets (tabs w) = [demo_wallet]" by (rule demo_opened)
  obtain h where "validate_input demo_bet = Inr (mk_money 250 ''BRL'', h)" using demo_bet_valid by blast
  from Submit_bet_returns [OF w(2) demo_env_props(1) w(3) this _ w(4)] obtain k w'
    where run: "Submit demo_env demo_bet w = (Inr (demo_answer k), w')" by (auto simp: demo_answer_def)
  have s1: "serves demo_env demo_empty w"
    using serves.opened_wallet [of demo_env demo_empty "''p''" "''BRL''" "''10.00''"] w(1) by simp
  have s2: "serves demo_env w w'" using serves.submission [of demo_env w demo_bet] run by simp
  from s1 s2 have "(serves demo_env)\<^sup>*\<^sup>* demo_empty w" "(serves demo_env)\<^sup>*\<^sup>* demo_empty w'" by simp_all
  then have "reachable demo_env (tabs w)" "reachable demo_env (tabs w')" by (simp_all add: reachableI [OF demo_env_props(2)])
  moreover have "idle demo_env w'" using serves_progress [OF s2 w(2)] by blast
  ultimately show ?thesis using w run by blast
qed

text \<open>The processed bet of that run.\<close>

lemma demo_processed_row:
  obtains T x where "reachable demo_env T" "x \<in> set (txs T)" "t_state x = StateProcessed" "t_kind x = KindBet"
proof -
  obtain w k w' where d: "idle demo_env w" "Submit demo_env demo_bet w = (Inr (demo_answer k), w')" "reachable demo_env (tabs w')"
    using demo_run by blast
  have post: "submit_post demo_env demo_bet (tabs w) (demo_answer k) (tabs w')" using run_submit [OF d(1,2)] by blast
  have g: "good demo_env (tabs w)" using d(1) by (simp add: idle_def)
  obtain oc x where x: "oc_in oc = demo_bet" "reports demo_env oc (demo_answer k) x" "\<exists>y \<in> set (txs (tabs w')). evolves x y"
    by (rule submit_new_row [OF post _ g]) simp_all
  then obtain y where y: "y \<in> set (txs (tabs w'))" "evolves x y" by blast
  have "t_state x = StateProcessed" "t_kind x = KindBet" using x(1,2) by (simp_all add: reports_def)
  then have "t_state y = StateProcessed" "t_kind y = KindBet" using y(2) by (simp_all add: evolves_def IsTerminal_def same_request_def)
  with that d(3) y(1) show ?thesis by blast
qed

section \<open>A store with a refund\<close>

definition demo_row :: "string \<Rightarrow> kind \<Rightarrow> string option \<Rightarrow> i64 \<Rightarrow> i64 \<Rightarrow> string option \<Rightarrow> tx_row" where
  "demo_row i k ref result ver rv = \<lparr>t_id = i, t_origin = EXTERNAL, t_provider = Some ''prov'', t_external = Some i,
     t_key = Some i, t_hash = Some ''h'', t_wallet = ''a'', t_player = ''p'', t_round = Some ''r1'', t_game = Some ''g1'',
     t_kind = k, t_amount = 250, t_currency = ''BRL'', t_ref_external = ref, t_ref_tx = ref, t_state = StateProcessed,
     t_failure = None, t_result = Some result, t_result_currency = Some ''BRL'',
     t_reversed_kind = map_option (\<lambda>_. ''REFUND'') rv, t_reversed_tx = rv, t_version = Some ver\<rparr>"

definition demo_entry :: "string \<Rightarrow> string \<Rightarrow> direction \<Rightarrow> i64 \<Rightarrow> i64 \<Rightarrow> i64 \<Rightarrow> i64 \<Rightarrow> ledger_row" where
  "demo_entry i tx d a b c v = \<lparr>l_id = i, l_wallet = ''a'', l_tx = tx, l_direction = d, l_amount = a, l_currency = ''BRL'',
     l_before = b, l_after = c, l_version = v\<rparr>"

text \<open>A wallet funded with 10.00, a bet of 2.50 and its refund.\<close>

definition demo_refunded :: tables where
  "demo_refunded = \<lparr>wallets = [\<lparr>wr_id = ''a'', wr_player = ''p'', wr_currency = ''BRL'', wr_balance = 1000, wr_version = 3\<rparr>],
     txs = [opening_tx ''o'' ''a'' ''p'' ''BRL'' (mk_money 1000 ''BRL''), demo_row ''b'' KindBet None 750 2 (Some ''f''),
       demo_row ''f'' KindRefund (Some ''b'') 1000 3 None],
     ledger = [demo_entry ''1'' ''o'' DirectionCredit 1000 0 1000 1, demo_entry ''2'' ''b'' DirectionDebit 250 1000 750 2,
       demo_entry ''3'' ''f'' DirectionCredit 250 750 1000 3],
     inbox = [], outbox = [], works = []\<rparr>"

lemmas demo_refunded_defs = demo_refunded_def demo_row_def demo_entry_def opening_tx_def

lemma demo_refunded_good: "good demo_env demo_refunded"
proof -
  have "books_ok demo_refunded"
    by (simp add: books_ok_def demo_refunded_defs tbl_inv_def books_of_def entry_fits_def)
  moreover have "tbl_inv l_id (ledger demo_refunded)" "tbl_inv t_id (txs demo_refunded)"
    by (simp_all add: tbl_inv_def demo_refunded_defs)
  moreover have "keys_ok (txs demo_refunded)" by (simp add: keys_ok_def tx_clash_def demo_refunded_defs)
  moreover have "links_ok (txs demo_refunded)"
    by (simp add: links_ok_def linked_def demo_refunded_defs)
  then have "reversals_ok (txs demo_refunded)"
    by (simp add: reversals_ok_def) (simp add: demo_refunded_defs reverses_def active_win_def IsReversalKind_def)
  moreover have "entries_ok (txs demo_refunded) (ledger demo_refunded)"
    by (simp add: entries_ok_def posted_def direction_ok_def demo_refunded_defs reversalDirection_def)
  moreover have "works_ok (txs demo_refunded) (works demo_refunded)"
    by (simp add: works_ok_def tbl_inv_def demo_refunded_defs)
  moreover have "validCurrency ''BRL''" by code_simp
  then have "stored_ok demo_env demo_refunded"
    by (simp add: stored_ok_def currency_ok_def demo_refunded_defs canon_def demo_env_def tx_checks_def)
  moreover have "uuid_law demo_env" using demo_env_props(2) by (simp add: fresh_def)
  ultimately show ?thesis by (simp add: good_def sound_def)
qed

end
