(* ===== verification/Guarantees.thy ===== *)
theory Guarantees
  imports Example_Run
begin

text \<open>
  The guarantees of the service, stated over every store that it can reach by any calls, with any clock,
  random draws and identifiers and with any statements lost on the way; and their instances on the concrete
  run.
\<close>

section \<open>The ledger\<close>

text \<open>C2. The ledger is the balance. In every reachable store every wallet has a balance that is not negative and
  equals the exact sum of its signed ledger entries (no 64-bit overflow); its entries, read in insertion
  order, have consecutive versions, and the last one carries the wallet's version and balance.\<close>

theorem reachable_ledger_is_balance:
  assumes "reachable E T" "r \<in> set (wallets T)"
  shows "0 \<le> sint (wr_balance r) \<and>
    sint (wr_balance r) = (\<Sum>e\<leftarrow>ledger_of (wr_id r) (ledger T). signed_amount (l_direction e) (l_amount e)) \<and>
    (\<exists>v. map (\<lambda>e. sint (l_version e)) (ledger_of (wr_id r) (ledger T)) = map (\<lambda>i. v + int i) [0..<length (ledger_of (wr_id r) (ledger T))]) \<and>
    (ledger_of (wr_id r) (ledger T) \<noteq> [] \<longrightarrow>
       l_version (last (ledger_of (wr_id r) (ledger T))) = wr_version r \<and> l_after (last (ledger_of (wr_id r) (ledger T))) = wr_balance r)"
proof -
  have "books_ok T" using reachable_good [OF assms(1)] by (simp add: good_def sound_def)
  then have b: "books_of r (ledger_of (wr_id r) (ledger T))" "0 \<le> sint (wr_balance r)"
    using assms(2) by (simp_all add: books_ok_def)
  obtain v where "map (\<lambda>e. sint (l_version e)) (ledger_of (wr_id r) (ledger T)) = map (\<lambda>i. v + int i) [0..<length (ledger_of (wr_id r) (ledger T))]"
    using books_versions [OF b(1)] by blast
  then show ?thesis using b(2) books_sum [OF b(1)] books_last [OF b(1)] by blast
qed

lemma reachable_ledger_is_balance_witness:
  "\<exists>T r. reachable demo_env T \<and> r \<in> set (wallets T) \<and> sint (wr_balance r) = 1000 \<and>
     (\<Sum>e\<leftarrow>ledger_of (wr_id r) (ledger T). signed_amount (l_direction e) (l_amount e)) = 1000"
proof -
  obtain w :: world where w: "reachable demo_env (tabs w)" "wallets (tabs w) = [demo_wallet]" using demo_run by blast
  from reachable_ledger_is_balance [OF w(1), of demo_wallet] w show ?thesis by (intro exI conjI) (auto simp: w(2))
qed

text \<open>C12. Exactly once. In every reachable store every processed transaction other than a loss has exactly one
  ledger entry, with its wallet, amount and currency, whose balance and version are the ones the transaction
  reports.\<close>

theorem reachable_posted_once:
  assumes "reachable E T"
  shows "\<forall>x \<in> set (txs T). t_state x = StateProcessed \<and> t_kind x \<noteq> KindLoss \<longrightarrow>
      (\<exists>!e. e \<in> set (ledger T) \<and> l_tx e = t_id x) \<and> (\<forall>e \<in> set (ledger T). l_tx e = t_id x \<longrightarrow> posted x e)"
proof -
  have s: "sound T" using reachable_good [OF assms] by (simp add: good_def)
  note en = soundD(6) [OF s] and inv = soundD(3) [OF s]
  have own: "posted x e" if x: "x \<in> set (txs T)" and e: "e \<in> set (ledger T)" "l_tx e = t_id x" for x e
  proof -
    obtain y where y: "y \<in> set (txs T)" "posted y e" using en e(1) by (auto simp: entries_ok_def)
    then have "t_id y = t_id x" using e(2) by (simp add: posted_def)
    from id_unique [OF inv y(1) x this] y(2) show ?thesis by simp
  qed
  have "inj_on l_tx (set (ledger T))" using en by (simp add: entries_ok_def distinct_map)
  then have "\<exists>!e. e \<in> set (ledger T) \<and> l_tx e = t_id x" if x: "x \<in> set (txs T)" "t_state x = StateProcessed" "t_kind x \<noteq> KindLoss" for x
    using en x unfolding entries_ok_def inj_on_def by metis
  with own en show ?thesis unfolding entries_ok_def by blast
qed

lemma reachable_posted_once_witness:
  "\<exists>T x e. reachable demo_env T \<and> x \<in> set (txs T) \<and> t_kind x = KindBet \<and> e \<in> set (ledger T) \<and> posted x e"
proof -
  obtain T x where x: "reachable demo_env T" "x \<in> set (txs T)" "t_state x = StateProcessed" "t_kind x = KindBet"
    by (rule demo_processed_row)
  have "t_kind x \<noteq> KindLoss" using x(4) by simp
  with reachable_posted_once [OF x(1)] x(2,3) have "\<exists>e \<in> set (ledger T). posted x e" unfolding Ex1_def by blast
  with x show ?thesis by blast
qed

section \<open>Idempotency\<close>

lemma Submit_key_reuse_witness:
  "\<exists>w r w1. Submit demo_env demo_bet w = (Inr r, w1) \<and> sr_outcome r = OutcomeProcessed \<and>
     (case Submit demo_env demo_bet w1 of (Inl e, w3) \<Rightarrow> tabs w3 = tabs w1
      | (Inr r2, w3) \<Rightarrow> tabs w3 = tabs w1 \<and> answers demo_env r r2)"
proof -
  obtain w k w1 where w: "idle demo_env w" "Submit demo_env demo_bet w = (Inr (demo_answer k), w1)"
    using demo_run by blast
  from Submit_key_reuse [OF w(1,2), of w1 demo_bet] w(2) show ?thesis
    by (intro exI conjI) (auto split: prod.splits sum.splits)
qed

lemma Submit_repeat_answered_witness:
  "\<exists>w r w1 r2 w3. Submit demo_env demo_bet w = (Inr r, w1) \<and> Submit demo_env demo_bet w1 = (Inr r2, w3) \<and>
     sr_balance r2 = Some (mk_money 750 ''BRL'') \<and> sr_replay r2 \<and> tabs w3 = tabs w1"
proof -
  obtain w k w1 where w: "idle demo_env w" "Submit demo_env demo_bet w = (Inr (demo_answer k), w1)"
    using demo_run by blast
  from Submit_repeat_answered [OF w(1) demo_env_props(1) w(2), of w1] obtain r2 w3
    where r2: "Submit demo_env demo_bet w1 = (Inr r2, w3)" "tabs w3 = tabs w1" "answers demo_env (demo_answer k) r2" by auto
  then have "sr_balance r2 = Some (mk_money 750 ''BRL'')" "sr_replay r2" by (simp_all add: answers_def)
  with w(2) r2(1,2) show ?thesis by blast
qed

section \<open>Reversals\<close>

text \<open>C3. Anti-overpayment. After any run of the service, a processed transaction has at most one processed reversal
  that has not itself been undone, that reversal is of the same wallet, amount, currency and provider and of a
  kind that may reverse it, and a bet that has one has no standing win.\<close>

theorem reversed_once:
  assumes run: "idle E w" "(serves E)\<^sup>*\<^sup>* w w'" and T: "T = tabs w'"
    and x: "x \<in> set (txs T)" "reverses x t" "t \<in> set (txs T)"
  shows "linked x t \<and> (\<forall>y \<in> set (txs T). reverses y t \<longrightarrow> y = x) \<and> (\<forall>w \<in> set (txs T). \<not> active_win (t_id t) w)"
proof -
  have s: "sound T" using runs_progress [OF run(2,1)] T by (simp add: good_def idle_def)
  note rev = soundD(5) [OF s] and inv = soundD(3) [OF s]
  have mark: "t_reversed_tx t = Some (t_id y)" if y: "y \<in> set (txs T)" "reverses y t" for y
  proof -
    obtain v where v: "v \<in> set (txs T)" "t_ref_tx y = Some (t_id v)" "t_reversed_tx v = Some (t_id y)"
      using reversals_okD(3) [OF rev y(1)] y(2) by (auto simp: reverses_def)
    then have "t_id v = t_id t" using y(2) by (simp add: reverses_def)
    from id_unique [OF inv v(1) x(3) this] v(3) show ?thesis by simp
  qed
  have "y = x" if "y \<in> set (txs T)" "reverses y t" for y
    using mark [OF that] mark [OF x(1,2)] id_unique [OF inv that(1) x(1)] by simp
  moreover obtain v where "v \<in> set (txs T)" "t_id v = t_id t" "linked x v"
    using links_okD [OF reversals_okD(1) [OF rev] x(1)] x(2) by (auto simp: reverses_def)
  then have "linked x t" using id_unique [OF inv _ x(3)] by blast
  moreover have "\<not> active_win (t_id t) w" if "w \<in> set (txs T)" for w
    using reversals_okD(4) [OF rev x(3) that] mark [OF x(1,2)] by auto
  ultimately show ?thesis by blast
qed

lemma reversed_once_witness:
  "\<exists>b f. b \<in> set (txs demo_refunded) \<and> f \<in> set (txs demo_refunded) \<and> t_kind b = KindBet \<and> reverses f b \<and>
     (\<forall>y \<in> set (txs demo_refunded). reverses y b \<longrightarrow> y = f)"
proof -
  let ?w = "\<lparr>tabs = demo_refunded, tick = 0, aborted = False\<rparr>"
  let ?b = "demo_row ''b'' KindBet None 750 2 (Some ''f'')" and ?f = "demo_row ''f'' KindRefund (Some ''b'') 1000 3 None"
  have "idle demo_env ?w" using demo_refunded_good by (simp add: idle_def)
  moreover have m: "?f \<in> set (txs demo_refunded)" "?b \<in> set (txs demo_refunded)" "reverses ?f ?b"
    by (simp_all add: demo_refunded_def reverses_def demo_row_def IsReversalKind_def)
  ultimately have "\<forall>y \<in> set (txs demo_refunded). reverses y ?b \<longrightarrow> y = ?f"
    using reversed_once [of demo_env ?w ?w demo_refunded ?f ?b] by simp
  moreover have "t_kind ?b = KindBet" by (simp add: demo_row_def)
  ultimately show ?thesis using m by blast
qed

section \<open>Parked transactions\<close>

text \<open>C20. No parked transaction is forgotten. In every reachable store the work table has exactly one item for
  every transaction that waits for its reference, and none for any other.\<close>

theorem reachable_parked_scheduled:
  assumes "reachable E T"
  shows "distinct (map k_tx (works T)) \<and>
    k_tx ` set (works T) = t_id ` {x \<in> set (txs T). t_state x = StatePendingReference}"
proof -
  have "works_ok (txs T) (works T)" using reachable_good [OF assms] by (simp add: good_def sound_def)
  then show ?thesis by (auto simp: works_ok_def tbl_inv_def) force+
qed

text \<open>C11. Well-formed rows. In every reachable store: identifiers are in the form that the database prints and unique;
  wallets have a valid currency, a non-negative balance and a version of at least 1; transactions are of an external kind with
  all the fields of a request, or internal openings without them, and none is in the initial state; every entry belongs
  to a stored wallet, in its currency, and to a stored transaction of that wallet.\<close>

theorem reachable_well_formed:
  assumes "reachable E T"
  shows "distinct (map wr_id (wallets T)) \<and> distinct (map t_id (txs T)) \<and> distinct (map l_id (ledger T)) \<and>
    (\<forall>r \<in> set (wallets T). e_uuid E (wr_id r) = Some (wr_id r) \<and> validCurrency (wr_currency r) \<and> 0 \<le> sint (wr_balance r) \<and>
       1 \<le> sint (wr_version r)) \<and>
    (\<forall>x \<in> set (txs T). e_uuid E (t_id x) = Some (t_id x) \<and> t_state x \<noteq> StatePending \<and> (\<forall>s. t_kind x \<noteq> KindUnknown s) \<and>
       (if t_origin x = INTERNAL then t_kind x = KindOpening \<and> t_provider x = None \<and> t_external x = None \<and> t_key x = None
        else t_kind x \<noteq> KindOpening \<and> t_provider x \<noteq> None \<and> t_external x \<noteq> None \<and> t_key x \<noteq> None \<and> t_hash x \<noteq> None)) \<and>
    (\<forall>e \<in> set (ledger T). \<exists>r \<in> set (wallets T). \<exists>x \<in> set (txs T). l_wallet e = wr_id r \<and> l_currency e = wr_currency r \<and>
       t_id x = l_tx e \<and> t_wallet x = wr_id r)"
proof -
  have g: "sound T" "stored_ok E T" using reachable_good [OF assms] by (simp_all add: good_def)
  note d = soundD [OF g(1)]
  have x: "e_uuid E (t_id x) = Some (t_id x) \<and> t_state x \<noteq> StatePending \<and> (\<forall>s. t_kind x \<noteq> KindUnknown s) \<and>
       (if t_origin x = INTERNAL then t_kind x = KindOpening \<and> t_provider x = None \<and> t_external x = None \<and> t_key x = None
        else t_kind x \<noteq> KindOpening \<and> t_provider x \<noteq> None \<and> t_external x \<noteq> None \<and> t_key x \<noteq> None \<and> t_hash x \<noteq> None)"
    if "x \<in> set (txs T)" for x
  proof -
    have "canon E (t_id x)" "tx_checks x" "t_state x \<noteq> StatePending" using g(2) that by (simp_all add: stored_ok_def)
    then show ?thesis by (cases "t_origin x") (auto simp: canon_def tx_checks_def)
  qed
  have e: "\<exists>r \<in> set (wallets T). \<exists>x \<in> set (txs T). l_wallet e = wr_id r \<and> l_currency e = wr_currency r \<and>
       t_id x = l_tx e \<and> t_wallet x = wr_id r" if "e \<in> set (ledger T)" for e
  proof -
    note e = that
    obtain y where y: "y \<in> set (txs T)" "posted y e" using d(6) e by (auto simp: entries_ok_def)
    obtain r where r: "r \<in> set (wallets T)" "l_wallet e = wr_id r" using d(1) e by (auto simp: books_ok_def)
    have "l_currency e = wr_currency r" using g(2) e r by (simp add: stored_ok_def currency_ok_def)
    with y r show ?thesis by (intro bexI [of _ r] bexI [of _ y]) (simp_all add: posted_def)
  qed
  have r: "e_uuid E (wr_id r) = Some (wr_id r) \<and> validCurrency (wr_currency r) \<and> 0 \<le> sint (wr_balance r) \<and> 1 \<le> sint (wr_version r)"
    if "r \<in> set (wallets T)" for r
    using d(1) g(2) that by (simp add: books_ok_def stored_ok_def currency_ok_def canon_def)
  have "distinct (map wr_id (wallets T))" "distinct (map t_id (txs T))" "distinct (map l_id (ledger T))"
    using d(1,2,3) by (simp_all add: books_ok_def tbl_inv_def)
  with x e r show ?thesis by blast
qed

lemma reachable_well_formed_witness:
  "\<exists>T. reachable demo_env T \<and> wallets T = [demo_wallet] \<and> distinct (map t_id (txs T)) \<and>
     (\<forall>e \<in> set (ledger T). l_wallet e = ''a'' \<and> l_currency e = ''BRL'')"
proof -
  obtain w :: world where w: "wallets (tabs w) = [demo_wallet]" "reachable demo_env (tabs w)" using demo_run by blast
  from reachable_well_formed [OF w(2)] have "distinct (map t_id (txs (tabs w)))"
    "\<forall>e \<in> set (ledger (tabs w)). \<exists>r \<in> set (wallets (tabs w)). l_wallet e = wr_id r \<and> l_currency e = wr_currency r" by blast+
  with w show ?thesis by (intro exI [of _ "tabs w"]) simp
qed

lemma reachable_parked_scheduled_witness:
  "\<exists>T. reachable demo_env T \<and> wallets T = [demo_wallet] \<and>
     k_tx ` set (works T) = t_id ` {x \<in> set (txs T). t_state x = StatePendingReference}"
proof -
  obtain w :: world where w: "reachable demo_env (tabs w)" "wallets (tabs w) = [demo_wallet]" using demo_run by blast
  from reachable_parked_scheduled [OF w(1)] w show ?thesis by blast
qed

section \<open>Submissions\<close>

text \<open>C4. Submit implements the abstract machine. A submission that returns an error leaves every table as it was.
  One that returns a result has made only steps of the machine, leaves a store that is sound again, was for a
  wallet of exactly its player and currency, and names a stored transaction of its provider with its key or
  its external id.\<close>

theorem Submit_refines_machine:
  assumes "idle E w" "Submit E i w = (res, w')"
  shows "case res of Inl e \<Rightarrow> tabs w' = tabs w
    | Inr r \<Rightarrow> machine\<^sup>*\<^sup>* (tabs w) (tabs w') \<and> sound (tabs w') \<and> (\<exists>q. own_wallet E i (tabs w) q) \<and>
       (\<exists>x \<in> set (txs (tabs w')). e_uuid E (sr_tx r) = Some (t_id x) \<and> t_provider x = Some (s_provider i) \<and>
          (t_key x = Some (s_key i) \<or> t_external x = Some (s_external i)))"
proof (cases res)
  case (Inl e)
  have "good E (tabs w)" "\<not> aborted w" using assms(1) by (simp_all add: idle_def)
  from run_cases [OF tspec_Submit [OF this(1)] closed_Submit this(2) assms(2)] Inl show ?thesis by simp
next
  case (Inr r)
  have g: "good E (tabs w)" using assms(1) by (simp add: idle_def)
  have p: "submit_post E i (tabs w) r (tabs w')" and i': "idle E w'" using run_submit [OF assms(1)] assms(2) Inr by blast+
  have "machine\<^sup>*\<^sup>* (tabs w) (tabs w')" "\<exists>q. own_wallet E i (tabs w) q"
    using submit_post_progress [OF g p] p by (auto simp: progress_def submit_post_def submitted_def)
  moreover have "sound (tabs w')" using i' by (simp add: idle_def good_def)
  ultimately show ?thesis using result_row [OF g p] Inr by simp
qed

lemma Submit_refines_machine_witness:
  "\<exists>w r w'. Submit demo_env demo_bet w = (Inr r, w') \<and> sr_balance r = Some (mk_money 750 ''BRL'') \<and>
    machine\<^sup>*\<^sup>* (tabs w) (tabs w') \<and> sound (tabs w')"
proof -
  obtain w k w' where w: "idle demo_env w" "Submit demo_env demo_bet w = (Inr (demo_answer k), w')" using demo_run by blast
  have "machine\<^sup>*\<^sup>* (tabs w) (tabs w') \<and> sound (tabs w')" using Submit_refines_machine [OF w] by simp
  then show ?thesis using w(2) by (intro exI [of _ w] exI [of _ "demo_answer k"] exI [of _ w']) simp
qed

text \<open>What an accepted submission has passed. A result is returned only for a submission with provider, external
  id and idempotency key, of one of the five external kinds, whose amount parses in its currency and is
  positive (zero for a loss), and which names its reference if it is a refund or a rollback.\<close>

theorem Submit_checked:
  assumes "Submit E i w = (Inr r, w')"
  shows "s_provider i \<noteq> [] \<and> s_external i \<noteq> [] \<and> s_key i \<noteq> [] \<and>
    s_kind i \<in> {KindBet, KindWin, KindLoss, KindRefund, KindRollback} \<and>
    (\<exists>a. ParseMoney (s_amount i) (s_currency i) = Inr a \<and>
       (if s_kind i = KindLoss then IsZero a else IsPositive a)) \<and>
    (s_kind i \<in> {KindRefund, KindRollback} \<longrightarrow> s_ref i \<noteq> [])"
proof (cases "validate_input i")
  case (Inl c)
  with assms show ?thesis by (simp add: Submit_def fail_def)
next
  case (Inr ah)
  obtain a h where "ah = (a, h)" by (cases ah)
  with Inr validate_input_InrD [of i a h] show ?thesis
    by (cases "s_kind i") (auto simp: ValidateExternalKind_def ValidateAmountForKind_def IsReversalKind_def split: if_splits)
qed

lemma Submit_checked_witness: "\<exists>w r w'. Submit demo_env demo_bet w = (Inr r, w') \<and> s_kind demo_bet \<noteq> KindOpening"
proof -
  obtain w k w' where w: "Submit demo_env demo_bet w = (Inr (demo_answer k), w')" using demo_run by blast
  from Submit_checked [OF this] w show ?thesis by auto
qed

text \<open>Poisoned messages. A message id that was recorded with other contents is refused with the poison error
  (or an error of the database) before the transaction begins, and no table changes.\<close>

theorem Submit_poison:
  assumes "validate_input i = Inr (a, h)" "s_message i \<noteq> []"
    and "tbl_find i_id (s_consumer i, s_message i) (inbox (tabs w)) = Some b" "i_hash b \<noteq> h"
  shows "\<exists>e w'. Submit E i w = (Inl e, w') \<and> tabs w' = tabs w \<and> (sure E \<longrightarrow> e = ErrPoison (s_message i) (i_hash b) h)"
  using assms
  by (auto simp: Submit_def bind_def inbox_check_def FindInbox_def autocommit_def stmt_def fail_def sure_def)

text \<open>C17. Bets. When no statement is lost, a new HTTP bet on a wallet of its player and currency always gets an
  answer: if the balance covers the amount it is processed, with exactly the balance minus the amount and the
  next version; otherwise it is rejected with INSUFFICIENT_BALANCE and the balance and version stay.\<close>

theorem Submit_bet:
  assumes "idle E w" "sure E" "new_ids E w" "validate_input i = Inr (a, h)" "s_kind i = KindBet"
    "fresh_submission E i r (tabs w)"
  shows "\<exists>res w'. Submit E i w = (Inr res, w') \<and> \<not> sr_replay res \<and>
    (if sint (minor a) \<le> sint (wr_balance r)
     then sr_outcome res = OutcomeProcessed \<and> sr_balance res = Some (mk_money (wr_balance r - minor a) (wr_currency r)) \<and>
       sint (wr_balance r - minor a) = sint (wr_balance r) - sint (minor a) \<and> sr_version res = wr_version r + 1
     else sr_outcome res = OutcomeRejected \<and> sr_failure res = ''INSUFFICIENT_BALANCE'' \<and>
       sr_balance res = Some (mk_money (wr_balance r) (wr_currency r)) \<and> sr_version res = wr_version r)"
proof -
  have "r \<in> set (wallets (tabs w))" using assms(6) tbl_find_SomeD [of wr_id] by (auto simp: fresh_submission_def)
  then have "0 \<le> sint (wr_balance r)" using assms(1) by (simp add: idle_def good_def sound_def books_ok_def)
  moreover have "0 \<le> sint (minor a)"
    using validate_input_InrD(8) [OF assms(4)] assms(5) by (auto simp: ValidateAmountForKind_def IsPositive_def split: if_splits)
  ultimately have "sint (wr_balance r - minor a) = sint (wr_balance r) - sint (minor a)"
    using sint_diff_exact [of "wr_balance r" "minor a"] sint_upper [of "wr_balance r"] sint_upper [of "minor a"]
    by (simp add: in_int64_def)
  then show ?thesis using Submit_bet_returns [OF assms] by (auto simp: bet_result_def)
qed

lemma Submit_bet_witness:
  "\<exists>w res w'. Submit demo_env demo_bet w = (Inr res, w') \<and> sr_outcome res = OutcomeProcessed \<and>
    sr_balance res = Some (mk_money 750 ''BRL'')"
proof -
  obtain w where w: "idle demo_env w" "new_ids demo_env w" "fresh_submission demo_env demo_bet demo_wallet (tabs w)"
    using demo_opened by metis
  obtain h where "validate_input demo_bet = Inr (mk_money 250 ''BRL'', h)" using demo_bet_valid by blast
  from Submit_bet [OF w(1) demo_env_props(1) w(2) this _ w(3)] show ?thesis by auto
qed

lemma Submit_poison_witness:
  "\<exists>w e w' s h. Submit demo_env (demo_bet\<lparr>s_message := ''m'', s_consumer := ''c''\<rparr>) w = (Inl (ErrPoison ''m'' s h), w')"
proof -
  let ?i = "demo_bet\<lparr>s_message := ''m'', s_consumer := ''c''\<rparr>"
  let ?b = "\<lparr>i_consumer = ''c'', i_message = ''m'', i_hash = [], i_concluded = None\<rparr>"
  let ?w = "\<lparr>tabs = empty_tables\<lparr>inbox := [?b]\<rparr>, tick = 0, aborted = False\<rparr>"
  obtain h where h: "validate_input demo_bet = Inr (mk_money 250 ''BRL'', h)" using demo_bet_valid by blast
  have "hash_input_of ?i = hash_input_of demo_bet" by (simp add: hash_input_of_def)
  then have "validate_input ?i = validate_input demo_bet"
    by (simp add: validate_input_def cong: sum.case_cong option.case_cong if_cong)
  then have v: "validate_input ?i = Inr (mk_money 250 ''BRL'', h)" using h by simp
  have "h \<noteq> []" using validate_input_InrD(2) [OF h] by (auto simp: PayloadHash_eq dest: arg_cong [where f = length])
  then show ?thesis using Submit_poison [OF v, of ?w ?b demo_env] demo_env_props(1) by (simp add: i_id_def) blast
qed

section \<open>Wallets\<close>

text \<open>C36. Opening a wallet. When no statement is lost and the player has no wallet in the currency, opening one with
  a well-formed amount that is not negative returns the new wallet with version 1 and that balance, and the
  store keeps exactly one more wallet, the returned one.\<close>

theorem OpenWallet_opens:
  assumes "idle E w" "sure E" "new_ids E w" "ParseMoney s c = Inr m" "\<not> IsNegative m" "e_uuid E p = Some p'" "p \<noteq> []"
    and "wallet_free E (e_ids E (tick w)) p' c (tabs w)"
  shows "\<exists>r w'. OpenWallet E p c s w = (Inr r, w') \<and> wr_balance r = minor m \<and> wr_version r = 1 \<and> wr_currency r = c \<and>
    wallets (tabs w') = wallets (tabs w) @ [r\<lparr>wr_player := p'\<rparr>] \<and> sound (tabs w')"
  using OpenWallet_returns [OF assms] by (auto simp: opened_row_def idle_def good_def)

lemma OpenWallet_opens_witness:
  "\<exists>r w'. OpenWallet demo_env ''p'' ''BRL'' ''10.00'' demo_empty = (Inr r, w') \<and> wr_balance r = 1000 \<and> wr_version r = 1"
proof -
  have "wallet_free demo_env (e_ids demo_env (tick demo_empty)) ''p'' ''BRL'' (tabs demo_empty)"
    by (simp add: wallet_free_def demo_empty_def empty_tables_def)
  from OpenWallet_opens [OF demo_env_props(3,1,4) demo_amounts(1) _ _ _ this] show ?thesis
    by (auto simp: demo_env_def IsNegative_def)
qed

text \<open>One wallet per player and currency. If the player has a wallet in the currency already, opening another
  one fails and changes no table.\<close>

theorem OpenWallet_duplicate:
  assumes "idle E w" "e_uuid E p = Some (wr_player q)" "q \<in> set (wallets (tabs w))" "wr_currency q = c"
  shows "\<exists>e w'. OpenWallet E p c s w = (Inl e, w') \<and> tabs w' = tabs w"
proof -
  obtain res w' where run: "OpenWallet E p c s w = (res, w')" by fastforce
  have g: "good E (tabs w)" "\<not> aborted w" using assms(1) by (simp_all add: idle_def)
  from run_cases [OF tspec_OpenWallet [OF g(1)] closed_OpenWallet g(2) run] assms(2-4) run
  show ?thesis by (cases res) (auto simp: opens_def)
qed

lemma OpenWallet_duplicate_witness:
  "\<exists>w e w'. demo_wallet \<in> set (wallets (tabs w)) \<and> OpenWallet demo_env ''p'' ''BRL'' ''1.00'' w = (Inl e, w') \<and> tabs w' = tabs w"
proof -
  obtain w where w: "idle demo_env w" "wallets (tabs w) = [demo_wallet]" using demo_run by blast
  have "e_uuid demo_env ''p'' = Some (wr_player demo_wallet)" by (simp add: demo_env_def)
  from OpenWallet_duplicate [OF w(1) this, of "''BRL''" "''1.00''"] w(2)
  have "demo_wallet \<in> set (wallets (tabs w)) \<and> (\<exists>e w'. OpenWallet demo_env ''p'' ''BRL'' ''1.00'' w = (Inl e, w') \<and> tabs w' = tabs w)"
    by simp
  then show ?thesis by blast
qed

section \<open>Background work\<close>

text \<open>The worker implements the machine. A run over the due work makes only steps of the machine and leaves a
  sound store, whatever statements are lost; when it returns an error it has changed nothing.\<close>

theorem ProcessDueWork_refines_machine:
  assumes "idle E w" "ProcessDueWork E owner n w = (res, w')"
  shows "machine\<^sup>*\<^sup>* (tabs w) (tabs w') \<and> sound (tabs w') \<and> (\<forall>e. res = Inl e \<longrightarrow> tabs w' = tabs w)"
proof -
  have g: "good E (tabs w)" "\<not> aborted w" using assms(1) by (simp_all add: idle_def)
  have "progress E (tabs w) (tabs w') \<and> idle E w'"
    using serves_progress [OF serves.worker assms(1), of owner n] assms(2) by simp
  moreover have "\<forall>e. res = Inl e \<longrightarrow> tabs w' = tabs w"
    using run_cases [OF tspec_ProcessDueWork [OF g(1)] closed_ProcessDueWork g(2) assms(2)] by auto
  ultimately show ?thesis by (simp add: progress_def idle_def good_def)
qed

lemma ProcessDueWork_refines_machine_witness:
  "\<exists>w res w'. idle demo_env w \<and> ProcessDueWork demo_env ''me'' 10 w = (res, w') \<and> machine\<^sup>*\<^sup>* (tabs w) (tabs w')"
proof -
  obtain res w' where "ProcessDueWork demo_env ''me'' 10 demo_empty = (res, w')" by fastforce
  from ProcessDueWork_refines_machine [OF demo_env_props(3) this] this demo_env_props(3) show ?thesis by blast
qed

end
