(* ===== verification/Ledger_Reads.thy ===== *)
theory Ledger_Reads
  imports Reconcile Guarantees "HOL-Library.Multiset"
begin

text \<open>
  What the read-only use-cases return: a page holds exactly the entries between its cursor and the next one,
  whatever is appended meanwhile; following the cursors returns the whole ledger and ends; reconciliation
  computes the exact balance of the ledger.
\<close>

section \<open>The entries of a wallet in order\<close>

abbreviation ver :: "ledger_row \<Rightarrow> int" where "ver e \<equiv> sint (l_version e)"

text \<open>Strictly increasing versions.\<close>

definition ordered :: "ledger_row list \<Rightarrow> bool" where
  "ordered es \<longleftrightarrow> sorted_wrt (<) (map ver es) \<and> (\<forall>e \<in> set es. 1 \<le> ver e)"

lemma ledger_ordered:
  assumes "good E T"
  shows "ordered (ledger_of u (ledger T))"
proof (cases "u \<in> wr_id ` set (wallets T)")
  case True
  then obtain r where r: "r \<in> set (wallets T)" "wr_id r = u" by auto
  have b: "books_of r (ledger_of u (ledger T))" using assms r by (auto simp: good_def sound_def books_ok_def)
  obtain v where v: "map ver (ledger_of u (ledger T)) = map (\<lambda>i. v + int i) [0..<length (ledger_of u (ledger T))]" "1 \<le> v"
    by (rule books_versions [OF b])
  have "sorted_wrt (<) (map ver (ledger_of u (ledger T)))"
    unfolding v(1) by (simp add: sorted_wrt_iff_nth_less)
  moreover have "1 \<le> ver e" if "e \<in> set (ledger_of u (ledger T))" for e
  proof -
    have "ver e \<in> set (map ver (ledger_of u (ledger T)))" using that by simp
    then show ?thesis unfolding v(1) using v(2) by auto
  qed
  ultimately show ?thesis by (simp add: ordered_def)
next
  case False
  then have "ledger_of u (ledger T) = []"
    using assms by (intro ledger_of_fresh) (auto simp: good_def sound_def books_ok_def)
  then show ?thesis by (simp add: ordered_def)
qed

lemma by_version_ordered: "ordered es \<Longrightarrow> by_version es = es"
  by (simp add: by_version_def ordered_def sort_key_id_if_sorted strict_sorted_imp_sorted)

lemma ordered_filter: "ordered es \<Longrightarrow> ordered (filter P es)"
  by (auto simp: ordered_def sorted_wrt_map intro: sorted_wrt_filter)

lemma ordered_append: "ordered (xs @ ys) \<longleftrightarrow> ordered xs \<and> ordered ys \<and> (\<forall>x \<in> set xs. \<forall>y \<in> set ys. ver x < ver y)"
  by (auto simp: ordered_def sorted_wrt_append)

text \<open>Cutting an ordered list after its first \<open>n\<close> entries is cutting it at a version.\<close>

lemma ordered_take:
  assumes "ordered fs" "n < length fs" "0 < n" "b = l_version (last (take n fs))"
  shows "filter (\<lambda>e. ver e \<le> sint b) fs = take n fs" "filter (\<lambda>e. sint b < ver e) fs = drop n fs"
proof -
  let ?xs = "take n fs" and ?ys = "drop n fs"
  have o: "ordered (?xs @ ?ys)" using assms(1) by simp
  have ne: "?xs \<noteq> []" using assms(2,3) by auto
  have le: "ver x \<le> sint b" if "x \<in> set ?xs" for x
  proof -
    have "?xs = butlast ?xs @ [last ?xs]" using ne by simp
    with o have "ordered (butlast ?xs @ [last ?xs])" by (metis ordered_append)
    then have "x \<in> set (butlast ?xs) \<Longrightarrow> ver x < ver (last ?xs)" by (simp only: ordered_append) auto
    moreover have "x \<in> set (butlast ?xs) \<or> x = last ?xs"
      using that by (metis \<open>?xs = butlast ?xs @ [last ?xs]\<close> Un_iff empty_iff insert_iff list.set set_append)
    ultimately show ?thesis using assms(4) by auto
  qed
  have gt: "sint b < ver y" if "y \<in> set ?ys" for y
    using o ne that last_in_set [OF ne] assms(4) unfolding ordered_append by blast
  have "filter (\<lambda>e. ver e \<le> sint b) (?xs @ ?ys) = ?xs"
    using le gt by (simp only: filter_append) (simp add: filter_empty_conv not_le)
  then show "filter (\<lambda>e. ver e \<le> sint b) fs = ?xs" by simp
  have "filter (\<lambda>e. sint b < ver e) (?xs @ ?ys) = ?ys"
    using le gt by (simp only: filter_append) (simp add: filter_empty_conv not_less)
  then show "filter (\<lambda>e. sint b < ver e) fs = ?ys" by simp
qed

section \<open>One page\<close>

abbreviation after :: "i64 \<Rightarrow> ledger_row list \<Rightarrow> ledger_row list" where
  "after a es \<equiv> filter (\<lambda>e. sint a < ver e) es"

lemma page_limit_bounds: "1 \<le> page_limit l" "page_limit l \<le> 200"
  by (auto simp: page_limit_def Let_def LedgerDefaultLimit_def LedgerMaxLimit_def)

lemma sql_page_ordered:
  assumes "good E T" "e_uuid E wid = Some u"
  shows "sql_page E wid a n T = Inr (take n (after a (ledger_of u (ledger T))), T)"
  using assms by (simp add: sql_page_def uuid_in_def by_version_ordered [OF ordered_filter [OF ledger_ordered]])

lemma PageLedger_run:
  assumes g: "good E (tabs w)" and u: "e_uuid E wid = Some u" and c: "DecodeCursor cur = Inr a"
  shows "\<exists>res w'. PageLedger E wid cur l w = (res, w') \<and> tabs w' = tabs w \<and> \<not> aborted w' \<and>
    (sure E \<longrightarrow> (\<exists>pg. res = Inr pg)) \<and>
    (\<forall>pg. res = Inr pg \<longrightarrow> pg = page_of (page_limit l) (take (page_limit l + 1) (after a (ledger_of u (ledger (tabs w))))))"
  using sql_page_ordered [OF g u, of a "page_limit l + 1"] c
  by (auto simp: PageLedger_def bind_def autocommit_def ledger_Page_def stmt_def ret_def sure_def)

text \<open>A page of an ordered list.\<close>

lemma page_of_ordered:
  assumes o: "ordered fs" and n: "1 \<le> n" and pg: "pg = page_of n (take (n + 1) fs)"
  shows "if length fs \<le> n then p_entries pg = fs \<and> p_next pg = []
    else \<exists>b. p_entries pg = take n fs \<and> DecodeCursor (p_next pg) = Inr b \<and> p_next pg \<noteq> [] \<and> 1 \<le> sint b \<and>
      b = l_version (last (take n fs))"
proof (cases "length fs \<le> n")
  case False
  let ?b = "l_version (last (take n fs))"
  have "last (take n fs) \<in> set fs" using False n by (intro in_set_takeD [OF last_in_set]) auto
  then have "1 \<le> sint ?b" using o by (simp add: ordered_def)
  with False pg ledger_cursor.dec_enc [of ?b] ledger_cursor.enc_not_Nil [of ?b] show ?thesis
    by (simp add: page_of_def min_def)
qed (use pg in \<open>simp add: page_of_def\<close>)

text \<open>Later entries of a wallet have greater versions.\<close>

lemma later_entries:
  assumes g: "good E T'" and l: "later T T'" and e: "e \<in> set (ledger_of u (ledger T))" "\<And>f. ver e < ver f \<Longrightarrow> \<not> P f"
  shows "filter P (ledger_of u (ledger T')) = filter P (ledger_of u (ledger T))"
proof -
  obtain es where es: "ledger T' = ledger T @ es" using l by (auto simp: later_def)
  have "ordered (ledger_of u (ledger T) @ ledger_of u es)" using ledger_ordered [OF g, of u] es by simp
  then have "\<not> P f" if "f \<in> set (ledger_of u es)" for f
    using e that by (simp add: ordered_append)
  then show ?thesis using es by (simp add: filter_empty_conv)
qed

text \<open>C33. Pages neither skip nor repeat. A page of at most 200 entries holds, in order, exactly the wallet's entries
  with a version after its cursor up to the position that the next cursor decodes to; that stays true of
  the ledger after any calls of any use-cases, so appends between pages do not disturb a reader. A page
  without next cursor holds everything after its cursor. Reading a page changes nothing.\<close>

theorem PageLedger_exact:
  assumes "idle E w" "PageLedger E wid cur l w = (Inr pg, w1)" "DecodeCursor cur = Inr a" "e_uuid E wid = Some u"
    and "(serves E)\<^sup>*\<^sup>* w w2"
  shows "tabs w1 = tabs w \<and> length (p_entries pg) \<le> 200 \<and>
    (if p_next pg = [] then p_entries pg = after a (ledger_of u (ledger (tabs w)))
     else \<exists>b. DecodeCursor (p_next pg) = Inr b \<and> sint a < sint b \<and>
       p_entries pg = filter (\<lambda>e. sint a < ver e \<and> ver e \<le> sint b) (ledger_of u (ledger (tabs w2))))"
proof -
  have g: "good E (tabs w)" using assms(1) by (simp add: idle_def)
  let ?es = "ledger_of u (ledger (tabs w))" and ?n = "page_limit l"
  let ?fs = "after a ?es"
  have o: "ordered ?fs" by (rule ordered_filter [OF ledger_ordered [OF g]])
  have pg: "pg = page_of ?n (take (?n + 1) ?fs)" "tabs w1 = tabs w"
    using PageLedger_run [OF g assms(4,3), of l] assms(2) by auto
  note n = page_limit_bounds [of l] and spec = page_of_ordered [OF o n(1) pg(1)]
  show ?thesis
  proof (cases "length ?fs \<le> ?n")
    case True
    then show ?thesis using spec pg(2) n(2) by simp
  next
    case False
    then obtain b where b: "p_entries pg = take ?n ?fs" "DecodeCursor (p_next pg) = Inr b" "p_next pg \<noteq> []"
      "b = l_version (last (take ?n ?fs))" using spec by auto
    have cut: "filter (\<lambda>e. ver e \<le> sint b) ?fs = take ?n ?fs"
      using ordered_take(1) [OF o _ _ b(4)] False n(1) by simp
    have "last (take ?n ?fs) \<in> set (take ?n ?fs)" using False n(1) by (intro last_in_set) auto
    then have l: "last (take ?n ?fs) \<in> set ?fs" by (rule in_set_takeD)
    then have "sint a < sint b" using b(4) by auto
    moreover have "filter (\<lambda>e. sint a < ver e \<and> ver e \<le> sint b) (ledger_of u (ledger (tabs w2)))
        = filter (\<lambda>e. sint a < ver e \<and> ver e \<le> sint b) ?es"
      by (rule later_entries [of E _ "tabs w" "last (take ?n ?fs)"])
        (use runs_progress [OF assms(5,1)] runs_later [OF assms(5,1)] l b(4) in \<open>auto simp: idle_def\<close>)
    moreover have "filter (\<lambda>e. sint a < ver e \<and> ver e \<le> sint b) ?es = filter (\<lambda>e. ver e \<le> sint b) ?fs" by simp
    ultimately show ?thesis using b cut pg(2) n(2) by auto
  qed
qed

section \<open>Following the cursors\<close>

text \<open>A client that reads page after page, at most \<open>n\<close> of them.\<close>

fun read_pages :: "env \<Rightarrow> string \<Rightarrow> int \<Rightarrow> nat \<Rightarrow> string \<Rightarrow> ledger_row list action" where
  "read_pages E wid l 0 cur = fail (ErrOther ''more pages'')"
| "read_pages E wid l (Suc n) cur = bind (PageLedger E wid cur l) (\<lambda>pg.
     if p_next pg = [] then ret (p_entries pg)
     else bind (read_pages E wid l n (p_next pg)) (\<lambda>es. ret (p_entries pg @ es)))"

lemma read_pages_from:
  assumes "good E (tabs w)" "sure E" "e_uuid E wid = Some u" "DecodeCursor cur = Inr a"
    and "length (after a (ledger_of u (ledger (tabs w)))) < n"
  shows "\<exists>w'. read_pages E wid l n cur w = (Inr (after a (ledger_of u (ledger (tabs w)))), w') \<and> tabs w' = tabs w"
  using assms
proof (induction n arbitrary: cur a w)
  case (Suc n)
  let ?es = "ledger_of u (ledger (tabs w))" and ?k = "page_limit l"
  let ?fs = "after a ?es"
  have o: "ordered ?fs" by (rule ordered_filter [OF ledger_ordered [OF Suc.prems(1)]])
  obtain pg w1 where pg: "PageLedger E wid cur l w = (Inr pg, w1)" "tabs w1 = tabs w" "pg = page_of ?k (take (?k + 1) ?fs)"
    using PageLedger_run [OF Suc.prems(1,3,4), of l] Suc.prems(2) by auto
  note n = page_limit_bounds [of l] and spec = page_of_ordered [OF o n(1) pg(3)]
  show ?case
  proof (cases "length ?fs \<le> ?k")
    case True
    then show ?thesis using spec pg(1,2) by (simp add: bind_def ret_def)
  next
    case False
    then obtain b where b: "p_entries pg = take ?k ?fs" "DecodeCursor (p_next pg) = Inr b" "p_next pg \<noteq> []"
      "b = l_version (last (take ?k ?fs))" using spec by auto
    have "last (take ?k ?fs) \<in> set (take ?k ?fs)" using False n(1) by (intro last_in_set) auto
    then have "sint a < sint b" using b(4) by (auto dest: in_set_takeD)
    then have "after b ?es = after b ?fs" by (auto intro: filter_cong)
    also have "\<dots> = drop ?k ?fs" using ordered_take(2) [OF o _ _ b(4)] False n(1) by simp
    finally have rest: "after b ?es = drop ?k ?fs" .
    have "length (after b ?es) < n" unfolding rest using Suc.prems(5) False n(1) by simp
    then obtain w2 where "read_pages E wid l n (p_next pg) w1 = (Inr (drop ?k ?fs), w2)" "tabs w2 = tabs w1"
      using Suc.IH [of w1 "p_next pg" b] Suc.prems pg(2) b(2) rest by auto
    then show ?thesis using pg(1,2) b(1,3) by (simp add: bind_def ret_def)
  qed
qed simp

text \<open>C34. Following the cursors ends and returns everything. When no statement is lost, reading pages from the
  beginning until there is no next cursor ends after at most as many pages as the wallet has entries and one
  more, for every page size, and returns all entries of the wallet in order.\<close>

theorem read_pages_complete:
  assumes "idle E w" "sure E" "e_uuid E wid = Some u" "length (ledger_of u (ledger (tabs w))) < n"
  shows "\<exists>w'. read_pages E wid l n [] w = (Inr (ledger_of u (ledger (tabs w))), w') \<and> tabs w' = tabs w"
proof -
  have g: "good E (tabs w)" using assms(1) by (simp add: idle_def)
  have all: "after 0 (ledger_of u (ledger (tabs w))) = ledger_of u (ledger (tabs w))"
    using ledger_ordered [OF g, of u] by (auto simp: ordered_def filter_id_conv)
  show ?thesis using read_pages_from [OF g assms(2,3) ledger_cursor.dec_start, of n l] assms(4) unfolding all by simp
qed

section \<open>Reconciliation\<close>

definition ledger_sum :: "ledger_row list \<Rightarrow> int" where
  "ledger_sum es = (\<Sum>e\<leftarrow>es. signed_amount (l_direction e) (l_amount e))"

lemma apply_entry_InrD:
  "apply_entry m e = Inr m' \<Longrightarrow> currency m' = currency m \<and>
    sint (minor m') = sint (minor m) + signed_amount (l_direction e) (l_amount e)"
  by (auto simp: apply_entry_def NewMoneyFromMinor_def split: if_splits sum.splits direction.splits
      dest: money_Add_InrD(1,3) money_Sub_InrD(1,3))

lemma apply_entries_InrD:
  "apply_entries m es = Inr m' \<Longrightarrow> currency m' = currency m \<and> sint (minor m') = sint (minor m) + ledger_sum es"
proof (induction es arbitrary: m)
  case (Cons e es)
  then obtain x where x: "apply_entry m e = Inr x" "apply_entries x es = Inr m'" by (auto split: sum.splits)
  from Cons.IH [OF x(2)] apply_entry_InrD [OF x(1)] show ?case by (simp add: ledger_sum_def)
qed (simp add: ledger_sum_def)

lemma ledger_sum_by_version: "ledger_sum (by_version es) = ledger_sum es"
  by (simp add: ledger_sum_def by_version_def flip: sum_mset_sum_list)

lemma compare_balance_InrD:
  assumes "compare_balance wid s c n = Inr rc"
  shows "rc_stored rc = s" "rc_calculated rc = c" "rc_checked rc = n" "rc_wallet rc = wid"
    "sint (minor (rc_difference rc)) = sint (minor s) - sint (minor c)" "rc_consistent rc \<longleftrightarrow> sint (minor s) = sint (minor c)"
  using assms money_Sub_InrD(3) [of s c]
  by (auto simp: compare_balance_def money_Cmp_def rbind_def split: sum.splits if_splits)

lemma transact_result:
  assumes "transact E m w = (Inr x, w')"
  shows "\<exists>w0 w1. tabs w0 = tabs w \<and> m w0 = (Inr x, w1) \<and> tabs w' = tabs w1"
  using store_tx.result_commits [OF assms] by blast

lemma length_by_version: "length (by_version es) = length es"
  by (simp add: by_version_def)

lemma wp_reconcile_body:
  assumes "tabs w2 = T"
  shows "wp (reconcile_body E wid) (\<lambda>rc w1. tabs w1 = T \<and> (\<exists>u r. e_uuid E wid = Some u \<and> tbl_find wr_id u (wallets T) = Some r \<and>
      (\<exists>c. apply_entries (mk_money 0 (wr_currency r)) (by_version (ledger_of u (ledger T))) = Inr c \<and>
        compare_balance wid (mk_money (wr_balance r) (wr_currency r)) c (length (ledger_of u (ledger T))) = Inr rc)))
      (\<lambda>_ _. True) w2"
  using assms
  by (cases "e_uuid E wid"; cases "tbl_find wr_id (the (e_uuid E wid)) (wallets T)")
    (auto simp: reconcile_body_def wp_bind wallet_Get_def absent_if_invalid_def wp_attempt wp_stmt wp_ret wp_fail
      sql_find_wallet_def uuid_in_def rbind_def AllOrdered_def sql_all_ordered_def wp_lift_domain lift_error_def
      NewMoneyFromMinor_def length_by_version split: sum.splits)

lemma Reconcile_result:
  assumes "Reconcile E wid w = (Inr rc, w')"
  obtains u r where "tabs w' = tabs w" "e_uuid E wid = Some u" "tbl_find wr_id u (wallets (tabs w)) = Some r"
    "sint (minor (rc_stored rc)) = sint (wr_balance r)" "sint (minor (rc_calculated rc)) = ledger_sum (ledger_of u (ledger (tabs w)))"
    "sint (minor (rc_difference rc)) = sint (wr_balance r) - ledger_sum (ledger_of u (ledger (tabs w)))"
    "rc_checked rc = length (ledger_of u (ledger (tabs w)))"
    "rc_consistent rc \<longleftrightarrow> sint (wr_balance r) = ledger_sum (ledger_of u (ledger (tabs w)))"
proof -
  obtain w0 w1 where b: "tabs w0 = tabs w" "bind (stmt E (\<lambda>T. Inr ((), T))) (\<lambda>_. reconcile_body E wid) w0 = (Inr rc, w1)" "tabs w' = tabs w1"
    using transact_result [OF assms [unfolded Reconcile_def TransactRepeatableRead_def]] by blast
  let ?w2 = "tock (w0\<lparr>tabs := tabs w0\<rparr>)"
  have w2: "tabs ?w2 = tabs w" "reconcile_body E wid ?w2 = (Inr rc, w1)"
    using b(1,2) by (auto simp: bind_def stmt_def split: if_splits)
  obtain u r c where r: "tabs w1 = tabs w" "e_uuid E wid = Some u" "tbl_find wr_id u (wallets (tabs w)) = Some r"
      "apply_entries (mk_money 0 (wr_currency r)) (by_version (ledger_of u (ledger (tabs w)))) = Inr c"
      "compare_balance wid (mk_money (wr_balance r) (wr_currency r)) c (length (ledger_of u (ledger (tabs w)))) = Inr rc"
    using wp_InrD [OF wp_reconcile_body [OF w2(1)] w2(2)] by blast
  from that [of u r] apply_entries_InrD [OF r(4)] compare_balance_InrD [OF r(5)] r(1-3) b(3) show ?thesis
    by (simp add: ledger_sum_by_version)
qed

text \<open>C32. Reconciliation is the reference computation. Whatever the tables hold, a reconciliation that returns a
  result changed nothing and compared the wallet's stored balance with the exact integer sum of all its ledger
  entries: the calculated balance is that sum, the difference is stored minus sum, all entries are counted,
  and it is consistent, with nothing reported, precisely when the two are equal.\<close>

theorem Reconcile_exact:
  assumes "Reconcile E wid w = (Inr rc, w')"
  shows "tabs w' = tabs w \<and> (\<exists>u r. e_uuid E wid = Some u \<and> tbl_find wr_id u (wallets (tabs w)) = Some r \<and>
    (let es = ledger_of u (ledger (tabs w)) in
      sint (minor (rc_stored rc)) = sint (wr_balance r) \<and> sint (minor (rc_calculated rc)) = ledger_sum es \<and>
      sint (minor (rc_difference rc)) = sint (wr_balance r) - ledger_sum es \<and> rc_checked rc = length es \<and>
      (rc_consistent rc \<longleftrightarrow> sint (wr_balance r) = ledger_sum es) \<and> (divergence_report rc = None \<longleftrightarrow> rc_consistent rc)))"
  by (rule Reconcile_result [OF assms]) (simp add: divergence_report_def Let_def)

text \<open>A ledger that replays is summed without overflow.\<close>

lemma apply_entries_replay:
  assumes "replay s es = Some s'" "sint (minor m) = fst s" "validCurrency (currency m)" "\<forall>e \<in> set es. l_currency e = currency m"
  shows "\<exists>m'. apply_entries m es = Inr m' \<and> currency m' = currency m"
  using assms
proof (induction es arbitrary: s m)
  case (Cons e es)
  have fit: "entry_fits s e" "replay (sint (l_after e), snd s + 1) es = Some s'"
    using Cons.prems(1) by (auto split: if_splits)
  have r: "in_int64 (sint (minor m) + signed_amount (l_direction e) (l_amount e))"
    using fit(1) Cons.prems(2) sint_upper [of "l_after e"] sint_lower [of "l_after e"] by (simp add: entry_fits_def in_int64_def)
  obtain x where x: "apply_entry m e = Inr x" "currency x = currency m"
    using r fit(1) Cons.prems(3,4)
    by (cases "l_direction e")
      (auto simp: apply_entry_def NewMoneyFromMinor_def money_Add_eq money_Sub_eq entry_fits_def)
  have "sint (minor x) = sint (l_after e)"
    using apply_entry_InrD [OF x(1)] fit(1) Cons.prems(2) by (simp add: entry_fits_def)
  then show ?case using Cons.IH [OF fit(2), of x] x Cons.prems(3,4) by simp
qed simp

lemma Reconcile_returns:
  assumes "idle E w" "e_uuid E wid = Some u" "tbl_find wr_id u (wallets (tabs w)) = Some r" "sure E"
  shows "\<exists>rc w'. Reconcile E wid w = (Inr rc, w') \<and> tabs w' = tabs w \<and> rc_consistent rc \<and> minor (rc_difference rc) = 0 \<and>
    divergence_report rc = None"
proof -
  let ?es = "ledger_of u (ledger (tabs w))" and ?z = "mk_money 0 (wr_currency r)" and ?s = "mk_money (wr_balance r) (wr_currency r)"
  have g: "good E (tabs w)" using assms(1) by (simp add: idle_def)
  have cur: "validCurrency (wr_currency r)" "\<forall>e \<in> set ?es. l_currency e = wr_currency r"
    using goodD(3) [OF g] currency_okD [OF _ assms(3)] by (simp_all add: stored_ok_def)
  have b: "books_of r ?es" using books_ok_find(5) [OF _ assms(3)] g by (simp add: good_def sound_def)
  have ord: "by_version ?es = ?es" by (rule by_version_ordered [OF ledger_ordered [OF g]])
  obtain v s where "replay (0, v) ?es = Some s" using b by (auto simp: books_of_def)
  then obtain c where c: "apply_entries ?z ?es = Inr c" "currency c = wr_currency r"
    using apply_entries_replay [of "(0, v)" ?es s ?z] cur by auto
  have sum: "sint (minor c) = sint (wr_balance r)"
    using apply_entries_InrD [OF c(1)] books_sum [OF b] by (simp add: ledger_sum_def)
  then have mc: "minor c = wr_balance r" by (simp add: sint_eq_iff)
  have cmp: "compare_balance wid ?s c (length ?es) = Inr \<lparr>rc_wallet = wid, rc_stored = ?s, rc_calculated = c,
      rc_difference = mk_money 0 (wr_currency r), rc_consistent = True, rc_checked = length ?es\<rparr>"
    by (simp add: compare_balance_def money_Sub_eq money_Cmp_def mc c(2) in_int64_def)
  have "wp (reconcile_body E wid) (\<lambda>rc w1. \<not> aborted w1 \<and> tabs w1 = tabs w \<and> rc_consistent rc \<and> minor (rc_difference rc) = 0)
      (\<lambda>_ _. False) w0" if "tabs w0 = tabs w" "\<not> aborted w0" for w0
    using that assms(2-4) cur(1)
    by (simp add: reconcile_body_def wp_bind wallet_Get_def absent_if_invalid_def wp_attempt wp_stmt wp_ret sure_def
        sql_find_wallet_def uuid_in_def rbind_def AllOrdered_def sql_all_ordered_def wp_lift_domain lift_error_def
        NewMoneyFromMinor_def ord c(1) cmp length_by_version)
  then have "wp (bind (stmt E (\<lambda>T. Inr ((), T))) (\<lambda>_. reconcile_body E wid))
      (\<lambda>rc w1. \<not> aborted w1 \<and> tabs w1 = tabs w \<and> rc_consistent rc \<and> minor (rc_difference rc) = 0) (\<lambda>_ _. False)
      (tock (w\<lparr>aborted := False\<rparr>))"
    using assms(4) by (simp add: wp_bind wp_stmt sure_def)
  then obtain rc w' where "Reconcile E wid w = (Inr rc, w')" "tabs w' = tabs w" "rc_consistent rc" "minor (rc_difference rc) = 0"
    using transact_ok [OF assms(4), of "bind (stmt E (\<lambda>T. Inr ((), T))) (\<lambda>_. reconcile_body E wid)"
      "\<lambda>rc T. T = tabs w \<and> rc_consistent rc \<and> minor (rc_difference rc) = 0" w]
    by (auto simp: Reconcile_def TransactRepeatableRead_def)
  then show ?thesis by (auto simp: divergence_report_def)
qed

text \<open>Reconciliation of the service's own data is clean. After any calls of the use-cases, when no statement is
  lost, the reconciliation of any stored wallet returns, without overflow or a mix of currencies; it finds the
  balance consistent with a difference of zero, reports nothing and changes nothing.\<close>

theorem Reconcile_clean:
  assumes "idle E w" "(serves E)\<^sup>*\<^sup>* w w'" "sure E" "e_uuid E wid = Some u" "tbl_find wr_id u (wallets (tabs w')) = Some r"
  shows "\<exists>rc w''. Reconcile E wid w' = (Inr rc, w'') \<and> tabs w'' = tabs w' \<and> rc_consistent rc \<and> minor (rc_difference rc) = 0 \<and>
    divergence_report rc = None"
  using Reconcile_returns [of E w' wid u r] runs_progress [OF assms(2,1)] assms(3-5) by blast

section \<open>Instances\<close>

definition demo_world :: world where
  "demo_world = \<lparr>tabs = demo_refunded, tick = 0, aborted = False\<rparr>"

lemma demo_world_idle: "idle demo_env demo_world"
  using demo_refunded_good by (simp add: idle_def demo_world_def)

lemma demo_ledger: "length (ledger_of ''a'' (ledger (tabs demo_world))) = 3" "e_uuid demo_env ''a'' = Some ''a''"
  "tbl_find wr_id ''a'' (wallets (tabs demo_world)) = Some \<lparr>wr_id = ''a'', wr_player = ''p'', wr_currency = ''BRL'', wr_balance = 1000, wr_version = 3\<rparr>"
  "\<forall>e \<in> set (ledger_of ''a'' (ledger (tabs demo_world))). l_currency e = ''BRL''"
  by (simp_all add: demo_world_def demo_refunded_def demo_entry_def demo_env_def)

lemma Reconcile_clean_witness:
  "\<exists>rc w'. Reconcile demo_env ''a'' demo_world = (Inr rc, w') \<and> rc_consistent rc \<and> divergence_report rc = None"
  using Reconcile_clean [OF demo_world_idle rtranclp.rtrancl_refl demo_env_props(1) demo_ledger(2,3)] by auto

lemma Reconcile_exact_witness:
  "\<exists>rc w'. Reconcile demo_env ''a'' demo_world = (Inr rc, w') \<and> sint (minor (rc_calculated rc)) = 1000 \<and> rc_checked rc = 3"
proof -
  obtain rc w' where r: "Reconcile demo_env ''a'' demo_world = (Inr rc, w')" "rc_consistent rc"
    using Reconcile_returns [OF demo_world_idle demo_ledger(2,3) demo_env_props(1)] by auto
  from Reconcile_exact [OF r(1)] r demo_ledger(1-3) show ?thesis by (auto simp: Let_def)
qed

lemma PageLedger_exact_witness:
  "\<exists>pg w1 b. PageLedger demo_env ''a'' [] 2 demo_world = (Inr pg, w1) \<and> length (p_entries pg) = 2 \<and>
    DecodeCursor (p_next pg) = Inr b \<and> 0 < sint b"
proof -
  have g: "good demo_env (tabs demo_world)" using demo_world_idle by (simp add: idle_def)
  obtain pg w1 where pg: "PageLedger demo_env ''a'' [] 2 demo_world = (Inr pg, w1)"
    "pg = page_of (page_limit 2) (take (page_limit 2 + 1) (after 0 (ledger_of ''a'' (ledger (tabs demo_world)))))"
    using PageLedger_run [OF g demo_ledger(2) ledger_cursor.dec_start, of 2] demo_env_props(1) by auto
  have "length (after 0 (ledger_of ''a'' (ledger (tabs demo_world)))) = 3"
    by (simp add: demo_world_def demo_refunded_def demo_entry_def)
  then have l: "length (p_entries pg) = 2" "p_next pg \<noteq> []"
    using pg(2) ledger_cursor.enc_not_Nil by (simp_all add: page_of_def page_limit_def LedgerMaxLimit_def)
  from PageLedger_exact [OF demo_world_idle pg(1) ledger_cursor.dec_start demo_ledger(2) rtranclp.rtrancl_refl] l pg(1)
  show ?thesis by auto
qed

lemma read_pages_complete_witness:
  "\<exists>es w'. read_pages demo_env ''a'' 1 4 [] demo_world = (Inr es, w') \<and> map l_id es = [''1'', ''2'', ''3'']"
proof -
  have "map l_id (ledger_of ''a'' (ledger (tabs demo_world))) = [''1'', ''2'', ''3'']"
    by (simp add: demo_world_def demo_refunded_def demo_entry_def)
  moreover have "length (ledger_of ''a'' (ledger (tabs demo_world))) < 4" by (simp add: demo_ledger(1))
  ultimately show ?thesis
    using read_pages_complete [OF demo_world_idle demo_env_props(1) demo_ledger(2), of 4 1] by auto
qed

end
