(* ===== verification/Http_Guarantees.thy ===== *)
theory Http_Guarantees
  imports Http_Api Ledger_Reads
begin

text \<open>
  What the HTTP interface adds to the use-cases: who may cause an effect, which status tells of an effect, which
  answer a repetition gets, and what a provider can read.
\<close>

section \<open>Every request is answered\<close>

lemma answer_run:
  "answer m bad ok w = (Inr (case fst (m w) of Inl e \<Rightarrow> if e = ErrOther ''panic'' then respond 500 (HMap []) else bad e
     | Inr x \<Rightarrow> ok x), snd (m w))"
  by (simp add: answer_def bind_def attempt_def ret_def)

text \<open>An action that only reads; it always starts and ends outside a transaction.\<close>

definition only_reads :: "'a action \<Rightarrow> bool" where
  "only_reads m \<longleftrightarrow> (\<forall>w. \<not> aborted w \<longrightarrow> tabs (snd (m w)) = tabs w \<and> \<not> aborted (snd (m w)))"

lemma only_reads_stmt: "(\<And>T x T'. f T = Inr (x, T') \<Longrightarrow> T' = T) \<Longrightarrow> only_reads (autocommit (stmt E f))"
  by (auto simp: only_reads_def autocommit_def stmt_def split: sum.splits prod.splits)

lemma only_reads_absent:
  "(\<And>T x T'. f T = Inr (x, T') \<Longrightarrow> T' = T) \<Longrightarrow> only_reads (autocommit (absent_if_invalid (stmt E f)))"
  by (auto simp: only_reads_def autocommit_def absent_if_invalid_def stmt_def bind_def attempt_def ret_def fail_def
      split: sum.splits prod.splits)

lemma only_reads_bind:
  assumes "only_reads m" "\<And>x. only_reads (f x)"
  shows "only_reads (bind m f)"
  unfolding only_reads_def
proof (intro allI impI)
  fix w :: world assume "\<not> aborted w"
  then have "tabs (snd (m w)) = tabs w \<and> \<not> aborted (snd (m w))" using assms(1) by (simp add: only_reads_def)
  then show "tabs (snd (bind m f w)) = tabs w \<and> \<not> aborted (snd (bind m f w))"
    using assms(2) by (cases "m w") (auto simp: bind_def only_reads_def split: sum.splits)
qed

lemma only_reads_attempt: "only_reads m \<Longrightarrow> only_reads (attempt m)"
  by (simp add: only_reads_def attempt_def)

lemma only_reads_answer: "only_reads m \<Longrightarrow> only_reads (answer m bad ok)"
  by (simp add: only_reads_def answer_run)

lemma only_reads_Reconcile: "only_reads (Reconcile E u)"
  unfolding only_reads_def
proof (intro allI impI)
  fix w :: world assume "\<not> aborted w"
  then have "\<not> aborted (snd (Reconcile E u w))"
    using closed_transact by (auto simp: Reconcile_def TransactRepeatableRead_def closed_def)
  moreover have "tabs (snd (Reconcile E u w)) = tabs w"
  proof (cases "Reconcile E u w")
    case (Pair r w')
    show ?thesis
    proof (cases r)
      case (Inl e)
      with Pair show ?thesis
        by (auto simp: Reconcile_def TransactRepeatableRead_def transact_def split: if_splits sum.splits prod.splits)
    next
      case (Inr rc)
      with Pair have "Reconcile E u w = (Inr rc, w')" by simp
      then show ?thesis by (rule Reconcile_result) (use Pair in simp)
    qed
  qed
  ultimately show "tabs (snd (Reconcile E u w)) = tabs w \<and> \<not> aborted (snd (Reconcile E u w))" by blast
qed

lemma only_reads_basic:
  "only_reads (ret x)" "only_reads (autocommit (wallet_Get E u))" "only_reads (autocommit (tx_Get E t))"
  "only_reads (autocommit (FindByProviderExternal E p e))" "only_reads (PageLedger E u c n)"
proof -
  show "only_reads (ret x)" by (simp add: only_reads_def ret_def)
  show "only_reads (autocommit (wallet_Get E u))" unfolding wallet_Get_def
    by (rule only_reads_absent) (auto simp: sql_find_wallet_def rbind_def split: sum.splits)
  show "only_reads (autocommit (tx_Get E t))" unfolding tx_Get_def
    by (rule only_reads_absent) (auto simp: sql_find_tx_def rbind_def split: sum.splits)
  show "only_reads (autocommit (FindByProviderExternal E p e))" unfolding FindByProviderExternal_def
    by (rule only_reads_stmt) auto
  have "only_reads (autocommit (ledger_Page E u a l))" for a l unfolding ledger_Page_def
    by (rule only_reads_stmt) (auto simp: sql_page_def rbind_def split: sum.splits)
  then show "only_reads (PageLedger E u c n)"
    unfolding PageLedger_def
    by (auto intro!: only_reads_bind split: sum.splits) (simp_all add: only_reads_def ret_def fail_def)
qed

lemmas only_reads_intros = only_reads_basic only_reads_bind only_reads_attempt only_reads_answer only_reads_Reconcile

lemma handlers_only_read:
  "only_reads (getWallet E i u)" "only_reads (pageLedger E i u l c)" "only_reads (reconcile E i u)"
  "only_reads (getTransaction E i t)" "only_reads (getTransactionByExternal E i p e)"
  unfolding getWallet_def pageLedger_def reconcile_def getTransaction_def getTransactionByExternal_def
  by (auto intro!: only_reads_intros split: option.splits sum.splits)

text \<open>Every handler ends in a response.\<close>

definition replies :: "'a action \<Rightarrow> bool" where
  "replies m \<longleftrightarrow> (\<forall>w. \<exists>x w'. m w = (Inr x, w'))"

lemma replies_basic: "replies (ret x)" "replies (answer m bad ok)" "replies (attempt m')" "replies (newID E)"
  by (auto simp: replies_def ret_def answer_run attempt_def newID_def)

lemma replies_bind: "replies m \<Longrightarrow> (\<And>x. replies (f x)) \<Longrightarrow> replies (bind m f)"
  unfolding replies_def bind_def by (metis (no_types, lifting) old.prod.case old.sum.simps(6))

lemma handle_protected_replies: "replies (handle_protected E i corr r)"
  by (cases r)
    (auto simp: handle_protected_def openWallet_def getWallet_def pageLedger_def reconcile_def submitTransaction_def Let_def
      getTransaction_def getTransactionByExternal_def intro!: replies_basic replies_bind split: option.splits sum.splits)

section \<open>Authorization and effects\<close>

text \<open>Who may write: the internal role opens wallets; a provider submits under its own provider id.\<close>

definition may_write :: "identity \<Rightarrow> route \<Rightarrow> bool" where
  "may_write i r = (case r of
     PostWallets _ \<Rightarrow> HasRole i RoleInternal
   | PostTransactions _ (Some q) \<Rightarrow> HasRole i RoleProvider \<and> q_provider q = id_provider i
   | _ \<Rightarrow> False)"

text \<open>What a response says about the tables before and after it.\<close>

definition effect_ok :: "env \<Rightarrow> bool \<Rightarrow> world \<Rightarrow> response \<Rightarrow> world \<Rightarrow> bool" where
  "effect_ok E allowed w resp w' \<longleftrightarrow> idle E w' \<and> progress E (tabs w) (tabs w') \<and>
     (tabs w' \<noteq> tabs w \<longrightarrow> allowed \<and> h_status resp \<in> {201, 202, 422})"

lemma effect_ok_same: "idle E w \<Longrightarrow> tabs w' = tabs w \<Longrightarrow> \<not> aborted w' \<Longrightarrow> effect_ok E b w resp w'"
  using progress_refl by (auto simp: effect_ok_def idle_def)

lemma only_reads_effect: "only_reads m \<Longrightarrow> idle E w \<Longrightarrow> effect_ok E b w resp (snd (m w))"
  by (rule effect_ok_same) (auto simp: only_reads_def idle_def)

lemma submit_status_simps: "h_status (writeSubmitResult r) = snd (submit_status r)"
  by (simp add: writeSubmitResult_def respond_def)

lemma settled_status:
  "submit_post E i T r T' \<Longrightarrow> T' \<noteq> T \<Longrightarrow> snd (submit_status r) \<in> {201, 202, 422}"
proof -
  assume p: "submit_post E i T r T'" and n: "T' \<noteq> T"
  then have "existing i T = None" using replay_existing(2) [OF p] by (cases "existing i T") auto
  then obtain oc x where "reports E oc r x" using p by (auto simp: submit_post_def submitted_def accepted_def)
  then have "sr_outcome r \<noteq> OutcomeReplay" by (simp add: reports_def)
  then show ?thesis by (cases "sr_outcome r") (simp_all add: submit_status_def)
qed

lemma Submit_effect:
  assumes w: "idle E w"
  shows "effect_ok E True w (case fst (Submit E i w) of Inl e \<Rightarrow> f e | Inr r \<Rightarrow> writeSubmitResult r) (snd (Submit E i w))"
proof (cases "Submit E i w")
  case (Pair res w')
  show ?thesis
  proof (cases res)
    case (Inl e)
    have g: "good E (tabs w)" "\<not> aborted w" using w by (simp_all add: idle_def)
    from run_cases [OF tspec_Submit [OF g(1)] closed_Submit g(2) Pair] Inl show ?thesis
      using effect_ok_same [OF w] Pair by simp
  next
    case (Inr r)
    have p: "submit_post E i (tabs w) r (tabs w')" "idle E w'" using run_submit [OF w] Pair Inr by blast+
    have "progress E (tabs w) (tabs w')" using submit_post_progress [OF _ p(1)] w by (simp add: idle_def)
    with p settled_status [OF p(1)] Pair Inr show ?thesis by (auto simp: effect_ok_def submit_status_simps)
  qed
qed

lemma OpenWallet_effect:
  assumes w: "idle E w"
  shows "effect_ok E True w (case fst (OpenWallet E p c s w) of Inl e \<Rightarrow> f e | Inr r \<Rightarrow> respond 201 (g r)) (snd (OpenWallet E p c s w))"
proof (cases "OpenWallet E p c s w")
  case (Pair res w')
  have g: "good E (tabs w)" "\<not> aborted w" using w by (simp_all add: idle_def)
  have i: "progress E (tabs w) (tabs w') \<and> idle E w'"
    using serves_progress [OF serves.opened_wallet w, of p c s] Pair by simp
  from run_cases [OF tspec_OpenWallet [OF g(1)] closed_OpenWallet g(2) Pair] i show ?thesis
    using effect_ok_same [OF w] Pair by (auto simp: effect_ok_def respond_def split: sum.splits)
qed

lemma effect_ok_weaken: "effect_ok E True w resp w' \<Longrightarrow> b \<Longrightarrow> effect_ok E b w resp w'"
  by (simp add: effect_ok_def)

lemma handle_protected_effect:
  assumes w: "idle E w" and run: "handle_protected E (Some i) corr r w = (Inr resp, w')"
  shows "effect_ok E (may_write i r) w resp w'"
proof -
  have read: "effect_ok E b w resp w'" if "only_reads m" "m w = (Inr resp, w')" for m b
    using only_reads_effect [OF that(1) w, of b resp] that(2) by simp
  have refuse: "effect_ok E b w resp w'" if "ret x w = (Inr resp, w')" for x b
    by (rule read [OF only_reads_basic(1) that])
  show ?thesis
  proof (cases r)
    case (PostWallets body)
    show ?thesis
    proof (cases body)
      case None
      with run PostWallets show ?thesis
        by (auto simp: handle_protected_def openWallet_def split: option.splits intro: refuse)
    next
      case (Some q)
      let ?m = "OpenWallet E (o_player q) (o_currency q) (o_initial q)"
      show ?thesis
      proof (cases "answer ?m writeServiceError (\<lambda>r. respond 201 (walletBody r)) w = (Inr resp, w') \<and> HasRole i RoleInternal")
        case True
        then show ?thesis
          using OpenWallet_effect [OF w, of "\<lambda>e. if e = ErrOther ''panic'' then respond 500 (HMap []) else writeServiceError e"
              walletBody "o_player q" "o_currency q" "o_initial q"] PostWallets
          by (auto simp: answer_run may_write_def)
      next
        case False
        with run PostWallets Some have "ret forbidden w = (Inr resp, w') \<or> ret bad_request w = (Inr resp, w')"
          by (auto simp: handle_protected_def openWallet_def requireRole_def split: if_splits)
        then show ?thesis using refuse by blast
      qed
    qed
  next
    case (PostTransactions header body)
    show ?thesis
    proof (cases body)
      case None
      with run PostTransactions show ?thesis
        by (auto simp: handle_protected_def submitTransaction_def Let_def split: option.splits if_splits intro: refuse)
    next
      case (Some q)
      let ?m = "Submit E (request_input q (TrimSpace header) corr)"
      show ?thesis
      proof (cases "answer ?m writeServiceError writeSubmitResult w = (Inr resp, w') \<and> may_write i r")
        case True
        then show ?thesis
          using Submit_effect [OF w, of "\<lambda>e. if e = ErrOther ''panic'' then respond 500 (HMap []) else writeServiceError e"
              "request_input q (TrimSpace header) corr"]
          by (auto simp: answer_run)
      next
        case False
        with run PostTransactions Some have "ret forbidden w = (Inr resp, w') \<or> ret bad_request w = (Inr resp, w')"
          by (auto simp: handle_protected_def submitTransaction_def requireRole_def may_write_def Let_def split: if_splits)
        then show ?thesis using refuse by blast
      qed
    qed
  qed (use run in \<open>auto simp: handle_protected_def intro: refuse read handlers_only_read\<close>)
qed

lemma correlation_run: "\<exists>corr w1. correlation E h w = (Inr corr, w1) \<and> tabs w1 = tabs w \<and> aborted w1 = aborted w"
  by (auto simp: correlation_def newID_def ret_def)

text \<open>A request is handled in a world that differs from the present one at most in the ticks, by a response that
  is then marked with the correlation id.\<close>

lemma serve_run:
  obtains corr w1 resp w' where "serve E V check q w = (Inr (resp\<lparr>h_headers := (''X-Correlation-Id'', corr) # h_headers resp\<rparr>), w')"
    "route_request E V check corr q w1 = (Inr resp, w')" "tabs w1 = tabs w" "aborted w1 = aborted w"
    "correlation E (r_correlation q) w = (Inr corr, w1)"
proof -
  obtain corr w1 where c: "correlation E (r_correlation q) w = (Inr corr, w1)" "tabs w1 = tabs w" "aborted w1 = aborted w"
    using correlation_run by blast
  have "replies (route_request E V check corr q)" unfolding route_request_def
    by (auto intro: replies_basic handle_protected_replies split: route.splits option.splits)
  then obtain resp w' where "route_request E V check corr q w1 = (Inr resp, w')" unfolding replies_def by blast
  with that c show ?thesis by (simp add: serve_def bind_def ret_def)
qed

definition allowed :: "validator \<Rightarrow> http_request \<Rightarrow> bool" where
  "allowed V q \<longleftrightarrow> (\<exists>i. AuthMiddleware V (r_authorization q) = Some i \<and> may_write i (r_route q))"

lemma route_request_effect:
  assumes w: "idle E w" and run: "route_request E V check corr q w = (Inr resp, w')"
  shows "effect_ok E (allowed V q) w resp w'"
proof -
  have refuse: "effect_ok E b w resp w'" if "ret x w = (Inr resp, w')" for x b
    using only_reads_effect [OF only_reads_basic(1) w, of b resp x] that by simp
  show ?thesis
  proof (cases "\<exists>i. AuthMiddleware V (r_authorization q) = Some i \<and> handle_protected E (Some i) corr (r_route q) w = (Inr resp, w')")
    case True
    then obtain i where i: "AuthMiddleware V (r_authorization q) = Some i" "handle_protected E (Some i) corr (r_route q) w = (Inr resp, w')" by blast
    from handle_protected_effect [OF w i(2)] i(1) show ?thesis by (auto simp: effect_ok_def allowed_def)
  next
    case False
    then have "\<exists>x. ret x w = (Inr resp, w')"
      using run by (auto simp: route_request_def split: route.splits option.splits)
    then show ?thesis using refuse by blast
  qed
qed

text \<open>C15. Effects over HTTP. Every request gets one response. It keeps the service in a sound state by steps of the
  abstract machine only, and tables change only for an authenticated caller who may write - the internal role to
  open a wallet, a provider to submit under its own provider id - whose response then has status 201, 202 or 422;
  so every other status, a replay's 200 included, means that nothing was stored.\<close>

theorem serve_effects:
  assumes "idle E w"
  shows "\<exists>resp w'. serve E V check q w = (Inr resp, w') \<and> idle E w' \<and> machine\<^sup>*\<^sup>* (tabs w) (tabs w') \<and>
    (tabs w' \<noteq> tabs w \<longrightarrow> allowed V q \<and> h_status resp \<in> {201, 202, 422})"
proof -
  obtain corr w1 resp w' where s: "serve E V check q w = (Inr (resp\<lparr>h_headers := (''X-Correlation-Id'', corr) # h_headers resp\<rparr>), w')"
      "route_request E V check corr q w1 = (Inr resp, w')" "tabs w1 = tabs w" "aborted w1 = aborted w"
    by (rule serve_run)
  have "idle E w1" using assms s(3,4) by (simp add: idle_def)
  from route_request_effect [OF this s(2)] show ?thesis using s(1,3) by (auto simp: effect_ok_def progress_def)
qed

section \<open>Repetitions over HTTP\<close>

definition body_field :: "string \<Rightarrow> response \<Rightarrow> hval option" where
  "body_field k resp = (case h_body resp of HMap xs \<Rightarrow> map_of xs k | _ \<Rightarrow> None)"

lemma body_field_submit:
  "body_field ''status'' (writeSubmitResult r) = Some (HStr (fst (submit_status r)))"
  "body_field ''idempotentReplay'' (writeSubmitResult r) = Some (HBool (sr_replay r))"
  "body_field ''failureCode'' (writeSubmitResult r) = (if sr_failure r = [] then None else Some (HStr (sr_failure r)))"
  "body_field ''balance'' (writeSubmitResult r) = map_option moneyBody (sr_balance r)"
  "body_field ''walletVersion'' (writeSubmitResult r) = map_option (\<lambda>_. HInt (sint (sr_version r))) (sr_balance r)"
  by (simp_all add: body_field_def writeSubmitResult_def respond_def split: option.splits)

lemma body_field_headers [simp]: "body_field k (resp\<lparr>h_headers := hs\<rparr>) = body_field k resp"
  by (simp add: body_field_def)

text \<open>The correlation id of a submission is not part of its identity.\<close>

lemma correlation_irrelevant:
  fixes b key c d defines "i \<equiv> request_input b key c" and "j \<equiv> request_input b key d"
  shows "validate_input j = validate_input i" "existing j T = existing i T" "own_wallet E j T r = own_wallet E i T r"
proof -
  have "hash_input_of j = hash_input_of i" by (simp add: i_def j_def hash_input_of_def request_input_def)
  then show "validate_input j = validate_input i"
    by (simp add: validate_input_def i_def j_def request_input_def cong: sum.case_cong option.case_cong if_cong)
qed (simp_all add: existing_def own_wallet_def i_def j_def request_input_def cong: option.case_cong)

lemma request_input_message [simp]: "s_message (request_input b key c) = []"
  by (simp add: request_input_def)

text \<open>A provider's request reaches \<open>Submit\<close> exactly when it passes these checks.\<close>

definition admitted :: "validator \<Rightarrow> http_request \<Rightarrow> string \<Rightarrow> submit_request \<Rightarrow> bool" where
  "admitted V q header b \<longleftrightarrow> r_route q = PostTransactions header (Some b) \<and> TrimSpace header \<noteq> [] \<and>
     length (TrimSpace header) \<le> 255 \<and>
     (\<exists>i. AuthMiddleware V (r_authorization q) = Some i \<and> HasRole i RoleProvider \<and> q_provider b = id_provider i)"

lemma admitted_run:
  "admitted V q header b \<Longrightarrow> route_request E V check corr q w =
     answer (Submit E (request_input b (TrimSpace header) corr)) writeServiceError writeSubmitResult w"
  by (auto simp: admitted_def route_request_def handle_protected_def submitTransaction_def requireRole_def Let_def)

lemma not_admitted_run:
  "r_route q = PostTransactions header (Some b) \<Longrightarrow> \<not> admitted V q header b \<Longrightarrow>
     route_request E V check corr q w = (Inr resp, w') \<Longrightarrow> h_status resp \<in> {400, 401, 403}"
  by (auto simp: admitted_def route_request_def handle_protected_def submitTransaction_def requireRole_def Let_def ret_def
      forbidden_def bad_request_def unauthenticated_def abortError_def respond_def split: option.splits if_splits)

lemma error_status:
  "h_status (writeServiceError e) \<in> {400, 409, 503}"
  by (cases e; simp add: writeServiceError_def writeInfraError_def abortError_def respond_def)

lemma posted:
  assumes run: "route_request E V check corr q w = (Inr resp, w')" and q: "r_route q = PostTransactions header (Some b)"
    and st: "h_status resp \<in> {200, 201, 202, 422}"
  obtains r where "admitted V q header b" "Submit E (request_input b (TrimSpace header) corr) w = (Inr r, w')" "resp = writeSubmitResult r"
proof -
  have a: "admitted V q header b" by (rule ccontr) (use not_admitted_run [OF q _ run] st in auto)
  let ?s = "Submit E (request_input b (TrimSpace header) corr) w"
  have resp: "resp = (case fst ?s of Inl e \<Rightarrow> if e = ErrOther ''panic'' then respond 500 (HMap []) else writeServiceError e
      | Inr r \<Rightarrow> writeSubmitResult r)" "w' = snd ?s"
    using run unfolding admitted_run [OF a] answer_run by simp_all
  show ?thesis
  proof (cases "fst ?s")
    case (Inl e)
    then have "h_status resp = 500 \<or> h_status resp \<in> {400, 409, 503}" using resp(1) error_status [of e]
      by (cases "e = ErrOther ''panic''") (simp_all add: respond_def)
    then have False using st by (elim disjE insertE emptyE) simp_all
    then show ?thesis ..
  next
    case (Inr r)
    then have "?s = (Inr r, w')" using resp(2) by (simp add: prod_eq_iff)
    moreover have "resp = writeSubmitResult r" using resp(1) Inr by simp
    ultimately show ?thesis by (rule that [OF a])
  qed
qed

lemma submit_result_new:
  "submit_post E i T r T' \<Longrightarrow> existing i T = None \<Longrightarrow> \<not> sr_replay r"
  by (auto simp: submit_post_def submitted_def accepted_def reports_def)

lemma settled_replay_status:
  assumes "reports E oc r x" "answers E r r2" "sr_outcome r \<noteq> OutcomePending"
  shows "snd (submit_status r2) = (if snd (submit_status r) = 201 then 200 else 422)" "fst (submit_status r2) = fst (submit_status r)"
  using assms by (cases "sr_outcome r"; simp add: reports_def answers_def submit_status_def)+

text \<open>Repetitions over HTTP. Once a submission was processed (201) or rejected (422), the same request - with
  whatever correlation id, after any further calls - is answered as a replay when no statement is lost: 200
  after a 201 and 422 after a 422, with the same status text, failure code, balance and wallet version, and
  nothing is stored.\<close>

theorem serve_replays:
  assumes "idle E w" "sure E" and q: "r_route q = PostTransactions header (Some b)"
    and first: "serve E V check q w = (Inr resp, w1)"
      "h_status resp = 201 \<or> h_status resp = 422 \<and> body_field ''idempotentReplay'' resp = Some (HBool False)"
    and later: "(serves E)\<^sup>*\<^sup>* w1 w2"
  shows "\<exists>resp2 w3. serve E V check q w2 = (Inr resp2, w3) \<and> tabs w3 = tabs w2 \<and>
    h_status resp2 = (if h_status resp = 201 then 200 else 422) \<and> body_field ''idempotentReplay'' resp2 = Some (HBool True) \<and>
    (\<forall>k \<in> {''status'', ''failureCode'', ''balance'', ''walletVersion''}. body_field k resp2 = body_field k resp)"
proof -
  obtain corr w0 rsp w' where s: "serve E V check q w = (Inr (rsp\<lparr>h_headers := (''X-Correlation-Id'', corr) # h_headers rsp\<rparr>), w')"
      "route_request E V check corr q w0 = (Inr rsp, w')" "tabs w0 = tabs w" "aborted w0 = aborted w"
    by (rule serve_run)
  have i0: "idle E w0" using assms(1) s(3,4) by (simp add: idle_def)
  have resp: "resp = rsp\<lparr>h_headers := (''X-Correlation-Id'', corr) # h_headers rsp\<rparr>" "w' = w1" using first(1) s(1) by simp_all
  obtain r where r: "admitted V q header b" "Submit E (request_input b (TrimSpace header) corr) w0 = (Inr r, w1)" "rsp = writeSubmitResult r"
    using posted [OF s(2) q] first(2) resp by auto
  let ?i = "request_input b (TrimSpace header) corr"
  have st: "snd (submit_status r) = 201 \<or> snd (submit_status r) = 422 \<and> \<not> sr_replay r"
    using first(2) by (auto simp: resp(1) r(3) submit_status_simps body_field_submit)
  have p: "submit_post E ?i (tabs w0) r (tabs w1)" using run_submit [OF i0 r(2)] by blast
  have new: "\<not> sr_replay r" using st replay_existing(1) [OF p] submit_result_new [OF p]
    by (cases "existing ?i (tabs w0)") (auto simp: submit_status_def replayResult_def Let_def split: tx_state.splits if_splits)
  obtain a h oc x y k where y: "validate_input ?i = Inr (a, h)" "oc_in oc = ?i" "oc_hash oc = h" "reports E oc r x"
      "evolves x y" "y \<in> set (txs (tabs w2))" "idle E w2" "own_wallet E ?i (tabs w2) k"
    using accepted_row_later [OF i0 r(2) new later] by metis
  have ex: "existing ?i (tabs w2) = Some y" using later_existing [OF _ y(4,6,5)] y(2,7) by (simp add: idle_def)
  have hash: "str (t_hash y) = h" using reports_key(3) [OF y(4)] y(3,5) by (simp add: evolves_def same_request_def)
  obtain corr2 v rsp2 w3 where s2: "serve E V check q w2 = (Inr (rsp2\<lparr>h_headers := (''X-Correlation-Id'', corr2) # h_headers rsp2\<rparr>), w3)"
      "route_request E V check corr2 q v = (Inr rsp2, w3)" "tabs v = tabs w2" "aborted v = aborted w2"
    by (rule serve_run)
  let ?j = "request_input b (TrimSpace header) corr2"
  note same = correlation_irrelevant [where b = b and key = "TrimSpace header" and c = corr and d = corr2]
  have "\<exists>w'. Submit E ?j v = (known_answer y h, w') \<and> tabs w' = tabs v"
    by (rule Submit_known [of E v ?j a h k]) (use y(1,7,8) ex same s2(3,4) assms(2) in \<open>simp_all add: idle_def calm_def\<close>)
  then obtain w'' where again: "Submit E ?j v = (Inr (replayResult y), w'')" "tabs w'' = tabs w2"
    using hash s2(3) by (auto simp: known_answer_def)
  then have rsp2: "rsp2 = writeSubmitResult (replayResult y)" "w3 = w''"
    using s2(2) admitted_run [OF r(1)] by (simp_all add: answer_run)
  have ans: "answers E r (replayResult y)" by (rule answers_row [OF y(4,5)])
  have np: "sr_outcome r \<noteq> OutcomePending" using st by (auto simp: submit_status_def)
  then have eqs: "sr_balance (replayResult y) = sr_balance r" "sr_failure (replayResult y) = sr_failure r"
    "sr_version (replayResult y) = sr_version r" using ans by (simp_all add: answers_def)
  have status: "snd (submit_status (replayResult y)) = (if snd (submit_status r) = 201 then 200 else 422)"
    "fst (submit_status (replayResult y)) = fst (submit_status r)" by (rule settled_replay_status [OF y(4) ans np])+
  show ?thesis unfolding s2(1)
    by (rule exI, rule exI, rule conjI [OF refl]) (auto simp: rsp2 again(2) resp(1) r(3) body_field_submit submit_status_simps status eqs)
qed

section \<open>Reads over HTTP\<close>

text \<open>The bodies that carry no data of the store.\<close>

definition error_bodies :: "hval set" where
  "error_bodies = h_body ` {unauthenticated, forbidden, bad_request, wallet_missing, transaction_missing, writeInfraError,
     respond 500 (HMap [])}"

definition is_read :: "route \<Rightarrow> bool" where
  "is_read r = (case r of GetWallet _ \<Rightarrow> True | GetLedger _ _ _ \<Rightarrow> True | GetReconciliation _ \<Rightarrow> True
     | GetTransaction _ \<Rightarrow> True | GetProviderTransaction _ _ \<Rightarrow> True | _ \<Rightarrow> False)"

text \<open>What a caller gets to see of the store: everything for the internal role, its own transactions for a provider.\<close>

definition in_scope :: "identity \<Rightarrow> tables \<Rightarrow> response \<Rightarrow> bool" where
  "in_scope i T resp \<longleftrightarrow> HasRole i RoleInternal \<or>
     HasRole i RoleProvider \<and> (\<exists>x \<in> set (txs T). t_provider x = Some (id_provider i) \<and> h_body resp = transactionBody x)"

lemma found_transaction:
  "fst (autocommit (tx_Get E t) w) = Inr (Some x) \<Longrightarrow> x \<in> set (txs (tabs w))"
  by (auto simp: tx_Get_def autocommit_def absent_if_invalid_def bind_def attempt_def stmt_def ret_def fail_def sql_find_tx_def
      rbind_def dest: tbl_find_SomeD split: if_splits sum.splits prod.splits)

lemma found_external:
  "fst (autocommit (FindByProviderExternal E p e) w) = Inr (Some x) \<Longrightarrow> x \<in> set (txs (tabs w)) \<and> t_provider x = Some p"
  by (auto simp: FindByProviderExternal_def autocommit_def stmt_def find_by_external_def find_Some_iff
      split: if_splits sum.splits prod.splits)

lemma error_bodies_simps [simp]:
  "h_body unauthenticated \<in> error_bodies" "h_body forbidden \<in> error_bodies" "h_body bad_request \<in> error_bodies"
  "h_body wallet_missing \<in> error_bodies" "h_body transaction_missing \<in> error_bodies" "h_body writeInfraError \<in> error_bodies"
  "h_body (respond 500 (HMap [])) \<in> error_bodies" "HMap [] \<in> error_bodies"
  by (simp_all add: error_bodies_def) (simp add: respond_def)

lemma getTransaction_scope:
  assumes "getTransaction E (Some i) t w = (Inr resp, w')"
  shows "h_body resp \<in> error_bodies \<or> in_scope i (tabs w) resp"
proof -
  consider e where "fst (autocommit (tx_Get E t) w) = Inl e" | "fst (autocommit (tx_Get E t) w) = Inr None"
    | x where "fst (autocommit (tx_Get E t) w) = Inr (Some x)" by (metis Inr_Inl_False old.sum.exhaust option.exhaust)
  then show ?thesis
    by cases (use assms found_transaction [of E t w] in
      \<open>auto simp: getTransaction_def answer_run in_scope_def respond_def split: if_splits\<close>)
qed

lemma getTransactionByExternal_scope:
  assumes "getTransactionByExternal E (Some i) p e w = (Inr resp, w')"
  shows "h_body resp \<in> error_bodies \<or> in_scope i (tabs w) resp"
proof (cases "\<not> HasRole i RoleInternal \<and> (\<not> HasRole i RoleProvider \<or> p \<noteq> id_provider i)")
  case True
  with assms show ?thesis by (auto simp: getTransactionByExternal_def ret_def)
next
  case False
  consider err where "fst (autocommit (FindByProviderExternal E p e) w) = Inl err"
    | "fst (autocommit (FindByProviderExternal E p e) w) = Inr None"
    | x where "fst (autocommit (FindByProviderExternal E p e) w) = Inr (Some x)"
    by (metis Inr_Inl_False old.sum.exhaust option.exhaust)
  then show ?thesis
    by cases (use False assms found_external [of E p e w] in
      \<open>auto simp: getTransactionByExternal_def answer_run in_scope_def respond_def split: if_splits\<close>)
qed

text \<open>C27. Confidentiality of reads. A read stores nothing. Its body is one of the fixed error bodies, unless the
  caller is authenticated and has the internal role or is a provider and the body is that of a stored transaction
  of its own.\<close>

theorem serve_read_scope:
  assumes "is_read (r_route q)" "serve E V check q w = (Inr resp, w')" "\<not> aborted w"
  shows "tabs w' = tabs w \<and> (h_body resp \<in> error_bodies \<or>
    (\<exists>i. AuthMiddleware V (r_authorization q) = Some i \<and> in_scope i (tabs w) resp))"
proof -
  obtain corr w0 rsp w1 where s: "serve E V check q w = (Inr (rsp\<lparr>h_headers := (''X-Correlation-Id'', corr) # h_headers rsp\<rparr>), w1)"
      "route_request E V check corr q w0 = (Inr rsp, w1)" "tabs w0 = tabs w" "aborted w0 = aborted w"
    by (rule serve_run)
  then have resp: "h_body resp = h_body rsp" "w1 = w'" using assms(2) by auto
  show ?thesis
  proof (cases "AuthMiddleware V (r_authorization q)")
    case None
    then have "(Inr rsp, w1) = ret unauthenticated w0" using s(2) assms(1)
      by (auto simp: route_request_def is_read_def split: route.splits)
    then show ?thesis using resp s(3) by (simp add: ret_def)
  next
    case (Some i)
    then have h: "handle_protected E (Some i) corr (r_route q) w0 = (Inr rsp, w1)" using s(2) assms(1)
      by (auto simp: route_request_def is_read_def split: route.splits)
    have "only_reads (handle_protected E (Some i) corr (r_route q))"
      using assms(1) handlers_only_read by (auto simp: handle_protected_def is_read_def split: route.splits)
    then have "tabs w1 = tabs w0" using h s(4) assms(3) by (force simp: only_reads_def)
    moreover have "h_body rsp \<in> error_bodies \<or> in_scope i (tabs w0) rsp"
    proof (cases "HasRole i RoleInternal")
      case False
      with h assms(1) show ?thesis using getTransaction_scope getTransactionByExternal_scope
        by (auto simp: handle_protected_def is_read_def getWallet_def pageLedger_def reconcile_def requireRole_def ret_def
            split: route.splits)
    qed (simp add: in_scope_def)
    ultimately show ?thesis using Some s(3) resp by (auto simp: in_scope_def)
  qed
qed

section \<open>A concrete request\<close>

definition demo_body :: submit_request where
  "demo_body = \<lparr>q_provider = s_provider demo_bet, q_external = s_external demo_bet, q_player = s_player demo_bet,
     q_wallet = s_wallet demo_bet, q_round = s_round demo_bet, q_game = s_game demo_bet, q_kind = ''BET'',
     q_amount = s_amount demo_bet, q_currency = s_currency demo_bet, q_ref = s_ref demo_bet\<rparr>"

definition demo_tokens :: validator where
  "demo_tokens = StaticValidator [(''t'', \<lparr>id_provider = s_provider demo_bet, id_roles = {RoleProvider}\<rparr>)]"

definition demo_request :: http_request where
  "demo_request = \<lparr>r_route = PostTransactions ''k1'' (Some demo_body), r_authorization = ''Bearer t'', r_correlation = ''c''\<rparr>"

lemma demo_texts: "TrimSpace ''k1'' = ''k1''" "TrimSpace ''c'' = ''c''" "bearerToken ''Bearer t'' = ''t''"
  by code_simp+

lemma demo_admitted: "admitted demo_tokens demo_request ''k1'' demo_body"
  by (simp add: admitted_def demo_request_def demo_texts AuthMiddleware_def demo_tokens_def StaticValidator_def HasRole_def
      demo_body_def)

lemma demo_request_input: "demo_bet = request_input demo_body ''k1'' []"
  by (simp add: request_input_def demo_body_def demo_bet_def kind_of_def)

lemma demo_served:
  obtains w resp w1 where "idle demo_env w" "serve demo_env demo_tokens None demo_request w = (Inr resp, w1)" "h_status resp = 201"
    "tabs w1 \<noteq> tabs w"
proof -
  obtain w where w: "idle demo_env w" "new_ids demo_env w" "fresh_submission demo_env demo_bet demo_wallet (tabs w)"
    using demo_opened by metis
  obtain h where h: "validate_input demo_bet = Inr (mk_money 250 ''BRL'', h)" using demo_bet_valid by blast
  let ?i = "request_input demo_body ''k1'' ''c''"
  have same: "validate_input ?i = validate_input demo_bet" "existing ?i T = existing demo_bet T" for T
    unfolding demo_request_input by (rule correlation_irrelevant)+
  have parts: "s_wallet ?i = s_wallet demo_bet" "s_player ?i = s_player demo_bet" "s_currency ?i = s_currency demo_bet"
    by (simp_all add: request_input_def demo_body_def)
  have "validate_input ?i = Inr (mk_money 250 ''BRL'', h)" using h same(1) by simp
  moreover have "fresh_submission demo_env ?i demo_wallet (tabs w)"
    using w(3) unfolding fresh_submission_def parts same(2) by (elim conjE, intro conjI) simp_all
  moreover have "s_kind ?i = KindBet" by (simp add: request_input_def demo_body_def kind_of_def)
  ultimately obtain k w1 where r: "Submit demo_env ?i w = (Inr (demo_answer k), w1)"
    using Submit_bet_returns [OF w(1) demo_env_props(1) w(2)] unfolding demo_answer_def by blast
  have g: "good demo_env (tabs w)" using w(1) by (simp add: idle_def)
  have "submit_post demo_env ?i (tabs w) (demo_answer k) (tabs w1)" using run_submit [OF w(1) r] by blast
  from result_row [OF g this] obtain x :: tx_row where "x \<in> set (txs (tabs w1))" "t_provider x = Some (s_provider ?i)"
    "t_key x = Some (s_key ?i) \<or> t_external x = Some (s_external ?i)" by blast
  moreover have "existing ?i (tabs w) = None" using w(3) same(2) by (simp add: fresh_submission_def)
  ultimately have changed: "tabs w1 \<noteq> tabs w" using existing_None(3) [of ?i "tabs w"] by (intro notI) auto
  have "correlation demo_env (r_correlation demo_request) w = (Inr ''c'', w)"
    by (simp add: correlation_def demo_request_def demo_texts ret_def)
  moreover have "route_request demo_env demo_tokens None ''c'' demo_request w = (Inr (writeSubmitResult (demo_answer k)), w1)"
    using r by (simp add: admitted_run [OF demo_admitted] demo_texts answer_run)
  ultimately have "serve demo_env demo_tokens None demo_request w =
      (Inr (writeSubmitResult (demo_answer k)\<lparr>h_headers := (''X-Correlation-Id'', ''c'') # h_headers (writeSubmitResult (demo_answer k))\<rparr>), w1)"
    by (simp add: serve_def bind_def ret_def)
  from that [OF w(1) this _ changed] show ?thesis by (simp add: submit_status_simps submit_status_def)
qed

lemma serve_effects_witness:
  "\<exists>w resp w1. serve demo_env demo_tokens None demo_request w = (Inr resp, w1) \<and> h_status resp = 201 \<and>
     machine\<^sup>*\<^sup>* (tabs w) (tabs w1) \<and> idle demo_env w1"
proof -
  obtain w resp w1 where w: "idle demo_env w" "serve demo_env demo_tokens None demo_request w = (Inr resp, w1)" "h_status resp = 201"
    by (rule demo_served)
  from serve_effects [OF w(1), of demo_tokens None demo_request] w(2,3) show ?thesis by auto
qed

lemma serve_replays_witness:
  "\<exists>w resp w1 resp2 w3. serve demo_env demo_tokens None demo_request w = (Inr resp, w1) \<and> h_status resp = 201 \<and>
     serve demo_env demo_tokens None demo_request w1 = (Inr resp2, w3) \<and> h_status resp2 = 200 \<and> tabs w3 = tabs w1"
proof -
  obtain w resp w1 where w: "idle demo_env w" "serve demo_env demo_tokens None demo_request w = (Inr resp, w1)" "h_status resp = 201"
    by (rule demo_served)
  have "r_route demo_request = PostTransactions ''k1'' (Some demo_body)" by (simp add: demo_request_def)
  from serve_replays [OF w(1) demo_env_props(1) this w(2) _ rtranclp.rtrancl_refl] w(3)
  have "\<exists>resp2 w3. serve demo_env demo_tokens None demo_request w1 = (Inr resp2, w3) \<and> h_status resp2 = 200 \<and> tabs w3 = tabs w1"
    by auto
  with w(2,3) show ?thesis by blast
qed

lemma serve_read_scope_witness:
  "\<exists>q resp w'. is_read (r_route q) \<and> serve demo_env demo_tokens None q demo_empty = (Inr resp, w') \<and> tabs w' = tabs demo_empty"
proof -
  let ?q = "\<lparr>r_route = GetTransaction ''a'', r_authorization = [], r_correlation = []\<rparr>"
  obtain corr w0 resp w' where s: "serve demo_env demo_tokens None ?q demo_empty =
      (Inr (resp\<lparr>h_headers := (''X-Correlation-Id'', corr) # h_headers resp\<rparr>), w')" by (rule serve_run)
  have q: "is_read (r_route ?q)" and a: "\<not> aborted demo_empty" by (simp_all add: is_read_def demo_empty_def)
  from serve_read_scope [OF q s a] q s show ?thesis by blast
qed

end
