(* ===== verification/Access_Control.thy ===== *)
theory Access_Control
  imports Oidc Http_Guarantees
begin

text \<open>
  The HTTP interface with the token validator: an effect on the store can be traced to a token that the issuer's
  key accepted and that carries the role and the provider id.
\<close>

definition oidc :: "jwt_library \<Rightarrow> oidc_config \<Rightarrow> moment \<Rightarrow> key_cache \<Rightarrow> validator" where
  "oidc J v m c tok = fst (ValidateToken J v m tok c)"

lemma ValidateToken_roles:
  assumes "ValidateToken J v m tok c = (Some i, c')"
  shows "\<exists>t k. lib_decode J tok = Some t \<and> keyFor m (claim_text (tk_kid t)) c = (Some k, c') \<and>
    lib_accepts J tok k (m_library m) (leeway v) \<and> id_roles i = realm_roles (tk_claims t) \<and>
    id_provider i = claim_text (c_provider_id (tk_claims t)) \<and> (HasRole i RoleProvider \<longrightarrow> id_provider i \<noteq> [])"
proof -
  obtain t k where t: "lib_decode J tok = Some t" "keyFor m (claim_text (tk_kid t)) c = (Some k, c')"
      "lib_accepts J tok k (m_library m) (leeway v)" "checkClaims J v (m_now m) (tk_claims t) = Some i"
    using assms by (auto simp: ValidateToken_def split: option.splits if_splits prod.splits)
  with checkClaims_SomeD [OF t(4)] show ?thesis by (intro exI [of _ t] exI [of _ k]) (auto simp: HasRole_def)
qed

text \<open>C21. Effects need a signed token. When a request changes a table, it carried a bearer token that the library
  accepted under a key of the key document, and the token's realm roles contain internal (to open a wallet) or
  provider (to submit), in the latter case with the provider id of the submission, which is not empty, as its
  provider_id claim.\<close>

theorem effects_need_token:
  assumes "idle E w" "serve E (oidc J v m c) check q w = (Inr resp, w')" "tabs w' \<noteq> tabs w"
  shows "\<exists>t k c'. lib_decode J (bearerToken (r_authorization q)) = Some t \<and> keyFor m (claim_text (tk_kid t)) c = (Some k, c') \<and>
    lib_accepts J (bearerToken (r_authorization q)) k (m_library m) (leeway v) \<and>
    (case r_route q of
       PostWallets _ \<Rightarrow> RoleInternal \<in> realm_roles (tk_claims t)
     | PostTransactions _ (Some b) \<Rightarrow> RoleProvider \<in> realm_roles (tk_claims t) \<and> q_provider b \<noteq> [] \<and>
         c_provider_id (tk_claims t) = Some (CStr (q_provider b))
     | _ \<Rightarrow> False)"
proof -
  let ?tok = "bearerToken (r_authorization q)"
  have "allowed (oidc J v m c) q"
  proof -
    obtain corr w1 rsp w2 where s: "serve E (oidc J v m c) check q w = (Inr (rsp\<lparr>h_headers := (''X-Correlation-Id'', corr) # h_headers rsp\<rparr>), w2)"
        "route_request E (oidc J v m c) check corr q w1 = (Inr rsp, w2)" "tabs w1 = tabs w" "aborted w1 = aborted w"
      by (rule serve_run)
    have "idle E w1" using assms(1) s(3,4) by (simp add: idle_def)
    from route_request_effect [OF this s(2)] assms(2,3) s(1,3) show ?thesis by (simp add: effect_ok_def)
  qed
  then obtain i where i: "AuthMiddleware (oidc J v m c) (r_authorization q) = Some i" "may_write i (r_route q)"
    by (auto simp: allowed_def)
  then have "fst (ValidateToken J v m ?tok c) = Some i" by (auto simp: AuthMiddleware_def oidc_def Let_def split: if_splits)
  then obtain c' where "ValidateToken J v m ?tok c = (Some i, c')" by (cases "ValidateToken J v m ?tok c") simp
  then obtain t k where t: "lib_decode J ?tok = Some t" "keyFor m (claim_text (tk_kid t)) c = (Some k, c')"
      "lib_accepts J ?tok k (m_library m) (leeway v)" "id_roles i = realm_roles (tk_claims t)"
      "id_provider i = claim_text (c_provider_id (tk_claims t))" "HasRole i RoleProvider \<longrightarrow> id_provider i \<noteq> []"
    using ValidateToken_roles by blast
  have "case r_route q of PostWallets _ \<Rightarrow> RoleInternal \<in> realm_roles (tk_claims t)
     | PostTransactions _ (Some b) \<Rightarrow> RoleProvider \<in> realm_roles (tk_claims t) \<and> q_provider b \<noteq> [] \<and>
         c_provider_id (tk_claims t) = Some (CStr (q_provider b)) | _ \<Rightarrow> False"
    using i(2) t(4-6) by (auto simp: may_write_def HasRole_def claim_text_def split: route.splits option.splits claim.splits)
  with t(1-3) show ?thesis by blast
qed

lemma serve_auth_cong:
  assumes "AuthMiddleware V (r_authorization q) = AuthMiddleware V' (r_authorization q)"
  shows "serve E V check q = serve E V' check q"
proof -
  have "route_request E V check corr q = route_request E V' check corr q" for corr
    using assms by (simp add: route_request_def split: route.split)
  then show ?thesis by (simp add: serve_def)
qed

lemma demo_oidc:
  "serve demo_env (oidc demo_library demo_config demo_moment empty_cache) None demo_request = serve demo_env demo_tokens None demo_request"
  by (rule serve_auth_cong)
    (simp add: AuthMiddleware_def demo_request_def demo_texts oidc_def demo_validated demo_tokens_def StaticValidator_def
      demo_bet_def RoleProvider_def)

lemma effects_need_token_witness:
  "\<exists>w resp w' t k c'. serve demo_env (oidc demo_library demo_config demo_moment empty_cache) None demo_request w = (Inr resp, w') \<and>
     tabs w' \<noteq> tabs w \<and> lib_decode demo_library ''t'' = Some t \<and> keyFor demo_moment (claim_text (tk_kid t)) empty_cache = (Some k, c')"
proof -
  obtain w resp w1 where w: "idle demo_env w" "serve demo_env demo_tokens None demo_request w = (Inr resp, w1)" "tabs w1 \<noteq> tabs w"
    by (rule demo_served)
  have s: "serve demo_env (oidc demo_library demo_config demo_moment empty_cache) None demo_request w = (Inr resp, w1)"
    using w(2) by (simp add: demo_oidc)
  have "bearerToken (r_authorization demo_request) = ''t''" by (simp add: demo_request_def demo_texts)
  with effects_need_token [OF w(1) s w(3)] obtain t k c' where "lib_decode demo_library ''t'' = Some t"
    "keyFor demo_moment (claim_text (tk_kid t)) empty_cache = (Some k, c')" by auto
  with s w(3) show ?thesis by blast
qed

end
