(* ===== verification/Sqs_Consumer.thy ===== *)
theory Sqs_Consumer
  imports Submit
begin

text \<open>
  \<^verbatim>\<open>internal/adapters/sqs/envelope.go\<close> and \<^verbatim>\<open>consumer.go\<close>: the message envelope and the treatment of one delivery.
  \<^verbatim>\<open>encoding/json\<close> enters as the decoder of the body, with its error text. The broker enters as the commands that
  a treatment issues and whether each of them succeeds.
\<close>

section \<open>The envelope\<close>

record operation_data =
  d_provider :: string
  d_external :: string
  d_player :: string
  d_wallet :: string
  d_round :: string
  d_game :: string
  d_kind :: string
  d_amount :: string
  d_currency :: string
  d_ref :: string
  d_key :: string

record envelope =
  v_data :: operation_data
  v_correlation :: string

type_synonym decoder = "string \<Rightarrow> string + envelope"

definition permanent :: "string \<Rightarrow> string" where
  "permanent msg = ''permanent envelope: '' @ msg"

definition ParseEnvelope :: "decoder \<Rightarrow> string \<Rightarrow> string + envelope" where
  "ParseEnvelope dec body = (case dec body of
     Inl e \<Rightarrow> Inl (permanent (''invalid JSON: '' @ e))
   | Inr v \<Rightarrow>
     if d_provider (v_data v) = [] \<or> d_external (v_data v) = []
     then Inl (permanent ''providerId and externalTransactionId are required'')
     else if d_key (v_data v) = [] then Inl (permanent ''idempotencyKey is required'')
     else if d_kind (v_data v) = [] then Inl (permanent ''kind is required'')
     else Inr v)"

section \<open>Broker commands\<close>

record message =
  g_id :: string
  g_receipt :: string
  g_body :: string
  g_receives :: "string option"

datatype command =
    SendDLQ (dlq_body: string) (dlq_group: string) (dlq_dedup: string) (dlq_reason: string) (dlq_detail: string)
  | DeleteMessage string
  | ChangeMessageVisibility string int

text \<open>What a treatment has done: its commands in order with their success, the counters it increments, and the
  error it returns.\<close>

record handled =
  n_commands :: "(command \<times> bool) list"
  n_label :: string
  n_dlq_moves :: "string list"
  n_deferred :: bool
  n_error :: "serr option"

definition ConsumerName :: string where "ConsumerName = ''wallet-consumer''"

definition truncate_text :: "string \<Rightarrow> nat \<Rightarrow> string" where
  "truncate_text s n = (if length s \<le> n then s else take n s)"

definition toDLQ :: "message \<Rightarrow> string \<Rightarrow> string \<Rightarrow> string \<Rightarrow> command" where
  "toDLQ msg grp reason detail = SendDLQ (g_body msg) (if grp = [] then ''invalid'' else grp)
     (g_id msg @ ''-dlq'') reason (truncate_text detail 500)"

text \<open>The receive count, 1 when it is absent or unusable; the ternary minimum keeps the shift in range.\<close>

definition receive_count :: "message \<Rightarrow> int" where
  "receive_count msg = (case g_receives msg of
     None \<Rightarrow> 1
   | Some raw \<Rightarrow> (case parse_int64 raw of None \<Rightarrow> 1 | Some v \<Rightarrow> if sint v > 0 then sint v else 1))"

definition visibility_delay :: "int \<Rightarrow> nat \<Rightarrow> int" where
  "visibility_delay n r =
    (let delay = (2 :: int) ^ nat (min (n - 1) 5);
         delay = (if delay > 30 then 30 else delay);
         delay = delay + int r div 1000
     in if delay > 30 then 30 else delay)"

definition deferVisibility :: "env \<Rightarrow> (command \<Rightarrow> bool) \<Rightarrow> message \<Rightarrow> serr \<Rightarrow> handled action" where
  "deferVisibility E b msg cause = bind (int63n E 1000) (\<lambda>r.
     let c = ChangeMessageVisibility (g_receipt msg) (visibility_delay (receive_count msg) r) in
     ret \<lparr>n_commands = [(c, b c)], n_label = ''retry'', n_dlq_moves = [], n_deferred = b c, n_error = Some cause\<rparr>)"

section \<open>Treatment of a delivery\<close>

text \<open>The commands go out in order; a failed one is logged and does not stop the next.\<close>

definition discard :: "(command \<Rightarrow> bool) \<Rightarrow> message \<Rightarrow> string \<Rightarrow> string \<Rightarrow> string \<Rightarrow> handled" where
  "discard b msg grp reason detail = (let d = toDLQ msg grp reason detail; x = DeleteMessage (g_receipt msg) in
     \<lparr>n_commands = [(d, b d), (x, b x)], n_label = reason, n_dlq_moves = (if b d then [reason] else []),
      n_deferred = False, n_error = None\<rparr>)"

definition submitOutcome :: "submit_result \<Rightarrow> string" where
  "submitOutcome r = (case sr_outcome r of OutcomeProcessed \<Rightarrow> ''processed'' | OutcomeRejected \<Rightarrow> ''rejected''
     | OutcomePending \<Rightarrow> ''pending'' | OutcomeReplay \<Rightarrow> ''replay'')"

definition message_input :: "message \<Rightarrow> envelope \<Rightarrow> submit_input" where
  "message_input msg v = (let d = v_data v in
     \<lparr>s_provider = d_provider d, s_external = d_external d, s_key = d_key d, s_player = d_player d, s_wallet = d_wallet d,
      s_round = d_round d, s_game = d_game d, s_kind = kind_of (d_kind d), s_amount = d_amount d,
      s_currency = d_currency d, s_ref = d_ref d, s_consumer = ConsumerName, s_message = g_id msg,
      s_correlation = (if v_correlation v = [] then g_id msg else v_correlation v)\<rparr>)"

definition poison_text :: "string \<Rightarrow> string" where
  "poison_text msgID = ''poison message '' @ msgID @ '': hash divergence''"

text \<open>A panic is not recovered in a handler, so it ends the process and issues no command.\<close>

definition Handle :: "env \<Rightarrow> decoder \<Rightarrow> (command \<Rightarrow> bool) \<Rightarrow> message \<Rightarrow> handled action" where
  "Handle E dec b msg = (case ParseEnvelope dec (g_body msg) of
     Inl err \<Rightarrow> ret ((discard b msg ''invalid'' ''malformed'' err)\<lparr>n_label := ''invalid''\<rparr>)
   | Inr v \<Rightarrow> bind (attempt (Submit E (message_input msg v))) (\<lambda>res. case res of
       Inr r \<Rightarrow> let x = DeleteMessage (g_receipt msg) in
         ret \<lparr>n_commands = [(x, b x)], n_label = submitOutcome r, n_dlq_moves = [], n_deferred = False, n_error = None\<rparr>
     | Inl (ErrPoison p s h) \<Rightarrow> ret (discard b msg (d_wallet (v_data v)) ''poison'' (poison_text p))
     | Inl e \<Rightarrow> if e = ErrOther ''panic'' then fail e else deferVisibility E b msg e))"

text \<open>The messages of one poll are treated independently of each other.\<close>

fun handle_batch :: "env \<Rightarrow> decoder \<Rightarrow> (command \<Rightarrow> bool) \<Rightarrow> message list \<Rightarrow> handled list action" where
  "handle_batch E dec b [] = ret []"
| "handle_batch E dec b (m # ms) = bind (Handle E dec b m) (\<lambda>h. bind (handle_batch E dec b ms) (\<lambda>hs. ret (h # hs)))"

end
