(* ===== verification/Sqs_Guarantees.thy ===== *)
theory Sqs_Guarantees
  imports Sqs_Consumer Guarantees
begin

text \<open>
  What the treatment of deliveries guarantees: a message leaves the queue only after its outcome is stored or it
  can never be processed, redeliveries move no money, and deferrals stay within the visibility window.
\<close>

section \<open>Deferral\<close>

lemma receive_count_pos: "1 \<le> receive_count msg"
  by (auto simp: receive_count_def split: option.splits)

lemma visibility_delay_exact:
  assumes "1 \<le> n" "r < 1000"
  shows "visibility_delay n r = min 30 (2 ^ nat (n - 1))"
proof (cases "n \<le> 5")
  case True
  then have "n - 1 \<in> {0, 1, 2, 3, 4}" using assms(1) by auto
  then show ?thesis using assms(2) True by (auto simp: visibility_delay_def Let_def)
next
  case False
  then have "(2 :: int) ^ 5 \<le> 2 ^ nat (n - 1)" by (intro power_increasing) auto
  then show ?thesis using False assms by (simp add: visibility_delay_def Let_def)
qed

text \<open>Visibility back-off. A deferred message becomes visible again after exactly 2^(n-1) seconds, at most 30,
  where n is its receive count (1 when the attribute is absent or unusable); the jitter that is drawn never
  changes the delay, and no table changes.\<close>

theorem deferVisibility_delay:
  "\<exists>h w'. deferVisibility E b msg e w = (Inr h, w') \<and> tabs w' = tabs w \<and> n_error h = Some e \<and>
    map fst (n_commands h) = [ChangeMessageVisibility (g_receipt msg) (min 30 (2 ^ nat (receive_count msg - 1)))]"
proof -
  have "visibility_delay (receive_count msg) (e_rand E (tick w) mod 1000) = min 30 (2 ^ nat (receive_count msg - 1))"
    by (rule visibility_delay_exact) (simp_all add: receive_count_pos)
  then show ?thesis by (simp add: deferVisibility_def bind_def int63n_def ret_def Let_def)
qed

section \<open>Treatment\<close>

text \<open>The three ways in which a delivery ends without a panic.\<close>

definition discarded :: "(command \<Rightarrow> bool) \<Rightarrow> message \<Rightarrow> handled \<Rightarrow> bool" where
  "discarded b msg h \<longleftrightarrow> n_error h = None \<and> (\<exists>d. map fst (n_commands h) = [d, DeleteMessage (g_receipt msg)] \<and>
     is_SendDLQ d \<and> dlq_body d = g_body msg \<and> dlq_dedup d = g_id msg @ ''-dlq'' \<and> dlq_group d \<noteq> [] \<and>
     length (dlq_detail d) \<le> 500)"

definition stored :: "env \<Rightarrow> message \<Rightarrow> envelope \<Rightarrow> submit_result \<Rightarrow> tables \<Rightarrow> handled \<Rightarrow> bool" where
  "stored E msg v r T h \<longleftrightarrow> n_error h = None \<and> map fst (n_commands h) = [DeleteMessage (g_receipt msg)] \<and>
     (\<exists>x \<in> set (txs T). e_uuid E (sr_tx r) = Some (t_id x) \<and> t_provider x = Some (d_provider (v_data v)) \<and>
        (t_key x = Some (d_key (v_data v)) \<or> t_external x = Some (d_external (v_data v))))"

definition deferred :: "message \<Rightarrow> handled \<Rightarrow> bool" where
  "deferred msg h \<longleftrightarrow> n_error h \<noteq> None \<and> (\<exists>d. map fst (n_commands h) = [ChangeMessageVisibility (g_receipt msg) d] \<and> 1 \<le> d \<and> d \<le> 30)"

lemma discard_discarded [simp]:
  "discarded b msg (discard b msg g reason detail)" "discarded b msg (h\<lparr>n_label := l\<rparr>) = discarded b msg h"
  by (auto simp: discarded_def discard_def toDLQ_def truncate_text_def Let_def)

lemma deferVisibility_run:
  "\<exists>h w'. deferVisibility E b msg e w = (Inr h, w') \<and> tabs w' = tabs w \<and> aborted w' = aborted w \<and> deferred msg h"
proof -
  have d: "visibility_delay (receive_count msg) (e_rand E (tick w) mod 1000) = min 30 (2 ^ nat (receive_count msg - 1))"
    by (rule visibility_delay_exact) (simp_all add: receive_count_pos)
  have "(1 :: int) \<le> 2 ^ nat (receive_count msg - 1)" by simp
  with d show ?thesis by (simp add: deferVisibility_def bind_def int63n_def ret_def Let_def deferred_def)
qed

lemma message_input_simps [simp]:
  "s_provider (message_input msg v) = d_provider (v_data v)" "s_key (message_input msg v) = d_key (v_data v)"
  "s_external (message_input msg v) = d_external (v_data v)" "s_message (message_input msg v) = g_id msg"
  "s_consumer (message_input msg v) = ConsumerName"
  by (simp_all add: message_input_def Let_def)

lemma Handle_accepts:
  "ParseEnvelope dec (g_body msg) = Inr v \<Longrightarrow> Submit E (message_input msg v) w = (Inr r, w1) \<Longrightarrow>
    Handle E dec b msg w = (Inr \<lparr>n_commands = [(DeleteMessage (g_receipt msg), b (DeleteMessage (g_receipt msg)))],
        n_label = submitOutcome r, n_dlq_moves = [], n_deferred = False, n_error = None\<rparr>, w1)"
  by (simp add: Handle_def bind_def attempt_def ret_def Let_def)

lemma Handle_cases:
  assumes w: "idle E w" and run: "Handle E dec b msg w = (Inr h, w')"
  shows "idle E w' \<and> progress E (tabs w) (tabs w') \<and>
    (discarded b msg h \<and> tabs w' = tabs w \<or> deferred msg h \<and> tabs w' = tabs w \<or>
     (\<exists>v r. ParseEnvelope dec (g_body msg) = Inr v \<and> Submit E (message_input msg v) w = (Inr r, w') \<and>
        n_label h = submitOutcome r \<and> stored E msg v r (tabs w') h))"
proof (cases "ParseEnvelope dec (g_body msg)")
  case (Inl err)
  with run have "w' = w" "h = (discard b msg ''invalid'' ''malformed'' err)\<lparr>n_label := ''invalid''\<rparr>"
    by (simp_all add: Handle_def ret_def)
  then show ?thesis using w progress_refl by (auto simp: idle_def)
next
  case (Inr v)
  let ?i = "message_input msg v"
  obtain res w1 where s: "Submit E ?i w = (res, w1)" by fastforce
  have g: "good E (tabs w)" "\<not> aborted w" using w by (simp_all add: idle_def)
  show ?thesis
  proof (cases res)
    case (Inl e)
    then have same: "tabs w1 = tabs w" "\<not> aborted w1" using run_cases [OF tspec_Submit [OF g(1)] closed_Submit g(2) s] by simp_all
    have "tabs w' = tabs w \<and> \<not> aborted w' \<and> (discarded b msg h \<or> deferred msg h)"
    proof (cases "\<exists>p s h. e = ErrPoison p s h")
      case True
      then obtain p s' h' where "e = ErrPoison p s' h'" by blast
      with run Inr s Inl same show ?thesis by (auto simp: Handle_def bind_def attempt_def ret_def)
    next
      case False
      with run Inr s Inl have "deferVisibility E b msg e w1 = (Inr h, w')"
        by (cases e) (auto simp: Handle_def bind_def attempt_def fail_def split: if_splits)
      with deferVisibility_run [of E b msg e w1] same show ?thesis by auto
    qed
    then show ?thesis using g progress_refl by (auto simp: idle_def)
  next
    case (Inr r)
    with s have r: "Submit E ?i w = (Inr r, w1)" by simp
    have p: "submit_post E ?i (tabs w) r (tabs w1)" "idle E w1" using run_submit [OF w r] by blast+
    have h: "w' = w1" "h = \<lparr>n_commands = [(DeleteMessage (g_receipt msg), b (DeleteMessage (g_receipt msg)))],
        n_label = submitOutcome r, n_dlq_moves = [], n_deferred = False, n_error = None\<rparr>"
      using run Handle_accepts [OF \<open>ParseEnvelope dec (g_body msg) = Inr v\<close> r, of b] by simp_all
    have "stored E msg v r (tabs w') h" using result_row [OF g(1) p(1)] h by (simp add: stored_def)
    then show ?thesis
      using p(2) submit_post_progress [OF g(1) p(1)] \<open>ParseEnvelope dec (g_body msg) = Inr v\<close> r h by auto
  qed
qed

text \<open>Deliveries. A treatment that returns ends in one of three ways: the message goes to the dead-letter queue
  with its body unchanged and is then deleted, and no table changes; or it stays in the queue, deferred by 1 to 30
  seconds, and no table changes; or it is deleted after its outcome is stored, in a transaction of its provider
  with its idempotency key or external id. The store stays sound and moves by steps of the abstract machine.\<close>

theorem Handle_outcomes:
  assumes "idle E w" "Handle E dec b msg w = (Inr h, w')"
  shows "idle E w' \<and> machine\<^sup>*\<^sup>* (tabs w) (tabs w') \<and>
    (discarded b msg h \<and> tabs w' = tabs w \<or> deferred msg h \<and> tabs w' = tabs w \<or>
     (\<exists>v r. ParseEnvelope dec (g_body msg) = Inr v \<and> stored E msg v r (tabs w') h))"
  using Handle_cases [OF assms] by (auto simp: progress_def)

lemma settled_label_new:
  assumes "submit_post E i T r T'" "submitOutcome r \<in> {''processed'', ''rejected''}"
  shows "\<not> sr_replay r" "sr_outcome r \<noteq> OutcomePending"
proof -
  have "existing i T = None"
  proof (rule ccontr)
    assume "existing i T \<noteq> None"
    then obtain x where "existing i T = Some x" by blast
    from replay_existing(1) [OF assms(1) this] assms(2) show False
      by (auto simp: replayResult_def submitOutcome_def Let_def split: tx_state.splits)
  qed
  then show "\<not> sr_replay r" using assms(1) by (auto simp: submit_post_def submitted_def accepted_def reports_def)
  show "sr_outcome r \<noteq> OutcomePending" using assms(2) by (auto simp: submitOutcome_def)
qed

lemma stored_not_discarded: "discarded b msg h \<Longrightarrow> stored E msg v r T h \<Longrightarrow> False"
  by (auto simp: discarded_def stored_def)

lemma label_settled:
  assumes "n_label h \<in> {''processed'', ''rejected''}" "idle E w" "Handle E dec b msg w = (Inr h, w')"
  obtains v r where "ParseEnvelope dec (g_body msg) = Inr v" "Submit E (message_input msg v) w = (Inr r, w')"
    "n_label h = submitOutcome r"
proof (cases "ParseEnvelope dec (g_body msg)")
  case (Inl err)
  with assms(1,3) show ?thesis by (auto simp: Handle_def ret_def)
next
  case (Inr v)
  obtain res w1 where s: "Submit E (message_input msg v) w = (res, w1)" by fastforce
  show ?thesis
  proof (cases res)
    case (Inl e)
    with s assms(1,3) Inr show ?thesis
      by (cases e) (auto simp: Handle_def bind_def attempt_def ret_def fail_def discard_def deferVisibility_def int63n_def
          Let_def split: if_splits)
  next
    case (Inr r)
    with s assms(3) \<open>ParseEnvelope dec (g_body msg) = Inr v\<close> have "w' = w1" "n_label h = submitOutcome r"
      by (auto simp: Handle_def bind_def attempt_def ret_def Let_def)
    with that s Inr \<open>ParseEnvelope dec (g_body msg) = Inr v\<close> show ?thesis by blast
  qed
qed

text \<open>C22. Redeliveries. After a message was processed or rejected, any later delivery of the same body - under any
  message id and receipt, after any further calls - changes no table; if it is stored again it is answered as a
  replay, otherwise it is deferred or goes to the dead-letter queue.\<close>

theorem Handle_redelivery:
  assumes "idle E w" "Handle E dec b msg w = (Inr h, w1)" "n_label h \<in> {''processed'', ''rejected''}"
    and "(serves E)\<^sup>*\<^sup>* w1 w2" "g_body msg2 = g_body msg" "Handle E dec b2 msg2 w2 = (Inr h2, w3)"
  shows "tabs w3 = tabs w2 \<and> (discarded b2 msg2 h2 \<or> deferred msg2 h2 \<or>
    n_label h2 = ''replay'' \<and> map fst (n_commands h2) = [DeleteMessage (g_receipt msg2)])"
proof -
  obtain v r where v: "ParseEnvelope dec (g_body msg) = Inr v" "Submit E (message_input msg v) w = (Inr r, w1)"
      "n_label h = submitOutcome r" by (rule label_settled [OF assms(3,1,2)])
  have "submit_post E (message_input msg v) (tabs w) r (tabs w1)" and i1: "idle E w1" using run_submit [OF assms(1) v(2)] by blast+
  then have new: "\<not> sr_replay r" "sr_outcome r \<noteq> OutcomePending" using settled_label_new assms(3) v(3) by metis+
  have i2: "idle E w2" using runs_progress [OF assms(4) i1] by blast
  consider "discarded b2 msg2 h2" "tabs w3 = tabs w2" | "deferred msg2 h2" "tabs w3 = tabs w2"
    | r2 where "Submit E (message_input msg2 v) w2 = (Inr r2, w3)" "n_label h2 = submitOutcome r2" "stored E msg2 v r2 (tabs w3) h2"
    using Handle_cases [OF i2 assms(6)] v(1) assms(5) by auto
  then show ?thesis
  proof cases
    case 3
    have "s_provider (message_input msg2 v) = s_provider (message_input msg v)"
      "s_key (message_input msg2 v) = s_key (message_input msg v)" by simp_all
    from Submit_same_key [OF assms(1) v(2) new(1) assms(4) this 3(1)]
    have "tabs w3 = tabs w2" "answers E r r2" by simp_all
    with new(2) 3(2,3) show ?thesis by (simp add: answers_def submitOutcome_def stored_def)
  qed simp_all
qed

section \<open>The dead-letter queue\<close>

text \<open>Deletion does not wait for the dead-letter queue. A message that cannot be read is deleted even when the
  broker refuses to take it into the dead-letter queue; the move is then not counted, and the message is in
  neither queue.\<close>

theorem Handle_deletes_unsent:
  assumes "ParseEnvelope dec (g_body msg) = Inl err" "\<And>c. is_SendDLQ c \<Longrightarrow> \<not> b c" "b (DeleteMessage (g_receipt msg))"
  shows "\<exists>h. Handle E dec b msg w = (Inr h, w) \<and> n_dlq_moves h = [] \<and> n_error h = None \<and>
    (\<exists>d. is_SendDLQ d \<and> n_commands h = [(d, False), (DeleteMessage (g_receipt msg), True)])"
  using assms by (simp add: Handle_def ret_def discard_def toDLQ_def Let_def)

section \<open>A concrete delivery\<close>

definition demo_envelope :: envelope where
  "demo_envelope = \<lparr>v_data = \<lparr>d_provider = ''prov'', d_external = ''x1'', d_player = ''p'', d_wallet = ''a'', d_round = ''r1'',
     d_game = ''g1'', d_kind = ''BET'', d_amount = ''2.50'', d_currency = ''BRL'', d_ref = [], d_key = ''k1''\<rparr>,
     v_correlation = []\<rparr>"

definition demo_decoder :: decoder where
  "demo_decoder s = (if s = ''bet'' then Inr demo_envelope else Inl ''unexpected end'')"

definition demo_message :: message where
  "demo_message = \<lparr>g_id = [], g_receipt = ''h'', g_body = ''bet'', g_receives = Some ''1''\<rparr>"

lemma demo_parsed: "ParseEnvelope demo_decoder ''bet'' = Inr demo_envelope"
  by (simp add: ParseEnvelope_def demo_decoder_def demo_envelope_def)

lemma demo_message_input: "message_input demo_message demo_envelope = demo_bet\<lparr>s_consumer := ConsumerName\<rparr>"
  by (simp add: message_input_def demo_message_def demo_envelope_def demo_bet_def kind_of_def)

lemma demo_handled:
  obtains w w1 where "idle demo_env w" "Handle demo_env demo_decoder b demo_message w =
    (Inr \<lparr>n_commands = [(DeleteMessage ''h'', b (DeleteMessage ''h''))], n_label = ''processed'', n_dlq_moves = [],
       n_deferred = False, n_error = None\<rparr>, w1)"
proof -
  obtain w where w: "idle demo_env w" "new_ids demo_env w" "fresh_submission demo_env demo_bet demo_wallet (tabs w)"
    using demo_opened by metis
  obtain h where h: "validate_input demo_bet = Inr (mk_money 250 ''BRL'', h)" using demo_bet_valid by blast
  let ?i = "demo_bet\<lparr>s_consumer := ConsumerName\<rparr>"
  have "hash_input_of ?i = hash_input_of demo_bet" by (simp add: hash_input_of_def)
  then have "validate_input ?i = Inr (mk_money 250 ''BRL'', h)"
    using h by (simp add: validate_input_def cong: sum.case_cong option.case_cong if_cong)
  moreover have "fresh_submission demo_env ?i demo_wallet (tabs w)"
    using w(3) unfolding fresh_submission_def existing_def by (elim conjE, intro conjI) (simp_all cong: option.case_cong)
  ultimately obtain k w1 where "Submit demo_env (message_input demo_message demo_envelope) w = (Inr (demo_answer k), w1)"
    using Submit_bet_returns [OF w(1) demo_env_props(1) w(2)] unfolding demo_answer_def demo_message_input by fastforce
  with Handle_accepts [of demo_decoder demo_message demo_envelope demo_env w "demo_answer k" w1 b] that [OF w(1), of w1] demo_parsed
  show ?thesis by (simp add: submitOutcome_def demo_message_def)
qed

lemma Handle_outcomes_witness:
  "\<exists>w h w1. Handle demo_env demo_decoder (\<lambda>_. True) demo_message w = (Inr h, w1) \<and> machine\<^sup>*\<^sup>* (tabs w) (tabs w1) \<and>
     n_label h = ''processed''"
proof -
  obtain w h w1 where w: "idle demo_env w" "Handle demo_env demo_decoder (\<lambda>_. True) demo_message w = (Inr h, w1)"
    "n_label h = ''processed''" by (rule demo_handled [of "\<lambda>_. True"]) simp
  from Handle_outcomes [OF w(1,2)] w(2,3) show ?thesis by blast
qed

lemma Handle_replies:
  assumes "Handle E dec b msg w = (Inr h, w1)" "n_label h = ''processed''" "idle E w" "idle E w1" "sure E"
    "g_id msg = []"
  shows "\<exists>h2 w2. Handle E dec b msg w1 = (Inr h2, w2)"
proof -
  obtain v r where v: "ParseEnvelope dec (g_body msg) = Inr v" "Submit E (message_input msg v) w = (Inr r, w1)"
    "n_label h = submitOutcome r" by (rule label_settled [OF _ assms(3,1)]) (use assms(2) in auto)
  have p: "submit_post E (message_input msg v) (tabs w) r (tabs w1)" using run_submit [OF assms(3) v(2)] by blast
  obtain a h' oc x y q where y: "validate_input (message_input msg v) = Inr (a, h')" "oc_in oc = message_input msg v"
      "oc_hash oc = h'" "reports E oc r x" "evolves x y" "y \<in> set (txs (tabs w1))" "own_wallet E (message_input msg v) (tabs w1) q"
    using accepted_row_later [OF assms(3) v(2) settled_label_new(1) [OF p] rtranclp.rtrancl_refl] v(3) assms(2)
    by (metis insertI1)
  have ex: "existing (message_input msg v) (tabs w1) = Some y"
    using later_existing [OF _ y(4,6,5)] y(2) assms(4) by (simp add: idle_def)
  have hash: "str (t_hash y) = h'" using reports_key(3) [OF y(4)] y(3,5) by (simp add: evolves_def same_request_def)
  have "\<exists>w'. Submit E (message_input msg v) w1 = (known_answer y h', w') \<and> tabs w' = tabs w1"
    by (rule Submit_known [OF assms(4,5) y(1,7) ex]) (simp add: calm_def assms(6))
  then show ?thesis using v(1) hash by (auto simp: Handle_def bind_def attempt_def known_answer_def ret_def Let_def)
qed

lemma Handle_redelivery_witness:
  "\<exists>w h w1 h2 w2. Handle demo_env demo_decoder (\<lambda>_. True) demo_message w = (Inr h, w1) \<and> n_label h = ''processed'' \<and>
     Handle demo_env demo_decoder (\<lambda>_. True) demo_message w1 = (Inr h2, w2) \<and> tabs w2 = tabs w1"
proof -
  obtain w h w1 where w: "idle demo_env w" "Handle demo_env demo_decoder (\<lambda>_. True) demo_message w = (Inr h, w1)"
    "n_label h = ''processed''" by (rule demo_handled [of "\<lambda>_. True"]) simp
  have i1: "idle demo_env w1" using Handle_cases [OF w(1,2)] by blast
  obtain h2 w2 where h2: "Handle demo_env demo_decoder (\<lambda>_. True) demo_message w1 = (Inr h2, w2)"
    using Handle_replies [OF w(2,3,1) i1 demo_env_props(1)] by (auto simp: demo_message_def)
  have "tabs w2 = tabs w1" using Handle_redelivery [OF w(1,2) _ rtranclp.rtrancl_refl refl h2] w(3) by simp
  with w(2,3) h2 show ?thesis by blast
qed

lemma Handle_deletes_unsent_witness:
  "\<exists>msg h. (\<exists>d. is_SendDLQ d \<and> n_commands h = [(d, False), (DeleteMessage ''h'', True)]) \<and>
     Handle demo_env demo_decoder (\<lambda>c. \<not> is_SendDLQ c) msg demo_empty = (Inr h, demo_empty)"
proof -
  let ?m = "demo_message\<lparr>g_body := []\<rparr>"
  have "ParseEnvelope demo_decoder (g_body ?m) = Inl (permanent (''invalid JSON: '' @ ''unexpected end''))"
    by (simp add: ParseEnvelope_def demo_decoder_def)
  from Handle_deletes_unsent [OF this, of "\<lambda>c. \<not> is_SendDLQ c" demo_env demo_empty]
  show ?thesis by (auto simp: demo_message_def)
qed

end
