(* ===== verification/Store_Frames.thy ===== *)
theory Store_Frames
  imports Use_Cases
begin

text \<open>
  A relation between tables that is reflexive, transitive and holds across every statement of the repositories
  holds across every use-case, each of its transactions, and whatever else the service runs, however it ends:
  the locale \<open>store_frame\<close>.
\<close>

lemmas sql_defs = sql_find_wallet_def sql_insert_wallet_def sql_update_balance_def sql_insert_tx_def sql_find_tx_def
  sql_update_state_def sql_mark_reversed_def sql_clear_reversal_def sql_has_active_win_def sql_append_ledger_def
  sql_page_def sql_all_ordered_def sql_insert_inbox_def sql_insert_work_def sql_update_work_def

locale store_frame = frame R for R +
  fixes E :: env
  assumes on_wallets: "keeps R (LockForUpdate E w)" "keeps R (wallet_Get E w)" "keeps R (wallet_Insert E r)"
      "keeps R (UpdateBalance E w b v)"
    and on_txs: "keeps R (tx_Insert E x)" "keeps R (tx_Get E i)" "keeps R (FindByProviderKey E p kk)"
      "keeps R (FindByProviderExternal E p e)" "keeps R (FindDependents E p e)" "keeps R (UpdateState E x)"
      "keeps R (MarkReversed E i k j)" "keeps R (ClearReversal E i)" "keeps R (HasActiveWin E i)"
    and on_ledger: "keeps R (ledger_Append E l)"
    and on_inbox: "keeps R (InsertInbox E c m h)" "keeps R (CompleteInbox E c m)" "keeps R (FindInbox E c m)"
    and on_works: "keeps R (EnqueueWork E k_rec)" "keeps R (GetWork E i)" "keeps R (TouchWork E i a1 b1 t c1)"
      "keeps R (DeleteWork E i)" "keeps R (stmt E (sql_update_work E i f))"
    and on_outbox: "keeps R (EnqueueOutbox E o_rec)" "keeps R (MarkOutboxPublished E i)" "keeps R (NackOutbox E i n t)"
      "keeps R (stmt E (sql_update_outbox E i (\<lambda>q. q\<lparr>b_owner := Some p, b_lease := Some tt\<rparr>)))"
begin

lemma across_read: "(\<And>T x T'. f T = Inr (x, T') \<Longrightarrow> T' = T) \<Longrightarrow> keeps R (stmt E f)"
  by (rule keeps_stmt) (metis frame_refl)

lemmas across_intros = keeps_rules on_wallets on_txs on_ledger on_inbox on_works on_outbox

lemma across_emit: "keeps R (emitProcessed E w i s a b d)" "keeps R (emitRejected E w i s a c)"
  "keeps R (emitPendingRef E w i s)"
  unfolding emitProcessed_def emitRejected_def emitPendingRef_def by (intro across_intros)+

lemma across_outcomes:
  "keeps R (insertTx E oc i w st fc m ref)" "keeps R (processed E oc i w before after ref d)"
  "keeps R (rejected E oc i w fc ref)" "keeps R (parkReference E oc i t w)" "keeps R (activeWin E x)"
  "keeps R (markTarget E k i x)" "keeps R (mustMinor a c)"
  unfolding insertTx_def processed_def rejected_def parkReference_def activeWin_def markTarget_def mustMinor_def
  by (intro across_intros across_emit)+

lemma across_apply: "keeps R (applyWin E oc i w t)" "keeps R (applyReversal E oc i w t)"
  unfolding applyWin_def applyReversal_def Let_def by (intro across_intros across_outcomes)+

lemma across_applyOperation: "keeps R (applyOperation E oc)"
  unfolding applyOperation_def applyBet_def applyFreeWin_def applyLoss_def applyWithReference_def Let_def
  by (intro across_intros; auto intro!: across_intros across_outcomes across_emit across_apply split: kind.splits sum.splits option.splits tx_state.splits)

lemma across_settle:
  "keeps R (settleProcessedExisting E w q i ref d b a)" "keeps R (settleRejectedExisting E w q i ref c)"
  "keeps R m \<Longrightarrow> keeps R (settle_true m)" "keeps R (BackoffFullJitter E n c1 c2)"
  unfolding settleProcessedExisting_def settleRejectedExisting_def settle_true_def BackoffFullJitter_def Let_def
  by (intro across_intros across_emit; assumption?)+

lemma across_resume:
  "keeps R (resumeWin E w q i a t)" "keeps R (resumeReversal E w q i a t)" "keeps R (resumeApply E w q i a t)"
  "keeps R (workCreatedAt E k)" "keeps R (workRefAttempts E k)"
  unfolding resumeApply_def resumeWin_def resumeReversal_def workCreatedAt_def workRefAttempts_def Let_def
  by (intro across_intros across_outcomes across_settle)+

lemma across_wait: "keeps R (wait_again E q t)" "keeps R (ref_exhausted E q t)"
  unfolding wait_again_def ref_exhausted_def by (intro across_intros across_settle across_resume)+

lemma across_resumeOne: "keeps R (resumeOne E q)"
  unfolding resumeOne_found resume_found_def
  by (intro across_intros; auto intro!: across_intros across_settle across_resume across_wait split: option.splits tx_state.splits)

lemma across_resume_all: "keeps R (resume_all E ds)"
  by (induction ds) (auto intro!: across_intros across_resumeOne)

lemma across_ReevaluateDependents: "keeps R (ReevaluateDependents E p e)"
  unfolding ReevaluateDependents_def by (intro across_intros across_resume_all)

lemma across_submit_body: "keeps R (submit_body E i a h)"
  unfolding submit_body_def replay_or_conflict_def record_inbox_def by (intro across_intros across_applyOperation)

lemma across_Submit: "keeps R (Submit E i)"
  unfolding Submit_def reevaluate_def inbox_check_def
  by (intro across_intros across_submit_body across_ReevaluateDependents)

lemma across_open_body: "keeps R (open_body E u p c s m)"
  unfolding open_body_def insert_new_wallet_def fund_wallet_def Let_def by (intro across_intros)

lemma across_OpenWallet: "keeps R (OpenWallet E p c s)"
  unfolding OpenWallet_def by (intro across_intros across_open_body)

lemma across_ClaimWork: "keeps R (ClaimWork E owner ttl n)"
proof -
  have "keeps R (lease_work E owner t rs)" for t rs by (induction rs) (auto intro!: across_intros)
  then show ?thesis unfolding ClaimWork_def by (intro across_intros across_read) auto
qed

lemma across_finish_item: "keeps R (finish_item E item r)"
  unfolding finish_item_def noteInfra_def Let_def by (intro across_intros across_settle across_resumeOne)

lemma across_processWorkItem: "keeps R (processWorkItem E item)"
  unfolding processWorkItem_finish by (intro across_intros across_finish_item)

lemma across_ProcessDueWork: "keeps R (ProcessDueWork E owner n)"
proof -
  have "keeps R (process_items E is)" for "is"
    by (induction "is") (auto intro!: across_intros across_processWorkItem split: sum.split)
  then show ?thesis unfolding ProcessDueWork_def by (intro across_intros across_ClaimWork)
qed

lemma across_ClaimOutbox: "keeps R (ClaimOutbox E owner ttl n)"
proof -
  have "keeps R (lease_outbox E owner t rs)" for t rs by (induction rs) (auto intro!: across_intros)
  then show ?thesis unfolding ClaimOutbox_def by (intro across_intros across_read) auto
qed

lemma across_publish_all: "keeps R (publish_all E send t rs acc)"
  by (induction rs arbitrary: acc) (auto intro!: across_intros across_settle simp: Let_def split: sum.split)

lemma across_PublishDueOutbox: "keeps R (PublishDueOutbox E send owner n)"
  unfolding PublishDueOutbox_def by (intro across_intros across_ClaimOutbox across_publish_all)

text \<open>Across every step of the service.\<close>

lemma across_ran: "keeps R m \<Longrightarrow> R (tabs w) (tabs (snd (m w)))"
  by (simp add: keeps_def)

lemma across_block: "block E w w' \<Longrightarrow> R (tabs w) (tabs w')"
  by (erule block.cases) (auto intro!: across_ran across_intros across_submit_body across_ReevaluateDependents across_open_body
      across_ClaimWork across_processWorkItem across_ClaimOutbox)

lemma across_serves: "serves E w w' \<Longrightarrow> R (tabs w) (tabs w')"
  by (erule serves.cases)
    (auto intro!: across_ran across_Submit across_OpenWallet across_ProcessDueWork across_PublishDueOutbox frame_refl intro: across_block)

end

end
