(* ===== verification/Outbox_Log.thy ===== *)
theory Outbox_Log
  imports Store_Frames
begin

text \<open>
  The outbox is a log. Whatever runs and however it ends, events are only appended: none is deleted, reordered or
  altered, and a published one stays published. Only the publication bookkeeping of a row changes. The event ids
  stay unique and canonical, and the attempt counts are not negative.
\<close>

section \<open>The relation\<close>

text \<open>The same event, with possibly more bookkeeping.\<close>

definition same_event :: "outbox_row \<Rightarrow> outbox_row \<Rightarrow> bool" where
  "same_event r s \<longleftrightarrow> b_event s = b_event r \<and> b_aggregate s = b_aggregate r \<and> b_type s = b_type r \<and>
     b_payload s = b_payload r \<and> b_occurred s = b_occurred r \<and> (b_published r \<noteq> None \<longrightarrow> b_published s \<noteq> None)"

definition appended :: "outbox_row list \<Rightarrow> outbox_row list \<Rightarrow> bool" where
  "appended rs ss \<longleftrightarrow> list_all2 same_event rs (take (length rs) ss)"

definition outbox_ok :: "env \<Rightarrow> tables \<Rightarrow> bool" where
  "outbox_ok E T \<longleftrightarrow> distinct (map b_event (outbox T)) \<and> list_all (canon E) (map b_event (outbox T)) \<and>
     (\<forall>r \<in> set (outbox T). 0 \<le> b_attempts r)"

definition log :: "env \<Rightarrow> tables \<Rightarrow> tables \<Rightarrow> bool" where
  "log E T T' \<longleftrightarrow> appended (outbox T) (outbox T') \<and> (uuid_law E \<longrightarrow> outbox_ok E T \<longrightarrow> outbox_ok E T')"

lemma same_event_refl [simp]: "same_event r r"
  by (simp add: same_event_def)

lemma same_event_trans: "same_event r s \<Longrightarrow> same_event s t \<Longrightarrow> same_event r t"
  by (simp add: same_event_def)

lemma appended_refl: "appended rs rs"
  by (simp add: appended_def list_all2_refl)

lemma appended_iff: "appended rs ss \<longleftrightarrow> length rs \<le> length ss \<and> (\<forall>i < length rs. same_event (rs ! i) (ss ! i))"
  by (auto simp: appended_def list_all2_conv_all_nth min_def split: if_splits)

lemma appended_trans: "appended rs ss \<Longrightarrow> appended ss ts \<Longrightarrow> appended rs ts"
  unfolding appended_iff by (meson le_trans less_le_trans same_event_trans)

lemma appended_in: "appended rs ss \<Longrightarrow> r \<in> set rs \<Longrightarrow> \<exists>s \<in> set ss. same_event r s"
  unfolding appended_iff by (metis in_set_conv_nth less_le_trans)

interpretation log: frame "log E" for E
  by unfold_locales (auto simp: log_def appended_refl intro: appended_trans)

lemma log_same: "outbox T' = outbox T \<Longrightarrow> log E T T'"
  by (simp add: log_def appended_refl outbox_ok_def)

lemma log_add:
  assumes "sql_insert_outbox E r T = Inr (u, T')"
  shows "log E T T'"
proof -
  obtain b where b: "e_uuid E (b_event r) = Some (b_event b)" "b = r\<lparr>b_event := b_event b, b_aggregate := b_aggregate b\<rparr>"
    "tbl_find b_event (b_event b) (outbox T) = None" "outbox T' = outbox T @ [b]"
    using sql_insert_outbox_InrD [OF assms] by auto
  have "0 \<le> b_attempts r"
    using assms by (auto simp: sql_insert_outbox_def rbind_def Let_def split: sum.splits if_splits)
  then have "0 \<le> b_attempts (r\<lparr>b_event := b_event b, b_aggregate := b_aggregate b\<rparr>)" by simp
  then have "0 \<le> b_attempts b" using b(2) by metis
  have "b_event b \<notin> b_event ` set (outbox T)" using b(3) by (auto simp: tbl_find_def find_None_iff)
  then show ?thesis using b(1,4) \<open>0 \<le> b_attempts b\<close>
    by (auto simp: log_def appended_def list_all2_refl outbox_ok_def canon_def uuid_law_def)
qed

lemma log_update:
  assumes "sql_update_outbox E e f T = Inr (u, T')" "\<And>r. same_event r (f r)"
  shows "log E T T'"
proof -
  obtain k where T': "outbox T' = tbl_modify b_event k f (outbox T)"
      "\<forall>r \<in> set (outbox T). b_event r = k \<longrightarrow> 0 \<le> b_attempts (f r)"
    using assms(1) by (auto simp: sql_update_outbox_def rbind_def not_less split: sum.splits if_splits)
  have f: "b_event (f r) = b_event r" for r using assms(2) [of r] by (simp add: same_event_def)
  have ids: "map b_event (outbox T') = map b_event (outbox T)" by (simp add: T'(1) tbl_modify_def f)
  moreover have "\<forall>r \<in> set (outbox T'). 0 \<le> b_attempts r" if "\<forall>r \<in> set (outbox T). 0 \<le> b_attempts r"
    using that T'(2) by (auto simp: T'(1) tbl_modify_def)
  ultimately have "outbox_ok E T \<longrightarrow> outbox_ok E T'" unfolding outbox_ok_def by simp
  moreover have "appended (outbox T) (outbox T')"
    using assms(2) by (simp add: appended_iff T'(1) tbl_modify_def)
  ultimately show ?thesis by (simp add: log_def)
qed

section \<open>Every action appends\<close>

lemma log_stmt_other: "(\<And>T x T'. f T = Inr (x, T') \<Longrightarrow> outbox T' = outbox T) \<Longrightarrow> keeps (log E) (stmt F f)"
  by (rule log.keeps_stmt) (rule log_same)

lemma log_absent: "keeps (log E) m \<Longrightarrow> keeps (log E) (absent_if_invalid m)"
  unfolding absent_if_invalid_def by (intro log.keeps_rules)

lemma log_repo:
  "keeps (log E) (LockForUpdate E w)" "keeps (log E) (wallet_Get E w)" "keeps (log E) (wallet_Insert E r)"
  "keeps (log E) (UpdateBalance E w b v)" "keeps (log E) (tx_Insert E x)" "keeps (log E) (tx_Get E i)"
  "keeps (log E) (FindByProviderKey E p kk)" "keeps (log E) (FindByProviderExternal E p e)"
  "keeps (log E) (FindDependents E p e)" "keeps (log E) (UpdateState E x)" "keeps (log E) (MarkReversed E i k j)"
  "keeps (log E) (ClearReversal E i)" "keeps (log E) (HasActiveWin E i)" "keeps (log E) (ledger_Append E l)"
  "keeps (log E) (InsertInbox E c m h)" "keeps (log E) (CompleteInbox E c m)" "keeps (log E) (FindInbox E c m)"
  "keeps (log E) (EnqueueWork E k_rec)" "keeps (log E) (GetWork E i)" "keeps (log E) (TouchWork E i a1 b1 t c1)"
  "keeps (log E) (DeleteWork E i)"
  unfolding LockForUpdate_def wallet_Get_def wallet_Insert_def UpdateBalance_def tx_Insert_def tx_Get_def
    FindByProviderKey_def FindByProviderExternal_def FindDependents_def UpdateState_def MarkReversed_def
    ClearReversal_def HasActiveWin_def ledger_Append_def InsertInbox_def
    CompleteInbox_def FindInbox_def EnqueueWork_def GetWork_def TouchWork_def DeleteWork_def
  by (intro log.keeps_rules log_absent log_stmt_other;
      auto simp: sql_defs rbind_def Let_def split: sum.splits option.splits if_splits prod.splits)+

lemma log_events:
  "keeps (log E) (EnqueueOutbox E e)" "keeps (log E) (MarkOutboxPublished E i)" "keeps (log E) (NackOutbox E i n t)"
  "keeps (log E) (stmt E (sql_update_outbox E i (\<lambda>q. q\<lparr>b_owner := Some p, b_lease := Some l\<rparr>)))"
  unfolding EnqueueOutbox_def MarkOutboxPublished_def NackOutbox_def
  by (intro log.keeps_rules log.keeps_stmt; (erule log_add | (erule log_update, simp add: same_event_def)))+

lemmas log_intros = log.keeps_rules log_repo log_events log_absent

lemma log_update_work: "keeps (log E) (stmt E (sql_update_work E i f))"
  by (rule log_stmt_other) (auto simp: sql_defs rbind_def split: sum.splits if_splits)

interpretation log_run: store_frame "log E" E for E
  by unfold_locales (rule log_repo log_events log_update_work)+

end
