(* ===== verification/Publication.thy ===== *)
theory Publication
  imports Outbox_Log Example_Run
begin

text \<open>
  What the publisher guarantees: an event becomes published only when the broker took it, with the payload and
  identity that were stored with the operation; and a tick with a working broker and database publishes all
  that is due.
\<close>

section \<open>Published events\<close>

definition published_ids :: "tables \<Rightarrow> string set" where
  "published_ids T = b_event ` {r \<in> set (outbox T). b_published r \<noteq> None}"

lemma update_published_ids:
  assumes "sql_update_outbox E e f T = Inr (u, T')" "\<And>r. b_event (f r) = b_event r"
    and "\<And>r. e_uuid E e = Some (b_event r) \<Longrightarrow> b_published (f r) = b_published r \<or> b_event r \<in> A"
  shows "published_ids T' \<subseteq> A \<union> published_ids T"
proof
  fix i assume "i \<in> published_ids T'"
  then obtain s where s: "s \<in> set (outbox T')" "i = b_event s" "b_published s \<noteq> None" by (auto simp: published_ids_def)
  obtain k where k: "e_uuid E e = Some k" "outbox T' = tbl_modify b_event k f (outbox T)"
    using assms(1) by (auto simp: sql_update_outbox_def rbind_def split: sum.splits if_splits)
  obtain r where r: "r \<in> set (outbox T)" "s = (if b_event r = k then f r else r)"
    using s(1) k(2) by (auto simp: tbl_modify_def)
  show "i \<in> A \<union> published_ids T"
  proof (cases "b_event r = k")
    case True
    then have "b_event s = b_event r" "b_published s = b_published r \<or> b_event r \<in> A"
      using r(2) assms(2,3) [of r] k(1) by simp_all
    then show ?thesis using r(1) s(2,3) by (auto simp: published_ids_def)
  next
    case False
    then show ?thesis using r s(2,3) by (auto simp: published_ids_def)
  qed
qed

text \<open>Publishing marks at most the event with the given id; leasing and rescheduling mark none.\<close>

lemma autocommit_stmt_tables:
  "autocommit (stmt E f) w = (res, w') \<Longrightarrow> tabs w' = tabs w \<and> (\<exists>e. res = Inl e) \<or> (\<exists>x. res = Inr x \<and> f (tabs w) = Inr (x, tabs w'))"
  by (auto simp: autocommit_def stmt_def split: if_splits sum.splits prod.splits)

lemma tock_aborted: "tock (w\<lparr>aborted := False\<rparr>) = (tock w)\<lparr>aborted := False\<rparr>"
  by (cases w) (simp add: tock_def)

lemma Backoff_run: "\<exists>d w'. BackoffFullJitter E n b c w = (Inr d, w') \<and> tabs w' = tabs w"
  by (auto simp: BackoffFullJitter_def Let_def bind_def int63n_def ret_def)

lemma Backoff_total: "BackoffFullJitter E n b c w = (Inl e, w') \<Longrightarrow> False"
  using Backoff_run [of E n b c w] by simp

lemma Mark_run:
  assumes "autocommit (MarkOutboxPublished E e) w = (res, w')" "canon E e"
  shows "published_ids (tabs w') \<subseteq> insert e (published_ids (tabs w))"
proof -
  obtain f :: "outbox_row \<Rightarrow> outbox_row" and w0 where f: "\<And>r. b_event (f r) = b_event r" "tabs w0 = tabs w"
    "autocommit (stmt E (sql_update_outbox E e f)) w0 = (res, w')"
  proof (rule that)
    show "autocommit (stmt E (sql_update_outbox E e
        (\<lambda>r. r\<lparr>b_published := Some (e_clock E (tick w)), b_owner := None, b_lease := None\<rparr>))) (tock w) = (res, w')"
      using assms(1) tock_aborted [of w] by (simp add: MarkOutboxPublished_def autocommit_def bind_def now_def)
  qed simp_all
  from autocommit_stmt_tables [OF f(3)] show ?thesis
  proof
    assume "\<exists>x. res = Inr x \<and> sql_update_outbox E e f (tabs w0) = Inr (x, tabs w')"
    then have "published_ids (tabs w') \<subseteq> {e} \<union> published_ids (tabs w0)"
      using update_published_ids [of E e f "tabs w0" _ "tabs w'" "{e}"] f(1) assms(2) by (auto simp: canon_def)
    then show ?thesis using f(2) by simp
  qed (use f(2) in auto)
qed

lemma Nack_run:
  assumes "autocommit (NackOutbox E e n t) w = (res, w')"
  shows "published_ids (tabs w') \<subseteq> published_ids (tabs w)"
  using autocommit_stmt_tables [OF assms [unfolded NackOutbox_def]]
    update_published_ids [of E e "\<lambda>r. r\<lparr>b_attempts := n, b_next := t, b_owner := None, b_lease := None\<rparr>" "tabs w" _ "tabs w'" "{}"]
  by auto

section \<open>A publication tick\<close>

lemma publish_all_run:
  assumes "\<forall>r \<in> set rs. canon E (ob_event r)"
  shows "\<exists>acc' w'. publish_all E send t rs acc w = (Inr acc', w') \<and>
    published_ids (tabs w') \<subseteq> published_ids (tabs w) \<union> pub_dedup ` set (sent acc') \<and> set (sent acc) \<subseteq> set (sent acc') \<and>
    (\<forall>p \<in> set (sent acc'). p \<in> set (sent acc) \<or> send p \<and> p \<in> Publish ` set rs)"
  using assms
proof (induction rs arbitrary: acc w)
  case Nil
  then show ?case by (auto simp: ret_def)
next
  case (Cons r rs)
  let ?p = "Publish r"
  have dedup: "pub_dedup ?p = ob_event r" by (simp add: Publish_def)
  have can: "canon E (ob_event r)" "\<forall>r \<in> set rs. canon E (ob_event r)" using Cons.prems by simp_all
  show ?case
  proof (cases "send ?p")
    case False
    obtain d w1 where d: "BackoffFullJitter E (ob_attempts r + 1) BackoffBase BackoffCap w = (Inr d, w1)" "tabs w1 = tabs w"
      using Backoff_run by blast
    obtain res w2 where n: "autocommit (NackOutbox E (ob_event r) (ob_attempts r + 1) (t + d)) w1 = (res, w2)" by fastforce
    have sub: "published_ids (tabs w2) \<subseteq> published_ids (tabs w)" using Nack_run [OF n] d(2) by simp
    show ?thesis
    proof (cases res)
      case (Inl e)
      with False d n sub show ?thesis by (auto simp: bind_def attempt_def ret_def)
    next
      case (Inr u)
      then have "publish_all E send t (r # rs) acc w = publish_all E send t rs acc w2"
        using False d n by (simp add: bind_def attempt_def)
      moreover obtain acc' w' where *: "publish_all E send t rs acc w2 = (Inr acc', w')"
          "published_ids (tabs w') \<subseteq> published_ids (tabs w2) \<union> pub_dedup ` set (sent acc')"
          "set (sent acc) \<subseteq> set (sent acc')" "\<forall>p \<in> set (sent acc'). p \<in> set (sent acc) \<or> send p \<and> p \<in> Publish ` set rs"
        using Cons.IH [OF can(2), of acc w2] by blast
      moreover have "published_ids (tabs w') \<subseteq> published_ids (tabs w) \<union> pub_dedup ` set (sent acc')" using *(2) sub by blast
      moreover have "\<forall>p \<in> set (sent acc'). p \<in> set (sent acc) \<or> send p \<and> p \<in> Publish ` set (r # rs)" using *(4) by auto
      ultimately show ?thesis by (intro exI [of _ acc'] exI [of _ w'] conjI) simp_all
    qed
  next
    case True
    let ?acc = "acc\<lparr>sent := sent acc @ [?p]\<rparr>"
    obtain res w2 where m: "autocommit (MarkOutboxPublished E (ob_event r)) w = (res, w2)" by fastforce
    have sub: "published_ids (tabs w2) \<subseteq> insert (ob_event r) (published_ids (tabs w))" by (rule Mark_run [OF m can(1)])
    show ?thesis
    proof (cases res)
      case (Inl e)
      with True m sub dedup show ?thesis by (auto simp: bind_def attempt_def ret_def Let_def)
    next
      case (Inr u)
      let ?acc2 = "?acc\<lparr>published := Suc (published ?acc)\<rparr>"
      have "publish_all E send t (r # rs) acc w = publish_all E send t rs ?acc2 w2"
        using True m Inr by (simp add: bind_def attempt_def Let_def)
      moreover obtain acc' w' where *: "publish_all E send t rs ?acc2 w2 = (Inr acc', w')"
          "published_ids (tabs w') \<subseteq> published_ids (tabs w2) \<union> pub_dedup ` set (sent acc')"
          "set (sent ?acc2) \<subseteq> set (sent acc')" "\<forall>p \<in> set (sent acc'). p \<in> set (sent ?acc2) \<or> send p \<and> p \<in> Publish ` set rs"
        using Cons.IH [OF can(2), of ?acc2 w2] by blast
      moreover have p: "?p \<in> set (sent acc')" using *(3) by auto
      then have "ob_event r \<in> pub_dedup ` set (sent acc')" using dedup by (metis image_eqI)
      then have "published_ids (tabs w') \<subseteq> published_ids (tabs w) \<union> pub_dedup ` set (sent acc')" using *(2) sub by blast
      moreover have "\<forall>p \<in> set (sent acc'). p \<in> set (sent acc) \<or> send p \<and> p \<in> Publish ` set (r # rs)" using *(4) True by auto
      moreover have "set (sent acc) \<subseteq> set (sent acc')" using *(3) by auto
      ultimately show ?thesis by (intro exI [of _ acc'] exI [of _ w'] conjI) simp_all
    qed
  qed
qed

lemma ClaimOutbox_result:
  assumes "ClaimOutbox E owner ttl n w = (Inr rs, w')"
  shows "set rs \<subseteq> to_outbox_record ` {r \<in> set (outbox (tabs w)). b_published r = None} \<and>
    published_ids (tabs w') \<subseteq> published_ids (tabs w)"
proof -
  have lease: "wp (lease_outbox E owner x qs) (\<lambda>out w1. out = map to_outbox_record qs \<and> published_ids (tabs w1) \<subseteq> published_ids (tabs w0))
      (\<lambda>_ _. True) w0" for x qs w0
  proof (induction qs arbitrary: w0)
    case (Cons q qs)
    have "wp (stmt E (sql_update_outbox E (b_event q) (\<lambda>q. q\<lparr>b_owner := Some owner, b_lease := Some x\<rparr>)))
        (\<lambda>_ w1. published_ids (tabs w1) \<subseteq> published_ids (tabs w0)) (\<lambda>_ _. True) w0"
      using update_published_ids [of E "b_event q" "\<lambda>q. q\<lparr>b_owner := Some owner, b_lease := Some x\<rparr>" "tabs w0" _ _ "{}"]
      by (auto simp: wp_def stmt_def split: sum.splits prod.splits)
    then have "wp (stmt E (sql_update_outbox E (b_event q) (\<lambda>q. q\<lparr>b_owner := Some owner, b_lease := Some x\<rparr>)))
        (\<lambda>_. wp (bind (lease_outbox E owner x qs) (\<lambda>out. ret (to_outbox_record q # out)))
          (\<lambda>out w1. out = map to_outbox_record (q # qs) \<and> published_ids (tabs w1) \<subseteq> published_ids (tabs w0)) (\<lambda>_ _. True))
        (\<lambda>_ _. True) w0"
    proof (rule wp_mono)
      fix w1 :: world assume "published_ids (tabs w1) \<subseteq> published_ids (tabs w0)"
      then show "wp (bind (lease_outbox E owner x qs) (\<lambda>out. ret (to_outbox_record q # out)))
          (\<lambda>out w1. out = map to_outbox_record (q # qs) \<and> published_ids (tabs w1) \<subseteq> published_ids (tabs w0)) (\<lambda>_ _. True) w1"
        unfolding wp_bind by (intro wp_mono [OF Cons.IH]) (auto simp: wp_ret)
    qed simp
    then show ?case by (simp add: wp_bind)
  qed (simp add: wp_ret)
  obtain x w0 qs w1 where c: "tabs w0 = tabs w" "qs = due_outbox x n (outbox (tabs w))"
      "lease_outbox E owner (x + ttl) qs w0 = (Inr rs, w1)" "tabs w' = tabs w1"
  proof -
    let ?x = "e_clock E (tick w)"
    have "transact E (bind (stmt E (\<lambda>T. Inr (due_outbox ?x n (outbox T), T))) (lease_outbox E owner (?x + ttl))) (tock w) = (Inr rs, w')"
      using assms by (simp add: ClaimOutbox_def bind_def now_def)
    from store_tx.result_commits [OF this] obtain v v1 where v: "tabs v = tabs w" "bind (stmt E (\<lambda>T. Inr (due_outbox ?x n (outbox T), T))) (lease_outbox E owner (?x + ttl)) v
        = (Inr rs, v1)" "tabs w' = tabs v1"
      by auto
    then have "lease_outbox E owner (?x + ttl) (due_outbox ?x n (outbox (tabs w))) (tock (v\<lparr>tabs := tabs v\<rparr>)) = (Inr rs, v1)"
      by (auto simp: bind_def stmt_def split: if_splits)
    then show thesis using v(1,3) by (intro that [of "tock (v\<lparr>tabs := tabs v\<rparr>)" _ ?x v1]) simp_all
  qed
  have "set qs \<subseteq> {r \<in> set (outbox (tabs w)). b_published r = None}"
    unfolding c(2) by (auto simp: due_outbox_def outbox_due_def dest: in_set_takeD)
  then show ?thesis using wp_InrD [OF lease c(3)] c(1,4) by auto
qed

section \<open>When broker and database work\<close>

definition event_ids :: "tables \<Rightarrow> string set" where
  "event_ids T = b_event ` set (outbox T)"

lemma event_idsI: "r \<in> set (outbox T) \<Longrightarrow> b_event r = i \<Longrightarrow> i \<in> event_ids T"
  unfolding event_ids_def by (rule image_eqI) auto

lemma published_idsI: "r \<in> set (outbox T) \<Longrightarrow> b_published r \<noteq> None \<Longrightarrow> b_event r = i \<Longrightarrow> i \<in> published_ids T"
  unfolding published_ids_def by (rule image_eqI) auto

lemma log_ids:
  assumes "log E T T'"
  shows "event_ids T \<subseteq> event_ids T'" "published_ids T \<subseteq> published_ids T'"
proof -
  have in': "\<exists>s \<in> set (outbox T'). same_event r s" if "r \<in> set (outbox T)" for r
    using appended_in [OF _ that] assms by (simp add: log_def)
  show "event_ids T \<subseteq> event_ids T'"
  proof
    fix i assume "i \<in> event_ids T"
    then obtain r where r: "r \<in> set (outbox T)" "i = b_event r" by (auto simp: event_ids_def)
    then obtain s where "s \<in> set (outbox T')" "same_event r s" using in' by blast
    with r(2) show "i \<in> event_ids T'" by (intro event_idsI [of s]) (auto simp: same_event_def)
  qed
  show "published_ids T \<subseteq> published_ids T'"
  proof
    fix i assume "i \<in> published_ids T"
    then obtain r where r: "r \<in> set (outbox T)" "i = b_event r" "b_published r \<noteq> None" by (auto simp: published_ids_def)
    then obtain s where "s \<in> set (outbox T')" "same_event r s" using in' by blast
    with r(2,3) show "i \<in> published_ids T'" by (intro published_idsI [of s]) (auto simp: same_event_def)
  qed
qed

definition well_kept :: "env \<Rightarrow> world \<Rightarrow> bool" where
  "well_kept E w \<longleftrightarrow> uuid_law E \<and> outbox_ok E (tabs w)"

lemma well_kept_run: "keeps (log E) m \<Longrightarrow> m w = (r, w') \<Longrightarrow> well_kept E w \<Longrightarrow> well_kept E w'"
  using log.keeps_run [of E m w r w'] by (simp add: well_kept_def log_def)

lemma update_succeeds:
  assumes "outbox_ok E T" "e_uuid E e = Some k" "\<And>r. b_attempts (f r) = b_attempts r"
  shows "\<exists>T'. sql_update_outbox E e f T = Inr ((), T') \<and> outbox T' = tbl_modify b_event k f (outbox T)"
  using assms by (auto simp: sql_update_outbox_def rbind_def uuid_in_def outbox_ok_def not_less)

lemma Mark_succeeds:
  assumes "sure E" "well_kept E w" "canon E e" "e \<in> event_ids (tabs w)"
  shows "\<exists>w'. autocommit (MarkOutboxPublished E e) w = (Inr (), w') \<and> e \<in> published_ids (tabs w')"
proof -
  let ?f = "\<lambda>r. r\<lparr>b_published := Some (e_clock E (tick w)), b_owner := None, b_lease := None\<rparr>"
  obtain T' where T': "sql_update_outbox E e ?f (tabs w) = Inr ((), T')" "outbox T' = tbl_modify b_event e ?f (outbox (tabs w))"
    using update_succeeds [of E "tabs w" e e ?f] assms(2,3) by (auto simp: well_kept_def canon_def)
  obtain r where r: "r \<in> set (outbox (tabs w))" "b_event r = e" using assms(4) by (auto simp: event_ids_def)
  then have "?f r \<in> set (outbox T')" by (auto simp: T'(2) tbl_modify_def)
  then have "e \<in> published_ids T'" using r(2) by (intro published_idsI [of "?f r"]) simp_all
  with T'(1) assms(1) show ?thesis
    by (simp add: MarkOutboxPublished_def autocommit_def bind_def now_def stmt_def sure_def)
qed

lemma log_Mark: "keeps (log E) (autocommit (MarkOutboxPublished E e))"
  by (intro log_intros)

lemma publish_all_succeeds:
  assumes "sure E" "well_kept E w" "\<forall>r \<in> set rs. canon E (ob_event r) \<and> ob_event r \<in> event_ids (tabs w)"
  shows "\<exists>acc' w'. publish_all E (\<lambda>_. True) t rs acc w = (Inr acc', w') \<and> pub_error acc' = pub_error acc \<and>
    published acc' = published acc + length rs \<and> ob_event ` set rs \<subseteq> published_ids (tabs w')"
  using assms(2,3)
proof (induction rs arbitrary: acc w)
  case (Cons r rs)
  obtain w1 where m: "autocommit (MarkOutboxPublished E (ob_event r)) w = (Inr (), w1)" "ob_event r \<in> published_ids (tabs w1)"
    using Mark_succeeds [OF assms(1) Cons.prems(1)] Cons.prems(2) by auto
  let ?acc = "acc\<lparr>sent := sent acc @ [Publish r], published := Suc (published acc)\<rparr>"
  have k: "well_kept E w1" by (rule well_kept_run [OF log_Mark m(1) Cons.prems(1)])
  have ids: "event_ids (tabs w) \<subseteq> event_ids (tabs w1)" by (rule log_ids [OF log.keeps_run [OF log_Mark m(1)]])
  obtain acc' w' where *: "publish_all E (\<lambda>_. True) t rs ?acc w1 = (Inr acc', w')" "pub_error acc' = pub_error ?acc"
      "published acc' = published ?acc + length rs" "ob_event ` set rs \<subseteq> published_ids (tabs w')"
  proof -
    have "\<forall>r \<in> set rs. canon E (ob_event r) \<and> ob_event r \<in> event_ids (tabs w1)" using Cons.prems(2) ids by auto
    from Cons.IH [OF k this, of ?acc] that show thesis by blast
  qed
  have "published_ids (tabs w1) \<subseteq> published_ids (tabs w')"
    by (rule log_ids [OF log.keeps_run [OF log_run.across_publish_all *(1)]])
  with * m show ?case by (auto simp: bind_def attempt_def Let_def)
qed (simp add: ret_def)

lemma lease_succeeds:
  assumes "sure E" "\<not> aborted w" "well_kept E w" "\<forall>q \<in> set qs. canon E (b_event q)"
  shows "wp (lease_outbox E owner x qs) (\<lambda>out w1. out = map to_outbox_record qs \<and> \<not> aborted w1) (\<lambda>_ _. False) w"
  using assms(2-4)
proof (induction qs arbitrary: w)
  case (Cons q qs)
  let ?m = "stmt E (sql_update_outbox E (b_event q) (\<lambda>q. q\<lparr>b_owner := Some owner, b_lease := Some x\<rparr>))"
  obtain T' where "sql_update_outbox E (b_event q) (\<lambda>q. q\<lparr>b_owner := Some owner, b_lease := Some x\<rparr>) (tabs w) = Inr ((), T')"
    using update_succeeds [of E "tabs w" "b_event q" "b_event q" "\<lambda>q. q\<lparr>b_owner := Some owner, b_lease := Some x\<rparr>"] Cons.prems
    by (auto simp: well_kept_def canon_def)
  then obtain w1 where w1: "?m w = (Inr (), w1)" "\<not> aborted w1"
    using assms(1) Cons.prems(1) by (simp add: stmt_def sure_def)
  have "well_kept E w1" by (rule well_kept_run [OF log_events(4) w1(1) Cons.prems(2)])
  then have "wp (lease_outbox E owner x qs) (\<lambda>out w1. out = map to_outbox_record qs \<and> \<not> aborted w1) (\<lambda>_ _. False) w1"
    using Cons w1(2) by simp
  then have "wp (bind (lease_outbox E owner x qs) (\<lambda>out. ret (to_outbox_record q # out)))
      (\<lambda>out w1. out = map to_outbox_record (q # qs) \<and> \<not> aborted w1) (\<lambda>_ _. False) w1"
    unfolding wp_bind by (rule wp_mono) (auto simp: wp_ret)
  then have "wp ?m (\<lambda>_. wp (bind (lease_outbox E owner x qs) (\<lambda>out. ret (to_outbox_record q # out)))
      (\<lambda>out w1. out = map to_outbox_record (q # qs) \<and> \<not> aborted w1) (\<lambda>_ _. False)) (\<lambda>_ _. False) w"
    using w1(1) by (simp add: wp_def)
  then show ?case by (simp add: wp_bind)
qed (simp add: wp_ret)

lemma due_outbox_all:
  "length (filter (outbox_due t) rows) \<le> n \<Longrightarrow> set (due_outbox t n rows) = {r \<in> set rows. outbox_due t r} \<and>
    length (due_outbox t n rows) = length (filter (outbox_due t) rows)"
  by (simp add: due_outbox_def)

lemma ClaimOutbox_succeeds:
  assumes "sure E" "well_kept E w"
  shows "\<exists>w'. ClaimOutbox E owner ttl n w = (Inr (map to_outbox_record (due_outbox (e_clock E (tick w)) n (outbox (tabs w)))), w')"
proof -
  let ?t = "e_clock E (tick w)" and ?w = "tock ((tock w)\<lparr>aborted := False\<rparr>)"
  let ?qs = "due_outbox ?t n (outbox (tabs w))"
  let ?read = "stmt E (\<lambda>T. Inr (due_outbox ?t n (outbox T), T))"
  have qs: "\<forall>q \<in> set ?qs. canon E (b_event q)"
    using assms(2) by (auto simp: due_outbox_def well_kept_def outbox_ok_def list_all_iff dest: in_set_takeD)
  have "wp (lease_outbox E owner (?t + ttl)  ?qs) (\<lambda>out w1. out = map to_outbox_record ?qs \<and> \<not> aborted w1) (\<lambda>_ _. False) (tock ?w)"
    by (rule lease_succeeds [OF assms(1) _ _ qs]) (use assms(2) in \<open>simp_all add: well_kept_def\<close>)
  moreover have "?read ?w = (Inr ?qs, tock ?w)" using assms(1) by (simp add: stmt_def sure_def)
  ultimately have "wp (bind ?read (lease_outbox E owner (?t + ttl))) (\<lambda>out w1. \<not> aborted w1 \<and> out = map to_outbox_record ?qs)
      (\<lambda>_ _. False) ?w"
    unfolding wp_bind by (simp add: wp_def split: prod.splits sum.splits)
  from transact_ok [OF assms(1) this]
  obtain w' where "transact E (bind ?read (lease_outbox E owner (?t + ttl))) (tock w) = (Inr (map to_outbox_record ?qs), w')" by blast
  moreover have "ClaimOutbox E owner ttl n w = transact E (bind ?read (lease_outbox E owner (?t + ttl))) (tock w)"
    unfolding ClaimOutbox_def by (subst bind_def) (simp add: now_def)
  ultimately show ?thesis by simp
qed

lemma serves_log: "(serves E)\<^sup>*\<^sup>* w w' \<Longrightarrow> log E (tabs w) (tabs w')"
proof (induction rule: rtranclp_induct)
  case base
  show ?case by (rule log.frame_refl)
next
  case (step w1 w2)
  from step.IH log_run.across_serves [OF step.hyps(2)] show ?case by (rule log.frame_trans)
qed

section \<open>The guarantees\<close>

text \<open>C24. The outbox is a log of events. Over any run of the service, publisher included, no event is deleted,
  moved or altered (id, wallet, type, payload, time), a published event stays published, and in every reachable
  store the event ids are distinct.\<close>

theorem outbox_is_log:
  assumes "fresh E w0" "(serves E)\<^sup>*\<^sup>* w0 w" "(serves E)\<^sup>*\<^sup>* w w'"
  shows "length (outbox (tabs w)) \<le> length (outbox (tabs w')) \<and>
    (\<forall>i < length (outbox (tabs w)). same_event (outbox (tabs w) ! i) (outbox (tabs w') ! i)) \<and>
    distinct (map b_event (outbox (tabs w')))"
proof -
  have f: "uuid_law E" "outbox_ok E (tabs w0)" using assms(1) by (simp_all add: fresh_def outbox_ok_def empty_tables_def)
  have "log E (tabs w0) (tabs w)" "log E (tabs w) (tabs w')" by (rule serves_log [OF assms(2)], rule serves_log [OF assms(3)])
  with f show ?thesis by (simp add: log_def outbox_ok_def appended_iff)
qed

text \<open>C25. Published means taken by the broker. After a publication tick of any store with well-kept outbox, an event
  that is marked published and was not before has been taken by the broker in this tick; every message the broker
  took carries the payload, the wallet as its group and the id of a stored event that was not published; and
  wallets, transactions, ledger and work are untouched. This holds wherever the tick fails.\<close>

theorem PublishDueOutbox_honest:
  assumes "uuid_law E" "outbox_ok E (tabs w)" "PublishDueOutbox E send owner n w = (res, w')"
  shows "same_core (tabs w) (tabs w') \<and> (case res of Inl e \<Rightarrow> published_ids (tabs w') \<subseteq> published_ids (tabs w)
    | Inr tr \<Rightarrow> published_ids (tabs w') \<subseteq> published_ids (tabs w) \<union> pub_dedup ` set (sent tr) \<and>
       (\<forall>p \<in> set (sent tr). send p \<and> (\<exists>r \<in> set (outbox (tabs w)). b_published r = None \<and>
          p = \<lparr>pub_body = b_payload r, pub_group = b_aggregate r, pub_dedup = b_event r\<rparr>)))"
proof -
  have core: "same_core (tabs w) (tabs w')" by (rule core.keeps_run [OF core_PublishDueOutbox assms(3)])
  let ?t = "e_clock E (tick w)" and ?acc = "\<lparr>sent = [], published = 0, pub_error = None\<rparr>"
  obtain r0 w1 where c: "ClaimOutbox E owner OutboxLeaseTTL n (tock w) = (r0, w1)" by fastforce
  show ?thesis
  proof (cases r0)
    case (Inl e)
    have "tabs w1 = tabs w" using c Inl store_tx.error_rolls_back [of E _ "tock (tock w)" e w1]
      by (auto simp: ClaimOutbox_def bind_def now_def)
    with c Inl core assms(3) show ?thesis by (auto simp: PublishDueOutbox_def bind_def now_def)
  next
    case (Inr rs)
    have rs: "set rs \<subseteq> to_outbox_record ` {r \<in> set (outbox (tabs w)). b_published r = None}"
      "published_ids (tabs w1) \<subseteq> published_ids (tabs w)" using ClaimOutbox_result c Inr by fastforce+
    have "\<forall>r \<in> set rs. canon E (ob_event r)"
      using rs(1) assms(2) by (auto simp: to_outbox_record_def outbox_ok_def list_all_iff)
    from publish_all_run [OF this, of send ?t ?acc w1] obtain tr w2 where p: "publish_all E send ?t rs ?acc w1 = (Inr tr, w2)"
      "published_ids (tabs w2) \<subseteq> published_ids (tabs w1) \<union> pub_dedup ` set (sent tr)"
      "\<forall>p \<in> set (sent tr). send p \<and> p \<in> Publish ` set rs" by auto
    have "res = Inr tr" "w' = w2" using assms(3) c Inr p(1) by (simp_all add: PublishDueOutbox_def bind_def now_def)
    moreover have "\<exists>r \<in> set (outbox (tabs w)). b_published r = None \<and>
        p = \<lparr>pub_body = b_payload r, pub_group = b_aggregate r, pub_dedup = b_event r\<rparr>" if h: "p \<in> Publish ` set rs" for p :: publication
    proof -
      obtain x where x: "x \<in> set rs" "p = Publish x" using h by blast
      then obtain r where "r \<in> set (outbox (tabs w))" "b_published r = None" "x = to_outbox_record r" using rs(1) by blast
      with x(2) show ?thesis by (intro bexI [of _ r]) (simp_all add: Publish_def to_outbox_record_def)
    qed
    ultimately show ?thesis using core p(2,3) rs(2) by (auto simp del: bex_simps)
  qed
qed

text \<open>C26. Everything due is published. When no statement is lost and the broker takes every message, a tick whose
  limit covers the due events returns no error, has published as many events as were due, and all of them are
  marked published.\<close>

theorem PublishDueOutbox_publishes:
  assumes "sure E" "uuid_law E" "outbox_ok E (tabs w)"
    and "length (filter (outbox_due (e_clock E (Suc (tick w)))) (outbox (tabs w))) \<le> n"
  shows "\<exists>tr w'. PublishDueOutbox E (\<lambda>_. True) owner n w = (Inr tr, w') \<and> pub_error tr = None \<and>
    published tr = length (filter (outbox_due (e_clock E (Suc (tick w)))) (outbox (tabs w))) \<and>
    (\<forall>r \<in> set (outbox (tabs w)). outbox_due (e_clock E (Suc (tick w))) r \<longrightarrow> b_event r \<in> published_ids (tabs w'))"
proof -
  let ?t = "e_clock E (tick w)" and ?acc = "\<lparr>sent = [], published = 0, pub_error = None\<rparr>"
  let ?qs = "due_outbox (e_clock E (Suc (tick w))) n (outbox (tabs w))"
  have k: "well_kept E (tock w)" using assms(2,3) by (simp add: well_kept_def)
  obtain w1 where c: "ClaimOutbox E owner OutboxLeaseTTL n (tock w) = (Inr (map to_outbox_record ?qs), w1)"
    using ClaimOutbox_succeeds [OF assms(1) k, of owner OutboxLeaseTTL n] by auto
  have k1: "well_kept E w1" by (rule well_kept_run [OF log_run.across_ClaimOutbox c k])
  have ids: "event_ids (tabs w) \<subseteq> event_ids (tabs w1)" using log_ids(1) [OF log.keeps_run [OF log_run.across_ClaimOutbox c]] by simp
  note due = due_outbox_all [OF assms(4)]
  have "canon E (b_event q) \<and> b_event q \<in> event_ids (tabs w1)" if "q \<in> set ?qs" for q
    using that due assms(3) ids by (auto simp: outbox_ok_def list_all_iff intro: event_idsI)
  then have "\<forall>r \<in> set (map to_outbox_record ?qs). canon E (ob_event r) \<and> ob_event r \<in> event_ids (tabs w1)"
    by (auto simp: to_outbox_record_def)
  from publish_all_succeeds [OF assms(1) k1 this, of ?t ?acc] obtain tr w2 where
    p: "publish_all E (\<lambda>_. True) ?t (map to_outbox_record ?qs) ?acc w1 = (Inr tr, w2)" "pub_error tr = None"
      "published tr = length ?qs" "ob_event ` set (map to_outbox_record ?qs) \<subseteq> published_ids (tabs w2)" by auto
  have "PublishDueOutbox E (\<lambda>_. True) owner n w = (Inr tr, w2)" using c p(1) by (simp add: PublishDueOutbox_def bind_def now_def)
  moreover have "b_event r \<in> published_ids (tabs w2)" if "r \<in> set ?qs" for r :: outbox_row
  proof -
    have "ob_event (to_outbox_record r) \<in> ob_event ` set (map to_outbox_record ?qs)" using that by (intro imageI) simp
    then have "ob_event (to_outbox_record r) \<in> published_ids (tabs w2)" using p(4) by blast
    then show ?thesis by (simp add: to_outbox_record_def)
  qed
  ultimately show ?thesis using p(2,3) due by auto
qed

section \<open>A concrete tick\<close>

definition demo_event :: outbox_row where
  "demo_event = \<lparr>b_event = ''e'', b_aggregate = ''a'', b_type = ''t'', b_payload = ''p'', b_occurred = 0, b_attempts = 0,
     b_next = zero_time, b_published = None, b_owner = None, b_lease = None\<rparr>"

definition demo_outbox :: world where
  "demo_outbox = demo_empty\<lparr>tabs := empty_tables\<lparr>outbox := [demo_event]\<rparr>\<rparr>"

lemma demo_outbox_ok: "uuid_law demo_env" "outbox_ok demo_env (tabs demo_outbox)"
  "length (filter (outbox_due (e_clock demo_env (Suc (tick demo_outbox)))) (outbox (tabs demo_outbox))) = 1"
  using demo_env_props(2)
  by (simp_all add: fresh_def outbox_ok_def demo_outbox_def demo_event_def canon_def demo_env_def outbox_due_def lease_free_def
      zero_time_def)

lemma PublishDueOutbox_publishes_witness:
  "\<exists>tr w'. PublishDueOutbox demo_env (\<lambda>_. True) ''o'' 100 demo_outbox = (Inr tr, w') \<and> published tr = 1 \<and> pub_error tr = None"
  using PublishDueOutbox_publishes [OF demo_env_props(1) demo_outbox_ok(1,2), of 100 "''o''"] demo_outbox_ok(3) by auto

lemma PublishDueOutbox_honest_witness:
  "\<exists>tr w'. PublishDueOutbox demo_env (\<lambda>_. False) ''o'' 100 demo_outbox = (Inr tr, w') \<and> sent tr = [] \<and>
     published_ids (tabs w') \<subseteq> published_ids (tabs demo_outbox)"
proof -
  obtain w1 where c: "ClaimOutbox demo_env ''o'' OutboxLeaseTTL 100 (tock demo_outbox) =
      (Inr (map to_outbox_record (due_outbox (e_clock demo_env (tick (tock demo_outbox))) 100 (outbox (tabs (tock demo_outbox))))), w1)"
    using ClaimOutbox_succeeds [OF demo_env_props(1), of "tock demo_outbox" "''o''" OutboxLeaseTTL 100] demo_outbox_ok(1,2)
    by (auto simp: well_kept_def)
  have run: "\<exists>tr w'. publish_all demo_env (\<lambda>_. False) t rs acc w1 = (Inr tr, w')" for t rs acc w1
  proof (induction rs arbitrary: acc w1)
    case (Cons r rs)
    then show ?case by (auto simp: bind_def attempt_def ret_def Let_def split: prod.splits sum.splits dest: Backoff_total)
  qed (simp add: ret_def)
  have "PublishDueOutbox demo_env (\<lambda>_. False) ''o'' 100 demo_outbox = publish_all demo_env (\<lambda>_. False) (e_clock demo_env (tick demo_outbox))
      (map to_outbox_record (due_outbox (e_clock demo_env (tick (tock demo_outbox))) 100 (outbox (tabs (tock demo_outbox)))))
      \<lparr>sent = [], published = 0, pub_error = None\<rparr> w1"
    using c by (simp add: PublishDueOutbox_def bind_def now_def)
  then obtain tr w' where "PublishDueOutbox demo_env (\<lambda>_. False) ''o'' 100 demo_outbox = (Inr tr, w')"
    using run by metis
  with PublishDueOutbox_honest [OF demo_outbox_ok(1,2) this] show ?thesis by (cases "sent tr") auto
qed

lemma outbox_is_log_witness:
  "\<exists>w w'. (serves demo_env)\<^sup>*\<^sup>* w w' \<and> outbox (tabs w) = [] \<and> distinct (map b_event (outbox (tabs w')))"
proof -
  let ?w' = "snd (OpenWallet demo_env ''p'' ''BRL'' ''10.00'' demo_empty)"
  have "(serves demo_env)\<^sup>*\<^sup>* demo_empty ?w'" using serves.opened_wallet by blast
  from outbox_is_log [OF demo_env_props(2) rtranclp.rtrancl_refl this] this show ?thesis
    by (intro exI [of _ demo_empty] exI [of _ ?w']) (simp add: demo_empty_def empty_tables_def)
qed

end
