(* ===== verification/Outbox_Invariants.thy ===== *)
theory Outbox_Invariants
  imports Outbox_Log Guarantees
begin

text \<open>
  Invariants that tie the outbox to the transactions and the ledger. Rows of the ledger, states that call for an event
  and events are written by seven outcomes only; every other statement of every use-case leaves the three as they
  are (\<open>still\<close>). So a property of stores that survives such changes and the seven outcomes holds in
  every reachable store, whatever statements are lost on the way: the locale \<open>outbox_invariant\<close>.
\<close>

section \<open>Changes that concern none of the three\<close>

text \<open>The type of the event that a state calls for.\<close>

fun event_of :: "tx_state \<Rightarrow> string option" where
  "event_of StateProcessed = Some EventProcessed"
| "event_of StateRejected = Some EventRejected"
| "event_of StatePendingReference = Some EventPendingRef"
| "event_of _ = None"

text \<open>An event without the bookkeeping of its publication.\<close>

definition notice :: "outbox_row \<Rightarrow> string \<times> string \<times> string" where
  "notice b = (b_type b, b_aggregate b, b_payload b)"

definition still :: "tables \<Rightarrow> tables \<Rightarrow> bool" where
  "still T T' \<longleftrightarrow> ledger T' = ledger T \<and> map notice (outbox T') = map notice (outbox T) \<and>
     (\<forall>y \<in> set (txs T'). event_of (t_state y) = None \<or> (\<exists>x \<in> set (txs T). t_id y = t_id x \<and> t_state y = t_state x))"

interpretation still: frame still
proof unfold_locales
  show "still T T" for T by (auto simp: still_def)
  show "still T T2" if "still T T1" "still T1 T2" for T T1 T2
    using that unfolding still_def by metis
qed

lemma still_notices: "still T T' \<Longrightarrow> notice ` set (outbox T') = notice ` set (outbox T)"
  unfolding still_def by (metis list.set_map)

lemma still_same: "txs T' = txs T \<Longrightarrow> ledger T' = ledger T \<Longrightarrow> outbox T' = outbox T \<Longrightarrow> still T T'"
  by (auto simp: still_def)

lemma still_modify:
  "txs T' = tbl_modify t_id u f (txs T) \<Longrightarrow> ledger T' = ledger T \<Longrightarrow> outbox T' = outbox T \<Longrightarrow>
    (\<And>q. event_of (t_state (f q)) = None \<or> t_id (f q) = t_id q \<and> t_state (f q) = t_state q) \<Longrightarrow> still T T'"
  by (fastforce simp: still_def tbl_modify_def)

lemma still_stmt_same:
  "(\<And>T x T'. f T = Inr (x, T') \<Longrightarrow> txs T' = txs T \<and> ledger T' = ledger T \<and> outbox T' = outbox T) \<Longrightarrow> keeps still (stmt E f)"
  by (rule still.keeps_stmt) (blast intro: still_same)

lemma still_absent: "keeps still m \<Longrightarrow> keeps still (absent_if_invalid m)"
  unfolding absent_if_invalid_def by (intro still.keeps_rules)

lemma still_repo:
  "keeps still (LockForUpdate E w)" "keeps still (wallet_Get E w)" "keeps still (wallet_Insert E r)"
  "keeps still (UpdateBalance E w b v)" "keeps still (tx_Get E i)"
  "keeps still (FindByProviderKey E p kk)" "keeps still (FindByProviderExternal E p e)"
  "keeps still (FindDependents E p e)" "keeps still (HasActiveWin E i)"
  "keeps still (InsertInbox E c m h)" "keeps still (CompleteInbox E c m)" "keeps still (FindInbox E c m)"
  "keeps still (EnqueueWork E k_rec)" "keeps still (GetWork E i)" "keeps still (TouchWork E i a1 b1 t c1)"
  "keeps still (DeleteWork E i)"
  unfolding LockForUpdate_def wallet_Get_def wallet_Insert_def UpdateBalance_def tx_Get_def
    FindByProviderKey_def FindByProviderExternal_def FindDependents_def
    HasActiveWin_def InsertInbox_def
    CompleteInbox_def FindInbox_def EnqueueWork_def GetWork_def TouchWork_def DeleteWork_def
  by (intro still.keeps_rules still_absent still_stmt_same;
      auto simp: sql_defs rbind_def Let_def split: sum.splits option.splits if_splits prod.splits)+

lemma still_marks: "keeps still (MarkReversed E i k j)" "keeps still (ClearReversal E i)"
  unfolding MarkReversed_def ClearReversal_def
  by (rule still.keeps_stmt,
      auto simp: sql_defs rbind_def split: sum.splits if_splits intro!: still_modify)+

lemma still_UpdateState: "event_of (t_state r) = None \<Longrightarrow> keeps still (UpdateState E r)"
  unfolding UpdateState_def
  by (rule still.keeps_stmt, drule sql_update_state_InrD) (auto intro!: still_modify)

text \<open>The bookkeeping of the publisher touches no notice.\<close>

lemma still_update_outbox:
  assumes "\<And>q. notice (f q) = notice q"
  shows "keeps still (stmt E (sql_update_outbox E e f))"
proof (rule still.keeps_stmt)
  fix T x T' assume "sql_update_outbox E e f T = Inr (x, T')"
  then obtain u where "T' = T\<lparr>outbox := tbl_modify b_event u f (outbox T)\<rparr>"
    by (auto simp: sql_update_outbox_def rbind_def split: sum.splits if_splits)
  then show "still T T'" using assms by (auto simp: still_def tbl_modify_def)
qed

lemma still_publishing:
  "keeps still (PublishDueOutbox E send owner n)" "keeps still (ClaimOutbox E owner ttl n)"
  "keeps still (NackOutbox E i k t)" "keeps still (MarkOutboxPublished E i)"
proof -
  show nack: "keeps still (NackOutbox E i k t)" and mark: "keeps still (MarkOutboxPublished E i)" for i k t
    unfolding NackOutbox_def MarkOutboxPublished_def
    by (intro still.keeps_rules still_update_outbox; simp add: notice_def)+
  have "keeps still (lease_outbox E owner t rs)" for t rs
    by (induction rs) (auto intro!: still.keeps_rules still_update_outbox simp: notice_def)
  then show claim: "keeps still (ClaimOutbox E owner ttl n)" for ttl
    unfolding ClaimOutbox_def by (intro still.keeps_rules still_stmt_same) auto
  have "keeps still (publish_all E send t rs acc)" for t rs acc
    by (induction rs arbitrary: acc)
      (auto intro!: still.keeps_rules nack mark simp: Let_def BackoffFullJitter_def split: sum.split)
  then show "keeps still (PublishDueOutbox E send owner n)"
    unfolding PublishDueOutbox_def by (intro still.keeps_rules claim)
qed

lemmas still_intros = still.keeps_rules still_repo still_marks still_publishing still_absent

section \<open>Actions that uphold a property of the tables\<close>

definition upholds :: "(tables \<Rightarrow> bool) \<Rightarrow> 'a action \<Rightarrow> bool" where
  "upholds J m \<longleftrightarrow> (\<forall>T. J T \<longrightarrow> tspec m T (\<lambda>_. J) (\<lambda>_. J))"

lemma upholdsI: "(\<And>T. J T \<Longrightarrow> tspec m T (\<lambda>_. J) (\<lambda>_. J)) \<Longrightarrow> upholds J m"
  by (simp add: upholds_def)

lemma upholdsD: "upholds J m \<Longrightarrow> J T \<Longrightarrow> tspec m T (\<lambda>_. J) (\<lambda>_. J)"
  by (simp add: upholds_def)

lemma upholds_bind: "upholds J m \<Longrightarrow> (\<And>x. upholds J (f x)) \<Longrightarrow> (\<And>x. sticky (f x)) \<Longrightarrow> upholds J (bind m f)"
  by (rule upholdsI, rule tspec_bind, rule tspec_mono, erule upholdsD) (auto dest: upholdsD)

lemma upholds_bind_closed: "closed m \<Longrightarrow> upholds J m \<Longrightarrow> (\<And>x. upholds J (f x)) \<Longrightarrow> upholds J (bind m f)"
  by (rule upholdsI, rule tspec_bind_closed, rule tspec_mono, erule upholdsD) (auto dest: upholdsD)

lemma upholds_transact: "upholds J m \<Longrightarrow> upholds J (transact E m)"
  by (rule upholdsI, rule tspec_mono, rule tspec_transact, erule upholdsD) auto

lemma upholds_attempt: "upholds J m \<Longrightarrow> upholds J (attempt m)" and upholds_ignore: "upholds J m' \<Longrightarrow> upholds J (ignore m')"
  by (rule upholdsI, rule tspec_attempt tspec_ignore, erule upholdsD, assumption)+

lemma upholds_case:
  "upholds J m \<Longrightarrow> upholds J m' \<Longrightarrow> upholds J (if b then m else m')"
  "upholds J n \<Longrightarrow> (\<And>x. upholds J (f x)) \<Longrightarrow> upholds J (case p of None \<Rightarrow> n | Some x \<Rightarrow> f x)"
  "(\<And>x. upholds J (g x)) \<Longrightarrow> (\<And>x. upholds J (h x)) \<Longrightarrow> upholds J (case s of Inl x \<Rightarrow> g x | Inr x \<Rightarrow> h x)"
  "(\<And>x y. upholds J (k x y)) \<Longrightarrow> upholds J (case q of (x, y) \<Rightarrow> k x y)"
  "upholds J (l z) \<Longrightarrow> upholds J (let y = z in l y)"
  by (cases p; cases s; cases q; simp)+

section \<open>The invariants\<close>

locale outbox_invariant =
  fixes E :: env and J :: "tables \<Rightarrow> bool"
  assumes holds_empty: "J empty_tables"
    and holds_still: "J T \<Longrightarrow> still T T' \<Longrightarrow> J T'"
    and upholds_processed: "upholds J (processed E oc i w before after ref d)"
    and upholds_rejected: "upholds J (rejected E oc i w c ref)"
    and upholds_parkReference: "upholds J (parkReference E oc i t w)"
    and upholds_applyLoss: "upholds J (applyLoss E oc i w)"
    and upholds_settleProcessed: "upholds J (settleProcessedExisting E w q s ref d before after)"
    and upholds_settleRejected: "upholds J (settleRejectedExisting E w q s ref c)"
    and upholds_fund_wallet: "upholds J (fund_wallet E wid p cur txt m)"
begin

lemma upholds_still: "keeps still m \<Longrightarrow> upholds J m"
  by (rule upholdsI, rule tspecI) (auto simp: keeps_def intro: holds_still dest: still.keeps_run [rotated])

lemmas upholds_basic = still.keeps_basic [THEN upholds_still] still_repo [THEN upholds_still] still_marks [THEN upholds_still]
lemmas upholds_intros = upholds_case upholds_basic upholds_bind upholds_attempt upholds_ignore upholds_transact

lemmas upholds_outcomes = upholds_processed upholds_rejected upholds_parkReference upholds_applyLoss
  upholds_settleProcessed upholds_settleRejected upholds_fund_wallet

lemma upholds_steps: "upholds J (activeWin E x)" "upholds J (markTarget E k i x)" "upholds J (mustMinor a c)"
  "upholds J (BackoffFullJitter E n b1 b2)" "upholds J (workCreatedAt E i)" "upholds J (workRefAttempts E i)"
  "upholds J m \<Longrightarrow> upholds J (settle_true m)"
  unfolding activeWin_def markTarget_def mustMinor_def BackoffFullJitter_def workCreatedAt_def workRefAttempts_def
    settle_true_def Let_def
  by (intro upholds_intros sticky_intros; assumption?)+

lemma upholds_apply: "upholds J (applyWin E oc i w t)" "upholds J (applyReversal E oc i w t)"
  unfolding applyWin_def applyReversal_def Let_def by (intro upholds_intros upholds_outcomes upholds_steps sticky_intros)+

lemma upholds_applyOperation: "upholds J (applyOperation E oc)"
proof -
  have "upholds J (applyWithReference E oc f park refuse)" if "\<And>t. upholds J (f t)" "\<And>t. sticky (f t)" "upholds J park" "sticky park"
      "\<And>c i. upholds J (refuse c i)" "\<And>c i. sticky (refuse c i)" for f park refuse
    unfolding applyWithReference_def
    by (intro upholds_intros sticky_intros; auto split: tx_state.split intro: that sticky_intros)
  then have "upholds J (applyWithReference E oc (applyWin E oc i w) (parkReference E oc i t w) (rejected E oc i w))"
    "upholds J (applyWithReference E oc (applyReversal E oc i w) (parkReference E oc i t w) (rejected E oc i w))" for i t w
    by (blast intro: upholds_apply upholds_outcomes sticky_intros)+
  moreover have "sticky (applyWithReference E oc (applyWin E oc i w) (parkReference E oc i t w) (rejected E oc i w))"
    "sticky (applyWithReference E oc (applyReversal E oc i w) (parkReference E oc i t w) (rejected E oc i w))"
    "sticky (applyLoss E oc i w)" "sticky (applyBet E oc i w)" "sticky (applyFreeWin E oc i w)" for i t w
    unfolding applyWithReference_def applyLoss_def applyBet_def applyFreeWin_def Let_def
    by (intro sticky_intros; auto intro!: sticky_intros split: tx_state.splits)+
  moreover have "upholds J (applyBet E oc i w)" "upholds J (applyFreeWin E oc i w)" for i w
    unfolding applyBet_def applyFreeWin_def by (intro upholds_intros upholds_outcomes sticky_intros)+
  ultimately show ?thesis
    unfolding applyOperation_def Let_def
    by (intro upholds_bind upholds_intros sticky_intros) (simp_all add: upholds_outcomes upholds_basic sticky_intros split: kind.split)
qed

lemma upholds_submit_body: "upholds J (submit_body E i a h)"
  unfolding submit_body_def replay_or_conflict_def record_inbox_def
  by (intro upholds_intros upholds_applyOperation sticky_intros)

lemma upholds_Submit: "upholds J (Submit E i)" if r: "\<And>p e. upholds J (ReevaluateDependents E p e)"
proof -
  have "closed (reevaluate E i x)" for x
    unfolding reevaluate_def by (auto intro!: closed_basic closed_ReevaluateDependents)
  moreover have "upholds J (reevaluate E i x)" for x
    unfolding reevaluate_def by (intro upholds_intros r)
  moreover have "upholds J (inbox_check E i h)" for h
    unfolding inbox_check_def by (rule upholds_still) (intro still_intros)
  ultimately show ?thesis
    unfolding Submit_def
    by (auto intro!: upholds_bind_closed [OF closed_inbox_check] upholds_bind_closed [OF closed_transact] upholds_bind_closed
        upholds_transact upholds_submit_body upholds_basic split: sum.split)
qed

lemma upholds_resume: "upholds J (resumeApply E w q i a t)"
  unfolding resumeApply_def resumeWin_def resumeReversal_def Let_def
  by (intro upholds_intros upholds_outcomes upholds_steps sticky_intros)

lemma upholds_resumeOne: "upholds J (resumeOne E q)"
proof -
  have "upholds J (wait_again E q t)" "upholds J (ref_exhausted E q t)" for t
    unfolding wait_again_def ref_exhausted_def by (intro upholds_intros upholds_steps sticky_intros)+
  then have "upholds J (resume_found E q t w a mt)" for t w a mt
    unfolding resume_found_def
    by (auto intro!: upholds_intros upholds_resume upholds_steps upholds_outcomes sticky_intros split: option.split tx_state.split)
  then show ?thesis unfolding resumeOne_found by (intro upholds_intros sticky_intros)
qed

lemma upholds_ReevaluateDependents: "upholds J (ReevaluateDependents E p e)"
proof -
  have "upholds J (resume_all E ds)" for ds
    by (induction ds) (auto intro!: upholds_intros upholds_resumeOne sticky_intros)
  then show ?thesis unfolding ReevaluateDependents_def by (intro upholds_intros sticky_intros)
qed

lemma upholds_open_body: "upholds J (open_body E u p c s m)"
  unfolding open_body_def insert_new_wallet_def by (intro upholds_intros upholds_outcomes sticky_intros)

lemma upholds_OpenWallet: "upholds J (OpenWallet E p c s)"
  unfolding OpenWallet_def
  by (auto intro!: upholds_bind_closed closed_basic upholds_basic upholds_transact upholds_open_body split: sum.split)

lemma upholds_ClaimWork: "upholds J (ClaimWork E owner ttl n)"
proof -
  have "keeps still (stmt E (sql_update_work E i f))" for i f
    by (rule still_stmt_same) (auto simp: sql_defs rbind_def split: sum.splits if_splits)
  then have "keeps still (lease_work E owner t rs)" for t rs by (induction rs) (auto intro!: still_intros)
  then show ?thesis
    unfolding ClaimWork_def by (intro upholds_still still_intros still_stmt_same) auto
qed

lemma upholds_processWorkItem: "upholds J (processWorkItem E item)"
proof -
  have "upholds J (noteInfra E item)"
    unfolding noteInfra_def Let_def
    by (rule upholds_still, intro still_intros still_UpdateState) (simp_all add: BackoffFullJitter_def Let_def still.keeps_rules)
  then show ?thesis unfolding processWorkItem_def by (intro upholds_intros upholds_resumeOne sticky_intros)
qed

lemma upholds_ProcessDueWork: "upholds J (ProcessDueWork E owner n)"
proof -
  have item: "upholds J (attempt (processWorkItem E item))" for item by (rule upholds_attempt [OF upholds_processWorkItem])
  have closed: "closed (process_items E is)" for "is"
    by (induction "is") (auto intro!: closed_bind closed_basic closed_processWorkItem)
  have "upholds J (process_items E is)" for "is"
    by (induction "is") (auto intro!: upholds_bind_closed [OF _ item] upholds_bind_closed [OF closed] closed_basic closed_processWorkItem
      simp: upholds_basic)
  then show ?thesis
    unfolding ProcessDueWork_def by (intro upholds_bind_closed closed_blocks upholds_ClaimWork)
qed

lemma ran_holds:
  assumes "J (tabs w)" "\<not> aborted w" "upholds J m" "closed m"
  shows "J (tabs (snd (m w)))"
  using tspec_run [OF upholdsD [OF assms(3,1)] assms(4,2)] by (cases "m w") (auto split: sum.splits)

lemmas upholds_calls = upholds_transact [OF upholds_submit_body] upholds_transact [OF upholds_open_body] upholds_ReevaluateDependents
  upholds_ClaimWork upholds_processWorkItem upholds_Submit [OF upholds_ReevaluateDependents] upholds_OpenWallet upholds_ProcessDueWork
  still_publishing(1,2) [THEN upholds_still] still_publishing(3,4) [THEN still.keeps_autocommit, THEN upholds_still]

lemma block_holds: "block E w w' \<Longrightarrow> J (tabs w) \<Longrightarrow> \<not> aborted w \<Longrightarrow> J (tabs w')"
  by (erule block.cases)
    (auto intro!: ran_holds upholds_calls closed_blocks closed_basic closed_transact closed_processWorkItem)

lemma serves_holds: "serves E w w' \<Longrightarrow> J (tabs w) \<Longrightarrow> \<not> aborted w \<Longrightarrow> J (tabs w')"
  by (erule serves.cases)
    (auto intro!: ran_holds upholds_calls closed_Submit closed_OpenWallet closed_ProcessDueWork closed_PublishDueOutbox
      intro: block_holds)

lemma runs_holds:
  assumes "(serves E)\<^sup>*\<^sup>* w w'" "idle E w" "J (tabs w)"
  shows "J (tabs w')"
  using assms
proof (induction rule: rtranclp_induct)
  case (step w1 w2)
  then have "\<not> aborted w1" using runs_progress [OF step.hyps(1)] by (simp add: idle_def)
  with step serves_holds show ?case by blast
qed simp

lemma reachable_holds: "reachable E T \<Longrightarrow> J T"
proof -
  assume "reachable E T"
  then obtain w w' where w: "fresh E w" "(serves E)\<^sup>*\<^sup>* w w'" "T = tabs w'" unfolding reachable_def by blast
  then have "J (tabs w)" using holds_empty by (simp add: fresh_def)
  with runs_holds [OF w(2) fresh_idle [OF w(1)]] w(3) show ?thesis by simp
qed

end

end
