(* ===== verification/Announcements.thy ===== *)
theory Announcements
  imports Outbox_Invariants
begin

text \<open>
  The transactional outbox: whatever is stored is announced. A transaction that is processed, rejected or parked
  has an event of that kind in the outbox, with its id in the payload, because the event is staged in the SQL
  transaction that writes the state: \<open>announced\<close> is an invariant of the outbox.
\<close>

section \<open>Announced stores\<close>

text \<open>An event of type \<open>ty\<close> about the transaction text \<open>i\<close>, as the emitters write it.\<close>

definition announces :: "env \<Rightarrow> string \<Rightarrow> string \<Rightarrow> outbox_row \<Rightarrow> bool" where
  "announces E i ty b \<longleftrightarrow> b_type b = ty \<and> (\<exists>eid agg corr t v data. e_uuid E agg = Some (b_aggregate b) \<and>
     b_payload b = mustEventPayload eid ty agg corr t v ((''transactionId'', JStr i) # data))"

definition told :: "env \<Rightarrow> outbox_row list \<Rightarrow> string \<Rightarrow> tx_state \<Rightarrow> bool" where
  "told E bs u s \<longleftrightarrow> (\<forall>ty. event_of s = Some ty \<longrightarrow> (\<exists>b \<in> set bs. \<exists>i. e_uuid E i = Some u \<and> announces E i ty b))"

definition announced :: "env \<Rightarrow> tables \<Rightarrow> bool" where
  "announced E T \<longleftrightarrow> (\<forall>x \<in> set (txs T). told E (outbox T) (t_id x) (t_state x))"

lemma told_mono:
  assumes "told E bs u s" "notice ` set bs \<subseteq> notice ` set cs"
  shows "told E cs u s"
  unfolding told_def
proof (intro allI impI)
  fix ty assume "event_of s = Some ty"
  then obtain b i where b: "b \<in> set bs" "e_uuid E i = Some u" "announces E i ty b" using assms(1) by (auto simp: told_def)
  then obtain c where "c \<in> set cs" "notice c = notice b" using assms(2) by fastforce
  with b show "\<exists>b \<in> set cs. \<exists>i. e_uuid E i = Some u \<and> announces E i ty b"
    unfolding announces_def notice_def by (metis prod.inject)
qed

lemma told_append [intro]: "told E bs u s \<Longrightarrow> told E (bs @ cs) u s"
  by (erule told_mono) auto

lemma told_new:
  "b \<in> set bs \<Longrightarrow> announces E i ty b \<Longrightarrow> e_uuid E i = Some u \<Longrightarrow> event_of s = Some ty \<Longrightarrow> told E bs u s"
  by (auto simp: told_def)

text \<open>The two changes that call for an event.\<close>

lemma announced_insert:
  assumes "announced E T" "txs T' = txs T @ [x]" "outbox T' = outbox T @ bs" "b \<in> set bs" "announces E i ty b"
    and "e_uuid E i = Some (t_id x)" "event_of (t_state x) = Some ty"
  shows "announced E T'"
  using assms told_new [of b "outbox T'" E i ty] by (auto simp: announced_def)

lemma announced_update:
  assumes "announced E T" "txs T' = tbl_modify t_id u f (txs T)" "outbox T' = outbox T @ bs" "b \<in> set bs" "announces E i ty b"
    and "e_uuid E i = Some u" "\<And>q. t_id (f q) = t_id q" "\<And>q. event_of (t_state (f q)) = Some ty"
  shows "announced E T'"
  using assms told_new [of b "outbox T'" E i ty u] by (auto simp: announced_def tbl_modify_def)

lemma announced_still:
  assumes a: "announced E T" and c: "still T T'"
  shows "announced E T'"
  unfolding announced_def
proof
  fix y assume y: "y \<in> set (txs T')"
  show "told E (outbox T') (t_id y) (t_state y)"
  proof (cases "event_of (t_state y) = None")
    case False
    then obtain x where x: "x \<in> set (txs T)" "t_id y = t_id x" "t_state y = t_state x"
      using c y by (auto simp: still_def)
    then have "told E (outbox T) (t_id y) (t_state y)" using a by (simp add: announced_def)
    then show ?thesis by (rule told_mono) (simp add: still_notices [OF c])
  qed (simp add: told_def)
qed

section \<open>The emitters\<close>

lemma announcesI:
  assumes "b_type b = ob_type e" "b_payload b = ob_payload e" "e_uuid E (ob_aggregate e) = Some (b_aggregate b)"
    and "e = new_outbox eid agg ty (mustEventPayload eid ty agg corr t v ((''transactionId'', JStr i) # rest))"
  shows "announces E i ty b"
proof -
  from assms have "b_type b = ty" "e_uuid E agg = Some (b_aggregate b)"
    "b_payload b = mustEventPayload eid ty agg corr t v ((''transactionId'', JStr i) # rest)" by (simp_all add: new_outbox_def)
  then show ?thesis unfolding announces_def by blast
qed

lemma tx_data_announces:
  assumes "b_type b = ob_type e" "b_payload b = ob_payload e" "e_uuid E (ob_aggregate e) = Some (b_aggregate b)"
    and "e = new_outbox eid (w_id w) ty (mustEventPayload eid ty (w_id w) corr t v (tx_data w i s @ rest))"
  shows "announces E i ty b"
  by (rule announcesI [OF assms(1-3)]) (simp add: assms(4) tx_data_def)

lemma tspec_emitProcessed_told:
  assumes "\<And>b bs. announces E i EventProcessed b \<Longrightarrow> Q () (T\<lparr>outbox := outbox T @ b # bs\<rparr>)"
  shows "tspec (emitProcessed E w i s a b d) T Q R"
  unfolding emitProcessed_def Let_def
  apply (intro tspec_bind tspec_now tspec_newID tspec_EnqueueOutbox sticky_intros)
  subgoal premises p for t n r
    using assms [OF tx_data_announces [OF p(1) p(2) p(5) refl]]
    by (auto intro!: tspec_ret tspec_bind tspec_newID tspec_EnqueueOutbox sticky_intros)
  done

lemma tspec_emitRejected_told:
  assumes "\<And>b. announces E i EventRejected b \<Longrightarrow> Q () (T\<lparr>outbox := outbox T @ [b]\<rparr>)"
  shows "tspec (emitRejected E w i s a c) T Q R"
  unfolding emitRejected_def Let_def
  by (intro tspec_bind tspec_now tspec_newID tspec_EnqueueOutbox sticky_intros assms)
    (rule tx_data_announces [OF _ _ _ refl]; assumption)

lemma tspec_emitPendingRef_told:
  assumes "\<And>b. announces E i EventPendingRef b \<Longrightarrow> Q () (T\<lparr>outbox := outbox T @ [b]\<rparr>)"
  shows "tspec (emitPendingRef E w i s) T Q R"
  unfolding emitPendingRef_def Let_def
  by (intro tspec_bind tspec_now tspec_newID tspec_EnqueueOutbox sticky_intros assms)
    (rule tx_data_announces [OF _ _ _ refl]; assumption)

section \<open>Outcomes\<close>

lemma ann_processed: "upholds (announced E) (processed E oc i w before after ref d)"
proof (rule upholdsI)
  fix T assume T: "announced E T"
  show "tspec (processed E oc i w before after ref d) T (\<lambda>_. announced E) (\<lambda>_. announced E)"
    unfolding processed_def
    by (intro tspec_bind tspec_newID tspec_lift_domain tspec_insertTx tspec_ledger_Append tspec_UpdateBalance
        tspec_emitProcessed_told tspec_ret sticky_intros T, rule announced_insert [OF T])
      (auto dest: insertedD)
qed

lemma ann_rejected: "upholds (announced E) (rejected E oc i w c ref)"
proof (rule upholdsI)
  fix T assume T: "announced E T"
  show "tspec (rejected E oc i w c ref) T (\<lambda>_. announced E) (\<lambda>_. announced E)"
    unfolding rejected_def Let_def
    by (intro tspec_bind tspec_insertTx tspec_emitRejected_told tspec_ret sticky_intros, rule announced_insert [OF T])
      (auto dest: insertedD)
qed

lemma ann_parkReference: "upholds (announced E) (parkReference E oc i t w)"
proof (rule upholdsI)
  fix T assume T: "announced E T"
  show "tspec (parkReference E oc i t w) T (\<lambda>_. announced E) (\<lambda>_. announced E)"
    unfolding parkReference_def
    by (intro tspec_bind tspec_insertTx tspec_emitPendingRef_told tspec_EnqueueWork tspec_ret sticky_intros,
        rule announced_insert [OF T])
      (auto dest: insertedD)
qed

lemma ann_applyLoss: "upholds (announced E) (applyLoss E oc i w)"
proof (rule upholdsI)
  fix T assume T: "announced E T"
  show "tspec (applyLoss E oc i w) T (\<lambda>_. announced E) (\<lambda>_. announced E)"
    unfolding applyLoss_def Let_def
    by (intro tspec_bind tspec_insertTx tspec_emitProcessed_told tspec_ret sticky_intros, rule announced_insert [OF T])
      (auto dest: insertedD)
qed

lemma ann_settleProcessed: "upholds (announced E) (settleProcessedExisting E w q i ref d before after)"
proof (rule upholdsI)
  fix T assume T: "announced E T"
  show "tspec (settleProcessedExisting E w q i ref d before after) T (\<lambda>_. announced E) (\<lambda>_. announced E)"
    unfolding settleProcessedExisting_def Let_def
    by (intro tspec_bind tspec_newID tspec_lift_domain tspec_UpdateState tspec_ledger_Append tspec_UpdateBalance
        tspec_emitProcessed_told tspec_DeleteWork sticky_intros T, rule announced_update [where i = "t_id q", OF T], simp)
      auto
qed

lemma ann_settleRejected: "upholds (announced E) (settleRejectedExisting E w q i ref c)"
proof (rule upholdsI)
  fix T assume T: "announced E T"
  show "tspec (settleRejectedExisting E w q i ref c) T (\<lambda>_. announced E) (\<lambda>_. announced E)"
    unfolding settleRejectedExisting_def Let_def
    by (intro tspec_bind tspec_UpdateState tspec_emitRejected_told tspec_DeleteWork sticky_intros, rule announced_update [where i = "t_id q", OF T], simp)
      auto
qed

lemma ann_fund_wallet: "upholds (announced E) (fund_wallet E w p c s m)"
proof (rule upholdsI)
  fix T assume T: "announced E T"
  have ann: "announces E i EventProcessed b"
    if "b_type b = ob_type e" "b_payload b = ob_payload e" "e_uuid E (ob_aggregate e) = Some (b_aggregate b)"
      "e = new_outbox eid w EventProcessed (mustEventPayload eid EventProcessed w [] t 1 (opening_proc_data i p w s c m))" for i b e eid t
    by (rule announcesI [OF that(1-3)]) (simp add: that(4) opening_proc_data_def)
  show "tspec (fund_wallet E w p c s m) T (\<lambda>_. announced E) (\<lambda>_. announced E)"
    unfolding fund_wallet_def Let_def
    by (intro tspec_bind tspec_newID tspec_now tspec_lift_domain tspec_tx_Insert tspec_ledger_Append tspec_EnqueueOutbox
        sticky_intros T, rule announced_insert [OF T _ _ _ ann [OF _ _ _ refl]])
      (auto dest: stored_txD)
qed

interpretation announced: outbox_invariant E "announced E" for E
proof unfold_locales
  show "announced E empty_tables" by (simp add: announced_def empty_tables_def)
qed (rule announced_still ann_processed ann_rejected ann_parkReference ann_applyLoss ann_settleProcessed
  ann_settleRejected ann_fund_wallet; assumption?)+

section \<open>The guarantee\<close>

text \<open>C13. Nothing happens in silence. In every reachable store each transaction that is processed, rejected or parked has
  an event of that kind in the outbox, whose payload carries its id as \<^verbatim>\<open>transactionId\<close> and names the wallet it is
  grouped by; whatever statements were lost on the way.\<close>

theorem reachable_stored_is_announced:
  assumes "reachable E T" "x \<in> set (txs T)" "t_state x \<in> {StateProcessed, StateRejected, StatePendingReference}"
  shows "\<exists>b \<in> set (outbox T). \<exists>i eid agg corr t v data. Some (b_type b) = event_of (t_state x) \<and> e_uuid E i = Some (t_id x) \<and>
    e_uuid E agg = Some (b_aggregate b) \<and>
    b_payload b = mustEventPayload eid (b_type b) agg corr t v ((''transactionId'', JStr i) # data)"
proof -
  have "told E (outbox T) (t_id x) (t_state x)" using announced.reachable_holds [OF assms(1)] assms(2) by (simp add: announced_def)
  moreover obtain ty where ty: "event_of (t_state x) = Some ty" using assms(3) by auto
  ultimately obtain b i where b: "b \<in> set (outbox T)" "e_uuid E i = Some (t_id x)" "announces E i ty b" by (auto simp: told_def)
  from b(3) obtain eid agg corr t v data where a: "b_type b = ty" "e_uuid E agg = Some (b_aggregate b)"
    "b_payload b = mustEventPayload eid ty agg corr t v ((''transactionId'', JStr i) # data)" unfolding announces_def by blast
  have "Some (b_type b) = event_of (t_state x)" using ty a(1) by simp
  with b(1,2) a show ?thesis by metis
qed

lemma reachable_stored_is_announced_witness:
  "\<exists>T x b. reachable demo_env T \<and> x \<in> set (txs T) \<and> t_kind x = KindBet \<and> b \<in> set (outbox T) \<and> b_type b = EventProcessed"
proof -
  obtain T x where x: "reachable demo_env T" "x \<in> set (txs T)" "t_state x = StateProcessed" "t_kind x = KindBet"
    by (rule demo_processed_row)
  from reachable_stored_is_announced [OF x(1,2)] x(3) obtain b where "b \<in> set (outbox T)" "b_type b = EventProcessed" by auto
  with x show ?thesis by blast
qed

end
