(* ===== verification/Processes.thy ===== *)
theory Processes
  imports Use_Cases Sqs_Consumer
begin

text \<open>
  Calls that run concurrently. A call is not one transaction: \<^verbatim>\<open>Submit\<close> looks up the inbox, runs its transaction and
  then re-evaluates dependents in another one; \<^verbatim>\<open>ProcessDueWork\<close> claims items in one transaction and treats each in
  its own; \<^verbatim>\<open>PublishDueOutbox\<close> claims, and settles each event by a statement. Between them the transactions of
  other goroutines and processes run. A call is therefore also given as a process, a resumption that is finished
  or offers its next transaction; run alone it is the call, and a pool runs any number of them interleaved.
\<close>

section \<open>Resumptions\<close>

datatype 'a proc = Finished "serr + 'a" | Block "world \<Rightarrow> 'a proc \<times> world"

lemma proc_blocks:
  assumes "\<And>r. P (Finished r)" "\<And>f. (\<And>w. P (fst (f w))) \<Longrightarrow> P (Block f)"
  shows "P p"
proof (induction p)
  case (Block f)
  then show ?case using assms(2) by (metis fsts.intros rangeI surjective_pairing)
qed (rule assms(1))

primrec run :: "'a proc \<Rightarrow> 'a action" where
  "run (Finished r) = (\<lambda>w. (r, w))"
| "run (Block f) = (\<lambda>w. case map_prod run id (f w) of (m, w') \<Rightarrow> m w')"

text \<open>One transaction, and what follows its result; an error ends the call.\<close>

definition step :: "'a action \<Rightarrow> ('a \<Rightarrow> 'b proc) \<Rightarrow> 'b proc" where
  "step m k = Block (\<lambda>w. case m w of (Inl e, w') \<Rightarrow> (Finished (Inl e), w') | (Inr x, w') \<Rightarrow> (k x, w'))"

definition finish :: "'a \<Rightarrow> 'a proc" where
  "finish x = Finished (Inr x)"

lemma run_step [simp]: "run (step m k) = bind m (\<lambda>x. run (k x))"
  by (rule ext) (auto simp: step_def bind_def split: prod.splits sum.splits)

lemma run_finish [simp]: "run (finish x) = ret x"
  by (rule ext) (simp add: finish_def ret_def)

text \<open>A process that goes on with the result of another one, an error included.\<close>

primrec and_then :: "'a proc \<Rightarrow> (serr + 'a \<Rightarrow> 'b proc) \<Rightarrow> 'b proc" where
  "and_then (Finished r) k = k r"
| "and_then (Block f) k = Block (\<lambda>w. map_prod (\<lambda>p. and_then p k) id (f w))"

lemma run_and_then: "run (and_then p k) w = bind (attempt (run p)) (\<lambda>r. run (k r)) w"
proof (induction p arbitrary: w)
  case (Block f)
  obtain q v where f: "f w = (q, v)" by fastforce
  then have "run (and_then q k) v = bind (attempt (run q)) (\<lambda>r. run (k r)) v"
    using Block [of "f w" q v] by (metis fsts.intros fst_conv rangeI)
  then show ?case using f by (simp add: bind_def attempt_def)
qed (simp add: bind_def attempt_def)

section \<open>The calls as processes\<close>

definition Submit_proc :: "env \<Rightarrow> submit_input \<Rightarrow> submit_result proc" where
  "Submit_proc E i = (case validate_input i of
     Inl c \<Rightarrow> Finished (Inl (ErrCorrectable c))
   | Inr (amount, h) \<Rightarrow>
     step (inbox_check E i h) (\<lambda>_.
     step (transact E (submit_body E i amount h)) (\<lambda>r.
     step (reevaluate E i r) (\<lambda>_. finish r))))"

definition OpenWallet_proc :: "env \<Rightarrow> string \<Rightarrow> string \<Rightarrow> string \<Rightarrow> wallet_row proc" where
  "OpenWallet_proc E playerID cur initialText =
    (case ParseMoney initialText cur of
       Inl _ \<Rightarrow> Finished (Inl (ErrCorrectable (code_text CodeInvalidMoney)))
     | Inr initial \<Rightarrow>
       if IsNegative initial then Finished (Inl (ErrCorrectable (code_text CodeInvalidMoney)))
       else step (newID E) (\<lambda>walletID. step (transact E (open_body E walletID playerID cur initialText initial)) finish))"

fun items_proc :: "env \<Rightarrow> work_item list \<Rightarrow> nat \<Rightarrow> nat proc" where
  "items_proc E [] n = finish n"
| "items_proc E (item # items) n = step (attempt (processWorkItem E item)) (\<lambda>r.
     items_proc E items (case r of Inr True \<Rightarrow> Suc n | _ \<Rightarrow> n))"

definition ProcessDueWork_proc :: "env \<Rightarrow> string \<Rightarrow> nat \<Rightarrow> nat proc" where
  "ProcessDueWork_proc E owner limit = step (ClaimWork E owner WorkLeaseTTL limit) (\<lambda>items. items_proc E items 0)"

fun publish_proc ::
  "env \<Rightarrow> (publication \<Rightarrow> bool) \<Rightarrow> time \<Rightarrow> outbox_record list \<Rightarrow> tick_result \<Rightarrow> tick_result proc" where
  "publish_proc E send t [] acc = finish acc"
| "publish_proc E send t (r # rs) acc =
    (if \<not> send (Publish r)
     then step (BackoffFullJitter E (ob_attempts r + 1) BackoffBase BackoffCap) (\<lambda>d.
       step (attempt (autocommit (NackOutbox E (ob_event r) (ob_attempts r + 1) (t + d)))) (\<lambda>res. case res of
         Inl e \<Rightarrow> finish (acc\<lparr>pub_error := Some e\<rparr>)
       | Inr _ \<Rightarrow> publish_proc E send t rs acc))
     else let acc1 = acc\<lparr>sent := sent acc @ [Publish r]\<rparr> in
       step (attempt (autocommit (MarkOutboxPublished E (ob_event r)))) (\<lambda>res. case res of
         Inl e \<Rightarrow> finish (acc1\<lparr>pub_error := Some e\<rparr>)
       | Inr _ \<Rightarrow> publish_proc E send t rs (acc1\<lparr>published := Suc (published acc1)\<rparr>)))"

definition PublishDueOutbox_proc :: "env \<Rightarrow> (publication \<Rightarrow> bool) \<Rightarrow> string \<Rightarrow> nat \<Rightarrow> tick_result proc" where
  "PublishDueOutbox_proc E send owner limit = step (now E) (\<lambda>t.
     step (ClaimOutbox E owner OutboxLeaseTTL limit) (\<lambda>records.
     publish_proc E send t records \<lparr>sent = [], published = 0, pub_error = None\<rparr>))"

text \<open>The handler of one delivery, which the poll loop starts as a goroutine.\<close>

definition treated :: "env \<Rightarrow> (command \<Rightarrow> bool) \<Rightarrow> message \<Rightarrow> string \<Rightarrow> serr + submit_result \<Rightarrow> handled proc" where
  "treated E b msg grp res = (case res of
     Inr r \<Rightarrow> let x = DeleteMessage (g_receipt msg) in
       finish \<lparr>n_commands = [(x, b x)], n_label = submitOutcome r, n_dlq_moves = [], n_deferred = False, n_error = None\<rparr>
   | Inl (ErrPoison p s h) \<Rightarrow> finish (discard b msg grp ''poison'' (poison_text p))
   | Inl e \<Rightarrow> if e = ErrOther ''panic'' then Finished (Inl e) else step (deferVisibility E b msg e) finish)"

definition Handle_proc :: "env \<Rightarrow> decoder \<Rightarrow> (command \<Rightarrow> bool) \<Rightarrow> message \<Rightarrow> handled proc" where
  "Handle_proc E dec b msg = (case ParseEnvelope dec (g_body msg) of
     Inl err \<Rightarrow> finish ((discard b msg ''invalid'' ''malformed'' err)\<lparr>n_label := ''invalid''\<rparr>)
   | Inr v \<Rightarrow> and_then (Submit_proc E (message_input msg v)) (treated E b msg (d_wallet (v_data v))))"

datatype call = Submission submit_input | Opening string string string | Working string nat
  | Publishing "publication \<Rightarrow> bool" string nat | Delivery decoder "command \<Rightarrow> bool" message

datatype answer = Submitted submit_result | Opened wallet_row | Worked nat | Published tick_result | Handled handled

fun call_proc :: "env \<Rightarrow> call \<Rightarrow> answer proc" where
  "call_proc E (Submission i) = map_proc Submitted (Submit_proc E i)"
| "call_proc E (Opening p c s) = map_proc Opened (OpenWallet_proc E p c s)"
| "call_proc E (Working owner n) = map_proc Worked (ProcessDueWork_proc E owner n)"
| "call_proc E (Publishing send owner n) = map_proc Published (PublishDueOutbox_proc E send owner n)"
| "call_proc E (Delivery dec b msg) = map_proc Handled (Handle_proc E dec b msg)"

section \<open>Run alone, a process is the call\<close>

lemma bind_ret: "bind m ret = m"
  by (rule ext) (simp add: bind_def ret_def split: prod.splits sum.splits)

lemma bind_assoc: "bind (bind m f) g = bind m (\<lambda>x. bind (f x) g)"
  by (rule ext) (auto simp: bind_def split: prod.splits sum.splits)

lemma bind_ret_left [simp]: "bind (ret x) f = f x"
  by (rule ext) (simp add: bind_def ret_def)

lemma run_Submit: "run (Submit_proc E i) = Submit E i"
  by (rule ext) (simp add: Submit_proc_def Submit_def fail_def split: sum.split prod.split)

lemma run_OpenWallet: "run (OpenWallet_proc E p c s) = OpenWallet E p c s"
  by (rule ext) (simp add: OpenWallet_proc_def OpenWallet_def fail_def bind_ret split: sum.split)

lemma run_items: "run (items_proc E is n) = bind (process_items E is) (\<lambda>k. ret (n + k))"
proof (induction "is" arbitrary: n)
  case (Cons item items)
  then show ?case
    by (simp add: bind_assoc) (rule arg_cong [where f = "bind _"], rule ext, simp split: sum.split bool.split)
qed simp

lemma run_ProcessDueWork: "run (ProcessDueWork_proc E owner n) = ProcessDueWork E owner n"
  by (simp add: ProcessDueWork_proc_def ProcessDueWork_def run_items bind_ret)

lemma run_publish: "run (publish_proc E send t rs acc) = publish_all E send t rs acc"
proof (induction rs arbitrary: acc)
  case (Cons r rs)
  have "(\<lambda>res :: serr + unit. run (case res of Inl e \<Rightarrow> finish (x e) | Inr u \<Rightarrow> publish_proc E send t rs y)) =
      case_sum (\<lambda>e. ret (x e)) (\<lambda>u. publish_all E send t rs y)" for x :: "serr \<Rightarrow> tick_result" and y
    by (rule ext) (simp add: Cons.IH split: sum.split)
  then show ?case by (simp add: Let_def)
qed simp

lemma run_PublishDueOutbox: "run (PublishDueOutbox_proc E send owner n) = PublishDueOutbox E send owner n"
  by (simp add: PublishDueOutbox_proc_def PublishDueOutbox_def run_publish)

lemma run_treated:
  "run (treated E b msg grp res) = (case res of
     Inr r \<Rightarrow> let x = DeleteMessage (g_receipt msg) in
       ret \<lparr>n_commands = [(x, b x)], n_label = submitOutcome r, n_dlq_moves = [], n_deferred = False, n_error = None\<rparr>
   | Inl (ErrPoison p s h) \<Rightarrow> ret (discard b msg grp ''poison'' (poison_text p))
   | Inl e \<Rightarrow> if e = ErrOther ''panic'' then fail e else deferVisibility E b msg e)"
  by (rule ext) (simp add: treated_def Let_def fail_def bind_ret split: sum.split serr.split)

lemma run_Handle: "run (Handle_proc E dec b msg) = Handle E dec b msg"
  by (rule ext) (simp add: Handle_proc_def Handle_def run_and_then run_Submit run_treated [abs_def] split: sum.split)

lemmas run_alone = run_Handle run_Submit run_OpenWallet run_ProcessDueWork run_PublishDueOutbox

section \<open>Actions that are sequences of calls\<close>

definition calls :: "env \<Rightarrow> 'a action \<Rightarrow> bool" where
  "calls E m \<longleftrightarrow> (\<forall>w. \<not> aborted w \<longrightarrow> (serves E)\<^sup>*\<^sup>* w (snd (m w)) \<and> \<not> aborted (snd (m w)))"

lemma callsD: "calls E m \<Longrightarrow> \<not> aborted w \<Longrightarrow> (serves E)\<^sup>*\<^sup>* w (snd (m w)) \<and> \<not> aborted (snd (m w))"
  by (simp add: calls_def)

lemma calls_still:
  assumes "\<And>w. \<not> aborted w \<Longrightarrow> tabs (snd (m w)) = tabs w \<and> \<not> aborted (snd (m w))"
  shows "calls E m"
  unfolding calls_def
proof (intro allI impI)
  fix w :: world assume a: "\<not> aborted w"
  then have s: "tabs (snd (m w)) = tabs w" "\<not> aborted (snd (m w))" using assms by blast+
  then have "snd (m w) = w\<lparr>tick := tick (snd (m w))\<rparr>" using a by (cases "snd (m w)", cases w) simp
  then have "serves E w (snd (m w))" using serves.elapses by metis
  then show "(serves E)\<^sup>*\<^sup>* w (snd (m w)) \<and> \<not> aborted (snd (m w))" using s(2) by blast
qed

lemma calls_use_cases:
  "calls E (Submit E i)" "calls E (OpenWallet E p c s)" "calls E (ProcessDueWork E owner n)"
  "calls E (PublishDueOutbox E send owner n)"
  using serves.intros(1-4) closed_Submit closed_OpenWallet closed_ProcessDueWork closed_PublishDueOutbox
  unfolding calls_def closed_def by (metis (no_types, lifting) r_into_rtranclp)+

lemma calls_block: "(\<And>w. block E w (snd (m w))) \<Longrightarrow> closed m \<Longrightarrow> calls E m"
  using serves.part unfolding calls_def closed_def by (metis r_into_rtranclp)

lemma calls_bind:
  assumes "calls E m" "\<And>x. calls E (f x)"
  shows "calls E (bind m f)"
  unfolding calls_def
proof (intro allI impI)
  fix w :: world assume a: "\<not> aborted w"
  obtain r w1 where m: "m w = (r, w1)" by fastforce
  then have w1: "(serves E)\<^sup>*\<^sup>* w w1" "\<not> aborted w1" using callsD [OF assms(1) a] by simp_all
  show "(serves E)\<^sup>*\<^sup>* w (snd (bind m f w)) \<and> \<not> aborted (snd (bind m f w))"
  proof (cases r)
    case (Inr x)
    with m w1 callsD [OF assms(2) w1(2), of x] show ?thesis by (auto simp: bind_def intro: rtranclp_trans)
  qed (use m w1 in \<open>simp add: bind_def\<close>)
qed

lemma calls_basic: "calls E (ret x)" "calls E (fail e)" "calls E (newID E)" "calls E (int63n E n)" "calls E (now E)"
  by (rule calls_still, simp add: ret_def fail_def newID_def int63n_def now_def)+

lemma calls_attempt: "calls E m \<Longrightarrow> calls E (attempt m)" and calls_ignore: "calls E m' \<Longrightarrow> calls E (ignore m')"
  by (simp_all add: calls_def attempt_def ignore_def)

section \<open>Every transaction of a process is part of a call\<close>

inductive tame :: "env \<Rightarrow> 'a proc \<Rightarrow> bool" for E where
  tame_Finished: "tame E (Finished r)"
| tame_Block: "(\<And>w. \<not> aborted w \<Longrightarrow> (serves E)\<^sup>*\<^sup>* w (snd (f w)) \<and> \<not> aborted (snd (f w)) \<and> tame E (fst (f w))) \<Longrightarrow>
    tame E (Block f)"

inductive_cases tame_BlockE: "tame E (Block f)"

lemma tame_step: "calls E m \<Longrightarrow> (\<And>x. tame E (k x)) \<Longrightarrow> tame E (step m k)"
  unfolding step_def calls_def
  by (rule tame_Block) (fastforce intro: tame_Finished split: prod.splits sum.splits)

lemma tame_finish: "tame E (finish x)"
  by (simp add: finish_def tame_Finished)

lemma tame_map: "tame E p \<Longrightarrow> tame E (map_proc h p)"
proof (induction rule: tame.induct)
  case (tame_Block f)
  then show ?case by (auto intro: tame.tame_Block)
qed (simp add: tame_Finished)

lemma tame_and_then: "tame E p \<Longrightarrow> (\<And>r. tame E (k r)) \<Longrightarrow> tame E (and_then p k)"
proof (induction rule: tame.induct)
  case (tame_Block f)
  then show ?case by (auto intro: tame.tame_Block)
qed simp

lemma calls_blocks:
  "validate_input i = Inr (a, h) \<Longrightarrow> calls E (transact E (submit_body E i a h))"
  "calls E (ReevaluateDependents E p x)" "calls E (inbox_check E i h)" "calls E (reevaluate E i r)"
  "ParseMoney s c = Inr m \<Longrightarrow> \<not> IsNegative m \<Longrightarrow> calls E (transact E (open_body E u p c s m))"
  "calls E (ClaimWork E owner ttl n)" "calls E (processWorkItem E item)" "calls E (ClaimOutbox E owner ttl n)"
  "calls E (autocommit (NackOutbox E e k t))" "calls E (autocommit (MarkOutboxPublished E e))"
  "calls E (BackoffFullJitter E k b c')"
proof -
  show "calls E (transact E (submit_body E i a h))" if "validate_input i = Inr (a, h)"
    by (rule calls_block [OF block.accepting [OF that] closed_transact])
  show r: "calls E (ReevaluateDependents E p x)" for p x by (rule calls_block [OF block.reevaluating closed_blocks(1)])
  show "calls E (reevaluate E i r)" by (simp add: reevaluate_def calls_basic calls_ignore r)
  show "calls E (transact E (open_body E u p c s m))" if "ParseMoney s c = Inr m" "\<not> IsNegative m"
    by (rule calls_block [OF block.creating [OF that] closed_transact])
  show "calls E (ClaimWork E owner ttl n)" by (rule calls_block [OF block.claiming closed_blocks(2)])
  show "calls E (processWorkItem E item)" by (rule calls_block [OF block.resuming closed_processWorkItem])
  show "calls E (ClaimOutbox E owner ttl n)" by (rule calls_block [OF block.leasing closed_blocks(3)])
  show "calls E (autocommit (NackOutbox E e k t))" by (rule calls_block [OF block.rescheduling closed_basic(5)])
  show "calls E (autocommit (MarkOutboxPublished E e))" by (rule calls_block [OF block.marking closed_basic(5)])
  show "calls E (inbox_check E i h)"
    unfolding inbox_check_def FindInbox_def
    by (rule calls_still) (auto simp: autocommit_def stmt_def bind_def ret_def fail_def split: sum.splits prod.splits option.splits)
  show "calls E (BackoffFullJitter E k b c')"
    unfolding BackoffFullJitter_def Let_def by (auto intro!: calls_bind calls_basic)
qed

lemmas tame_intros = tame_step tame_finish tame_Finished calls_blocks calls_basic calls_attempt

lemma tame_call: "tame E (call_proc E c)"
proof -
  have items: "tame E (items_proc E is n)" for "is" n
    by (induction "is" arbitrary: n) (auto intro!: tame_intros)
  have publish: "tame E (publish_proc E send t rs acc)" for send t rs acc
    by (induction rs arbitrary: acc) (auto simp: Let_def intro!: tame_intros split: sum.split)
  have submit: "tame E (Submit_proc E i)" for i
    by (auto simp: Submit_proc_def intro!: tame_intros split: sum.split)
  have "calls E (deferVisibility E b m e)" for b m e by (simp add: deferVisibility_def calls_bind calls_basic Let_def)
  then have "tame E (treated E b m g res)" for b m g res
    by (auto simp: treated_def Let_def intro!: tame_intros split: sum.split serr.split)
  then have handle: "tame E (Handle_proc E dec b m)" for dec b m
    by (auto simp: Handle_proc_def intro!: tame_and_then tame_intros submit split: sum.split)
  show ?thesis
    by (cases c) (auto simp: OpenWallet_proc_def ProcessDueWork_proc_def PublishDueOutbox_proc_def
        intro!: tame_map tame_intros submit handle items publish split: sum.split)
qed

end
