(* ===== verification/Concurrency.thy ===== *)
theory Concurrency
  imports Processes Example_Run
begin

text \<open>
  Calls of the use-cases that run concurrently over one database: any number of them, arriving at any time, each
  making its next transaction whenever it is scheduled, and some never finishing because their process was killed.
  With each transaction taken at one moment, every submission takes effect in exactly one of its
  transactions, and of submissions with the same key at most one is new.
\<close>

section \<open>Pools\<close>

text \<open>The calls with what is left of them, the database, and the tables before and after each transaction so far
  with the index of the call that made it.\<close>

type_synonym pool = "(call \<times> answer proc) list \<times> world \<times> (nat \<times> tables \<times> tables) list"

inductive pool_step :: "env \<Rightarrow> pool \<Rightarrow> pool \<Rightarrow> bool" for E where
  arrives: "pool_step E (ps, w, hs) (ps @ [(c, call_proc E c)], w, hs)"
| commits: "k < length ps \<Longrightarrow> ps ! k = (c, Block f) \<Longrightarrow> f w = (p, w') \<Longrightarrow>
    pool_step E (ps, w, hs) (ps[k := (c, p)], w', hs @ [(k, tabs w, tabs w')])"
| waits: "pool_step E (ps, w, hs) (ps, w\<lparr>tick := n\<rparr>, hs)"

definition own :: "nat \<Rightarrow> (nat \<times> tables \<times> tables) list \<Rightarrow> (tables \<times> tables) list" where
  "own k hs = map snd (filter (\<lambda>h. fst h = k) hs)"

lemma own_snoc: "own k (hs @ [(j, b)]) = (if j = k then own k hs @ [b] else own k hs)"
  by (simp add: own_def)

section \<open>Each process by itself\<close>

text \<open>From \<open>p\<close>, with the given transactions from idle stores and anything in between, to \<open>q\<close>.\<close>

inductive follows :: "env \<Rightarrow> 'a proc \<Rightarrow> (tables \<times> tables) list \<Rightarrow> 'a proc \<Rightarrow> bool" for E where
  here: "follows E p [] p"
| there: "idle E w \<Longrightarrow> f w = (p, w') \<Longrightarrow> follows E p bs q \<Longrightarrow> follows E (Block f) ((tabs w, tabs w') # bs) q"

inductive_cases follows_FinishedE: "follows E (Finished r) bs q"
inductive_cases follows_BlockE: "follows E (Block f) bs q"

lemma follows_snoc:
  assumes "follows E p bs (Block f)" "idle E w" "f w = (q, w')"
  shows "follows E p (bs @ [(tabs w, tabs w')]) q"
  using assms
proof (induction p bs "Block f :: 'a proc" rule: follows.induct)
  case here
  show ?case by (simp, rule follows.there, rule here.prems(1), rule here.prems(2), rule follows.here)
qed (auto intro: follows.there)

lemma follows_map:
  assumes "follows E (map_proc h p) bs q"
  shows "\<exists>q'. q = map_proc h q' \<and> follows E p bs q'"
  using assms
proof (induction "map_proc h p" bs q arbitrary: p rule: follows.induct)
  case here
  then show ?case by (blast intro: follows.here)
next
  case (there w f p1 w' bs q)
  obtain g where g: "p = Block g" "f = map_prod (map_proc h) id \<circ> g"
    using there.hyps(5) by (cases p) (auto simp: comp_def)
  obtain p2 where p2: "g w = (p2, w')" "p1 = map_proc h p2" using there.hyps(2) g(2) by (cases "g w") auto
  then obtain q' where "q = map_proc h q'" "follows E p2 bs q'" using there.hyps(4) by blast
  then show ?case using g(1) p2(1) there.hyps(1) by (blast intro: follows.there)
qed

lemma follows_step:
  assumes "follows E (step m k) bs (Finished r)"
  obtains w w' x bs' where "idle E w" "m w = (x, w')" "bs = (tabs w, tabs w') # bs'"
    "case x of Inl e \<Rightarrow> bs' = [] \<and> r = Inl e | Inr y \<Rightarrow> follows E (k y) bs' (Finished r)"
proof -
  let ?f = "\<lambda>w. case m w of (Inl e, w') \<Rightarrow> (Finished (Inl e), w') | (Inr x, w') \<Rightarrow> (k x, w')"
  have "follows E (Block ?f) bs (Finished r)" using assms by (simp add: step_def)
  then obtain w p w' bs' where b: "idle E w" "?f w = (p, w')" "bs = (tabs w, tabs w') # bs'" "follows E p bs' (Finished r)"
    by (rule follows_BlockE) auto
  obtain x v where x: "m w = (x, v)" by fastforce
  show ?thesis
  proof (cases x)
    case (Inl e)
    then have "p = Finished (Inl e)" "w' = v" using b(2) x by auto
    then show ?thesis using b x Inl by (intro that [of w x v bs']) (auto elim: follows_FinishedE)
  next
    case (Inr y)
    then have "p = k y" "w' = v" using b(2) x by auto
    then show ?thesis using b x Inr by (intro that [of w x v bs']) auto
  qed
qed

lemma follows_finish: "follows E (finish y) bs (Finished r) \<Longrightarrow> bs = [] \<and> r = Inr y"
  unfolding finish_def by (erule follows_FinishedE) simp

section \<open>The invariant of a pool\<close>

definition pool_ok :: "env \<Rightarrow> world \<Rightarrow> pool \<Rightarrow> bool" where
  "pool_ok E w0 s \<longleftrightarrow> (case s of (ps, w, hs) \<Rightarrow>
     (serves E)\<^sup>*\<^sup>* w0 w \<and> idle E w \<and>
     (\<forall>k < length ps. tame E (snd (ps ! k)) \<and> follows E (call_proc E (fst (ps ! k))) (own k hs) (snd (ps ! k))) \<and>
     (\<forall>h \<in> set hs. fst h < length ps \<and> good E (snd (snd h)) \<and> progress E (snd (snd h)) (tabs w)) \<and>
     sorted_wrt (\<lambda>h j. progress E (snd (snd h)) (fst (snd j))) hs)"

lemma pool_ok_step:
  assumes "pool_step E s s'" "pool_ok E w0 s"
  shows "pool_ok E w0 s'"
  using assms(1)
proof cases
  case (arrives ps w hs c)
  have "own (length ps) hs = []" using assms(2) arrives(1) by (force simp: pool_ok_def own_def filter_empty_conv)
  then show ?thesis using assms(2) unfolding arrives
    by (auto simp: pool_ok_def nth_append less_Suc_eq intro: tame_call follows.here)
next
  case (commits k ps c f w p w' hs)
  have ok: "(serves E)\<^sup>*\<^sup>* w0 w" "idle E w" "tame E (Block f)" "follows E (call_proc E c) (own k hs) (Block f)"
    using assms(2) commits(3,4) unfolding commits(1) by (auto simp: pool_ok_def dest!: spec [of _ k])
  have "(serves E)\<^sup>*\<^sup>* w w' \<and> \<not> aborted w' \<and> tame E p"
    using ok(2,3) commits(5) by (fastforce simp: idle_def elim: tame_BlockE)
  then have w': "(serves E)\<^sup>*\<^sup>* w w'" "tame E p" by blast+
  have pr: "progress E (tabs w) (tabs w')" "idle E w'" using runs_progress [OF w'(1) ok(2)] by blast+
  have g: "good E (tabs w')" using pr(2) by (simp add: idle_def)
  have "follows E (call_proc E c) (own k hs @ [(tabs w, tabs w')]) p" by (rule follows_snoc [OF ok(4,2) commits(5)])
  then have "\<forall>j < length ps. tame E (snd (ps[k := (c, p)] ! j)) \<and>
      follows E (call_proc E (fst (ps[k := (c, p)] ! j))) (own j (hs @ [(k, tabs w, tabs w')])) (snd (ps[k := (c, p)] ! j))"
    using assms(2) w'(2) commits(3,4) unfolding commits(1) by (auto simp: pool_ok_def own_snoc nth_list_update)
  moreover have "(serves E)\<^sup>*\<^sup>* w0 w'" using ok(1) w'(1) by simp
  moreover have "progress E (snd (snd h)) (tabs w')" if "h \<in> set hs" for h
    using assms(2) that progress_trans [OF _ pr(1)] unfolding commits(1) by (auto simp: pool_ok_def)
  ultimately show ?thesis
    using assms(2) pr g progress_refl [OF g] commits(3) unfolding commits(1,2)
    by (auto simp: pool_ok_def sorted_wrt_append)
next
  case (waits ps w hs n)
  then show ?thesis using assms(2) serves.elapses [of E w n] by (auto simp: pool_ok_def idle_def)
qed

lemma pool_run:
  assumes "idle E w" "(pool_step E)\<^sup>*\<^sup>* ([], w, []) s"
  shows "pool_ok E w s"
  using assms(2)
  by (induction rule: rtranclp_induct) (simp_all add: pool_ok_step, simp add: pool_ok_def assms(1))

section \<open>Submissions\<close>

text \<open>The three transactions of a submission that returned, or the ones that an error ended, all without effect.\<close>

definition took_effect :: "env \<Rightarrow> submit_input \<Rightarrow> submit_result \<Rightarrow> (tables \<times> tables) list \<Rightarrow> bool" where
  "took_effect E i r bs \<longleftrightarrow> (\<exists>a h T0 T T' T1 T2. bs = [(T0, T0), (T, T'), (T1, T2)] \<and> validate_input i = Inr (a, h) \<and>
     good E T \<and> submitted E i a h T r T' \<and>
     (if sr_outcome r = OutcomeProcessed \<and> resultIsReferenceTarget (s_kind i) then progress E T1 T2 else T2 = T1))"

lemma took_effect_block:
  "took_effect E i r bs \<Longrightarrow> \<exists>a h T T'. (T, T') \<in> set bs \<and> good E T \<and> submitted E i a h T r T'"
  unfolding took_effect_def by force

lemma block_cases:
  assumes "idle E w" "m w = (x, w')" "tspec m (tabs w) Q R" "closed m"
  shows "case x of Inl e \<Rightarrow> R e (tabs w') | Inr y \<Rightarrow> Q y (tabs w')"
  using run_cases [OF assms(3,4) _ assms(2)] assms(1) by (simp add: idle_def)

lemma Submit_follows:
  assumes f: "follows E (Submit_proc E i) bs (Finished res)"
  shows "case res of Inl e \<Rightarrow> \<forall>b \<in> set bs. snd b = fst b | Inr r \<Rightarrow> took_effect E i r bs"
proof (cases "validate_input i")
  case (Inl c)
  then show ?thesis using f by (auto simp: Submit_proc_def elim: follows_FinishedE)
next
  case (Inr ah)
  obtain a h where v: "validate_input i = Inr (a, h)" using Inr by (cases ah) simp
  have cur: "validCurrency (currency a)" "currency a = s_currency i"
    using validate_input_InrD(1,3) [OF v] ParseMoney_currency by blast+
  have "follows E (step (inbox_check E i h) (\<lambda>_. step (transact E (submit_body E i a h)) (\<lambda>r.
      step (reevaluate E i r) (\<lambda>_. finish r)))) bs (Finished res)" using f v by (simp add: Submit_proc_def)
  then obtain w0 w0' x0 bs0 where 0: "idle E w0" "inbox_check E i h w0 = (x0, w0')" "bs = (tabs w0, tabs w0') # bs0"
    "case x0 of Inl e \<Rightarrow> bs0 = [] \<and> res = Inl e | Inr _ \<Rightarrow>
       follows E (step (transact E (submit_body E i a h)) (\<lambda>r. step (reevaluate E i r) (\<lambda>_. finish r))) bs0 (Finished res)"
    by (rule follows_step)
  have s0: "tabs w0' = tabs w0"
    using block_cases [OF 0(1,2) tspec_inbox_check closed_inbox_check, of "\<lambda>_ T. T = tabs w0" "\<lambda>_ T. T = tabs w0"]
    by (simp split: sum.splits)
  show ?thesis
  proof (cases x0)
    case (Inl e)
    then show ?thesis using 0(3,4) s0 by simp
  next
    case (Inr u)
    with 0(4) obtain w1 w1' x1 bs1 where 1: "idle E w1" "transact E (submit_body E i a h) w1 = (x1, w1')"
      "bs0 = (tabs w1, tabs w1') # bs1"
      "case x1 of Inl e \<Rightarrow> bs1 = [] \<and> res = Inl e | Inr r \<Rightarrow> follows E (step (reevaluate E i r) (\<lambda>_. finish r)) bs1 (Finished res)"
      by (auto elim: follows_step)
    have g1: "good E (tabs w1)" using 1(1) by (simp add: idle_def)
    have s1: "case x1 of Inl e \<Rightarrow> tabs w1' = tabs w1 | Inr r \<Rightarrow> submitted E i a h (tabs w1) r (tabs w1')"
      by (rule block_cases [OF 1(1,2) tspec_transact [OF tspec_mono [OF tspec_submit_body [OF g1 cur]]] closed_transact]) auto
    show ?thesis
    proof (cases x1)
      case (Inl e)
      then show ?thesis using 0(3) 1(3,4) s0 s1 by simp
    next
      case x1: (Inr r)
      then have "follows E (step (reevaluate E i r) (\<lambda>_. finish r)) bs1 (Finished res)" using 1(4) by simp
      then obtain w2 w2' x2 bs2 where 2: "idle E w2" "reevaluate E i r w2 = (x2, w2')" "bs1 = (tabs w2, tabs w2') # bs2"
        "case x2 of Inl e \<Rightarrow> bs2 = [] \<and> res = Inl e | Inr _ \<Rightarrow> follows E (finish r) bs2 (Finished res)"
        by (rule follows_step)
      have g2: "good E (tabs w2)" using 2(1) by (simp add: idle_def)
      have cl: "closed (reevaluate E i r)"
        unfolding reevaluate_def by (auto intro!: closed_basic closed_ReevaluateDependents)
      have s2: "case x2 of Inl e \<Rightarrow> False | Inr _ \<Rightarrow> if sr_outcome r = OutcomeProcessed \<and> resultIsReferenceTarget (s_kind i)
          then progress E (tabs w2) (tabs w2') else tabs w2' = tabs w2"
        by (rule block_cases [OF 2(1,2) tspec_reevaluate [OF g2] cl])
      then obtain y where "x2 = Inr y" by (cases x2) auto
      then have "bs2 = []" "res = Inr r" using 2(4) follows_finish by fastforce+
      then have "bs = [(tabs w0, tabs w0), (tabs w1, tabs w1'), (tabs w2, tabs w2')]" using 0(3) 1(3) 2(3) s0 by simp
      then show ?thesis using \<open>res = Inr r\<close> v g1 s1 x1 s2 \<open>x2 = Inr y\<close> by (auto simp: took_effect_def)
    qed
  qed
qed

lemma pool_submission:
  assumes "pool_ok E w0 (ps, w, hs)" "k < length ps" "ps ! k = (Submission i, Finished res)"
  shows "case res of Inl e \<Rightarrow> \<forall>b \<in> set (own k hs). snd b = fst b
    | Inr r \<Rightarrow> \<exists>r'. r = Submitted r' \<and> took_effect E i r' (own k hs)"
proof -
  have "follows E (map_proc Submitted (Submit_proc E i)) (own k hs) (Finished res)"
    using assms by (auto simp: pool_ok_def dest!: spec [of _ k])
  from follows_map [OF this] obtain q where q: "Finished res = map_proc Submitted q" "follows E (Submit_proc E i) (own k hs) q"
    by blast
  then obtain r where r: "q = Finished r" "res = map_sum id Submitted r" by (cases q) auto
  with Submit_follows [of E i "own k hs" r] q(2) show ?thesis by (cases r) simp_all
qed

lemma sorted_wrt_either:
  "sorted_wrt P xs \<Longrightarrow> x \<in> set xs \<Longrightarrow> y \<in> set xs \<Longrightarrow> x \<noteq> y \<Longrightarrow> P x y \<or> P y x"
  by (induction xs) auto

text \<open>Of the transactions of two calls one was there before the other.\<close>

lemma pool_order:
  assumes "pool_ok E w0 (ps, w, hs)" "j \<noteq> k" "b \<in> set (own j hs)" "d \<in> set (own k hs)"
  shows "progress E (snd b) (fst d) \<or> progress E (snd d) (fst b)"
proof -
  have "(j, b) \<in> set hs" "(k, d) \<in> set hs" using assms(3,4) by (auto simp: own_def)
  moreover have s: "sorted_wrt (\<lambda>h j. progress E (snd (snd h)) (fst (snd j))) hs" using assms(1) by (simp add: pool_ok_def)
  ultimately show ?thesis using sorted_wrt_either [OF s, of "(j, b)" "(k, d)"] assms(2) by simp
qed

lemma existing_NoneD:
  assumes "existing i T = None" "x \<in> set (txs T)" "t_provider x = Some (s_provider i)"
  shows "t_key x \<noteq> Some (s_key i)" "t_external x \<noteq> Some (s_external i)"
  using assms by (auto simp: existing_def find_by_key_def find_by_external_def find_None_iff split: option.splits)

lemma submitted_new:
  assumes "submitted E i a h T r T'" "\<not> sr_replay r"
  obtains oc x where "existing i T = None" "oc_in oc = i" "oc_hash oc = h" "reports E oc r x" "x \<in> set (txs T')"
proof -
  have "existing i T = None" using assms by (auto simp: submitted_def split: option.splits)
  with assms(1) that show ?thesis by (fastforce simp: submitted_def accepted_def)
qed

text \<open>After a new submission another one of the same provider with its key or its external id finds the row.\<close>

lemma found_later:
  assumes "submitted E i a h T r T'" "\<not> sr_replay r" "good E T'" "progress E T' U"
    and "s_provider j = s_provider i" "s_key j = s_key i \<or> s_external j = s_external i"
  shows "existing j U \<noteq> None"
proof
  assume none: "existing j U = None"
  obtain oc x where x: "oc_in oc = i" "reports E oc r x" "x \<in> set (txs T')" using submitted_new [OF assms(1,2)] by metis
  have "later T' U" using assms(3,4) machine_star_later goodD(2) by (auto simp: progress_def)
  then obtain y where "y \<in> set (txs U)" "evolves x y" using x(3) by (auto simp: later_def)
  with existing_NoneD [OF none, of y] reports_key [OF x(2)] x(1) assms(5,6) show False
    by (auto simp: evolves_def same_request_def)
qed

lemma replay_found: "submitted E i a h T r T' \<Longrightarrow> sr_replay r \<Longrightarrow> \<exists>x. existing i T = Some x \<and> T' = T \<and> r = replayResult x \<and> str (t_hash x) = h"
  by (auto simp: submitted_def accepted_def reports_def split: option.splits)

text \<open>Of two operations of a provider with the same key or external id that took effect, one was a replay.\<close>

lemma effects_once:
  assumes ok: "pool_ok E w (ps, w', hs)" and jk: "j \<noteq> k"
    and tk: "took_effect E i r (own k hs)" and new: "\<not> sr_replay r" and tj: "took_effect E i' r' (own j hs)"
    and same_op: "s_provider i' = s_provider i" "s_key i' = s_key i \<or> s_external i' = s_external i"
  shows "sr_replay r' \<and> (s_key i' = s_key i \<and> s_external i' = s_external i \<longrightarrow> answers E r r')"
proof -
  obtain a h T T' where k: "(T, T') \<in> set (own k hs)" "good E T" "submitted E i a h T r T'"
    using took_effect_block [OF tk] by blast
  obtain a' h' U U' where j: "(U, U') \<in> set (own j hs)" "good E U" "submitted E i' a' h' U r' U'"
    using took_effect_block [OF tj] by blast
  have g: "good E T'" "good E U'" using submitted_good k j by blast+
  have none: "existing i T = None" using submitted_new [OF k(3) new] by metis
  consider "progress E T' U" | "progress E U' T" using pool_order [OF ok jk j(1) k(1)] by auto
  then show ?thesis
  proof cases
    case 1
    have found: "existing i' U \<noteq> None" by (rule found_later [OF k(3) new g(1) 1 same_op])
    have rep: "sr_replay r'" using found submitted_new [OF j(3)] by metis
    moreover have "answers E r r'" if same: "s_key i' = s_key i" "s_external i' = s_external i"
    proof -
      obtain oc x where x: "oc_in oc = i" "reports E oc r x" "x \<in> set (txs T')" using submitted_new [OF k(3) new] by metis
      have "later T' U" using g(1) 1 machine_star_later goodD(2) by (auto simp: progress_def)
      then obtain y where y: "y \<in> set (txs U)" "evolves x y" using x(3) by (auto simp: later_def)
      have "existing i' U = Some y" using same_key_existing [OF j(2) x(2) y] x(1) same_op(1) same by simp
      with replay_found [OF j(3) rep] answers_row [OF x(2) y(2)] show ?thesis by auto
    qed
    ultimately show ?thesis by blast
  next
    case 2
    have "sr_replay r'"
      using found_later [OF j(3) _ g(2) 2, of i] none same_op by (metis)
    moreover have False if same: "s_key i' = s_key i" "s_external i' = s_external i"
    proof -
      obtain x where x: "existing i' U = Some x" "U' = U" using replay_found [OF j(3) \<open>sr_replay r'\<close>] by blast
      then have x': "x \<in> set (txs U)" "t_provider x = Some (s_provider i)" "t_key x = Some (s_key i) \<or> t_external x = Some (s_external i)"
        using find_by_key_Some [of _ _ "txs U" x] find_by_external_Some [of _ _ "txs U" x] same_op(1) same
        by (auto simp: existing_def split: option.splits)
      have "later U T" using j(2) 2 x(2) machine_star_later goodD(2) by (auto simp: progress_def)
      then obtain y where "y \<in> set (txs T)" "evolves x y" using x'(1) by (auto simp: later_def)
      with existing_NoneD [OF none, of y] x'(2,3) show False by (auto simp: evolves_def same_request_def)
    qed
    ultimately show ?thesis by blast
  qed
qed

section \<open>The guarantees\<close>

text \<open>Concurrent calls are calls, as far as each of their transactions can be taken at one moment. That holds of
  transactions that read nothing before they lock the wallet, a submission's and an opening's; the worker's and the
  re-evaluation of dependents read parked rows first, and \<open>Overlaps\<close> says what follows. A call that runs
  alone is the use-case.\<close>

lemma concurrent_calls_refine:
  assumes "idle E w" "(pool_step E)\<^sup>*\<^sup>* ([], w, []) (ps, w', hs)"
  shows "(serves E)\<^sup>*\<^sup>* w w' \<and> idle E w' \<and> machine\<^sup>*\<^sup>* (tabs w) (tabs w') \<and> (fresh E w \<longrightarrow> reachable E (tabs w')) \<and>
    (\<forall>h \<in> set hs. good E (snd (snd h))) \<and>
    run (Submit_proc E i) = Submit E i \<and> run (OpenWallet_proc E p c s) = OpenWallet E p c s \<and>
    run (ProcessDueWork_proc E owner n) = ProcessDueWork E owner n \<and>
    run (PublishDueOutbox_proc E send owner n) = PublishDueOutbox E send owner n"
proof -
  have "pool_ok E w (ps, w', hs)" by (rule pool_run [OF assms])
  then have s: "(serves E)\<^sup>*\<^sup>* w w'" "\<forall>h \<in> set hs. good E (snd (snd h))" by (simp_all add: pool_ok_def)
  with runs_progress [OF s(1) assms(1)] show ?thesis by (auto simp: progress_def run_alone intro: reachableI)
qed

text \<open>C9. Submissions are atomic. However its transactions are interleaved with those of concurrent calls, a submission
  that has ended in an error has changed nothing in any of them. One that has returned a result took effect at
  once in its second transaction, from the tables as they were at that moment, whatever it had read before: it
  replayed what it found there or accepted a new operation by one step of the machine; its third
  transaction at most resumed dependents, and that for a processed bet only.\<close>

theorem concurrent_Submit_atomic:
  assumes "idle E w" "(pool_step E)\<^sup>*\<^sup>* ([], w, []) (ps, w', hs)" "k < length ps" "ps ! k = (Submission i, Finished res)"
  shows "case res of Inl e \<Rightarrow> \<forall>b \<in> set (own k hs). snd b = fst b
    | Inr r \<Rightarrow> \<exists>r' a h T0 T T' T1 T2. r = Submitted r' \<and> own k hs = [(T0, T0), (T, T'), (T1, T2)] \<and>
        validate_input i = Inr (a, h) \<and> good E T \<and> submitted E i a h T r' T' \<and>
        (if sr_outcome r' = OutcomeProcessed \<and> s_kind i = KindBet then progress E T1 T2 else T2 = T1)"
proof (cases res)
  case (Inr r)
  then obtain r' where "r = Submitted r'" "took_effect E i r' (own k hs)"
    using pool_submission [OF pool_run [OF assms(1,2)] assms(3,4)] by auto
  then show ?thesis unfolding Inr took_effect_def resultIsReferenceTarget_def sum.case by blast
qed (use pool_submission [OF pool_run [OF assms(1,2)] assms(3,4)] in simp)

text \<open>C6. Exactly once under concurrency. Of concurrent submissions of a provider that carry the same idempotency key or
  the same external id, at most one returns a new result, however they are interleaved; with both equal, the
  others are answered with the result of that one.\<close>

theorem concurrent_Submit_once:
  assumes "idle E w" "(pool_step E)\<^sup>*\<^sup>* ([], w, []) (ps, w', hs)" "j \<noteq> k" "j < length ps" "k < length ps"
    and "ps ! k = (Submission i, Finished (Inr (Submitted r)))" "\<not> sr_replay r"
    and "ps ! j = (Submission i', Finished (Inr (Submitted r')))"
    and "s_provider i' = s_provider i" "s_key i' = s_key i \<or> s_external i' = s_external i"
  shows "sr_replay r' \<and> (s_key i' = s_key i \<and> s_external i' = s_external i \<longrightarrow> answers E r r')"
proof -
  have ok: "pool_ok E w (ps, w', hs)" by (rule pool_run [OF assms(1,2)])
  have "took_effect E i r (own k hs)" "took_effect E i' r' (own j hs)"
    using pool_submission [OF ok assms(5,6)] pool_submission [OF ok assms(4,8)] by auto
  from effects_once [OF ok assms(3) this(1) assms(7) this(2) assms(9,10)] show ?thesis .
qed

section \<open>A concrete pool\<close>

text \<open>A process that is scheduled until it is finished ends like the call.\<close>

lemma pool_alone:
  assumes "k < length ps" "ps ! k = (c, p)"
  shows "\<exists>hs'. (pool_step E)\<^sup>*\<^sup>* (ps, w, hs) (ps[k := (c, Finished (fst (run p w)))], snd (run p w), hs @ hs')"
  using assms
proof (induction p arbitrary: ps w hs rule: proc_blocks)
  case (1 r)
  then have "ps[k := (c, Finished r)] = ps" by (metis list_update_id)
  then show ?case by (intro exI [of _ "[]"]) simp
next
  case (2 f)
  obtain p w1 where f: "f w = (p, w1)" by fastforce
  have s: "pool_step E (ps, w, hs) (ps[k := (c, p)], w1, hs @ [(k, tabs w, tabs w1)])"
    by (rule pool_step.commits [OF 2(2,3) f])
  obtain hs' where hs': "(pool_step E)\<^sup>*\<^sup>* (ps[k := (c, p)], w1, hs @ [(k, tabs w, tabs w1)])
      (ps[k := (c, p), k := (c, Finished (fst (run p w1)))], snd (run p w1), (hs @ [(k, tabs w, tabs w1)]) @ hs')"
    using 2(1) [of "ps[k := (c, p)]" w w1 "hs @ [(k, tabs w, tabs w1)]"] 2(2) f by auto
  with s show ?case
    by (intro exI [of _ "(k, tabs w, tabs w1) # hs'"]) (simp add: f converse_rtranclp_into_rtranclp)
qed

lemma run_map: "run (map_proc h p) w = (map_sum id h (fst (run p w)), snd (run p w))"
proof (induction p arbitrary: w rule: proc_blocks)
  case (2 f)
  then show ?case by (cases "f w") (metis (mono_tags, lifting) case_prod_conv fst_conv id_apply map_prod_simp o_apply proc.map(2) run.simps(2))
qed simp

text \<open>Two calls that arrive together and are served one after the other.\<close>

lemma pool_pair:
  assumes "run (call_proc E c) w = (x1, w1)" "run (call_proc E d) w1 = (x2, w2)"
  shows "\<exists>hs. (pool_step E)\<^sup>*\<^sup>* ([], w, []) ([(c, Finished x1), (d, Finished x2)], w2, hs)"
proof -
  let ?p = "call_proc E c" and ?q = "call_proc E d"
  have "pool_step E ([], w, []) ([(c, ?p)], w, [])" using pool_step.arrives [of E "[]" w "[]" c] by simp
  moreover have "pool_step E ([(c, ?p)], w, []) ([(c, ?p), (d, ?q)], w, [])"
    using pool_step.arrives [of E "[(c, ?p)]" w "[]" d] by simp
  moreover obtain hs where "(pool_step E)\<^sup>*\<^sup>* ([(c, ?p), (d, ?q)], w, []) ([(c, Finished x1), (d, ?q)], w1, hs)"
    using pool_alone [of 0 "[(c, ?p), (d, ?q)]" c ?p E w "[]"] assms(1) by auto
  moreover obtain hs' where "(pool_step E)\<^sup>*\<^sup>* ([(c, Finished x1), (d, ?q)], w1, hs) ([(c, Finished x1), (d, Finished x2)], w2, hs @ hs')"
    using pool_alone [of 1 "[(c, Finished x1), (d, ?q)]" d ?q E w1 hs] assms(2) by auto
  ultimately show ?thesis by (meson converse_rtranclp_into_rtranclp rtranclp_trans)
qed

text \<open>The same bet twice at the same time.\<close>

lemma demo_pool:
  "\<exists>w k ps w' hs r2. idle demo_env w \<and> wallets (tabs w) = [demo_wallet] \<and> (pool_step demo_env)\<^sup>*\<^sup>* ([], w, []) (ps, w', hs) \<and>
    length ps = 2 \<and> ps ! 0 = (Submission demo_bet, Finished (Inr (Submitted (demo_answer k)))) \<and>
    ps ! 1 = (Submission demo_bet, Finished (Inr (Submitted r2)))"
proof -
  obtain w k w1 where w: "idle demo_env w" "wallets (tabs w) = [demo_wallet]" "Submit demo_env demo_bet w = (Inr (demo_answer k), w1)"
    using demo_run by blast
  then obtain r2 w2 where r2: "Submit demo_env demo_bet w1 = (Inr r2, w2)"
    using repeated_is_answered [OF w(1) demo_env_props(1) w(3) _ rtranclp.rtrancl_refl] by auto
  let ?c = "Submission demo_bet"
  obtain hs where "(pool_step demo_env)\<^sup>*\<^sup>* ([], w, [])
      ([(?c, Finished (Inr (Submitted (demo_answer k)))), (?c, Finished (Inr (Submitted r2)))], w2, hs)"
    using pool_pair [of demo_env ?c w _ w1 ?c _ w2] w(3) r2 by (auto simp: run_map run_Submit)
  with w(1,2) show ?thesis by (intro exI [of _ w] exI [of _ k] exI [of _ "[_, _]"] exI conjI) simp_all
qed

lemma concurrent_Submit_atomic_witness:
  "\<exists>w ps w' hs T0 T T' T1 T2. (pool_step demo_env)\<^sup>*\<^sup>* ([], w, []) (ps, w', hs) \<and> own 0 hs = [(T0, T0), (T, T'), (T1, T2)] \<and>
     progress demo_env T1 T2"
proof -
  obtain w k ps w' hs r2 where p: "idle demo_env w" "(pool_step demo_env)\<^sup>*\<^sup>* ([], w, []) (ps, w', hs)" "length ps = 2"
      "ps ! 0 = (Submission demo_bet, Finished (Inr (Submitted (demo_answer k))))"
    using demo_pool by blast
  from concurrent_Submit_atomic [OF p(1,2) _ p(4)] p(3) obtain T0 T T' T1 T2
    where "own 0 hs = [(T0, T0), (T, T'), (T1, T2)]" "progress demo_env T1 T2" by auto
  with p(2) show ?thesis by blast
qed

lemma concurrent_Submit_once_witness:
  "\<exists>w ps w' hs r r'. (pool_step demo_env)\<^sup>*\<^sup>* ([], w, []) (ps, w', hs) \<and> ps ! 0 = (Submission demo_bet, Finished (Inr (Submitted r))) \<and>
     \<not> sr_replay r \<and> ps ! 1 = (Submission demo_bet, Finished (Inr (Submitted r'))) \<and> answers demo_env r r'"
proof -
  obtain w k ps w' hs r2 where p: "idle demo_env w" "(pool_step demo_env)\<^sup>*\<^sup>* ([], w, []) (ps, w', hs)" "length ps = 2"
      "ps ! 0 = (Submission demo_bet, Finished (Inr (Submitted (demo_answer k))))"
      "ps ! 1 = (Submission demo_bet, Finished (Inr (Submitted r2)))"
    using demo_pool by blast
  from concurrent_Submit_once [OF p(1,2) _ _ _ p(4) _ p(5)] p(3) have "answers demo_env (demo_answer k) r2" by simp
  with p show ?thesis by (intro exI conjI) auto
qed

end
