(* ===== verification/Deliveries.thy ===== *)
theory Deliveries
  imports Concurrency Sqs_Guarantees
begin

text \<open>
  Deliveries that are treated concurrently. The handlers of the consumer are goroutines whose transactions interleave
  with those of each other and of everything else; what was proved of one delivery that is treated alone holds of
  them as well.
\<close>

section \<open>The handler as a process\<close>

lemma follows_and_then:
  assumes "follows E (and_then p k) bs (Finished r)"
  shows "\<exists>bs1 bs2 x. bs = bs1 @ bs2 \<and> follows E p bs1 (Finished x) \<and> follows E (k x) bs2 (Finished r)"
  using assms
proof (induction p arbitrary: bs rule: proc_blocks)
  case (1 x)
  then have "bs = [] @ bs \<and> follows E (Finished x) [] (Finished x) \<and> follows E (k x) bs (Finished r)"
    by (simp add: follows.here)
  then show ?case by blast
next
  case (2 f)
  from 2(2) obtain w q w' cs where b: "idle E w" "map_prod (\<lambda>p. and_then p k) id (f w) = (q, w')" "bs = (tabs w, tabs w') # cs"
    "follows E q cs (Finished r)" by (auto elim: follows_BlockE)
  obtain p where p: "f w = (p, w')" "q = and_then p k" using b(2) by (cases "f w") auto
  have "follows E (and_then (fst (f w)) k) cs (Finished r)" using b(4) p by simp
  from 2(1) [OF this] obtain bs1 bs2 x where i: "cs = bs1 @ bs2" "follows E p bs1 (Finished x)" "follows E (k x) bs2 (Finished r)"
    using p(1) by auto
  have "follows E (Block f) ((tabs w, tabs w') # bs1) (Finished x)"
    by (rule follows.there [where f = f and w = w, OF b(1) p(1) i(2)])
  then show ?case using i b(3)
    by (intro exI [of _ "(tabs w, tabs w') # bs1"] exI [of _ bs2] exI [of _ x]) simp
qed

text \<open>The treatment of a message whose operation was submitted.\<close>

definition acknowledged :: "(command \<Rightarrow> bool) \<Rightarrow> message \<Rightarrow> submit_result \<Rightarrow> handled" where
  "acknowledged b msg r = \<lparr>n_commands = [(DeleteMessage (g_receipt msg), b (DeleteMessage (g_receipt msg)))],
     n_label = submitOutcome r, n_dlq_moves = [], n_deferred = False, n_error = None\<rparr>"

text \<open>The other ends of a treatment. The message was taken by the dead-letter queue, with its body and an id that does not
  change between deliveries, and then deleted; or the dead-letter queue refused it and it was deleted all the
  same, which loses it; or it was put back with an error and nothing was deleted.\<close>

definition dlq_then_delete :: "bool \<Rightarrow> message \<Rightarrow> handled \<Rightarrow> bool" where
  "dlq_then_delete taken msg h \<longleftrightarrow> (\<exists>g r d ok. n_commands h =
     [(SendDLQ (g_body msg) g (g_id msg @ ''-dlq'') r d, taken), (DeleteMessage (g_receipt msg), ok)])"

abbreviation dead_lettered :: "message \<Rightarrow> handled \<Rightarrow> bool" where "dead_lettered \<equiv> dlq_then_delete True"
abbreviation dropped :: "message \<Rightarrow> handled \<Rightarrow> bool" where "dropped \<equiv> dlq_then_delete False"

definition refuses_dlq :: "(command \<Rightarrow> bool) \<Rightarrow> bool" where
  "refuses_dlq b \<longleftrightarrow> (\<exists>c. is_SendDLQ c \<and> \<not> b c)"

definition nothing_stored :: "(command \<Rightarrow> bool) \<Rightarrow> message \<Rightarrow> handled \<Rightarrow> bool" where
  "nothing_stored b msg h \<longleftrightarrow> (dead_lettered msg h \<or> dropped msg h \<and> refuses_dlq b) \<and> n_label h \<in> {''invalid'', ''poison''} \<or>
     deferred msg h \<and> n_label h = ''retry''"

lemma discard_ends: "n_label h \<in> {''invalid'', ''poison''} \<Longrightarrow> n_commands h = n_commands (discard b msg g reason detail) \<Longrightarrow>
    nothing_stored b msg h"
  by (cases "b (toDLQ msg g reason detail)")
    (auto simp: nothing_stored_def dlq_then_delete_def refuses_dlq_def discard_def toDLQ_def Let_def
      intro: exI [of _ "toDLQ msg g reason detail"])

lemma treated_follows:
  assumes "follows E (treated E b msg grp res) bs (Finished (Inr h))"
  shows "(\<forall>B \<in> set bs. snd B = fst B) \<and> (case res of
     Inl _ \<Rightarrow> nothing_stored b msg h
   | Inr r \<Rightarrow> bs = [] \<and> h = acknowledged b msg r)"
proof (cases res)
  case (Inr r)
  then show ?thesis using assms by (auto simp: treated_def acknowledged_def Let_def dest: follows_finish)
next
  case (Inl e)
  show ?thesis
  proof (cases "\<exists>p s x. e = ErrPoison p s x")
    case True
    then obtain p s x where "e = ErrPoison p s x" by blast
    with Inl assms have "bs = []" "h = discard b msg grp ''poison'' (poison_text p)"
      by (auto simp: treated_def dest: follows_finish)
    moreover have "nothing_stored b msg h" by (rule discard_ends) (simp_all add: calculation(2), simp add: discard_def Let_def)
    ultimately show ?thesis using Inl by simp
  next
    case False
    with Inl assms have "follows E (step (deferVisibility E b msg e) finish) bs (Finished (Inr h))"
      by (cases e) (auto simp: treated_def elim: follows_FinishedE split: if_splits)
    then obtain w w' x cs where f: "deferVisibility E b msg e w = (x, w')" "bs = (tabs w, tabs w') # cs"
      "case x of Inl e \<Rightarrow> cs = [] \<and> Inr h = Inl e | Inr y \<Rightarrow> follows E (finish y) cs (Finished (Inr h))"
      by (rule follows_step) blast
    obtain g where g: "x = Inr g" "tabs w' = tabs w" "deferred msg g" using deferVisibility_run [of E b msg e w] f(1) by auto
    have "n_label g = ''retry''" using f(1) g(1) by (auto simp: deferVisibility_def bind_def int63n_def ret_def Let_def)
    have "cs = []" "h = g" using f(3) g(1) follows_finish by fastforce+
    with f(2) g Inl \<open>n_label g = ''retry''\<close> show ?thesis by (simp add: nothing_stored_def)
  qed
qed

lemma Handle_follows:
  assumes "follows E (Handle_proc E dec b msg) bs (Finished (Inr h))"
  shows "(\<forall>B \<in> set bs. snd B = fst B) \<and> nothing_stored b msg h \<or>
    (\<exists>v r. ParseEnvelope dec (g_body msg) = Inr v \<and> took_effect E (message_input msg v) r bs \<and>
       h = acknowledged b msg r)"
proof (cases "ParseEnvelope dec (g_body msg)")
  case (Inl err)
  with assms have "bs = []" "h = (discard b msg ''invalid'' ''malformed'' err)\<lparr>n_label := ''invalid''\<rparr>"
    by (auto simp: Handle_proc_def dest: follows_finish)
  then show ?thesis using discard_ends [of h b msg "''invalid''" "''malformed''" err] by simp
next
  case (Inr v)
  with assms have "follows E (and_then (Submit_proc E (message_input msg v)) (treated E b msg (d_wallet (v_data v)))) bs
    (Finished (Inr h))" by (simp add: Handle_proc_def)
  from follows_and_then [OF this] obtain bs1 bs2 x where f: "bs = bs1 @ bs2" "follows E (Submit_proc E (message_input msg v)) bs1 (Finished x)"
      "follows E (treated E b msg (d_wallet (v_data v)) x) bs2 (Finished (Inr h))"
    by blast
  note t = treated_follows [OF f(3)]
  show ?thesis
  proof (cases x)
    case x: (Inl e)
    have "\<forall>B \<in> set bs1. snd B = fst B" using Submit_follows [OF f(2)] x by simp
    moreover have "nothing_stored b msg h" using t x by simp
    ultimately show ?thesis using t f(1) by auto
  next
    case x: (Inr r)
    have "took_effect E (message_input msg v) r bs1" using Submit_follows [OF f(2)] x by simp
    moreover have "bs = bs1" using t x f(1) by simp
    ultimately show ?thesis using t x Inr by (intro disjI2 exI [of _ v] exI [of _ r]) simp
  qed
qed

lemma pool_delivery:
  assumes "pool_ok E w0 (ps, w, hs)" "k < length ps" "ps ! k = (Delivery dec b msg, Finished (Inr (Handled h)))"
  shows "follows E (Handle_proc E dec b msg) (own k hs) (Finished (Inr h))"
proof -
  have "follows E (map_proc Handled (Handle_proc E dec b msg)) (own k hs) (Finished (Inr (Handled h)))"
    using assms by (auto simp: pool_ok_def dest!: spec [of _ k])
  from follows_map [OF this] obtain q where q: "Finished (Inr (Handled h)) = map_proc Handled q"
    "follows E (Handle_proc E dec b msg) (own k hs) q" by blast
  then obtain r where "q = Finished r" "map_sum id Handled r = Inr (Handled h)" by (cases q) auto
  then have "q = Finished (Inr h)" by (cases r) auto
  then show ?thesis using q(2) by simp
qed

section \<open>The guarantees\<close>

text \<open>Concurrent deliveries are deleted after their outcome is stored. However the transactions of a handler are
  interleaved, when it has returned its message was sent to the dead-letter queue and deleted, or put back, and none
  of its transactions changed a table; or the message was deleted after one of its transactions accepted the
  operation in it, or found it accepted before, and the label is that of this result.\<close>

lemma concurrent_delivery:
  assumes "idle E w" "(pool_step E)\<^sup>*\<^sup>* ([], w, []) (ps, w', hs)"
    and "k < length ps" "ps ! k = (Delivery dec b msg, Finished (Inr (Handled h)))"
  shows "(\<forall>B \<in> set (own k hs). snd B = fst B) \<and> nothing_stored b msg h \<or>
    (\<exists>v r a g T T'. ParseEnvelope dec (g_body msg) = Inr v \<and> h = acknowledged b msg r \<and> (T, T') \<in> set (own k hs) \<and>
       good E T \<and> submitted E (message_input msg v) a g T r T')"
proof -
  have "follows E (Handle_proc E dec b msg) (own k hs) (Finished (Inr h))"
    by (rule pool_delivery [OF pool_run [OF assms(1,2)] assms(3,4)])
  from Handle_follows [OF this] show ?thesis
  proof (elim disjE exE conjE)
    fix v r assume v: "ParseEnvelope dec (g_body msg) = Inr v" "took_effect E (message_input msg v) r (own k hs)" "h = acknowledged b msg r"
    from took_effect_block [OF v(2)] obtain a g T T'
      where "(T, T') \<in> set (own k hs)" "good E T" "submitted E (message_input msg v) a g T r T'" by (elim exE conjE)
    with v show ?thesis by blast
  qed simp
qed

lemma effect_label_new:
  assumes "took_effect E i r bs" "submitOutcome r \<in> {''processed'', ''rejected''}"
  shows "\<not> sr_replay r"
proof -
  obtain a h T T' where s: "submitted E i a h T r T'" using took_effect_block [OF assms(1)] by blast
  show ?thesis
  proof
    assume "sr_replay r"
    from replay_found [OF s this] obtain x where "r = replayResult x" by blast
    with assms(2) show False by (auto simp: replayResult_def submitOutcome_def Let_def split: tx_state.splits)
  qed
qed

text \<open>C8. A message that is delivered more than once, or sent more than once, moves money once: of any number of
  deliveries of the same body that are treated concurrently, at most one is counted as processed or rejected.\<close>

theorem concurrent_deliveries_once:
  assumes "idle E w" "(pool_step E)\<^sup>*\<^sup>* ([], w, []) (ps, w', hs)" "j \<noteq> k" "j < length ps" "k < length ps"
    and "ps ! k = (Delivery dec b msg, Finished (Inr (Handled h)))" "n_label h \<in> {''processed'', ''rejected''}"
    and "ps ! j = (Delivery dec b' msg', Finished (Inr (Handled h')))" "g_body msg' = g_body msg"
  shows "n_label h' \<notin> {''processed'', ''rejected''}"
proof
  assume l: "n_label h' \<in> {''processed'', ''rejected''}"
  have ok: "pool_ok E w (ps, w', hs)" by (rule pool_run [OF assms(1,2)])
  have settled: "\<exists>v r. ParseEnvelope dec (g_body m) = Inr v \<and> took_effect E (message_input m v) r (own n hs) \<and> \<not> sr_replay r"
    if d: "n < length ps" "ps ! n = (Delivery dec c m, Finished (Inr (Handled g)))" "n_label g \<in> {''processed'', ''rejected''}" for n c m g
  proof -
    have "\<not> nothing_stored c m g" using d(3) by (auto simp: nothing_stored_def)
    with Handle_follows [OF pool_delivery [OF ok d(1,2)]] obtain v r
      where v: "ParseEnvelope dec (g_body m) = Inr v" "took_effect E (message_input m v) r (own n hs)" "g = acknowledged c m r"
      by blast
    with effect_label_new [OF v(2)] d(3) show ?thesis by (auto simp: acknowledged_def)
  qed
  obtain v r where k: "ParseEnvelope dec (g_body msg) = Inr v" "took_effect E (message_input msg v) r (own k hs)" "\<not> sr_replay r"
    using settled [OF assms(5,6,7)] by blast
  obtain v' r' where j: "ParseEnvelope dec (g_body msg') = Inr v'" "took_effect E (message_input msg' v') r' (own j hs)" "\<not> sr_replay r'"
    using settled [OF assms(4,8) l] by blast
  have "v' = v" using k(1) j(1) assms(9) by simp
  with effects_once [OF ok assms(3) k(2,3) j(2)] j(3) show False by simp
qed

section \<open>A message that is delivered twice\<close>

lemma demo_deliveries:
  "\<exists>w ps w' hs h h2. idle demo_env w \<and> (pool_step demo_env)\<^sup>*\<^sup>* ([], w, []) (ps, w', hs) \<and> length ps = 2 \<and>
    ps ! 0 = (Delivery demo_decoder (\<lambda>_. True) demo_message, Finished (Inr (Handled h))) \<and> n_label h = ''processed'' \<and>
    ps ! 1 = (Delivery demo_decoder (\<lambda>_. True) demo_message, Finished (Inr (Handled h2)))"
proof -
  let ?c = "Delivery demo_decoder (\<lambda>_. True) demo_message"
  obtain w h w1 where w: "idle demo_env w" "Handle demo_env demo_decoder (\<lambda>_. True) demo_message w = (Inr h, w1)"
    "n_label h = ''processed''" by (rule demo_handled [of "\<lambda>_. True"]) simp
  have i1: "idle demo_env w1" using Handle_cases [OF w(1,2)] by blast
  obtain h2 w2 where h2: "Handle demo_env demo_decoder (\<lambda>_. True) demo_message w1 = (Inr h2, w2)"
    using Handle_replies [OF w(2,3,1) i1 demo_env_props(1)] by (auto simp: demo_message_def)
  obtain hs where "(pool_step demo_env)\<^sup>*\<^sup>* ([], w, [])
      ([(?c, Finished (Inr (Handled h))), (?c, Finished (Inr (Handled h2)))], w2, hs)"
    using pool_pair [of demo_env ?c w _ w1 ?c _ w2] w(2) h2 by (auto simp: run_map run_Handle)
  with w show ?thesis by (intro exI [of _ w] exI [of _ "[_, _]"] exI conjI) simp_all
qed

lemma concurrent_deliveries_once_witness:
  "\<exists>w ps w' hs h h2. (pool_step demo_env)\<^sup>*\<^sup>* ([], w, []) (ps, w', hs) \<and> n_label h = ''processed'' \<and>
    ps ! 0 = (Delivery demo_decoder (\<lambda>_. True) demo_message, Finished (Inr (Handled h))) \<and>
    ps ! 1 = (Delivery demo_decoder (\<lambda>_. True) demo_message, Finished (Inr (Handled h2))) \<and>
    n_label h2 \<notin> {''processed'', ''rejected''}"
proof -
  obtain w ps w' hs h h2 where p: "idle demo_env w" "(pool_step demo_env)\<^sup>*\<^sup>* ([], w, []) (ps, w', hs)" "length ps = 2"
    "ps ! 0 = (Delivery demo_decoder (\<lambda>_. True) demo_message, Finished (Inr (Handled h)))" "n_label h = ''processed''"
    "ps ! 1 = (Delivery demo_decoder (\<lambda>_. True) demo_message, Finished (Inr (Handled h2)))"
    using demo_deliveries by blast
  have "n_label h2 \<notin> {''processed'', ''rejected''}"
    by (rule concurrent_deliveries_once [OF p(1,2) _ _ _ p(4) _ p(6) refl]) (simp_all add: p(3,5))
  with p show ?thesis by blast
qed

end
