(* ===== verification/Consumer_Loop.thy ===== *)
theory Consumer_Loop
  imports Deliveries "HOL-Library.Multiset"
begin

text \<open>
  The poll loop of the consumer, \<^verbatim>\<open>Consumer.Run\<close> of \<^verbatim>\<open>internal/adapters/sqs/consumer.go\<close>, with its concurrent handlers:
  a goroutine per delivery behind a semaphore, the cancellation by \<^verbatim>\<open>SIGTERM\<close> at any point, and the drain that waits for
  the handlers in flight up to a grace period. The handlers are processes of a pool, next to those of all other
  processes of the system.
\<close>

section \<open>The loop\<close>

definition batchSize :: nat where "batchSize = 10"
definition maxHandlers :: nat where "maxHandlers = 10"

datatype phase = Polling | Draining | Stopped bool | Crashed

text \<open>The messages of the last poll that are not dispatched yet; the one whose goroutine waits for the semaphore; the
  handlers started, each with the index of its process; the messages left in the queue by a cancellation, and
  all that were received.\<close>

record poller =
  batch :: "message list"
  claimed :: "message option"
  handlers :: "(message \<times> nat) list"
  left_over :: "message list"
  received :: "message list"
  stopping :: bool
  phase :: phase

definition started :: poller where
  "started = \<lparr>batch = [], claimed = None, handlers = [], left_over = [], received = [], stopping = False, phase = Polling\<rparr>"

fun unfinished :: "'a proc \<Rightarrow> bool" where
  "unfinished (Finished r) = False"
| "unfinished (Block f) = True"

definition in_flight :: "poller \<Rightarrow> (call \<times> answer proc) list \<Rightarrow> (message \<times> nat) list" where
  "in_flight L ps = filter (\<lambda>h. unfinished (snd (ps ! snd h))) (handlers L)"

text \<open>The cancellation is looked at before a poll and before each dispatch, but not while a dispatch waits for the
  semaphore. A failed poll changes nothing. A panic of a handler ends the process.\<close>

inductive loop_step :: "env \<Rightarrow> decoder \<Rightarrow> poller \<times> pool \<Rightarrow> poller \<times> pool \<Rightarrow> bool" for E dec where
  scheduled: "pool_step E s s' \<Longrightarrow> loop_step E dec (L, s) (L, s')"
| cancelled: "loop_step E dec (L, s) (L\<lparr>stopping := True\<rparr>, s)"
| receives: "phase L = Polling \<Longrightarrow> \<not> stopping L \<Longrightarrow> batch L = [] \<Longrightarrow> claimed L = None \<Longrightarrow> length ms \<le> batchSize \<Longrightarrow>
    loop_step E dec (L, s) (L\<lparr>batch := ms, received := received L @ ms\<rparr>, s)"
| claims: "phase L = Polling \<Longrightarrow> \<not> stopping L \<Longrightarrow> batch L = m # ms \<Longrightarrow> claimed L = None \<Longrightarrow>
    loop_step E dec (L, s) (L\<lparr>batch := ms, claimed := Some m\<rparr>, s)"
| starts: "phase L = Polling \<Longrightarrow> claimed L = Some m \<Longrightarrow> length (in_flight L ps) < maxHandlers \<Longrightarrow>
    loop_step E dec (L, ps, w, hs) (L\<lparr>claimed := None, handlers := handlers L @ [(m, length ps)]\<rparr>,
      ps @ [(Delivery dec b m, call_proc E (Delivery dec b m))], w, hs)"
| leaves: "phase L = Polling \<Longrightarrow> stopping L \<Longrightarrow> claimed L = None \<Longrightarrow>
    loop_step E dec (L, s) (L\<lparr>phase := Draining, left_over := batch L, batch := []\<rparr>, s)"
| drained: "phase L = Draining \<Longrightarrow> in_flight L ps = [] \<Longrightarrow> loop_step E dec (L, ps, w, hs) (L\<lparr>phase := Stopped True\<rparr>, ps, w, hs)"
| times_out: "phase L = Draining \<Longrightarrow> loop_step E dec (L, s) (L\<lparr>phase := Stopped False\<rparr>, s)"
| crashes: "h \<in> set (handlers L) \<Longrightarrow> snd (ps ! snd h) = Finished (Inl e) \<Longrightarrow>
    loop_step E dec (L, ps, w, hs) (L\<lparr>phase := Crashed\<rparr>, ps, w, hs)"

section \<open>What the loop keeps\<close>

text \<open>Every message received is in one place, and every handler has a process of its own.\<close>

definition loop_inv :: "decoder \<Rightarrow> poller \<Rightarrow> (call \<times> answer proc) list \<Rightarrow> bool" where
  "loop_inv dec L ps \<longleftrightarrow>
     mset (received L) = mset (left_over L) + mset (batch L) + mset (map fst (handlers L)) +
       (case claimed L of None \<Rightarrow> {#} | Some m \<Rightarrow> {#m#}) \<and>
     (phase L = Polling \<longrightarrow> left_over L = []) \<and>
     distinct (map snd (handlers L)) \<and>
     (\<forall>h \<in> set (handlers L). snd h < length ps \<and> (\<exists>b. fst (ps ! snd h) = Delivery dec b (fst h))) \<and>
     length (batch L) \<le> batchSize \<and> length (in_flight L ps) \<le> maxHandlers \<and>
     (phase L = Stopped True \<longrightarrow> in_flight L ps = [])"

text \<open>Other processes neither restart a handler nor change whose it is.\<close>

lemma pool_step_handlers:
  assumes "pool_step E (ps, w, hs) (ps', w', hs')" "k < length ps"
  shows "k < length ps' \<and> fst (ps' ! k) = fst (ps ! k) \<and> (unfinished (snd (ps' ! k)) \<longrightarrow> unfinished (snd (ps ! k)))"
  using assms by cases (auto simp: nth_append nth_list_update)

lemma in_flight_fewer:
  assumes "\<And>h. h \<in> set (handlers L) \<Longrightarrow> unfinished (snd (ps' ! snd h)) \<Longrightarrow> unfinished (snd (ps ! snd h))"
  shows "length (in_flight L ps') \<le> length (in_flight L ps)" "in_flight L ps = [] \<Longrightarrow> in_flight L ps' = []"
proof -
  have "in_flight L ps' = filter (\<lambda>h. unfinished (snd (ps' ! snd h))) (in_flight L ps)"
    unfolding in_flight_def filter_filter using assms by (intro filter_cong) auto
  then show "length (in_flight L ps') \<le> length (in_flight L ps)" "in_flight L ps = [] \<Longrightarrow> in_flight L ps' = []" by simp_all
qed

lemma loop_inv_step:
  assumes "loop_step E dec (L, ps, w, hs) (L', ps', w', hs')" "loop_inv dec L ps"
  shows "loop_inv dec L' ps'"
  using assms(1)
proof cases
  case scheduled
  note h = pool_step_handlers [OF scheduled(2)]
  have k: "snd h < length ps" if "h \<in> set (handlers L)" for h using assms(2) that by (auto simp: loop_inv_def)
  have "unfinished (snd (ps ! snd x))" if "x \<in> set (handlers L)" "unfinished (snd (ps' ! snd x))" for x
    using h [OF k [OF that(1)]] that(2) by blast
  note fewer = in_flight_fewer [of L ps' ps, OF this]
  moreover have "\<forall>h \<in> set (handlers L). snd h < length ps' \<and> (\<exists>b. fst (ps' ! snd h) = Delivery dec b (fst h))"
  proof
    fix x assume x: "x \<in> set (handlers L)"
    then obtain b where "fst (ps ! snd x) = Delivery dec b (fst x)" using assms(2) unfolding loop_inv_def by blast
    then show "snd x < length ps' \<and> (\<exists>b. fst (ps' ! snd x) = Delivery dec b (fst x))" using h [OF k [OF x]] by auto
  qed
  ultimately show ?thesis using assms(2) unfolding scheduled(1) loop_inv_def by (auto intro: order_trans)
next
  case (starts m b)
  have k: "snd h < length ps" if "h \<in> set (handlers L)" for h using assms(2) that by (auto simp: loop_inv_def)
  have "in_flight (L\<lparr>claimed := None, handlers := handlers L @ [(m, length ps)]\<rparr>) ps' =
      in_flight L ps @ filter (\<lambda>h. unfinished (snd (ps' ! snd h))) [(m, length ps)]"
    using k unfolding in_flight_def starts by (auto simp: nth_append intro!: filter_cong)
  then have "length (in_flight (L\<lparr>claimed := None, handlers := handlers L @ [(m, length ps)]\<rparr>) ps') \<le> maxHandlers"
    using starts(7) by (simp split: if_splits)
  moreover have "length ps \<notin> snd ` set (handlers L)" using k by fastforce
  moreover have "\<forall>x \<in> set (handlers L). snd x < Suc (length ps)" using k less_SucI by blast
  moreover have "\<forall>x \<in> set (handlers L). \<exists>b. fst (ps' ! snd x) = Delivery dec b (fst x)"
    using assms(2) k unfolding starts(2) loop_inv_def by (simp add: nth_append)
  ultimately show ?thesis using assms(2) starts(5,6) unfolding starts(1,2) by (simp add: loop_inv_def)
qed (use assms(2) in \<open>auto simp: loop_inv_def in_flight_def batchSize_def\<close>)

text \<open>The pool below the loop is one of the concurrent calls.\<close>

lemma loop_pool_step: "loop_step E dec x y \<Longrightarrow> (pool_step E)\<^sup>*\<^sup>* (snd x) (snd y)"
proof (induction rule: loop_step.induct)
  case (starts L m ps w hs b)
  show ?case using pool_step.arrives [of E ps w hs "Delivery dec b m"] by simp
qed simp_all

lemma loop_pool: "(loop_step E dec)\<^sup>*\<^sup>* x y \<Longrightarrow> (pool_step E)\<^sup>*\<^sup>* (snd x) (snd y)"
  by (induction rule: rtranclp_induct) (simp, meson loop_pool_step rtranclp_trans)

lemma loop_run:
  assumes "(loop_step E dec)\<^sup>*\<^sup>* (started, [], w, []) (L, ps, w', hs)"
  shows "(pool_step E)\<^sup>*\<^sup>* ([], w, []) (ps, w', hs)" "loop_inv dec L ps"
proof -
  show "(pool_step E)\<^sup>*\<^sup>* ([], w, []) (ps, w', hs)" using loop_pool [OF assms] by simp
  have "(\<lambda>(L, ps, w, hs). loop_inv dec L ps) (L, ps, w', hs)"
    using assms
  proof (induction rule: rtranclp_induct)
    case base
    show ?case by (simp add: loop_inv_def started_def in_flight_def batchSize_def maxHandlers_def)
  next
    case (step y z)
    then show ?case using loop_inv_step by (cases y; cases z) auto
  qed
  then show "loop_inv dec L ps" by simp
qed

section \<open>The handlers come to an end\<close>

lemma pool_steps_finished:
  assumes "(pool_step E)\<^sup>*\<^sup>* s s'" "k < length (fst s)" "\<not> unfinished (snd (fst s ! k))"
  shows "k < length (fst s') \<and> \<not> unfinished (snd (fst s' ! k))"
  using assms(1)
proof (induction rule: rtranclp_induct)
  case (step y z)
  then show ?case using pool_step_handlers by (cases y; cases z) (metis fst_conv)
qed (simp add: assms(2,3))

lemma pool_finishes:
  "\<forall>k \<in> set ks. k < length (fst s) \<Longrightarrow> \<exists>s'. (pool_step E)\<^sup>*\<^sup>* s s' \<and> (\<forall>k \<in> set ks. \<not> unfinished (snd (fst s' ! k)))"
proof (induction ks arbitrary: s)
  case Nil
  show ?case by (intro exI [of _ s]) simp
next
  case (Cons k ks)
  obtain ps w hs where s: "s = (ps, w, hs)" by (cases s)
  obtain c p where c: "ps ! k = (c, p)" by fastforce
  have k: "k < length ps" using Cons.prems s by simp
  obtain hs' where "(pool_step E)\<^sup>*\<^sup>* s (ps[k := (c, Finished (fst (run p w)))], snd (run p w), hs @ hs')"
    using pool_alone [OF k c, of E w hs] s by blast
  then obtain t where 1: "(pool_step E)\<^sup>*\<^sup>* s t" "fst t = ps[k := (c, Finished (fst (run p w)))]" by (metis fst_conv)
  obtain s' where 2: "(pool_step E)\<^sup>*\<^sup>* t s'" "\<forall>k \<in> set ks. \<not> unfinished (snd (fst s' ! k))"
    using Cons.IH [of t] Cons.prems s 1(2) by auto
  have "\<not> unfinished (snd (fst s' ! k))" using pool_steps_finished [OF 2(1), of k] k 1(2) by simp
  then show ?case using 1(1) 2 by (intro exI [of _ s']) (auto intro: rtranclp_trans)
qed

lemma loop_scheduled: "(pool_step E)\<^sup>*\<^sup>* s s' \<Longrightarrow> (loop_step E dec)\<^sup>*\<^sup>* (L, s) (L, s')"
  by (induction rule: rtranclp_induct) (auto intro: rtranclp.rtrancl_into_rtrancl loop_step.scheduled)

lemma loop_waits:
  assumes "loop_inv dec L (fst s)"
  shows "\<exists>s'. (loop_step E dec)\<^sup>*\<^sup>* (L, s) (L, s') \<and> in_flight L (fst s') = []"
proof -
  have "\<forall>k \<in> set (map snd (handlers L)). k < length (fst s)" using assms by (auto simp: loop_inv_def)
  from pool_finishes [OF this, of E] obtain s' where s': "(pool_step E)\<^sup>*\<^sup>* s s'"
    "\<forall>k \<in> set (map snd (handlers L)). \<not> unfinished (snd (fst s' ! k))" by blast
  then have "in_flight L (fst s') = []" by (simp add: in_flight_def filter_empty_conv)
  with loop_scheduled [OF s'(1)] show ?thesis by blast
qed

section \<open>The loop comes to an end\<close>

text \<open>How many steps of its own a cancelled loop has left.\<close>

definition steps_left :: "poller \<Rightarrow> nat" where
  "steps_left L = (case phase L of
     Polling \<Rightarrow> (if claimed L = None then 2 else 3) | Draining \<Rightarrow> 1 | _ \<Rightarrow> 0)"

text \<open>What a cancelled loop does not change any more.\<close>

definition winds_up :: "poller \<Rightarrow> poller \<Rightarrow> bool" where
  "winds_up L M \<longleftrightarrow> stopping M \<and> received M = received L \<and> left_over M @ batch M = left_over L @ batch L \<and>
     (claimed M = claimed L \<and> map fst (handlers M) = map fst (handlers L) \<or>
      claimed M = None \<and> (\<exists>m. claimed L = Some m \<and> map fst (handlers M) = map fst (handlers L) @ [m]))"

lemma winds_up_step:
  assumes "loop_step E dec (L, ps, w, hs) (M, s')" "stopping L" "loop_inv dec L ps"
  shows "winds_up L M \<and> (M = L \<or> steps_left M < steps_left L \<or> phase M = Crashed)"
  using assms(1)
  by cases (use assms(2,3) in \<open>auto simp: winds_up_def steps_left_def loop_inv_def split: option.split phase.split\<close>)

lemma winds_up_run:
  assumes "(loop_step E dec)\<^sup>*\<^sup>* (started, [], w, []) (L, s)" "stopping L" "(loop_step E dec)\<^sup>*\<^sup>* (L, s) y"
  shows "winds_up L (fst y)"
  using assms(3)
proof (induction rule: rtranclp_induct)
  case base
  show ?case using assms(2) by (simp add: winds_up_def)
next
  case (step y z)
  obtain K ps w1 hs where y: "y = (K, ps, w1, hs)" by (cases y)
  have "loop_inv dec K ps" using loop_run(2) rtranclp_trans [OF assms(1) step(1)] unfolding y by blast
  moreover have "stopping K" using step(3) by (simp add: y winds_up_def)
  ultimately have "winds_up K (fst z)" using winds_up_step [of E dec K ps w1 hs "fst z" "snd z"] step(2) unfolding y by simp
  with step(3) show ?case unfolding y winds_up_def by auto
qed

text \<open>With no handler in flight the next step is there.\<close>

lemma next_step:
  assumes "loop_inv dec L ps" "stopping L" "phase L \<in> {Polling, Draining}" "in_flight L ps = []"
  shows "\<exists>M s'. loop_step E dec (L, ps, w, hs) (M, s') \<and> steps_left M < steps_left L \<and> phase M \<noteq> Stopped False"
proof (cases "phase L = Draining")
  case True
  from loop_step.drained [OF this assms(4), of E dec w hs] show ?thesis using True
    by (intro exI [of _ "L\<lparr>phase := Stopped True\<rparr>"] exI [of _ "(ps, w, hs)"]) (simp add: steps_left_def)
next
  case False
  then have p: "phase L = Polling" using assms(3) by simp
  show ?thesis
  proof (cases "claimed L")
    case None
    from loop_step.leaves [OF p assms(2) None, of E dec "(ps, w, hs)"] show ?thesis using p None
      by (intro exI [of _ "L\<lparr>phase := Draining, left_over := batch L, batch := []\<rparr>"] exI [of _ "(ps, w, hs)"]) (simp add: steps_left_def)
  next
    case (Some m)
    have "length (in_flight L ps) < maxHandlers" by (simp add: assms(4) maxHandlers_def)
    from loop_step.starts [OF p Some this, of E dec w hs "\<lambda>_. True"]
    have "loop_step E dec (L, ps, w, hs) (L\<lparr>claimed := None, handlers := handlers L @ [(m, length ps)]\<rparr>,
        ps @ [(Delivery dec (\<lambda>_. True) m, call_proc E (Delivery dec (\<lambda>_. True) m))], w, hs)" .
    moreover have "steps_left (L\<lparr>claimed := None, handlers := handlers L @ [(m, length ps)]\<rparr>) < steps_left L"
      "phase (L\<lparr>claimed := None, handlers := handlers L @ [(m, length ps)]\<rparr>) \<noteq> Stopped False"
      using p Some by (simp_all add: steps_left_def)
    ultimately show ?thesis by blast
  qed
qed

lemma loop_stopping:
  assumes "(loop_step E dec)\<^sup>*\<^sup>* (started, [], w, []) (L, s)" "stopping L" "(loop_step E dec)\<^sup>*\<^sup>* (L, s) (L', ps', w', hs')"
  shows "received L' = received L \<and> left_over L' @ batch L' = left_over L @ batch L \<and>
    (\<exists>new. map fst (handlers L') = map fst (handlers L) @ new \<and> (new = [] \<or> claimed L = Some (hd new) \<and> length new = 1)) \<and>
    (\<forall>M s'. loop_step E dec (L', ps', w', hs') (M, s') \<and> M \<noteq> L' \<longrightarrow> steps_left M < steps_left L' \<or> phase M = Crashed) \<and>
    steps_left L \<le> 3 \<and>
    (phase L' \<in> {Polling, Draining} \<and> in_flight L' ps' = [] \<longrightarrow>
       (\<exists>M s'. loop_step E dec (L', ps', w', hs') (M, s') \<and> steps_left M < steps_left L' \<and> phase M \<noteq> Stopped False)) \<and>
    (\<exists>s'. (loop_step E dec)\<^sup>*\<^sup>* (L', ps', w', hs') (L', s') \<and> in_flight L' (fst s') = []) \<and>
    (phase L' = Stopped True \<longrightarrow> (\<forall>h \<in> set (handlers L'). \<exists>res. snd (ps' ! snd h) = Finished res))"
proof -
  have inv: "loop_inv dec L' ps'" using loop_run(2) rtranclp_trans [OF assms(1,3)] by blast
  have u: "winds_up L L'" using winds_up_run [OF assms] by simp
  then have st: "stopping L'" by (simp add: winds_up_def)
  have ended: "\<exists>res. snd (ps' ! snd h) = Finished res" if "phase L' = Stopped True" "h \<in> set (handlers L')" for h
  proof -
    have "\<not> unfinished (snd (ps' ! snd h))" using that inv by (fastforce simp: loop_inv_def in_flight_def filter_empty_conv)
    then show ?thesis by (cases "snd (ps' ! snd h)") auto
  qed
  have new: "\<exists>new. map fst (handlers L') = map fst (handlers L) @ new \<and> (new = [] \<or> claimed L = Some (hd new) \<and> length new = 1)"
    using u unfolding winds_up_def by (elim conjE disjE exE) (rule exI [of _ "[]"], simp, rule exI [of _ "[_]"], simp)
  have "steps_left L \<le> 3" by (simp add: steps_left_def split: phase.split)
  moreover have "received L' = received L" "left_over L' @ batch L' = left_over L @ batch L" using u by (simp_all add: winds_up_def)
  moreover have "\<exists>s'. (loop_step E dec)\<^sup>*\<^sup>* (L', ps', w', hs') (L', s') \<and> in_flight L' (fst s') = []"
    using loop_waits [of dec L' "(ps', w', hs')" E] inv by simp
  ultimately show ?thesis using winds_up_step [OF _ st inv] next_step [OF inv st] ended new by blast
qed

section \<open>The guarantees\<close>

text \<open>C7. The poll loop. Whatever is received, however the handlers are interleaved with each other and with the rest
  of the system, and whenever the process is told to stop: at most ten handlers are in flight; every message received
  is given to exactly one handler or left in the queue; and a handler that has returned has done one of
  four things with its message. It deleted it and nothing else, after one of its transactions accepted the operation
  in it or found it accepted before; it had it taken by the dead-letter queue, unchanged, and then deleted it; it put it
  back with an error and deleted nothing; or, only if the broker refused a send to the dead-letter queue, it deleted it
  although it is in no queue and no outcome is stored. In the last three cases it changed no table.\<close>

theorem consumer_loop_safe:
  assumes "idle E w" "(loop_step E dec)\<^sup>*\<^sup>* (started, [], w, []) (L, ps, w', hs)"
  shows "length (in_flight L ps) \<le> 10 \<and> distinct (map snd (handlers L)) \<and>
    mset (received L) = mset (left_over L) + mset (batch L) + mset (map fst (handlers L)) +
      (case claimed L of None \<Rightarrow> {#} | Some m \<Rightarrow> {#m#}) \<and>
    (\<forall>(m, k) \<in> set (handlers L). \<forall>h. snd (ps ! k) = Finished (Inr (Handled h)) \<longrightarrow>
      (\<exists>b. fst (ps ! k) = Delivery dec b m \<and> (
        (\<exists>v r a g T T'. ParseEnvelope dec (g_body m) = Inr v \<and> submitted E (message_input m v) a g T r T' \<and>
           (T, T') \<in> set (own k hs) \<and> map fst (n_commands h) = [DeleteMessage (g_receipt m)] \<and> n_label h = submitOutcome r) \<or>
        (\<forall>B \<in> set (own k hs). snd B = fst B) \<and>
          (dead_lettered m h \<or> deferred m h \<or> dropped m h \<and> refuses_dlq b))))"
proof -
  have pool: "(pool_step E)\<^sup>*\<^sup>* ([], w, []) (ps, w', hs)" and inv: "loop_inv dec L ps" using loop_run [OF assms(2)] by blast+
  have treated: "\<exists>b. fst (ps ! k) = Delivery dec b m \<and> (
        (\<exists>v r a g T T'. ParseEnvelope dec (g_body m) = Inr v \<and> submitted E (message_input m v) a g T r T' \<and>
           (T, T') \<in> set (own k hs) \<and> map fst (n_commands h) = [DeleteMessage (g_receipt m)] \<and> n_label h = submitOutcome r) \<or>
        (\<forall>B \<in> set (own k hs). snd B = fst B) \<and> (dead_lettered m h \<or> deferred m h \<or> dropped m h \<and> refuses_dlq b))"
    if h: "(m, k) \<in> set (handlers L)" "snd (ps ! k) = Finished (Inr (Handled h))" for m k h
  proof -
    obtain b where "k < length ps" "fst (ps ! k) = Delivery dec b m" using inv h(1) by (fastforce simp: loop_inv_def)
    then have k: "k < length ps" "ps ! k = (Delivery dec b m, Finished (Inr (Handled h)))" using h(2) by (simp_all add: prod_eq_iff)
    from concurrent_delivery [OF assms(1) pool k] show ?thesis
    proof (elim disjE exE conjE)
      assume "\<forall>B \<in> set (own k hs). snd B = fst B" "nothing_stored b m h"
      with k(2) show ?thesis by (intro exI [of _ b]) (auto simp: nothing_stored_def)
    next
      fix v r a g T T'
      assume a: "ParseEnvelope dec (g_body m) = Inr v" "h = acknowledged b m r" "(T, T') \<in> set (own k hs)"
        "submitted E (message_input m v) a g T r T'"
      have "map fst (n_commands h) = [DeleteMessage (g_receipt m)]" "n_label h = submitOutcome r" using a(2) by (simp_all add: acknowledged_def)
      moreover have "fst (ps ! k) = Delivery dec b m" using k(2) by simp
      ultimately show ?thesis using a(1,3,4)
        by (intro exI [of _ b] conjI disjI1 exI [of _ v] exI [of _ r] exI [of _ a] exI [of _ g] exI [of _ T] exI [of _ T'])
    qed
  qed
  from inv have "length (in_flight L ps) \<le> 10" by (simp add: loop_inv_def maxHandlers_def)
  with inv treated show ?thesis unfolding loop_inv_def by blast
qed

text \<open>C23. Stopping. From the moment that \<^verbatim>\<open>Run\<close> is cancelled, in every schedule: it receives nothing more; it starts no
  handler except for the one message that was already waiting for the semaphore; what it had not dispatched is left
  in the queue; it makes at most three more steps of its own, its handlers can always be run to their end, and when they
  have ended it can make the next step until it has returned; and if it returns without a warning, every handler that
  it ever started has ended. (This is about \<^verbatim>\<open>Run\<close>; the process that runs it does not wait for it to return.)\<close>

theorem consumer_stops:
  assumes "(loop_step E dec)\<^sup>*\<^sup>* (started, [], w, []) (L, s)" "stopping L" "(loop_step E dec)\<^sup>*\<^sup>* (L, s) (L', ps', w', hs')"
  shows "received L' = received L \<and> left_over L' @ batch L' = left_over L @ batch L \<and>
    (\<exists>new. map fst (handlers L') = map fst (handlers L) @ new \<and> (new = [] \<or> claimed L = Some (hd new) \<and> length new = 1)) \<and>
    (\<forall>M s'. loop_step E dec (L', ps', w', hs') (M, s') \<and> M \<noteq> L' \<longrightarrow> steps_left M < steps_left L' \<or> phase M = Crashed) \<and>
    steps_left L \<le> 3 \<and>
    (phase L' \<in> {Polling, Draining} \<and> in_flight L' ps' = [] \<longrightarrow>
       (\<exists>M s'. loop_step E dec (L', ps', w', hs') (M, s') \<and> steps_left M < steps_left L' \<and> phase M \<noteq> Stopped False)) \<and>
    (\<exists>s'. (loop_step E dec)\<^sup>*\<^sup>* (L', ps', w', hs') (L', s') \<and> in_flight L' (fst s') = []) \<and>
    (phase L' = Stopped True \<longrightarrow> (\<forall>h \<in> set (handlers L'). \<exists>res. snd (ps' ! snd h) = Finished res))"
  by (rule loop_stopping [OF assms])

section \<open>A run of the loop\<close>

text \<open>One message is received and waits for the semaphore when the process is told to stop; its handler runs to its end,
  and the loop ends cleanly.\<close>

definition one_claimed :: poller where
  "one_claimed = started\<lparr>claimed := Some demo_message, received := [demo_message], stopping := True\<rparr>"

definition one_treated :: poller where
  "one_treated = one_claimed\<lparr>claimed := None, handlers := [(demo_message, 0)], phase := Stopped True\<rparr>"

lemma demo_claimed: "(loop_step demo_env demo_decoder)\<^sup>*\<^sup>* (started, [], w, []) (one_claimed, [], w, [])"
proof -
  let ?L1 = "started\<lparr>batch := [demo_message], received := [demo_message]\<rparr>"
  let ?L2 = "?L1\<lparr>batch := [], claimed := Some demo_message\<rparr>"
  have "loop_step demo_env demo_decoder (started, [], w, []) (?L1, [], w, [])"
    using loop_step.receives [of started "[demo_message]" demo_env demo_decoder] by (simp add: started_def batchSize_def)
  moreover have "loop_step demo_env demo_decoder (?L1, [], w, []) (?L2, [], w, [])"
    by (rule loop_step.claims) (simp_all add: started_def)
  moreover have "loop_step demo_env demo_decoder (?L2, [], w, []) (one_claimed, [], w, [])"
    using loop_step.cancelled [of demo_env demo_decoder ?L2] by (simp add: one_claimed_def started_def)
  ultimately show ?thesis by (meson converse_rtranclp_into_rtranclp r_into_rtranclp)
qed

lemma demo_treated:
  "\<exists>w ps w' hs h. idle demo_env w \<and> (loop_step demo_env demo_decoder)\<^sup>*\<^sup>* (one_claimed, [], w, []) (one_treated, ps, w', hs) \<and>
     snd (ps ! 0) = Finished (Inr (Handled h)) \<and> map fst (n_commands h) = [DeleteMessage (g_receipt demo_message)]"
proof -
  obtain w h w1 where w: "idle demo_env w" "Handle demo_env demo_decoder (\<lambda>_. True) demo_message w = (Inr h, w1)"
    "map fst (n_commands h) = [DeleteMessage (g_receipt demo_message)]"
    by (rule demo_handled [of "\<lambda>_. True"]) (simp add: demo_message_def)
  let ?c = "Delivery demo_decoder (\<lambda>_. True) demo_message"
  let ?L1 = "one_claimed\<lparr>claimed := None, handlers := [(demo_message, 0)]\<rparr>"
  let ?L2 = "?L1\<lparr>phase := Draining, left_over := [], batch := []\<rparr>"
  have 1: "loop_step demo_env demo_decoder (one_claimed, [], w, []) (?L1, [(?c, call_proc demo_env ?c)], w, [])"
    using loop_step.starts [of one_claimed demo_message "[]" demo_env demo_decoder w "[]" "\<lambda>_. True"]
    by (simp add: one_claimed_def started_def in_flight_def maxHandlers_def)
  obtain hs where "(pool_step demo_env)\<^sup>*\<^sup>* ([(?c, call_proc demo_env ?c)], w, []) ([(?c, Finished (Inr (Handled h)))], w1, hs)"
    using pool_alone [of 0 "[(?c, call_proc demo_env ?c)]" ?c _ demo_env w "[]"] w(2) by (auto simp: run_map run_Handle)
  then have 2: "(loop_step demo_env demo_decoder)\<^sup>*\<^sup>* (?L1, [(?c, call_proc demo_env ?c)], w, []) (?L1, [(?c, Finished (Inr (Handled h)))], w1, hs)"
    by (rule loop_scheduled)
  have 3: "loop_step demo_env demo_decoder (?L1, [(?c, Finished (Inr (Handled h)))], w1, hs) (?L2, [(?c, Finished (Inr (Handled h)))], w1, hs)"
    using loop_step.leaves [of ?L1 demo_env demo_decoder] by (simp add: one_claimed_def started_def)
  have 4: "loop_step demo_env demo_decoder (?L2, [(?c, Finished (Inr (Handled h)))], w1, hs) (one_treated, [(?c, Finished (Inr (Handled h)))], w1, hs)"
    using loop_step.drained [of ?L2 "[(?c, Finished (Inr (Handled h)))]" demo_env demo_decoder w1 hs]
    by (simp add: one_claimed_def one_treated_def started_def in_flight_def)
  from 1 2 3 4 have "(loop_step demo_env demo_decoder)\<^sup>*\<^sup>* (one_claimed, [], w, []) (one_treated, [(?c, Finished (Inr (Handled h)))], w1, hs)"
    by (meson converse_rtranclp_into_rtranclp rtranclp.rtrancl_into_rtrancl)
  with w(1,3) show ?thesis
    by (intro exI [of _ w] exI [of _ "[(?c, Finished (Inr (Handled h)))]"] exI [of _ w1] exI [of _ hs] exI [of _ h] conjI) simp_all
qed

lemma consumer_loop_safe_witness:
  "\<exists>w ps w' hs h T T'. idle demo_env w \<and> (loop_step demo_env demo_decoder)\<^sup>*\<^sup>* (started, [], w, []) (one_treated, ps, w', hs) \<and>
     snd (ps ! 0) = Finished (Inr (Handled h)) \<and> (T, T') \<in> set (own 0 hs) \<and>
     (\<exists>v r a g. submitted demo_env (message_input demo_message v) a g T r T' \<and> n_label h = submitOutcome r)"
proof -
  obtain w ps w' hs h where w: "idle demo_env w" "(loop_step demo_env demo_decoder)\<^sup>*\<^sup>* (one_claimed, [], w, []) (one_treated, ps, w', hs)"
     "snd (ps ! 0) = Finished (Inr (Handled h))" "map fst (n_commands h) = [DeleteMessage (g_receipt demo_message)]"
    using demo_treated by (elim exE conjE)
  have run: "(loop_step demo_env demo_decoder)\<^sup>*\<^sup>* (started, [], w, []) (one_treated, ps, w', hs)"
    by (rule rtranclp_trans [OF demo_claimed w(2)])
  have mem: "(demo_message, 0) \<in> set (handlers one_treated)" by (simp add: one_treated_def)
  have "\<not> dead_lettered demo_message h" "\<not> deferred demo_message h" "\<not> dropped demo_message h"
    using w(4) by (auto simp: dlq_then_delete_def deferred_def)
  with consumer_loop_safe [OF w(1) run] mem w(3) obtain v r a g T T' where
    "submitted demo_env (message_input demo_message v) a g T r T'" "(T, T') \<in> set (own 0 hs)" "n_label h = submitOutcome r"
    by fastforce
  with w(1,3) run show ?thesis by blast
qed

lemma consumer_stops_witness:
  "\<exists>w ps w' hs res. (loop_step demo_env demo_decoder)\<^sup>*\<^sup>* (one_claimed, [], w, []) (one_treated, ps, w', hs) \<and>
     stopping one_claimed \<and> claimed one_claimed = Some demo_message \<and> snd (ps ! 0) = Finished res"
proof -
  obtain w ps w' hs where w: "(loop_step demo_env demo_decoder)\<^sup>*\<^sup>* (one_claimed, [], w, []) (one_treated, ps, w', hs)"
    using demo_treated by blast
  have st: "stopping one_claimed" by (simp add: one_claimed_def)
  have p: "phase one_treated = Stopped True" "(demo_message, 0) \<in> set (handlers one_treated)" by (simp_all add: one_treated_def)
  from consumer_stops [OF demo_claimed st w] p obtain res where "snd (ps ! 0) = Finished res" by fastforce
  moreover have "claimed one_claimed = Some demo_message" by (simp add: one_claimed_def)
  ultimately show ?thesis using w st by blast
qed

end
