(* ===== verification/App_Config.thy ===== *)
theory App_Config
  imports Oidc
begin

text \<open>
  \<^verbatim>\<open>internal/app\<close>: the process configuration and the decisions that the wiring takes from it. The process
  environment is a function of the variable names (unset reads as empty); parsed URLs, dialled connections and
  host names are inputs.
\<close>

section \<open>Configuration\<close>

definition ModeAPI :: string where "ModeAPI = ''api''"
definition ModeConsumer :: string where "ModeConsumer = ''consumer''"
definition ModeWorkers :: string where "ModeWorkers = ''workers''"

record app_config =
  Mode :: string
  HTTPAddr :: string
  AdminAddr :: string
  DatabaseURL :: string
  SQSEndpoint :: string
  OIDCIssuer :: string
  OIDCAudience :: string
  AWSRegion :: string
  AWSAccessKey :: string
  AWSSecretKey :: string
  SQSTxQueue :: string
  SQSTxDLQ :: string
  SQSEventsQueue :: string
  OTELStdout :: bool

definition getenv :: "(string \<Rightarrow> string) \<Rightarrow> string \<Rightarrow> string \<Rightarrow> string" where
  "getenv vars key fallback = (if vars key \<noteq> [] then vars key else fallback)"

datatype config_error = InvalidMode string | DatabaseRequired | IssuerRequired

definition LoadFromEnv :: "(string \<Rightarrow> string) \<Rightarrow> config_error + app_config" where
  "LoadFromEnv vars = (let mode = getenv vars ''APP_MODE'' ''api'' in
     if mode \<noteq> ModeAPI \<and> mode \<noteq> ModeConsumer \<and> mode \<noteq> ModeWorkers then Inl (InvalidMode mode)
     else let cfg = \<lparr>Mode = mode, HTTPAddr = getenv vars ''HTTP_ADDR'' '':8080'',
         AdminAddr = getenv vars ''ADMIN_ADDR'' '':9090'', DatabaseURL = vars ''DATABASE_URL'',
         SQSEndpoint = getenv vars ''SQS_ENDPOINT'' ''http://ministack:4566'',
         OIDCIssuer = vars ''OIDC_ISSUER'', OIDCAudience = vars ''OIDC_AUDIENCE'',
         AWSRegion = getenv vars ''AWS_REGION'' ''us-east-1'', AWSAccessKey = vars ''AWS_ACCESS_KEY_ID'',
         AWSSecretKey = vars ''AWS_SECRET_ACCESS_KEY'',
         SQSTxQueue = getenv vars ''SQS_TX_QUEUE'' ''wager-transactions.fifo'',
         SQSTxDLQ = getenv vars ''SQS_TX_DLQ'' ''wager-transactions-dlq.fifo'',
         SQSEventsQueue = getenv vars ''SQS_EVENTS_QUEUE'' ''wager-events.fifo'',
         OTELStdout = (getenv vars ''OTEL_TRACES_STDOUT'' ''1'' \<noteq> ''0'')\<rparr>
       in if DatabaseURL cfg = [] then Inl DatabaseRequired
          else if mode = ModeAPI \<and> OIDCIssuer cfg = [] then Inl IssuerRequired
          else Inr cfg)"

text \<open>\<^verbatim>\<open>cmd/app/main.go\<close>: the mode flag overrides the variable.\<close>

definition app_main :: "string \<Rightarrow> (string \<Rightarrow> string) \<Rightarrow> config_error + app_config" where
  "app_main flag vars = LoadFromEnv (if flag \<noteq> [] then vars(''APP_MODE'' := flag) else vars)"

section \<open>Wiring\<close>

text \<open>\<^verbatim>\<open>strings.TrimSuffix(issuer, "/")\<close> drops one slash.\<close>

definition trim_slash :: "string \<Rightarrow> string" where
  "trim_slash s = (if s \<noteq> [] \<and> last s = CHR ''/'' then butlast s else s)"

definition NewValidator :: "app_config \<Rightarrow> (oidc_config \<times> string) option" where
  "NewValidator cfg = (if OIDCIssuer cfg = [] then None
     else Some (\<lparr>oc_issuer = OIDCIssuer cfg, oc_audience = OIDCAudience cfg, oc_leeway = 0\<rparr>,
       trim_slash (OIDCIssuer cfg) @ ''/protocol/openid-connect/certs''))"

text \<open>\<^verbatim>\<open>net.JoinHostPort\<close> brackets a host that contains a colon.\<close>

definition JoinHostPort :: "string \<Rightarrow> string \<Rightarrow> string" where
  "JoinHostPort host port = (if CHR '':'' \<in> set host then ''['' @ host @ '']:'' @ port else host @ '':'' @ port)"

text \<open>The address that \<^verbatim>\<open>checkPostgres\<close> dials, from host name and port of the parsed URL; and whether it answers.\<close>

definition postgres_address :: "string \<times> string \<Rightarrow> string" where
  "postgres_address u = (case u of (host, port) \<Rightarrow>
     JoinHostPort (if host = [] then ''localhost'' else host) (if port = [] then ''5432'' else port))"

definition checkPostgres :: "(string \<times> string) option \<Rightarrow> (string \<Rightarrow> bool) \<Rightarrow> bool" where
  "checkPostgres url dial = (case url of None \<Rightarrow> False | Some u \<Rightarrow> dial (postgres_address u))"

definition checkSQS :: "nat option \<Rightarrow> bool" where
  "checkSQS status = (case status of None \<Rightarrow> False | Some s \<Rightarrow> \<not> s \<ge> 400)"

text \<open>The readiness check of the public engine, and the operational handler that names the missing dependency.\<close>

definition ReadyCheck :: "bool \<Rightarrow> bool \<Rightarrow> bool" where
  "ReadyCheck pg sqs = (if \<not> pg then False else sqs)"

definition readyHandler :: "bool \<Rightarrow> bool \<Rightarrow> nat \<times> string option" where
  "readyHandler pg sqs = (if \<not> pg then (503, Some ''postgres'') else if \<not> sqs then (503, Some ''sqs'') else (200, None))"

definition workerOwner :: "string option \<Rightarrow> string \<Rightarrow> string" where
  "workerOwner hostname role = (case hostname of None \<Rightarrow> role | Some h \<Rightarrow> if h \<noteq> [] then role @ ''-'' @ h else role)"

section \<open>A loaded configuration\<close>

text \<open>Fail-fast configuration. Loading succeeds exactly when the mode (api by default) is one of the three, a
  database is given and, in api mode, an issuer; the first of these that fails is the error. A loaded api
  configuration always yields a validator, for exactly the configured issuer and audience and with the default
  leeway, and every address, region and queue of a loaded configuration is set.\<close>

theorem LoadFromEnv_total:
  "case LoadFromEnv vars of
     Inl e \<Rightarrow> e = InvalidMode (vars ''APP_MODE'') \<and> vars ''APP_MODE'' \<notin> {[], ModeAPI, ModeConsumer, ModeWorkers} \<or>
       vars ''APP_MODE'' \<in> {[], ModeAPI, ModeConsumer, ModeWorkers} \<and>
         (e = DatabaseRequired \<and> vars ''DATABASE_URL'' = [] \<or>
          e = IssuerRequired \<and> vars ''DATABASE_URL'' \<noteq> [] \<and> vars ''APP_MODE'' \<in> {[], ModeAPI} \<and> vars ''OIDC_ISSUER'' = [])
   | Inr cfg \<Rightarrow> Mode cfg \<in> {ModeAPI, ModeConsumer, ModeWorkers} \<and> DatabaseURL cfg = vars ''DATABASE_URL'' \<and>
       (\<forall>s \<in> {DatabaseURL cfg, HTTPAddr cfg, AdminAddr cfg, SQSEndpoint cfg, AWSRegion cfg, SQSTxQueue cfg, SQSTxDLQ cfg,
          SQSEventsQueue cfg}. s \<noteq> []) \<and>
       (Mode cfg = ModeAPI \<longrightarrow> (\<exists>v url. NewValidator cfg = Some (v, url) \<and> oc_issuer v = vars ''OIDC_ISSUER'' \<and>
          oc_audience v = vars ''OIDC_AUDIENCE'' \<and> leeway v = ClockSkewLeeway))"
  by (auto simp: LoadFromEnv_def getenv_def Let_def NewValidator_def leeway_def ModeAPI_def ModeConsumer_def ModeWorkers_def)

definition demo_vars :: "string \<Rightarrow> string" where
  "demo_vars k = (if k = ''DATABASE_URL'' then ''postgres://db'' else if k = ''OIDC_ISSUER'' then ''http://k/realms/wallet/'' else [])"

lemma LoadFromEnv_total_witness:
  "\<exists>cfg v. LoadFromEnv demo_vars = Inr cfg \<and> Mode cfg = ModeAPI \<and>
     NewValidator cfg = Some (v, ''http://k/realms/wallet/protocol/openid-connect/certs'') \<and> leeway v = ClockSkewLeeway"
proof -
  obtain cfg where c: "LoadFromEnv demo_vars = Inr cfg" "Mode cfg = ModeAPI" "OIDCIssuer cfg = ''http://k/realms/wallet/''"
    by (simp add: LoadFromEnv_def getenv_def Let_def demo_vars_def ModeAPI_def)
  from LoadFromEnv_total [of demo_vars] c(1,2) obtain v url
    where v: "NewValidator cfg = Some (v, url)" "leeway v = ClockSkewLeeway" by auto
  then have "url = ''http://k/realms/wallet/protocol/openid-connect/certs''" using c(3) by (auto simp: NewValidator_def trim_slash_def)
  with c(1,2) v show ?thesis by blast
qed

end
