(* ===== verification/Roles.thy ===== *)
theory Roles
  imports Sqs_Consumer Publisher Work App_Config
begin

text \<open>
  The roles that a process can play (\<^verbatim>\<open>internal/app\<close>) and their loops: the poll loop of the consumer
  (\<^verbatim>\<open>internal/adapters/sqs/consumer.go\<close>) and the two ticking loops of the workers
  (\<^verbatim>\<open>internal/adapters/sqs/publisher.go\<close>). A loop runs until the process is told to stop, so the number of its
  rounds is an input; so are the broker's answers to a poll.
\<close>

section \<open>Modules\<close>

datatype role_module = ApiModule | ConsumerModule | WorkersModule

definition New :: "app_config \<Rightarrow> role_module option" where
  "New cfg = (if Mode cfg = ModeAPI then Some ApiModule
     else if Mode cfg = ModeConsumer then Some ConsumerModule
     else if Mode cfg = ModeWorkers then Some WorkersModule
     else None)"

section \<open>Loops\<close>

text \<open>\<^verbatim>\<open>tick\<close>: an error of a round is logged and the loop goes on; a panic ends the process.\<close>

fun ticks :: "'a action \<Rightarrow> nat \<Rightarrow> unit action" where
  "ticks round 0 = ret ()"
| "ticks round (Suc n) = bind (attempt round) (\<lambda>r. case r of
     Inl e \<Rightarrow> if e = ErrOther ''panic'' then fail e else ticks round n
   | Inr _ \<Rightarrow> ticks round n)"

definition RunOutboxPublisher :: "env \<Rightarrow> (publication \<Rightarrow> bool) \<Rightarrow> string \<Rightarrow> nat \<Rightarrow> unit action" where
  "RunOutboxPublisher E send owner n = ticks (PublishDueOutbox E send owner 100) n"

definition RunReferenceWorker :: "env \<Rightarrow> string \<Rightarrow> nat \<Rightarrow> unit action" where
  "RunReferenceWorker E owner n = ticks (ProcessDueWork E owner 100) n"

text \<open>The answer to a poll: none when receiving failed, which costs a pause; otherwise the messages that are handed
  to handlers before the process is told to stop, and how the broker takes the commands about them.\<close>

type_synonym poll = "((command \<Rightarrow> bool) \<times> message list) option"

fun Run :: "env \<Rightarrow> decoder \<Rightarrow> poll list \<Rightarrow> handled list action" where
  "Run E dec [] = ret []"
| "Run E dec (None # ps) = Run E dec ps"
| "Run E dec (Some (b, ms) # ps) = bind (handle_batch E dec b ms) (\<lambda>hs. bind (Run E dec ps) (\<lambda>hs'. ret (hs @ hs')))"

end
