(* ===== verification/Startup.thy ===== *)
theory Startup
  imports Roles
begin

text \<open>
  How a process comes up (\<^verbatim>\<open>internal/app\<close>, \<^verbatim>\<open>internal/adapters/sqs/client.go\<close>, \<^verbatim>\<open>internal/obs\<close>, \<^verbatim>\<open>cmd\<close>): the constructors of
  the role's module, the hooks that they append to the life cycle, the tasks that the hooks start and end, and
  the migration job. What GORM, the AWS SDK, the exporter and goose answer is an input. Fx runs the hooks; it gives up
  on the first constructor or hook that fails.
\<close>

section \<open>The surroundings\<close>

record client_options =
  o_region :: string
  o_endpoint :: string
  o_static :: "(string \<times> string) option"

text \<open>Whether the database handle opens, whether the SDK loads a configuration, the URL it gives for a queue name (None on
  an error, and the inner option for a missing URL), the host name, and whether the trace exporter and its resource are made.\<close>

record surroundings =
  x_opens :: "string \<Rightarrow> bool"
  x_loads :: "client_options \<Rightarrow> bool"
  x_queue :: "client_options \<Rightarrow> string \<Rightarrow> string option option"
  x_host :: "string option"
  x_exporter :: bool
  x_resource :: bool

section \<open>Constructors\<close>

definition NewStore :: "surroundings \<Rightarrow> app_config \<Rightarrow> unit option" where
  "NewStore S cfg = (if x_opens S (DatabaseURL cfg) then Some () else None)"

text \<open>The keys of the role are used when both are given, otherwise the default chain of the SDK.\<close>

definition NewClient :: "surroundings \<Rightarrow> string \<Rightarrow> string \<Rightarrow> string \<Rightarrow> string \<Rightarrow> client_options option" where
  "NewClient S endpoint region accessKey secret =
    (let opts = \<lparr>o_region = region, o_endpoint = endpoint,
       o_static = (if accessKey \<noteq> [] \<and> secret \<noteq> [] then Some (accessKey, secret) else None)\<rparr>
     in if x_loads S opts then Some opts else None)"

definition NewSQSClient :: "surroundings \<Rightarrow> app_config \<Rightarrow> client_options option" where
  "NewSQSClient S cfg = NewClient S (SQSEndpoint cfg) (AWSRegion cfg) (AWSAccessKey cfg) (AWSSecretKey cfg)"

definition QueueURL :: "surroundings \<Rightarrow> client_options \<Rightarrow> string \<Rightarrow> string option" where
  "QueueURL S client name = (case x_queue S client name of None \<Rightarrow> None | Some url \<Rightarrow> Some (str url))"

record sqs_consumer =
  c_client :: client_options
  c_queue :: string
  c_dlq :: string

definition NewConsumer :: "surroundings \<Rightarrow> client_options \<Rightarrow> app_config \<Rightarrow> sqs_consumer option" where
  "NewConsumer S client cfg = (case QueueURL S client (SQSTxQueue cfg) of None \<Rightarrow> None | Some queue \<Rightarrow>
     (case QueueURL S client (SQSTxDLQ cfg) of None \<Rightarrow> None | Some dlq \<Rightarrow>
       Some \<lparr>c_client = client, c_queue = queue, c_dlq = dlq\<rparr>))"

record sqs_publisher =
  p_client :: client_options
  p_events :: string

definition NewPublisher :: "surroundings \<Rightarrow> client_options \<Rightarrow> app_config \<Rightarrow> sqs_publisher option" where
  "NewPublisher S client cfg = (case QueueURL S client (SQSEventsQueue cfg) of None \<Rightarrow> None | Some url \<Rightarrow>
     Some \<lparr>p_client = client, p_events = url\<rparr>)"

section \<open>Hooks\<close>

datatype hook = AdminHook string | TracingHook string | PublicHook string | ConsumerHook sqs_consumer | WorkersHook sqs_publisher

datatype task = AdminServer string | PublicServer string | PollLoop sqs_consumer
  | PublisherLoop string sqs_publisher | ReferenceLoop string

definition registerAdminLifecycle :: "app_config \<Rightarrow> hook list" where
  "registerAdminLifecycle cfg = [AdminHook (AdminAddr cfg)]"

definition registerTracingLifecycle :: "app_config \<Rightarrow> hook list" where
  "registerTracingLifecycle cfg = (if \<not> OTELStdout cfg then [] else [TracingHook (''wallet-'' @ Mode cfg)])"

definition registerPublicLifecycle :: "app_config \<Rightarrow> hook list" where
  "registerPublicLifecycle cfg = [PublicHook (HTTPAddr cfg)]"

definition runConsumer :: "sqs_consumer \<Rightarrow> hook list" where
  "runConsumer c = [ConsumerHook c]"

definition runWorkers :: "sqs_publisher \<Rightarrow> hook list" where
  "runWorkers p = [WorkersHook p]"

text \<open>\<^verbatim>\<open>OnStart\<close>: None is an error. Servers and loops run in goroutines of their own.\<close>

definition SetupStdout :: "surroundings \<Rightarrow> string \<Rightarrow> unit option" where
  "SetupStdout S service = (if \<not> x_exporter S then None else if \<not> x_resource S then None else Some ())"

definition on_start :: "surroundings \<Rightarrow> hook \<Rightarrow> task list option" where
  "on_start S h = (case h of
     AdminHook addr \<Rightarrow> Some [AdminServer addr]
   | TracingHook service \<Rightarrow> (case SetupStdout S service of None \<Rightarrow> None | Some _ \<Rightarrow> Some [])
   | PublicHook addr \<Rightarrow> Some [PublicServer addr]
   | ConsumerHook c \<Rightarrow> Some [PollLoop c]
   | WorkersHook p \<Rightarrow> (let owner = workerOwner (x_host S) ''workers'' in Some [PublisherLoop owner p, ReferenceLoop owner]))"

text \<open>\<^verbatim>\<open>OnStop\<close>: servers are shut down and awaited for a while, the exporter is flushed; the loops are cancelled and not
  awaited.\<close>

datatype stop = Shutdown task | Flush | Cancel "task list"

definition on_stop :: "surroundings \<Rightarrow> hook \<Rightarrow> stop" where
  "on_stop S h = (case h of
     AdminHook addr \<Rightarrow> Shutdown (AdminServer addr)
   | TracingHook service \<Rightarrow> Flush
   | PublicHook addr \<Rightarrow> Shutdown (PublicServer addr)
   | ConsumerHook c \<Rightarrow> Cancel [PollLoop c]
   | WorkersHook p \<Rightarrow> (let owner = workerOwner (x_host S) ''workers'' in Cancel [PublisherLoop owner p, ReferenceLoop owner]))"

fun stopped_tasks :: "stop \<Rightarrow> task list" where
  "stopped_tasks (Shutdown t) = [t]"
| "stopped_tasks Flush = []"
| "stopped_tasks (Cancel ts) = ts"

text \<open>A hook ends what it has started.\<close>

lemma on_stop_ends: "on_start S h = Some ts \<Longrightarrow> stopped_tasks (on_stop S h) = ts"
  by (cases h) (auto simp: on_start_def on_stop_def Let_def split: option.splits)

section \<open>Modules\<close>

text \<open>The constructors that each module's hooks need, in the order of their dependencies.\<close>

definition ApiModule_hooks :: "surroundings \<Rightarrow> app_config \<Rightarrow> hook list option" where
  "ApiModule_hooks S cfg = (case NewStore S cfg of None \<Rightarrow> None | Some _ \<Rightarrow>
     (case NewValidator cfg of None \<Rightarrow> None | Some _ \<Rightarrow> Some (registerPublicLifecycle cfg)))"

definition ConsumerModule_hooks :: "surroundings \<Rightarrow> app_config \<Rightarrow> hook list option" where
  "ConsumerModule_hooks S cfg = (case NewStore S cfg of None \<Rightarrow> None | Some _ \<Rightarrow>
     (case NewSQSClient S cfg of None \<Rightarrow> None | Some client \<Rightarrow>
       (case NewConsumer S client cfg of None \<Rightarrow> None | Some c \<Rightarrow> Some (runConsumer c))))"

definition WorkersModule_hooks :: "surroundings \<Rightarrow> app_config \<Rightarrow> hook list option" where
  "WorkersModule_hooks S cfg = (case NewStore S cfg of None \<Rightarrow> None | Some _ \<Rightarrow>
     (case NewSQSClient S cfg of None \<Rightarrow> None | Some client \<Rightarrow>
       (case NewPublisher S client cfg of None \<Rightarrow> None | Some p \<Rightarrow> Some (runWorkers p))))"

text \<open>The options that \<^verbatim>\<open>New\<close> collects: the hooks that may be registered, and the tasks that their \<^verbatim>\<open>OnStart\<close> may leave running. When
  and in which order Fx calls constructors and hooks, and what it does after a failure, is not said here: a
  property of all runs of a process holds whichever of these tasks are running.\<close>

inductive registered :: "surroundings \<Rightarrow> app_config \<Rightarrow> hook \<Rightarrow> bool" for S cfg where
  admin: "h \<in> set (registerAdminLifecycle cfg) \<Longrightarrow> registered S cfg h"
| tracing: "h \<in> set (registerTracingLifecycle cfg) \<Longrightarrow> registered S cfg h"
| api: "New cfg = Some ApiModule \<Longrightarrow> ApiModule_hooks S cfg = Some hs \<Longrightarrow> h \<in> set hs \<Longrightarrow> registered S cfg h"
| consumer: "New cfg = Some ConsumerModule \<Longrightarrow> ConsumerModule_hooks S cfg = Some hs \<Longrightarrow> h \<in> set hs \<Longrightarrow> registered S cfg h"
| workers: "New cfg = Some WorkersModule \<Longrightarrow> WorkersModule_hooks S cfg = Some hs \<Longrightarrow> h \<in> set hs \<Longrightarrow> registered S cfg h"

definition may_run :: "surroundings \<Rightarrow> app_config \<Rightarrow> task \<Rightarrow> bool" where
  "may_run S cfg t \<longleftrightarrow> (\<exists>h ts. registered S cfg h \<and> on_start S h = Some ts \<and> t \<in> set ts)"

section \<open>The migration job\<close>

text \<open>The exit code; \<open>dialect\<close> and \<open>opens\<close> are what goose and \<^verbatim>\<open>database/sql\<close> say, \<open>goose\<close> runs the command.\<close>

definition migrate_main :: "bool \<Rightarrow> (string \<Rightarrow> bool) \<Rightarrow> (string \<Rightarrow> string \<Rightarrow> string list \<Rightarrow> bool) \<Rightarrow>
    string \<Rightarrow> string \<Rightarrow> string \<Rightarrow> string \<Rightarrow> nat" where
  "migrate_main dialect opens goose dir command args dsn =
    (if dsn = [] then 1 else if \<not> dialect then 1 else if \<not> opens dsn then 1
     else if \<not> goose command dir (if args \<noteq> [] then [args] else []) then 1 else 0)"

section \<open>Surroundings in which everything works\<close>

definition demo_surroundings :: surroundings where
  "demo_surroundings = \<lparr>x_opens = (\<lambda>_. True), x_loads = (\<lambda>_. True), x_queue = (\<lambda>_ q. Some (Some (''http://q/'' @ q))),
     x_host = Some ''h'', x_exporter = True, x_resource = True\<rparr>"

end
