(* ===== verification/Deployment.thy ===== *)
theory Deployment
  imports Access_Control Sqs_Guarantees Publication Announcements Consumer_Loop Startup
begin

text \<open>
  The deployed system: any number of processes, each started with a configuration of its own and playing one
  role, over one database. Here a request, a publication tick and a worker round are taken as a whole and every
  transaction at one moment; runs of them, in whatever order, are sequences of calls of the use-cases, so that what
  is proved of reachable stores holds after them. \<open>Overlaps\<close> says what becomes of that when the transactions of
  the workers overlap with others.
\<close>

section \<open>Handlers are sequences of calls\<close>

lemma calls_only_reads: "only_reads m \<Longrightarrow> calls E m"
  by (rule calls_still) (simp add: only_reads_def)

lemma calls_answer: "calls E m \<Longrightarrow> calls E (answer m bad ok)"
  by (simp add: calls_def answer_run)

lemmas calls_intros = calls_basic calls_use_cases calls_bind calls_attempt calls_answer

section \<open>The roles\<close>

lemma calls_serve: "calls E (serve E V check q)"
proof -
  have reads: "calls E (getWallet E i u)" "calls E (pageLedger E i u l c)" "calls E (reconcile E i u)"
    "calls E (getTransaction E i t)" "calls E (getTransactionByExternal E i p e)" for i u l c t p e
    by (rule calls_only_reads, rule handlers_only_read)+
  have "calls E (openWallet E i b)" "calls E (submitTransaction E i corr h b')" for i b corr h b'
    unfolding openWallet_def submitTransaction_def Let_def
    by (auto intro!: calls_intros split: option.splits)
  with reads have "calls E (handle_protected E i corr r)" for i corr r
    by (cases r) (simp_all add: handle_protected_def calls_basic)
  then have "calls E (route_request E V check corr q)" for corr
    unfolding route_request_def by (auto intro!: calls_basic split: route.splits option.splits)
  moreover have "calls E (correlation E h)" for h by (simp add: correlation_def calls_basic)
  ultimately show ?thesis unfolding serve_def by (intro calls_intros)
qed

lemma calls_Handle: "calls E (Handle E dec b msg)"
proof -
  have d: "calls E (deferVisibility E b msg e)" for e
    unfolding deferVisibility_def Let_def by (intro calls_intros)
  show ?thesis unfolding Handle_def
    by (auto intro!: calls_intros d simp: Let_def split: sum.splits serr.splits)
qed

lemma calls_Run: "calls E (Run E dec ps)"
proof -
  have "calls E (handle_batch E dec b ms)" for b ms
    by (induction ms) (auto intro!: calls_intros calls_Handle)
  then show ?thesis by (induction E dec ps rule: Run.induct) (auto intro!: calls_intros)
qed

lemma calls_ticks: "calls E round \<Longrightarrow> calls E (ticks round n)"
  by (induction n) (auto intro!: calls_intros split: sum.splits)

lemma calls_workers: "calls E (RunOutboxPublisher E send owner n)" "calls E (RunReferenceWorker E owner n)"
  unfolding RunOutboxPublisher_def RunReferenceWorker_def by (intro calls_ticks calls_intros)+

section \<open>Processes\<close>

text \<open>What a process that was started with \<open>cfg\<close> does next, if it runs the task. Requests are validated by the validator
  that the configuration yields, with whatever keys are cached; a poll loop is run with its handlers one after the
  other or concurrently, from its start to wherever it gets. Requests and ticks are taken as a whole.\<close>

inductive process :: "env \<Rightarrow> app_config \<Rightarrow> task \<Rightarrow> world \<Rightarrow> world \<Rightarrow> bool" for E cfg where
  request: "NewValidator cfg = Some (v, url) \<Longrightarrow>
    process E cfg (PublicServer addr) w (snd (serve E (oidc J v m c) (Some (ReadyCheck pg sqs)) q w))"
| polls: "process E cfg (PollLoop k) w (snd (Run E dec ps w))"
| consumes: "(loop_step E dec)\<^sup>*\<^sup>* (started, [], w, []) (L, ps, w', hs) \<Longrightarrow> process E cfg (PollLoop k) w w'"
| publishing: "process E cfg (PublisherLoop owner p) w (snd (RunOutboxPublisher E send owner n w))"
| resuming: "process E cfg (ReferenceLoop owner) w (snd (RunReferenceWorker E owner n w))"

text \<open>One step of any process of the deployment, each with its own flag, environment variables and surroundings.\<close>

definition deployment :: "env \<Rightarrow> world \<Rightarrow> world \<Rightarrow> bool" where
  "deployment E w w' \<longleftrightarrow> (\<exists>flag vars S cfg t. app_main flag vars = Inr cfg \<and> may_run S cfg t \<and> process E cfg t w w')"

lemma process_calls: "process E cfg t w w' \<Longrightarrow> idle E w \<Longrightarrow> (serves E)\<^sup>*\<^sup>* w w'"
proof (induction rule: process.induct)
  case (consumes dec w L ps w' hs k)
  from pool_run [OF consumes(2) loop_run(1) [OF consumes(1)]] show ?case by (simp add: pool_ok_def)
qed (auto simp: idle_def dest: callsD [OF calls_serve] callsD [OF calls_Run] callsD [OF calls_workers(1)] callsD [OF calls_workers(2)])

lemma deployment_run:
  assumes "(deployment E)\<^sup>*\<^sup>* w w'" "idle E w"
  shows "(serves E)\<^sup>*\<^sup>* w w' \<and> idle E w'"
  using assms
proof (induction rule: rtranclp_induct)
  case (step w1 w2)
  then have "(serves E)\<^sup>*\<^sup>* w1 w2" using process_calls by (auto simp: deployment_def)
  moreover from step have "(serves E)\<^sup>*\<^sup>* w w1" "idle E w1" by simp_all
  ultimately show ?case using runs_progress by (meson rtranclp_trans)
qed simp

section \<open>The deployed system\<close>

lemma reconcile_status: "h_status (writeServiceError e) \<noteq> 200" "h_status wallet_missing = 404"
  "h_status forbidden = 403" "h_status unauthenticated = 401"
  by (auto simp: writeServiceError_def writeInfraError_def wallet_missing_def forbidden_def unauthenticated_def abortError_def
      respond_def split: serr.split)

text \<open>C29. No false alarm. After anything that a deployment has done, a reconciliation over HTTP changes nothing, and
  when it is answered with 200 the body says that the wallet is consistent, over all entries of its ledger.
  It is answered with 200 to every internal caller who names a stored wallet when no statement is lost.\<close>

theorem deployed_reconciliation:
  assumes "idle E w0" "(deployment E)\<^sup>*\<^sup>* w0 w" "r_route q = GetReconciliation wid" "serve E V check q w = (Inr resp, w')"
  shows "tabs w' = tabs w \<and> (h_status resp = 200 \<longrightarrow> body_field ''consistent'' resp = Some (HBool True) \<and>
    (\<exists>u r. e_uuid E wid = Some u \<and> tbl_find wr_id u (wallets (tabs w)) = Some r \<and>
       body_field ''checkedEntries'' resp = Some (HInt (int (length (ledger_of u (ledger (tabs w)))))))) \<and>
    (sure E \<and> (\<exists>i. AuthMiddleware V (r_authorization q) = Some i \<and> HasRole i RoleInternal) \<and>
       (\<exists>u r. e_uuid E wid = Some u \<and> tbl_find wr_id u (wallets (tabs w)) = Some r) \<longrightarrow> h_status resp = 200)"
proof -
  have g: "good E (tabs w)" "\<not> aborted w" using deployment_run [OF assms(2,1)] by (simp_all add: idle_def)
  obtain corr w1 rsp w2 where s: "serve E V check q w = (Inr (rsp\<lparr>h_headers := (''X-Correlation-Id'', corr) # h_headers rsp\<rparr>), w2)"
      "route_request E V check corr q w1 = (Inr rsp, w2)" "tabs w1 = tabs w" "aborted w1 = aborted w"
    by (rule serve_run)
  then have resp: "h_status resp = h_status rsp" "body_field k resp = body_field k rsp" "w2 = w'" for k using assms(4) by auto
  show ?thesis
  proof (cases "AuthMiddleware V (r_authorization q)")
    case None
    with s(2,3) assms(3) have "rsp = unauthenticated" "tabs w2 = tabs w" by (auto simp: route_request_def ret_def)
    then show ?thesis using resp None by (simp add: reconcile_status)
  next
    case (Some i)
    with s(2) assms(3) have run: "reconcile E (Some i) wid w1 = (Inr rsp, w2)"
      by (simp add: route_request_def handle_protected_def)
    have "only_reads (reconcile E (Some i) wid)" by (rule handlers_only_read)
    then have same: "tabs w' = tabs w" using run s(3,4) g(2) resp(3) unfolding only_reads_def by (metis snd_conv)
    have returns: "h_status rsp = 200" if "sure E" "HasRole i RoleInternal" "e_uuid E wid = Some u"
        "tbl_find wr_id u (wallets (tabs w)) = Some r" for u r
    proof -
      have "idle E w1" using g s(3,4) by (simp add: idle_def)
      from Reconcile_returns [OF this that(3)] that(1,4) s(3) obtain rc w3 where "Reconcile E wid w1 = (Inr rc, w3)" by auto
      then show ?thesis using run that(2) by (auto simp: reconcile_def requireRole_def answer_run respond_def)
    qed
    show ?thesis
    proof (cases "h_status rsp = 200")
      case True
      obtain x where x: "Reconcile E wid w1 = (x, w2)" "HasRole i RoleInternal"
          "rsp = (case x of Inl e \<Rightarrow> if e = ErrOther ''panic'' then respond 500 (HMap [])
             else if e = ErrCorrectable CodeWalletMissing then wallet_missing else writeServiceError e
           | Inr r \<Rightarrow> respond 200 (reconciliationBody r))"
        using run True by (cases "Reconcile E wid w1")
          (auto simp: reconcile_def requireRole_def answer_run ret_def reconcile_status split: if_splits)
      have "x \<noteq> Inl e" for e using x(3) True by (auto simp: reconcile_status respond_def split: if_splits)
      then obtain rc where rc: "x = Inr rc" "rsp = respond 200 (reconciliationBody rc)" using x(3) by (cases x) auto
      obtain u r where r: "e_uuid E wid = Some u" "tbl_find wr_id u (wallets (tabs w1)) = Some r"
          "rc_checked rc = length (ledger_of u (ledger (tabs w1)))"
          "rc_consistent rc \<longleftrightarrow> sint (wr_balance r) = ledger_sum (ledger_of u (ledger (tabs w1)))"
        using Reconcile_result x(1) rc(1) by metis
      have "books_of r (ledger_of u (ledger (tabs w)))"
        using books_ok_find(5) [OF _ r(2)] g(1) s(3) by (simp add: good_def sound_def)
      then have "rc_consistent rc" using r(4) s(3) books_sum by (simp add: ledger_sum_def)
      then show ?thesis using same resp r(1-3) rc(2) s(3)
        by (simp add: body_field_def respond_def reconciliationBody_def)
    next
      case False
      have "\<not> (sure E \<and> HasRole i RoleInternal \<and> (\<exists>u r. e_uuid E wid = Some u \<and> tbl_find wr_id u (wallets (tabs w)) = Some r))"
        using returns False by blast
      with False same resp(1) Some show ?thesis by (simp del: not_None_eq)
    qed
  qed
qed

section \<open>A concrete deployment\<close>

lemma demo_deployed:
  "deployment demo_env w (snd (serve demo_env (oidc J \<lparr>oc_issuer = ''http://k/realms/wallet/'', oc_audience = [], oc_leeway = 0\<rparr> m c)
     (Some (ReadyCheck True True)) q w))"
proof -
  obtain cfg where c: "LoadFromEnv demo_vars = Inr cfg" "Mode cfg = ModeAPI" "OIDCIssuer cfg = ''http://k/realms/wallet/''"
      "OIDCAudience cfg = []"
    by (simp add: LoadFromEnv_def getenv_def Let_def demo_vars_def ModeAPI_def)
  then have m: "app_main [] demo_vars = Inr cfg" by (simp add: app_main_def)
  from c have v: "NewValidator cfg = Some (\<lparr>oc_issuer = ''http://k/realms/wallet/'', oc_audience = [], oc_leeway = 0\<rparr>,
      trim_slash (OIDCIssuer cfg) @ ''/protocol/openid-connect/certs'')" by (simp add: NewValidator_def)
  have "ApiModule_hooks demo_surroundings cfg = Some [PublicHook (HTTPAddr cfg)]" "New cfg = Some ApiModule"
    using c(2) v by (simp_all add: ApiModule_hooks_def NewStore_def demo_surroundings_def registerPublicLifecycle_def New_def)
  from registered.api [OF this(2,1)] have "may_run demo_surroundings cfg (PublicServer (HTTPAddr cfg))"
    by (auto simp: may_run_def on_start_def intro!: exI [of _ "PublicHook (HTTPAddr cfg)"])
  with m process.request [OF v] show ?thesis unfolding deployment_def by meson
qed

lemma deployed_reconciliation_witness:
  "\<exists>V q resp w'. serve demo_env V None q demo_world = (Inr resp, w') \<and> h_status resp = 200 \<and>
     body_field ''consistent'' resp = Some (HBool True) \<and> body_field ''checkedEntries'' resp = Some (HInt 3)"
proof -
  let ?V = "StaticValidator [(''t'', \<lparr>id_provider = [], id_roles = {RoleInternal}\<rparr>)]"
  let ?q = "\<lparr>r_route = GetReconciliation ''a'', r_authorization = ''Bearer t'', r_correlation = ''c''\<rparr>"
  obtain rc w' where rc: "Reconcile demo_env ''a'' demo_world = (Inr rc, w')"
    using Reconcile_returns [OF demo_world_idle demo_ledger(2,3) demo_env_props(1)] by auto
  have "AuthMiddleware ?V ''Bearer t'' = Some \<lparr>id_provider = [], id_roles = {RoleInternal}\<rparr>"
    by (simp add: AuthMiddleware_def demo_texts StaticValidator_def)
  then have "route_request demo_env ?V None ''c'' ?q demo_world = (Inr (respond 200 (reconciliationBody rc)), w')"
    using rc by (simp add: route_request_def handle_protected_def reconcile_def requireRole_def HasRole_def answer_run)
  then have s: "serve demo_env ?V None ?q demo_world =
      (Inr ((respond 200 (reconciliationBody rc))\<lparr>h_headers := [(''X-Correlation-Id'', ''c'')]\<rparr>), w')"
    by (simp add: serve_def correlation_def demo_texts bind_def ret_def respond_def)
  have "r_route ?q = GetReconciliation ''a''" by simp
  from deployed_reconciliation [OF demo_world_idle rtranclp.rtrancl_refl this s] s demo_ledger(1-3) show ?thesis
    by (intro exI [of _ ?V] exI [of _ ?q] exI conjI) (auto simp: respond_def)
qed

end
