(* ===== verification/Balance_Events.thy ===== *)
theory Balance_Events
  imports Announcements
begin

text \<open>
  The outbox mirrors the ledger: every posted entry has its \<^verbatim>\<open>WalletBalanceChanged\<close> event and every such event is about
  a posted entry, with the wallet, transaction, direction, balances and version of the entry. Entry and
  event are written in one SQL transaction by the outcomes that move money.
\<close>

section \<open>Mirrored stores\<close>

definition balance_data :: "string \<Rightarrow> string \<Rightarrow> json \<Rightarrow> ledger_row \<Rightarrow> (string \<times> json) list" where
  "balance_data wid tid amt l = [(''walletId'', JStr wid), (''transactionId'', JStr tid),
     (''direction'', JStr (direction_text (l_direction l))), (''money'', amt),
     (''balanceBefore'', JStr (money_String (mk_money (l_before l) (l_currency l)))),
     (''balanceAfter'', JStr (money_String (mk_money (l_after l) (l_currency l)))),
     (''walletVersion'', JInt (sint (l_version l)))]"

definition balance_news :: "env \<Rightarrow> ledger_row \<Rightarrow> outbox_row \<Rightarrow> bool" where
  "balance_news E l b \<longleftrightarrow> b_type b = EventBalance \<and> b_aggregate b = l_wallet l \<and>
     (\<exists>eid wid tid corr t amt. e_uuid E wid = Some (l_wallet l) \<and> e_uuid E tid = Some (l_tx l) \<and>
        b_payload b = mustEventPayload eid EventBalance wid corr t (l_version l) (balance_data wid tid amt l))"

definition balance_events :: "outbox_row list \<Rightarrow> outbox_row list" where
  "balance_events bs = filter (\<lambda>b. b_type b = EventBalance) bs"

definition mirrored :: "env \<Rightarrow> tables \<Rightarrow> bool" where
  "mirrored E T \<longleftrightarrow> list_all2 (balance_news E) (ledger T) (balance_events (outbox T))"

lemma event_names [simp]: "EventProcessed \<noteq> EventBalance" "EventRejected \<noteq> EventBalance" "EventPendingRef \<noteq> EventBalance"
  by (simp_all add: EventProcessed_def EventRejected_def EventPendingRef_def EventBalance_def)

lemma mirrored_quiet:
  "mirrored E T \<Longrightarrow> ledger T' = ledger T \<Longrightarrow> outbox T' = outbox T @ bs \<Longrightarrow> \<forall>b \<in> set bs. b_type b \<noteq> EventBalance \<Longrightarrow> mirrored E T'"
  by (simp add: mirrored_def balance_events_def)

lemma mirrored_one:
  "mirrored E T \<Longrightarrow> ledger T' = ledger T \<Longrightarrow> ty \<noteq> EventBalance \<Longrightarrow> b_type b = ty \<Longrightarrow> outbox T' = outbox T @ [b] \<Longrightarrow> mirrored E T'"
  by (erule mirrored_quiet) auto

lemma mirrored_moved:
  assumes "mirrored E T" "ledger T' = ledger T @ [l]" "outbox T' = outbox T @ [b, c]" "b_type b \<noteq> EventBalance" "balance_news E l c"
  shows "mirrored E T'"
proof -
  have "b_type c = EventBalance" using assms(5) by (simp add: balance_news_def)
  with assms show ?thesis by (simp add: mirrored_def balance_events_def list_all2_appendI)
qed

lemma mirrored_still:
  assumes m: "mirrored E T" and s: "still T T'"
  shows "mirrored E T'"
proof -
  let ?P = "\<lambda>(ty, a, p). ty = EventBalance"
  let ?news = "\<lambda>l n. balance_news E l \<lparr>b_event = [], b_aggregate = fst (snd n), b_type = fst n, b_payload = snd (snd n),
    b_occurred = 0, b_attempts = 0, b_next = 0, b_published = None, b_owner = None, b_lease = None\<rparr>"
  have news: "balance_news E l b = ?news l (notice b)" for l b by (simp add: balance_news_def notice_def)
  have "map notice (balance_events bs) = filter ?P (map notice bs)" for bs
    by (simp add: balance_events_def filter_map comp_def notice_def)
  then have "map notice (balance_events (outbox T')) = map notice (balance_events (outbox T))" "ledger T' = ledger T"
    using s by (simp_all add: still_def)
  moreover have "mirrored E S \<longleftrightarrow> list_all2 ?news (ledger S) (map notice (balance_events (outbox S)))" for S
    unfolding mirrored_def list_all2_map2 by (subst news [abs_def]) (rule refl)
  ultimately show ?thesis using m by simp
qed

section \<open>The entry and its event\<close>

text \<open>An entry that was checked, stored and announced with the balances it was made of.\<close>

lemma balance_newsI:
  assumes e: "NewLedgerEntry en wid tid d amount before after v = Inr e" and l: "stored_ledger E (toLedgerRecord e) l"
    and b: "b_type b = EventBalance" "e_uuid E wid = Some (b_aggregate b)"
      "b_payload b = mustEventPayload eid EventBalance wid corr t v [(''walletId'', JStr wid), (''transactionId'', JStr tid),
         (''direction'', JStr (direction_text d)), (''money'', amt), (''balanceBefore'', JStr (money_String before)),
         (''balanceAfter'', JStr (money_String after)), (''walletVersion'', JInt (sint v))]"
  shows "balance_news E l b"
proof -
  note n = NewLedgerEntry_InrD [OF e] and s = stored_ledgerD [OF l]
  have "mk_money (minor before) (currency amount) = before" "mk_money (minor after) (currency amount) = after"
    using n(9,10) by (simp_all add: mk_money_def)
  then have "balance_data wid tid amt l = [(''walletId'', JStr wid), (''transactionId'', JStr tid),
      (''direction'', JStr (direction_text d)), (''money'', amt), (''balanceBefore'', JStr (money_String before)),
      (''balanceAfter'', JStr (money_String after)), (''walletVersion'', JInt (sint v))]"
    using s(4,6-9) n(1) by (simp add: balance_data_def toLedgerRecord_def)
  moreover have u: "e_uuid E wid = Some (l_wallet l)" "e_uuid E tid = Some (l_tx l)" "l_version l = v"
    using s(2,3,9) n(1) by (simp_all add: toLedgerRecord_def)
  ultimately have "b_payload b = mustEventPayload eid EventBalance wid corr t (l_version l) (balance_data wid tid amt l)"
    using b(3) by simp
  moreover have "b_aggregate b = l_wallet l" using b(2) u(1) by simp
  ultimately show ?thesis using b(1) u(1,2) unfolding balance_news_def by blast
qed

lemma tspec_emitProcessed_moved:
  assumes "NewLedgerEntry en (w_id w) tid d amount before after (w_version w) = Inr e" "stored_ledger E (toLedgerRecord e) l"
    and Q: "\<And>b c. b_type b \<noteq> EventBalance \<Longrightarrow> balance_news E l c \<Longrightarrow> Q () (T\<lparr>outbox := outbox T @ [b, c]\<rparr>)"
  shows "tspec (emitProcessed E w tid i after before d) T Q R"
proof -
  have d: "d \<noteq> DirectionOther []" using NewLedgerEntry_InrD(5) [OF assms(1)] by auto
  show ?thesis
    unfolding emitProcessed_def Let_def if_not_P [OF d]
  proof (intro tspec_bind tspec_now tspec_newID tspec_EnqueueOutbox sticky_intros, goal_cases)
    case (1 t n b m c)
    then show ?case
      using Q [of b c] balance_newsI [OF assms(1,2)] by (simp add: new_outbox_def)
  qed
qed

section \<open>The outcomes\<close>

lemma mirrored_processed: "upholds (mirrored E) (processed E oc i w before after ref d)"
proof (rule upholdsI)
  fix T assume T: "mirrored E T"
  show "tspec (processed E oc i w before after ref d) T (\<lambda>_. mirrored E) (\<lambda>_. mirrored E)"
    unfolding processed_def
    by (intro tspec_bind tspec_newID tspec_lift_domain tspec_insertTx tspec_ledger_Append tspec_UpdateBalance
        tspec_emitProcessed_moved tspec_ret sticky_intros T; (assumption | (rule mirrored_moved [OF T]; simp)))
qed

lemma mirrored_settleProcessed: "upholds (mirrored E) (settleProcessedExisting E w q i ref d before after)"
proof (rule upholdsI)
  fix T assume T: "mirrored E T"
  show "tspec (settleProcessedExisting E w q i ref d before after) T (\<lambda>_. mirrored E) (\<lambda>_. mirrored E)"
    unfolding settleProcessedExisting_def Let_def
    by (intro tspec_bind tspec_newID tspec_lift_domain tspec_UpdateState tspec_ledger_Append tspec_UpdateBalance
        tspec_emitProcessed_moved tspec_DeleteWork sticky_intros T; (assumption | (rule mirrored_moved [OF T]; simp)))
qed

lemma mirrored_fund_wallet: "upholds (mirrored E) (fund_wallet E w p c s m)"
proof (rule upholdsI)
  fix T assume T: "mirrored E T"
  show "tspec (fund_wallet E w p c s m) T (\<lambda>_. mirrored E) (\<lambda>_. mirrored E)"
    unfolding fund_wallet_def Let_def
  proof (intro tspec_bind tspec_newID tspec_now tspec_lift_domain tspec_tx_Insert tspec_ledger_Append tspec_EnqueueOutbox
      sticky_intros T, goal_cases)
    case (1 tid t en e x l n b m' c')
    have "balance_news E l c'"
      by (rule balance_newsI [OF 1(1) 1(6)]) (use 1 in \<open>simp_all add: new_outbox_def opening_bal_data_def\<close>)
    moreover have "b_type b \<noteq> EventBalance" using 1 by (simp add: new_outbox_def)
    ultimately show ?case using mirrored_moved [OF T] by simp
  qed
qed

text \<open>The other outcomes write no entry and no event of that type.\<close>

lemma mirrored_rejected: "upholds (mirrored E) (rejected E oc i w c ref)"
proof (rule upholdsI)
  fix T assume T: "mirrored E T"
  show "tspec (rejected E oc i w c ref) T (\<lambda>_. mirrored E) (\<lambda>_. mirrored E)"
    unfolding rejected_def Let_def
    by (intro tspec_bind tspec_insertTx tspec_emitRejected tspec_ret sticky_intros; rule mirrored_one [OF T]; (assumption | simp))
qed

lemma mirrored_parkReference: "upholds (mirrored E) (parkReference E oc i t w)"
proof (rule upholdsI)
  fix T assume T: "mirrored E T"
  show "tspec (parkReference E oc i t w) T (\<lambda>_. mirrored E) (\<lambda>_. mirrored E)"
    unfolding parkReference_def
    by (intro tspec_bind tspec_insertTx tspec_emitPendingRef tspec_EnqueueWork tspec_ret sticky_intros;
        rule mirrored_one [OF T]; (assumption | simp))
qed

lemma mirrored_applyLoss: "upholds (mirrored E) (applyLoss E oc i w)"
proof (rule upholdsI)
  fix T assume T: "mirrored E T"
  have quiet: "\<forall>b \<in> set bs. b_type b \<noteq> EventBalance" if "map b_type bs = event_types (DirectionOther [])" for bs :: "outbox_row list"
    using that by (auto simp: event_types_def)
  show "tspec (applyLoss E oc i w) T (\<lambda>_. mirrored E) (\<lambda>_. mirrored E)"
    unfolding applyLoss_def Let_def
    by (intro tspec_bind tspec_insertTx tspec_emitProcessed tspec_ret sticky_intros; rule mirrored_quiet [OF T];
        (erule quiet | simp))
qed

lemma mirrored_settleRejected: "upholds (mirrored E) (settleRejectedExisting E w q i ref c)"
proof (rule upholdsI)
  fix T assume T: "mirrored E T"
  show "tspec (settleRejectedExisting E w q i ref c) T (\<lambda>_. mirrored E) (\<lambda>_. mirrored E)"
    unfolding settleRejectedExisting_def Let_def
    by (intro tspec_bind tspec_UpdateState tspec_emitRejected tspec_DeleteWork sticky_intros; rule mirrored_one [OF T]; (assumption | simp))
qed

interpretation mirrored: outbox_invariant E "mirrored E" for E
proof unfold_locales
  show "mirrored E empty_tables" by (simp add: mirrored_def balance_events_def empty_tables_def)
qed (rule mirrored_still mirrored_processed mirrored_rejected mirrored_parkReference mirrored_applyLoss
  mirrored_settleProcessed mirrored_settleRejected mirrored_fund_wallet; assumption?)+

section \<open>The guarantee\<close>

text \<open>C14. The outbox mirrors the ledger. In every reachable store the events of type \<^verbatim>\<open>WalletBalanceChanged\<close>, in the order in
  which they were staged, correspond one to one to the entries of the ledger: each is grouped by the wallet of its
  entry and carries the entry's transaction, direction, balances before and after and wallet version. No movement of
  money goes unannounced, none is announced twice, and no event is about a movement that was rolled back.\<close>

theorem reachable_outbox_mirrors_ledger:
  assumes "reachable E T"
  shows "list_all2 (\<lambda>l b. b_aggregate b = l_wallet l \<and> (\<exists>eid wid tid corr t amt. e_uuid E wid = Some (l_wallet l) \<and>
      e_uuid E tid = Some (l_tx l) \<and> b_payload b = mustEventPayload eid EventBalance wid corr t (l_version l)
        [(''walletId'', JStr wid), (''transactionId'', JStr tid), (''direction'', JStr (direction_text (l_direction l))),
         (''money'', amt), (''balanceBefore'', JStr (money_String (mk_money (l_before l) (l_currency l)))),
         (''balanceAfter'', JStr (money_String (mk_money (l_after l) (l_currency l)))),
         (''walletVersion'', JInt (sint (l_version l)))]))
    (ledger T) (filter (\<lambda>b. b_type b = EventBalance) (outbox T))"
  using mirrored.reachable_holds [OF assms] unfolding mirrored_def balance_events_def
  by (rule list_all2_mono) (simp add: balance_news_def balance_data_def)

lemma reachable_outbox_mirrors_ledger_witness:
  "\<exists>T x l b. reachable demo_env T \<and> x \<in> set (txs T) \<and> t_kind x = KindBet \<and> l \<in> set (ledger T) \<and> l_tx l = t_id x \<and>
     b \<in> set (outbox T) \<and> b_type b = EventBalance \<and> b_aggregate b = l_wallet l"
proof -
  obtain T x where x: "reachable demo_env T" "x \<in> set (txs T)" "t_state x = StateProcessed" "t_kind x = KindBet"
    by (rule demo_processed_row)
  have "entries_ok (txs T) (ledger T)" using reachable_good [OF x(1)] soundD(6) by (simp add: good_def)
  with x obtain l where l: "l \<in> set (ledger T)" "l_tx l = t_id x" by (auto simp: entries_ok_def)
  then obtain n where n: "n < length (ledger T)" "ledger T ! n = l" by (auto simp: in_set_conv_nth)
  let ?bs = "filter (\<lambda>b. b_type b = EventBalance) (outbox T)"
  note m = reachable_outbox_mirrors_ledger [OF x(1)]
  have "b_aggregate (?bs ! n) = l_wallet l" using list_all2_nthD [OF m n(1)] n(2) by simp
  moreover have "?bs ! n \<in> set ?bs" using list_all2_lengthD [OF m] n(1) by (intro nth_mem) simp
  ultimately show ?thesis using x l by auto
qed

end
