(* ===== verification/Observability.thy ===== *)
theory Observability
  imports Http_Api Sqs_Consumer
begin

text \<open>
  What a request leaves behind besides its effects: the log record, the span and the metric labels that the
  middlewares of \<^verbatim>\<open>internal/adapters/http\<close> write after the handler, and the spans of \<^verbatim>\<open>internal/obs\<close>. They
  are written once and never read, so the handlers are modelled without them; here they are functions
  of the request and its response.
\<close>

section \<open>Routes\<close>

text \<open>The method and the template of each route, as \<^verbatim>\<open>c.FullPath\<close> gives them.\<close>

fun RegisterRoutes :: "route \<Rightarrow> string \<times> string" where
  "RegisterRoutes Live = (''GET'', ''/health/live'')"
| "RegisterRoutes Ready = (''GET'', ''/health/ready'')"
| "RegisterRoutes (PostWallets _) = (''POST'', ''/wallets'')"
| "RegisterRoutes (GetWallet _) = (''GET'', ''/wallets/:id'')"
| "RegisterRoutes (GetLedger _ _ _) = (''GET'', ''/wallets/:id/ledger'')"
| "RegisterRoutes (GetReconciliation _) = (''GET'', ''/wallets/:id/reconciliation'')"
| "RegisterRoutes (PostTransactions _ _) = (''POST'', ''/wagering/transactions'')"
| "RegisterRoutes (GetTransaction _) = (''GET'', ''/wagering/transactions/:id'')"
| "RegisterRoutes (GetProviderTransaction _ _) = (''GET'',
     ''/providers/:providerId/wagering/transactions/:externalTransactionId'')"

definition templates :: "(string \<times> string) list" where
  "templates = map RegisterRoutes [Live, Ready, PostWallets None, GetWallet [], GetLedger [] [] [], GetReconciliation [],
     PostTransactions [] None, GetTransaction [], GetProviderTransaction [] []]"

section \<open>Spans\<close>

text \<open>A span is the list of the calls that the code makes on it.\<close>

datatype span_call = SpanStart string "(string \<times> hval) list" | SpanName string | SpanAttributes "(string \<times> hval) list" | SpanEnd

definition CorrelationAttr :: string where "CorrelationAttr = ''correlationId''"

definition obs_Start :: "string \<Rightarrow> string \<Rightarrow> (string \<times> hval) list \<Rightarrow> span_call" where
  "obs_Start name correlationID attrs = SpanStart name ((CorrelationAttr, HStr correlationID) # attrs)"

section \<open>The middlewares\<close>

text \<open>What the middlewares read of gin's context after the handler: \<open>c_path\<close> is empty where no route matched, and
  \<open>c_ident\<close> is what \<^verbatim>\<open>AuthMiddleware\<close> has set.\<close>

record gin_context =
  c_method :: string
  c_path :: string
  c_status :: nat
  c_corr :: string
  c_ident :: "identity option"

definition provider_attr :: "gin_context \<Rightarrow> (string \<times> hval) list" where
  "provider_attr c = (case c_ident c of None \<Rightarrow> []
     | Some i \<Rightarrow> if id_provider i \<noteq> [] then [(''providerId'', HStr (id_provider i))] else [])"

definition RequestLogger :: "gin_context \<Rightarrow> int \<Rightarrow> (string \<times> hval) list" where
  "RequestLogger c ms = [(''method'', HStr (c_method c)), (''route'', HStr (c_path c)), (''status'', HInt (int (c_status c))),
     (''latencyMs'', HInt ms), (''correlationId'', HStr (c_corr c))] @ provider_attr c"

definition route_label :: "gin_context \<Rightarrow> string" where
  "route_label c = (if c_path c = [] then ''unknown'' else c_path c)"

text \<open>A span is started before the handler, named and completed after it, and ended in any case.\<close>

definition TracingMiddleware :: "gin_context \<Rightarrow> bool \<Rightarrow> span_call list" where
  "TracingMiddleware c returned = [obs_Start (''HTTP '' @ c_method c) (c_corr c) []] @
     (if returned then [SpanName (c_method c @ '' '' @ route_label c),
         SpanAttributes [(''http.route'', HStr (route_label c)), (''http.status_code'', HInt (int (c_status c)))]] @
       (if provider_attr c \<noteq> [] then [SpanAttributes (provider_attr c)] else [])
      else []) @ [SpanEnd]"

definition MetricsMiddleware :: "gin_context \<Rightarrow> string \<times> string \<times> string" where
  "MetricsMiddleware c = (c_method c, route_label c, statusClass (c_status c))"

record observation =
  ob_span :: "span_call list"
  ob_log :: "(string \<times> hval) list option"
  ob_labels :: "(string \<times> string \<times> string) option"

text \<open>\<^verbatim>\<open>NewEngine\<close> nests them: a panic of the handler passes through all of them to gin's recovery, so that only the
  deferred end of the span still runs.\<close>

definition observe :: "gin_context \<Rightarrow> bool \<Rightarrow> int \<Rightarrow> observation" where
  "observe c returned ms = \<lparr>ob_span = TracingMiddleware c returned,
     ob_log = (if returned then Some (RequestLogger c ms) else None),
     ob_labels = (if returned then Some (MetricsMiddleware c) else None)\<rparr>"

definition IdentityFrom :: "validator \<Rightarrow> http_request \<Rightarrow> identity option" where
  "IdentityFrom V q = (case r_route q of Live \<Rightarrow> None | Ready \<Rightarrow> None | _ \<Rightarrow> AuthMiddleware V (r_authorization q))"

definition context_of :: "validator \<Rightarrow> http_request \<Rightarrow> string \<Rightarrow> response \<Rightarrow> gin_context" where
  "context_of V q corr resp = \<lparr>c_method = fst (RegisterRoutes (r_route q)), c_path = snd (RegisterRoutes (r_route q)),
     c_status = h_status resp, c_corr = corr, c_ident = IdentityFrom V q\<rparr>"

text \<open>The bare 500 is gin's answer to a panic; what the handlers themselves answer has a body.\<close>

definition recovered :: "response \<Rightarrow> bool" where
  "recovered resp \<longleftrightarrow> h_status resp = 500 \<and> h_body resp = HMap []"

definition serve_observed ::
    "env \<Rightarrow> validator \<Rightarrow> bool option \<Rightarrow> int \<Rightarrow> http_request \<Rightarrow> (response \<times> observation) action" where
  "serve_observed E V check ms q = bind (correlation E (r_correlation q)) (\<lambda>corr.
     bind (route_request E V check corr q) (\<lambda>resp.
     ret (resp\<lparr>h_headers := (''X-Correlation-Id'', corr) # h_headers resp\<rparr>,
       observe (context_of V q corr resp) (\<not> recovered resp) ms)))"

text \<open>The span of a delivery; a body that is no envelope has none.\<close>

definition Handle_span :: "decoder \<Rightarrow> message \<Rightarrow> serr + submit_result \<Rightarrow> span_call list" where
  "Handle_span dec msg res = (case ParseEnvelope dec (g_body msg) of
     Inl _ \<Rightarrow> []
   | Inr v \<Rightarrow> [obs_Start ''sqs handle'' (if v_correlation v = [] then g_id msg else v_correlation v)
         [(''messageId'', HStr (g_id msg))]] @
       (case res of
          Inr r \<Rightarrow> [SpanAttributes [(''outcome'', HStr (submitOutcome r))]]
        | Inl (ErrPoison _ _ _) \<Rightarrow> [SpanAttributes [(''outcome'', HStr ''poison'')]]
        | Inl _ \<Rightarrow> []) @ [SpanEnd])"

text \<open>The outcome on the span of a delivery is the label that the delivery is counted under.\<close>

lemma Handle_span_label:
  assumes "Handle E dec b msg w = (Inr h, w')" "ParseEnvelope dec (g_body msg) = Inr v"
    and "SpanAttributes as \<in> set (Handle_span dec msg (fst (Submit E (message_input msg v) w)))"
  shows "as = [(''outcome'', HStr (n_label h))]"
  using assms
  by (cases "Submit E (message_input msg v) w")
    (auto simp: Handle_def Handle_span_def obs_Start_def bind_def attempt_def ret_def discard_def Let_def
      split: sum.splits serr.splits if_splits)

section \<open>One correlation id\<close>

lemma serve_observed_serve:
  "serve E V check q w = (case serve_observed E V check ms q w of (r, w') \<Rightarrow> (map_sum id fst r, w'))"
  by (simp add: serve_def serve_observed_def bind_def ret_def split: prod.splits sum.splits)

lemma span_correlation:
  "\<exists>n as. hd (TracingMiddleware c returned) = SpanStart n as \<and> map_of as ''correlationId'' = Some (HStr (c_corr c))"
  "last (TracingMiddleware c returned) = SpanEnd"
  by (simp_all add: TracingMiddleware_def obs_Start_def CorrelationAttr_def)

lemma log_correlation: "map_of (RequestLogger c ms) ''correlationId'' = Some (HStr (c_corr c))"
  by (simp add: RequestLogger_def)

text \<open>One id ties a request together. Whatever a request does, its response carries a correlation id, its span carries
  the same one, and a request whose handler returned has a log record with that id and with the status of
  the response, which is also the status that its metric is counted under.\<close>

theorem serve_observed_correlated:
  assumes "serve_observed E V check ms q w = (Inr (resp, ob), w')"
  shows "\<exists>corr. map_of (h_headers resp) ''X-Correlation-Id'' = Some corr \<and>
    (\<exists>n as. hd (ob_span ob) = SpanStart n as \<and> map_of as ''correlationId'' = Some (HStr corr)) \<and> last (ob_span ob) = SpanEnd \<and>
    (if recovered resp then ob_log ob = None \<and> ob_labels ob = None
     else \<exists>rec. ob_log ob = Some rec \<and> map_of rec ''correlationId'' = Some (HStr corr) \<and>
       map_of rec ''status'' = Some (HInt (int (h_status resp))) \<and>
       ob_labels ob = Some (fst (RegisterRoutes (r_route q)), snd (RegisterRoutes (r_route q)), statusClass (h_status resp)))"
proof -
  from assms obtain corr r where r: "resp = r\<lparr>h_headers := (''X-Correlation-Id'', corr) # h_headers r\<rparr>"
    "ob = observe (context_of V q corr r) (\<not> recovered r) ms"
    by (auto simp: serve_observed_def bind_def ret_def split: prod.splits sum.splits)
  have "snd (RegisterRoutes x) \<noteq> []" for x by (cases x) simp_all
  then have "route_label (context_of V q corr r) = snd (RegisterRoutes (r_route q))" by (simp add: route_label_def context_of_def)
  moreover have "recovered resp = recovered r" by (simp add: r(1) recovered_def)
  moreover have "c_corr (context_of V q corr r) = corr" by (simp add: context_of_def)
  ultimately show ?thesis
    using span_correlation(1) [of "context_of V q corr r" "\<not> recovered r"] unfolding r(2)
    by (simp add: r(1) observe_def span_correlation(2) log_correlation MetricsMiddleware_def RequestLogger_def) (simp add: context_of_def)
qed

section \<open>What is not written\<close>

text \<open>The label sets stay finite: nine templates and the unmatched one, and four classes of status.\<close>

lemma templates_all: "RegisterRoutes r \<in> set templates"
  by (cases r) (simp_all add: templates_def)

theorem labels_bounded:
  assumes "serve_observed E V check ms q w = (Inr (resp, ob), w')" "ob_labels ob = Some (m, p, c)"
  shows "(m, p) \<in> set templates \<and> c \<in> {''2xx'', ''3xx'', ''4xx'', ''5xx''}"
proof -
  have "m = fst (RegisterRoutes (r_route q)) \<and> p = snd (RegisterRoutes (r_route q)) \<and> c = statusClass (h_status resp)"
    using serve_observed_correlated [OF assms(1)] assms(2) by (auto split: if_splits)
  then show ?thesis using templates_all [of "r_route q"] by (auto simp: statusClass_def)
qed

text \<open>No credential is written: log, span and labels depend on the authorization header only through the provider id
  of the identity that it stands for.\<close>

theorem observed_without_credentials:
  assumes "map_option id_provider (IdentityFrom V q) = map_option id_provider (IdentityFrom V' q')" "r_route q = r_route q'"
  shows "observe (context_of V q corr resp) b ms = observe (context_of V' q' corr resp) b ms"
proof -
  let ?c = "context_of V q corr resp" and ?d = "context_of V' q' corr resp"
  have "c_method ?c = c_method ?d" "c_path ?c = c_path ?d" "c_status ?c = c_status ?d" "c_corr ?c = c_corr ?d"
    using assms(2) by (simp_all add: context_of_def)
  moreover have "provider_attr ?c = provider_attr ?d"
    using assms(1) by (cases "IdentityFrom V q"; cases "IdentityFrom V' q'") (simp_all add: provider_attr_def context_of_def)
  ultimately show ?thesis
    by (simp add: observe_def TracingMiddleware_def RequestLogger_def MetricsMiddleware_def route_label_def cong: if_cong)
qed

section \<open>Panics\<close>

text \<open>A handler that is left by an answer of its own is not taken for one that panicked.\<close>

lemma not_recovered [simp]:
  "\<not> recovered (abortError code c)" "\<not> recovered writeInfraError" "\<not> recovered (writeServiceError e)"
  "recovered (respond 500 (HMap []))" "code \<noteq> 500 \<Longrightarrow> \<not> recovered (respond code body)"
  by (auto simp: recovered_def abortError_def respond_def writeInfraError_def writeServiceError_def split: serr.splits)

lemma answer_recovered:
  assumes "answer m bad good_reply w = (Inr resp, w')" "\<And>e. \<not> recovered (bad e)" "\<And>x. \<not> recovered (good_reply x)"
  shows "recovered resp \<longleftrightarrow> fst (m w) = Inl (ErrOther ''panic'')"
  using assms by (cases "m w") (auto simp: answer_def bind_def attempt_def ret_def split: sum.splits if_splits)

end
