(* ===== verification/Lock_Waits.thy ===== *)
theory Lock_Waits
  imports Concurrency
begin

text \<open>
  Waiting for the row lock of a wallet. A transaction that has read something waits in \<^verbatim>\<open>LockForUpdate\<close> while the
  holder of the lock commits; at PostgreSQL's default isolation its later statements see what was committed
  meanwhile, but what it has read before is not read again. \<^verbatim>\<open>Submit\<close> reads nothing before the lock;
  \<^verbatim>\<open>processWorkItem\<close> reads the row that it settles. That is correct as long as nobody settles the row during the
  wait, and it is not otherwise: the outcome of a settled transaction is overwritten.
\<close>

section \<open>Transactions that wait\<close>

text \<open>The end of a transaction that began over the tables \<open>T\<close>, or to which \<open>T\<close> was committed by others.\<close>

definition commit :: "env \<Rightarrow> tables \<Rightarrow> (serr + 'a) \<times> world \<Rightarrow> (serr + 'a) \<times> world" where
  "commit E T r = (case r of
       (Inl e, w) \<Rightarrow> (Inl e, tock (w\<lparr>tabs := T, aborted := False\<rparr>))
     | (Inr x, w) \<Rightarrow>
       if aborted w then (Inl (ErrDb TxAborted), tock (w\<lparr>tabs := T, aborted := False\<rparr>))
       else if e_fault E (tick w) then (Inl (ErrDb Unavailable), tock (w\<lparr>tabs := T\<rparr>))
       else (Inr x, tock w))"

lemma transact_commit:
  "transact E m w = (if e_fault E (tick w) then (Inl (ErrDb Unavailable), tock w)
   else commit E (tabs w) (m (tock (w\<lparr>aborted := False\<rparr>))))"
  by (simp add: transact_def commit_def)

text \<open>\<open>first\<close> only reads; while the transaction waits, \<open>others\<close> run and commit; then \<open>rest\<close> runs.\<close>

definition transact_waiting :: "env \<Rightarrow> 'a action \<Rightarrow> 'c action \<Rightarrow> ('a \<Rightarrow> 'b action) \<Rightarrow> 'b action" where
  "transact_waiting E first others rest w =
    (if e_fault E (tick w) then (Inl (ErrDb Unavailable), tock w)
     else case first (tock (w\<lparr>aborted := False\<rparr>)) of
       (Inl e, w1) \<Rightarrow> commit E (tabs w) (Inl e, w1)
     | (Inr x, w1) \<Rightarrow>
       (let w2 = snd (others (w1\<lparr>tabs := tabs w, aborted := False\<rparr>))
        in commit E (tabs w2) (rest x (w2\<lparr>aborted := aborted w1\<rparr>))))"

text \<open>\<^verbatim>\<open>processWorkItem\<close> with a wait for the wallet between the read of the row and the rest.\<close>

definition processWorkItem_waiting :: "env \<Rightarrow> work_item \<Rightarrow> 'c action \<Rightarrow> bool action" where
  "processWorkItem_waiting E item others =
    transact_waiting E (attempt (tx_Get E (wi_tx item))) others (finish_item E item)"

lemma transact_waiting_nobody:
  assumes "\<And>v. tabs (snd (first v)) = tabs v"
  shows "transact_waiting E first (ret x) rest = transact E (bind first rest)"
proof (rule ext)
  fix w :: world
  let ?v = "tock (w\<lparr>aborted := False\<rparr>)"
  obtain r w1 where f: "first ?v = (r, w1)" by fastforce
  have t: "tabs w1 = tabs w" using assms [of ?v] f by simp
  then have e: "w1\<lparr>tabs := tabs w\<rparr> = w1" by (cases w1) simp
  show "transact_waiting E first (ret x) rest w = transact E (bind first rest) w"
    by (cases r) (auto simp: transact_waiting_def transact_commit bind_def ret_def Let_def f, simp only: e)
qed

lemma tx_Get_reads: "tabs (snd (attempt (tx_Get E i) v)) = tabs v"
  by (auto simp: tx_Get_def sql_find_tx_def attempt_def absent_if_invalid_def stmt_def bind_def ret_def fail_def rbind_def
      split: sum.splits prod.splits)

lemma nobody_waited: "processWorkItem_waiting E item (ret ()) = processWorkItem E item"
  unfolding processWorkItem_waiting_def processWorkItem_finish by (rule transact_waiting_nobody) (rule tx_Get_reads)

section \<open>A wait without interference\<close>

lemma commit_cases:
  assumes "tspec m T Q (\<lambda>_ _. True)" "tabs w = T" "commit E T (m w) = (res, w')" "aborted w \<Longrightarrow> aborted (snd (m w))"
  shows "\<not> aborted w' \<and> (case res of Inl e \<Rightarrow> tabs w' = T | Inr x \<Rightarrow> Q x (tabs w'))"
proof (cases "m w")
  case (Pair r v)
  show ?thesis
  proof (cases "aborted v")
    case True
    then show ?thesis using assms(3) Pair by (auto simp: commit_def split: sum.splits)
  next
    case False
    then have "\<not> aborted w" using assms(4) Pair by auto
    then have "case r of Inl e \<Rightarrow> True | Inr x \<Rightarrow> Q x (tabs v)"
      using assms(1,2) Pair False unfolding tspec_def by (metis fst_conv snd_conv)
    then show ?thesis using assms(3) Pair False by (auto simp: commit_def split: sum.splits if_splits)
  qed
qed

text \<open>An error of the read aborts the transaction, so one that goes on has the row.\<close>

lemma tx_Get_row:
  assumes "\<not> aborted v" "attempt (tx_Get E i) v = (Inr r, w1)" "\<not> aborted w1"
  shows "\<exists>u. e_uuid E i = Some u \<and> r = Inr (tbl_find t_id u (txs (tabs v)))"
  using assms by (auto simp: tx_Get_def attempt_def absent_if_invalid_def stmt_def bind_def ret_def fail_def rbind_def
      sql_find_tx_def uuid_in_def split: sum.splits prod.splits option.splits if_splits)

text \<open>C16. An item that had to wait for its wallet is settled correctly when nobody touched its transaction during the wait.
  Whatever committed in between (calls of the service), if the row of the item is as it was read, the
  transaction makes steps of the machine from the tables as they are after the wait, and the store stays sound.
  Without a wait this is the code's transaction.\<close>

theorem waiting_item_safe:
  assumes "idle E w" "calls E others"
    and row: "\<And>v u. tabs v = tabs w \<Longrightarrow> e_uuid E (wi_tx item) = Some u \<Longrightarrow>
      tbl_find t_id u (txs (tabs (snd (others v)))) = tbl_find t_id u (txs (tabs w))"
    and "processWorkItem_waiting E item others w = (res, w')"
  shows "machine\<^sup>*\<^sup>* (tabs w) (tabs w') \<and> idle E w' \<and> processWorkItem_waiting E item (ret ()) = processWorkItem E item"
proof -
  have g: "good E (tabs w)" "\<not> aborted w" using assms(1) by (simp_all add: idle_def)
  have "progress E (tabs w) (tabs w') \<and> \<not> aborted w'"
  proof (cases "e_fault E (tick w)")
    case True
    then show ?thesis using assms(4) g by (auto simp: processWorkItem_waiting_def transact_waiting_def progress_refl)
  next
    case False
    let ?v = "tock (w\<lparr>aborted := False\<rparr>)"
    obtain r w1 where f: "attempt (tx_Get E (wi_tx item)) ?v = (Inr r, w1)" by (simp add: attempt_def)
    define v where "v = w1\<lparr>tabs := tabs w, aborted := False\<rparr>"
    define w2 where "w2 = snd (others v)"
    have v: "tabs v = tabs w" "\<not> aborted v" by (simp_all add: v_def)
    then have "(serves E)\<^sup>*\<^sup>* v w2" "idle E v" using callsD [OF assms(2)] g(1) by (simp_all add: w2_def idle_def)
    then have w2: "progress E (tabs w) (tabs w2)" "good E (tabs w2)" using runs_progress v by (fastforce simp: idle_def)+
    have c: "commit E (tabs w2) (finish_item E item r (w2\<lparr>aborted := aborted w1\<rparr>)) = (res, w')"
      using assms(4) False f by (simp add: processWorkItem_waiting_def transact_waiting_def v_def w2_def Let_def)
    have t: "tspec (finish_item E item r) (tabs w2) (\<lambda>_ T'. progress E (tabs w2) T') (\<lambda>_ _. True)" if a: "\<not> aborted w1"
    proof -
      obtain u where "e_uuid E (wi_tx item) = Some u" "r = Inr (tbl_find t_id u (txs (tabs w)))"
        using tx_Get_row [OF _ f a] by auto
      then show ?thesis using tspec_finish_item [OF w2(2)] row [OF v(1)] by (metis w2_def)
    qed
    show ?thesis
    proof (cases "aborted w1")
      case True
      then have "aborted (snd (finish_item E item r (w2\<lparr>aborted := aborted w1\<rparr>)))"
        using sticky_finish_item [of E item r] by (simp add: sticky_def)
      then show ?thesis using c w2(1) by (auto simp: commit_def split: prod.splits sum.splits)
    next
      case False
      have "\<not> aborted w' \<and> (case res of Inl e \<Rightarrow> tabs w' = tabs w2 | Inr x \<Rightarrow> progress E (tabs w2) (tabs w'))"
        by (rule commit_cases [OF t [OF False] _ c]) (simp_all add: False)
      then show ?thesis using w2 progress_trans by (auto split: sum.splits)
    qed
  qed
  then show ?thesis using progress_good [OF g(1)] by (auto simp: idle_def progress_def nobody_waited)
qed

end
