(* ===== verification/Lock_Race.thy ===== *)
theory Lock_Race
  imports Lock_Waits
begin

text \<open>
  A run in which an item waits for the lock of its wallet while its transaction is settled by another one, evaluated
  statement by statement: a refund is parked for a bet that has not arrived, the bet arrives, a worker reads the
  parked refund, and the re-evaluation that follows the bet commits before the worker gets the lock.
\<close>

section \<open>The run\<close>

definition refund_in :: submit_input where
  "refund_in = demo_bet\<lparr>s_external := ''x2'', s_key := ''k2'', s_kind := KindRefund, s_ref := ''x1''\<rparr>"

lemma wp_transact: "wp (transact E m) Q R w = (if e_fault E (tick w) then R (ErrDb Unavailable) (tock w) else
   wp m (\<lambda>x w'. if aborted w' then R (ErrDb TxAborted) (tock (w'\<lparr>tabs := tabs w, aborted := False\<rparr>))
       else if e_fault E (tick w') then R (ErrDb Unavailable) (tock (w'\<lparr>tabs := tabs w\<rparr>)) else Q x (tock w'))
     (\<lambda>e w'. R e (tock (w'\<lparr>tabs := tabs w, aborted := False\<rparr>))) (tock (w\<lparr>aborted :=
         False\<rparr>)))"
  by (simp add: wp_def transact_def split: prod.splits sum.splits)

lemma money_ok: "validCurrency ''BRL''" by code_simp
lemma demo_env_sure: "e_fault demo_env n = False" "e_uuid demo_env s = (if s = [] then None else Some s)" "e_ids demo_env
    n = replicate (Suc n) CHR ''a''"
  by (simp_all add: demo_env_def)
lemmas store_rules = ok_simps wp_stmt demo_env_sure LockForUpdate_def absent_if_invalid_def FindByProviderExternal_def
    sql_find_wallet_def uuid_in_def rbind_def
   find_by_external_def

lemmas reversal_rules = resumeApply_def resumeReversal_def reversalOperation_def referenceView_def
    ValidateReferenceAgreement_def money_or_zero_def NewMoneyFromMinor_def money_ok
    mustMinor_def activeWin_def HasActiveWin_def sql_has_active_win_def money_Cmp_def money_Equal_def
        ValidateReversalTarget_def targetDomain_def RehydrateTransaction_def
    IsReversalKind_def reversalDirection_def reversalMovement_def Credit_def checkParty_def money_Add_def settle_true_def
        settleProcessedExisting_def
    NewLedgerEntry_def IsPositive_def UpdateState_def sql_update_state_def uuid_opt_in_def tx_ref_ok_def tbl_modify_def
        ledger_Append_def sql_append_ledger_def
    toLedgerRecord_def ledger_checks_def tbl_add_def UpdateBalance_def sql_update_balance_def emitProcessed_def
        EnqueueOutbox_def sql_insert_outbox_def new_outbox_def
    DeleteWork_def markTarget_def MarkReversed_def sql_mark_reversed_def demo_entry_def IsNegative_def rebuiltInput_def
lemmas dependent_rules = ReevaluateDependents_def FindDependents_def dependents_def tx_Get_def sql_find_tx_def
    IsTerminal_def resumeOne_def parked_input_def
  settleRejectedExisting_def emitRejected_def RehydrateWallet_def tx_MarkReversed_def tx_data_def refund_in_def demo_bet_def

lemmas opening_rules = OpenWallet_def open_body_def insert_new_wallet_def fund_wallet_def NewWallet_def wallet_record_def
    IsZero_def
  wallet_Insert_def sql_insert_wallet_def tx_Insert_def sql_insert_tx_def opening_tx_def

lemmas submit_rules = submit_body_def FindByProviderKey_def find_by_key_def find_by_external_def applyOperation_def
    applyWithReference_def parkReference_def
  insertTx_def tx_record_def emitPendingRef_def EnqueueWork_def sql_insert_work_def tx_clash_def record_inbox_def
      work_checks_def

lemma fresh_find: "\<forall>r \<in> set rs. length (k r) \<le> n \<Longrightarrow> n < length i \<Longrightarrow> tbl_find
    k i rs = None"
  by (auto simp: tbl_find_def find_None_iff)

definition race_tx :: "string \<Rightarrow> string \<Rightarrow> kind \<Rightarrow> string \<Rightarrow> tx_row" where
  "race_tx i h k x = \<lparr>t_id = i, t_origin = EXTERNAL, t_provider = Some ''prov'', t_external = Some x, t_key = Some
      (if k = KindRefund then ''k2'' else ''k1''),
     t_hash = Some h, t_wallet = ''a'', t_player = ''p'', t_round = Some ''r1'', t_game = Some ''g1'', t_kind = k,
         t_amount = 250,
     t_currency = ''BRL'', t_ref_external = (if k = KindRefund then Some ''x1'' else None), t_ref_tx = None,
     t_state = (if k = KindRefund then StatePendingReference else StateProcessed), t_failure = None,
     t_result = (if k = KindRefund then None else Some 750), t_result_currency = (if k = KindRefund then None else Some
         ''BRL''),
     t_reversed_kind = None, t_reversed_tx = None, t_version = (if k = KindRefund then None else Some 2)\<rparr>"

definition opened_store :: "world \<Rightarrow> bool" where
  "opened_store w \<longleftrightarrow> \<not> aborted w \<and> wallets (tabs w) = [demo_wallet] \<and> works (tabs w) =
      [] \<and>
     (\<exists>x. txs (tabs w) = [x] \<and> t_provider x = None \<and> t_kind x = KindOpening \<and> t_external x = None
         \<and> t_key x = None \<and> length (t_id x) \<le> tick w) \<and>
     (\<forall>e \<in> set (ledger (tabs w)). length (l_tx e) \<le> tick w \<and> length (l_id e) \<le> tick w) \<and>
     (\<forall>r \<in> set (outbox (tabs w)). length (b_event r) \<le> tick w)"

definition parked_store :: "string \<Rightarrow> tx_row \<Rightarrow> world \<Rightarrow> bool" where
  "parked_store f q w \<longleftrightarrow> \<not> aborted w \<and> wallets (tabs w) = [demo_wallet] \<and> map k_tx
      (works (tabs w)) = [f] \<and> length f \<le> tick w \<and> f \<noteq> [] \<and>
     (\<exists>x. txs (tabs w) = [x, q] \<and> t_provider x = None \<and> t_kind x = KindOpening \<and> t_external x =
         None \<and> t_key x = None \<and> length (t_id x) \<le> tick w \<and> t_id x \<noteq> f) \<and>
     (\<forall>e \<in> set (ledger (tabs w)). length (l_tx e) \<le> tick w \<and> l_tx e \<noteq> f \<and> length (l_id e)
         \<le> tick w) \<and>
     (\<forall>r \<in> set (outbox (tabs w)). length (b_event r) \<le> tick w)"

definition race_store :: "string \<Rightarrow> string \<Rightarrow> tx_row \<Rightarrow> tx_row \<Rightarrow> world
    \<Rightarrow> bool" where
  "race_store f b q t w \<longleftrightarrow> \<not> aborted w \<and> f \<in> k_tx ` set (works (tabs w)) \<and>
     wallets (tabs w) = [\<lparr>wr_id = ''a'', wr_player = ''p'', wr_currency = ''BRL'', wr_balance = 750, wr_version =
         2\<rparr>] \<and>
     (\<exists>x. txs (tabs w) = [x, q, t] \<and> t_provider x = None \<and> t_kind x = KindOpening \<and> t_id x \<noteq>
         f \<and> t_id x \<noteq> b) \<and> f \<noteq> [] \<and> b \<noteq> [] \<and> f \<noteq> b \<and>
     (\<forall>e \<in> set (ledger (tabs w)). l_tx e \<noteq> f \<and> length (l_id e) \<le> tick w) \<and>
     (\<forall>r \<in> set (outbox (tabs w)). length (b_event r) \<le> tick w)"

definition settled_store :: "string \<Rightarrow> string \<Rightarrow> string \<Rightarrow> world \<Rightarrow> bool" where
  "settled_store f b h w \<longleftrightarrow> \<not> aborted w \<and> f \<noteq> [] \<and> b \<noteq> [] \<and> f
      \<noteq> b \<and>
     wallets (tabs w) = [\<lparr>wr_id = ''a'', wr_player = ''p'', wr_currency = ''BRL'', wr_balance = 1000, wr_version =
         3\<rparr>] \<and>
     (\<exists>x q t. txs (tabs w) = [x, q, t] \<and> t_id x \<noteq> f \<and> t_id x \<noteq> b \<and> t_provider x =
         None \<and> t_kind x = KindOpening \<and>
       q = (race_tx f h KindRefund ''x2'')\<lparr>t_state := StateProcessed, t_ref_tx := Some b, t_result := Some 1000,
         t_result_currency := Some ''BRL'', t_version := Some 3\<rparr> \<and>
       t_id t = b \<and> t_provider t = Some ''prov'' \<and> t_external t = Some ''x1'' \<and> t_state t = StateProcessed
           \<and> t_kind t = KindBet \<and>
       t_wallet t = ''a'' \<and> t_player t = ''p'' \<and> t_round t = Some ''r1'' \<and> t_amount t = 250 \<and>
           t_currency t = ''BRL'' \<and> t_reversed_tx t \<noteq> None) \<and>
     (\<exists>e \<in> set (ledger (tabs w)). l_tx e = f) \<and> (\<forall>r \<in> set (outbox (tabs w)). length (b_event
         r) \<le> tick w)"

section \<open>Its steps\<close>

lemma replicate_one: "replicate (Suc 0) c = [c]" by simp
lemma opened_store: "wp (OpenWallet demo_env ''p'' ''BRL'' ''10.00'') (\<lambda>_. opened_store) (\<lambda>_ _. False)
    demo_empty"
  by (simp add: demo_amounts wp_transact store_rules opening_rules reversal_rules Let_def tock_def demo_empty_def
      empty_tables_def tbl_add_def tx_checks_def
    opened_store_def demo_wallet_def opened_row_def replicate_one del: replicate.simps)

lemma parks:
  assumes "opened_store w"
  shows "wp (transact demo_env (submit_body demo_env refund_in (mk_money 250 ''BRL'') h)) (\<lambda>_ w'.
    \<exists>f. parked_store f (race_tx f h KindRefund ''x2'') w') (\<lambda>_ _. False) w"
proof -
  obtain x where x: "txs (tabs w) = [x]" "t_provider x = None" "t_kind x = KindOpening" "t_external x = None" "t_key x =
      None" "length (t_id x) \<le> tick w"
    "\<not> aborted w" "wallets (tabs w) = [demo_wallet]" "works (tabs w) = []" using assms by (auto simp: opened_store_def)
  have o: "tbl_find b_event (replicate (Suc n) CHR ''a'') (outbox (tabs w)) = None" if "tick w \<le> n" for n
    using assms that by (auto simp: opened_store_def intro!: fresh_find [where n = "tick w"])
  have i: "t_id x \<noteq> replicate (Suc n) CHR ''a''" if "tick w \<le> n" for n using x(6) that by auto
  have l: "length (l_tx e) \<le> n \<and> length (l_id e) \<le> n \<and> l_tx e \<noteq> replicate (Suc n) CHR ''a''" if
      "e \<in> set (ledger (tabs w))" "tick w \<le> n" for e n
    using assms that by (fastforce simp: opened_store_def)
  have b: "length (b_event e) \<le> n" if "e \<in> set (outbox (tabs w))" "tick w \<le> n" for e n
    using assms that by (fastforce simp: opened_store_def)
  have t: "length (t_id x) \<le> n" if "tick w \<le> n" for n using x(6) that by simp
  show ?thesis
  apply (simp add: race_tx_def wp_transact store_rules submit_rules opening_rules dependent_rules reversal_rules Let_def
      tock_def x tbl_add_def tx_checks_def o i del: replicate.simps)
  apply (rule exI [of _ "replicate (Suc (Suc (Suc (Suc (Suc (tick w)))))) CHR ''a''"])
    by (simp add: parked_store_def x race_tx_def i l b t del: replicate.simps)
qed

lemma bets:
  assumes "parked_store f (race_tx f h KindRefund ''x2'') w"
  shows "wp (transact demo_env (submit_body demo_env demo_bet (mk_money 250 ''BRL'') h')) (\<lambda>_ w'.
    \<exists>g. race_store f g (race_tx f h KindRefund ''x2'') (race_tx g h' KindBet ''x1'') w') (\<lambda>_ _. False) w"
proof -
  obtain x where x: "txs (tabs w) = [x, race_tx f h KindRefund ''x2'']" "t_provider x = None" "t_kind x = KindOpening"
      "t_external x = None" "t_key x = None" "length (t_id x) \<le> tick w" "t_id x \<noteq> f"
    "\<not> aborted w" "wallets (tabs w) = [demo_wallet]" "map k_tx (works (tabs w)) = [f]" "f \<noteq> []" "length f
        \<le> tick w" using assms by (auto simp: parked_store_def)
  have o: "tbl_find b_event (replicate (Suc n) CHR ''a'') (outbox (tabs w)) = None" "tbl_find l_id (replicate (Suc n) CHR
      ''a'') (ledger (tabs w)) = None" if "tick w \<le> n" for n
    using assms that by (auto simp: parked_store_def intro!: fresh_find [where n = "tick w"])
  have i: "t_id x \<noteq> replicate (Suc n) CHR ''a''" "f \<noteq> replicate (Suc n) CHR ''a''" if "tick w \<le> n" for n
      using x(6,12) that by auto
  have l: "length (l_tx e) \<le> n \<and> length (l_id e) \<le> n \<and> l_tx e \<noteq> replicate (Suc n) CHR ''a''
      \<and> l_tx e \<noteq> f" if "e \<in> set (ledger (tabs w))" "tick w \<le> n" for e n
    using assms that by (fastforce simp: parked_store_def)
  have wk: "f \<in> k_tx ` set (works (tabs w))" using x(10) by (metis list.set_intros(1) list.set_map)
  have lf: "\<forall>e \<in> set (ledger (tabs w)). l_tx e \<noteq> f" using assms by (simp add: parked_store_def)
  have nl: "\<not> (\<exists>q \<in> set (ledger (tabs w)). l_wallet q = v \<and> l_tx q = replicate (Suc n) CHR ''a'')"
      if "tick w \<le> n" for v n using l that by blast
  have b: "length (b_event e) \<le> n" if "e \<in> set (outbox (tabs w))" "tick w \<le> n" for e n
    using assms that by (fastforce simp: parked_store_def)
  have t: "length (t_id x) \<le> n" if "tick w \<le> n" for n using x(6) that by simp
  show ?thesis
  apply (simp add: race_tx_def wp_transact store_rules submit_rules opening_rules dependent_rules reversal_rules
      applyBet_def Debit_def processed_def money_Sub_def Let_def tock_def x tbl_add_def tx_checks_def tbl_find_snoc o i nl
      del: replicate.simps)
  apply (rule exI [of _ "replicate (Suc (Suc (Suc (Suc (Suc (tick w)))))) CHR ''a''"])
    by (simp add: race_store_def x wk race_tx_def i i(2) [symmetric] l lf b t del: replicate.simps)
qed

lemma others_settle:
  assumes "race_store f b (race_tx f h2 KindRefund ''x2'') (race_tx b h1 KindBet ''x1'') w"
  shows "wp (ReevaluateDependents demo_env ''prov'' ''x1'') (\<lambda>_. settled_store f b h2) (\<lambda>_ _. False) w"
proof -
  let ?q = "race_tx f h2 KindRefund ''x2''" and ?t = "race_tx b h1 KindBet ''x1''"
  obtain x where x: "txs (tabs w) = [x, ?q, ?t]" "t_provider x = None" "t_kind x = KindOpening"
    "t_id x \<noteq> f" "t_id x \<noteq> b" using assms by (auto simp: race_store_def)
  have o: "tbl_find b_event (replicate (Suc n) CHR ''a'') (outbox (tabs w)) = None" "tbl_find l_id (replicate (Suc n) CHR
      ''a'') (ledger (tabs w)) = None" if "tick w \<le> n" for n
    using assms that by (auto simp: race_store_def intro!: fresh_find [where n = "tick w"])
  have l: "\<not> (\<exists>q \<in> set (ledger (tabs w)). l_wallet q = v \<and> l_tx q = f)" for v using assms by (auto
      simp: race_store_def)
  have ob: "length (b_event e) \<le> n" if "e \<in> set (outbox (tabs w))" "tick w \<le> n" for e n
    using assms that by (fastforce simp: race_store_def)
  have ne: "f \<noteq> []" "b \<noteq> []" "f \<noteq> b" "b \<noteq> f" "f \<noteq> t_id x" "b \<noteq> t_id x" "\<not>
      aborted w" and ws: "wallets (tabs w) = [\<lparr>wr_id = ''a'', wr_player = ''p'', wr_currency = ''BRL'', wr_balance
      = 750, wr_version = 2\<rparr>]" using assms x(4,5) by (auto simp: race_store_def)
  show ?thesis
  apply (simp add: race_tx_def wp_transact store_rules dependent_rules reversal_rules Let_def tock_def x ws ne
      tbl_find_simps tbl_find_snoc o l del: replicate.simps)
    by (simp add: settled_store_def x ne race_tx_def ob active_win_def)
qed

lemma overwrites:
  assumes "settled_store f b h w"
  shows "wp (finish_item demo_env i (Inr (Some (race_tx f h KindRefund ''x2'')))) (\<lambda>x w'. x \<and> \<not> aborted w' \<and>
    (\<exists>r \<in> set (txs (tabs w')). t_id r = f \<and> t_state r = StateRejected \<and> t_failure r = Some
        (code_text CodeAlreadyReversed)) \<and>
    (\<exists>e \<in> set (ledger (tabs w')). l_tx e = f)) (\<lambda>_ _. False) w"
proof -
  obtain x t where x: "txs (tabs w) = [x, (race_tx f h KindRefund ''x2'')\<lparr>t_state := StateProcessed, t_ref_tx :=
      Some b, t_result := Some 1000,
         t_result_currency := Some ''BRL'', t_version := Some 3\<rparr>, t]"
    "t_id x \<noteq> f" "t_id x \<noteq> b" "t_provider x = None" "t_kind x = KindOpening"
    "t_id t = b" "t_provider t = Some ''prov''" "t_external t = Some ''x1''" "t_state t = StateProcessed" "t_kind t =
        KindBet"
    "t_wallet t = ''a''" "t_player t = ''p''" "t_round t = Some ''r1''" "t_amount t = 250" "t_currency t = ''BRL''"
        "t_reversed_tx t \<noteq> None"
    using assms by (auto simp: settled_store_def)
  have o: "tbl_find b_event (replicate (Suc n) CHR ''a'') (outbox (tabs w)) = None" if "tick w \<le> n" for n
    using assms that by (auto simp: settled_store_def intro!: fresh_find [where n = "tick w"])
  have ne: "f \<noteq> []" "b \<noteq> []" "f \<noteq> b" "b \<noteq> f" "f \<noteq> t_id x" "b \<noteq> t_id x" "\<not>
      aborted w" and ws: "wallets (tabs w) = [\<lparr>wr_id = ''a'', wr_player = ''p'', wr_currency = ''BRL'', wr_balance
      = 1000, wr_version = 3\<rparr>]"
    and l: "\<exists>e \<in> set (ledger (tabs w)). l_tx e = f" using assms x(2,3) by (auto simp: settled_store_def)
  show ?thesis
    by (simp add: finish_item_def race_tx_def wp_transact store_rules dependent_rules reversal_rules Let_def tock_def x ws
        ne tbl_find_simps tbl_find_snoc o l active_win_def del: replicate.simps)
qed

section \<open>The claim\<close>

lemma race_later: "race_store f b q t w \<Longrightarrow> tabs v = tabs w \<Longrightarrow> tick w \<le> tick v \<Longrightarrow> \<not> aborted v \<Longrightarrow> race_store f b q t v"
  unfolding race_store_def by (auto dest: order_trans)

lemma wp_Inr: "wp m P (\<lambda>_ _. False) w \<Longrightarrow> \<exists>x w'. m w = (Inr x, w') \<and> P x w'"
  by (auto simp: wp_def split: prod.splits sum.splits)

lemma refund_in_valid: "\<exists>h. validate_input refund_in = Inr (mk_money 250 ''BRL'', h)"
  by (simp add: validate_input_def refund_in_def demo_bet_def demo_amounts PayloadHash_eq ValidateExternalKind_def
      ValidateAmountForKind_def IsReversalKind_def IsPositive_def)

lemma race_reachable:
  obtains w f b h h' where "reachable demo_env (tabs w)" "idle demo_env w"
    "race_store f b (race_tx f h KindRefund ''x2'') (race_tx b h' KindBet ''x1'') w"
proof -
  obtain r w1 where w1: "OpenWallet demo_env ''p'' ''BRL'' ''10.00'' demo_empty = (Inr r, w1)" "opened_store w1"
    using wp_Inr [OF opened_store] by auto
  obtain h where h: "validate_input refund_in = Inr (mk_money 250 ''BRL'', h)" using refund_in_valid by blast
  obtain h' where h': "validate_input demo_bet = Inr (mk_money 250 ''BRL'', h')" using demo_bet_valid by blast
  obtain f r2 w2 where w2: "transact demo_env (submit_body demo_env refund_in (mk_money 250 ''BRL'') h) w1 = (Inr r2, w2)"
      "parked_store f (race_tx f h KindRefund ''x2'') w2"
    using wp_Inr [OF parks [OF w1(2), of h]] by (elim exE conjE)
  obtain b r3 w3 where w3: "transact demo_env (submit_body demo_env demo_bet (mk_money 250 ''BRL'') h') w2 = (Inr r3, w3)"
      "race_store f b (race_tx f h KindRefund ''x2'') (race_tx b h' KindBet ''x1'') w3"
    using wp_Inr [OF bets [OF w2(2), of h']] by (elim exE conjE)
  have s1: "serves demo_env demo_empty w1"
    using serves.opened_wallet [of demo_env demo_empty "''p''" "''BRL''" "''10.00''"] unfolding w1(1) by simp
  have s2: "serves demo_env w1 w2" using serves.part [OF block.accepting [OF h, of demo_env w1]] unfolding w2(1) by simp
  have s3: "serves demo_env w2 w3" using serves.part [OF block.accepting [OF h', of demo_env w2]] unfolding w3(1) by simp
  from s1 s2 s3 have run: "(serves demo_env)\<^sup>*\<^sup>* demo_empty w3"
    using rtranclp.rtrancl_into_rtrancl [of "serves demo_env"] by blast
  have i: "idle demo_env w3" using runs_progress [OF run demo_env_props(3)] by (rule conjunct2)
  show ?thesis by (rule that [OF reachableI [OF demo_env_props(2) run] i w3(2)])
qed

text \<open>C10. An item that had to wait for its wallet can overwrite what was settled during the wait. In a store that
  the service reaches, a worker reads a parked refund and waits for the wallet; meanwhile the re-evaluation
  of the bet's dependents, a call of the service, settles the refund. The worker then goes on with the row as it
  had read it, finds the bet reversed and stores the refund as rejected with \<^verbatim>\<open>ALREADY_REVERSED\<close>, though its
  money has been credited: the ledger holds an entry of a rejected transaction, and the store is not sound.\<close>

theorem stale_item_overwrites:
  "\<exists>w item (others :: unit action) w'. reachable demo_env (tabs w) \<and> idle demo_env w \<and> wi_tx item \<in> k_tx ` set (works (tabs w)) \<and>
     calls demo_env others \<and> processWorkItem_waiting demo_env item others w = (Inr True, w') \<and>
     (\<exists>r \<in> set (txs (tabs w')). t_id r = wi_tx item \<and> t_state r = StateRejected \<and>
       t_failure r = Some (code_text CodeAlreadyReversed)) \<and>
     (\<exists>e \<in> set (ledger (tabs w')). l_tx e = wi_tx item) \<and> \<not> sound (tabs w')"
proof -
  obtain w f b h h' where w: "reachable demo_env (tabs w)" "idle demo_env w"
      "race_store f b (race_tx f h KindRefund ''x2'') (race_tx b h' KindBet ''x1'') w" by (rule race_reachable)
  let ?q = "race_tx f h KindRefund ''x2''" and ?others = "ReevaluateDependents demo_env ''prov'' ''x1''"
  define item where "item = \<lparr>wi_tx = f, wi_kind = ''reference'', wi_ref = 0, wi_infra = 0, wi_next = 0, wi_owner = [],
    wi_lease = None, wi_created = 0\<rparr>"
  have f: "f \<noteq> []" "tbl_find t_id f (txs (tabs w)) = Some ?q" "f \<in> k_tx ` set (works (tabs w))" "\<not> aborted w"
    using w(3) by (auto simp: race_store_def race_tx_def)
  let ?v = "tock (tock w)"
  have "race_store f b ?q (race_tx b h' KindBet ''x1'') ?v" by (rule race_later [OF w(3)]) (simp_all add: f)
  from wp_Inr [OF others_settle [OF this]] obtain x w2 where w2: "?others ?v = (Inr x, w2)" "settled_store f b h w2"
    by (elim exE conjE)
  have a2: "\<not> aborted w2" using w2(2) by (simp add: settled_store_def)
  have first: "attempt (tx_Get demo_env (wi_tx item)) (tock (w\<lparr>aborted := False\<rparr>)) = (Inr (Inr (Some ?q)), ?v)"
    using f by (simp add: tx_Get_def sql_find_tx_def attempt_def absent_if_invalid_def stmt_def bind_def ret_def rbind_def
        uuid_in_def demo_env_sure item_def tock_def)
  define m where "m = finish_item demo_env item (Inr (Some ?q))"
  obtain y w3 where w3: "m w2 = (Inr y, w3)" y "\<not> aborted w3"
      "\<exists>r \<in> set (txs (tabs w3)). t_id r = f \<and> t_state r = StateRejected \<and> t_failure r = Some (code_text CodeAlreadyReversed)"
      "\<exists>e \<in> set (ledger (tabs w3)). l_tx e = f"
    using wp_Inr [OF overwrites [OF w2(2), of item]] unfolding m_def [symmetric] by (elim exE conjE)
  have same: "w\<lparr>tick := n, aborted := False\<rparr> = w\<lparr>tick := n\<rparr>" "w2\<lparr>aborted := False\<rparr> = w2" for n
    using f(4) a2 by (cases w; cases w2; simp)+
  have run: "processWorkItem_waiting demo_env item ?others w = (Inr True, tock w3)"
    using first w2(1) w3(1-3) f(4) a2 by (simp add: processWorkItem_waiting_def transact_waiting_def commit_def m_def demo_env_sure
      same Let_def tock_def)
  have unsound: "\<not> sound (tabs w3)"
  proof
    assume s: "sound (tabs w3)"
    obtain r where r: "r \<in> set (txs (tabs w3))" "t_id r = f" "t_state r = StateRejected" using w3(4) by (elim bexE conjE)
    obtain e where e: "e \<in> set (ledger (tabs w3))" "l_tx e = f" using w3(5) by (elim bexE)
    obtain x where x: "x \<in> set (txs (tabs w3))" "posted x e" using soundD(6) [OF s] e(1) unfolding entries_ok_def by blast
    have "tbl_find t_id f (txs (tabs w3)) = Some x" "tbl_find t_id f (txs (tabs w3)) = Some r"
      using x r e(2) by (simp_all add: tbl_find_iff [OF soundD(3) [OF s]] posted_def)
    then show False using x(2) r(3) by (simp add: posted_def)
  qed
  have i: "wi_tx item = f" by (simp add: item_def)
  show ?thesis
    by (rule exI [of _ w], rule exI [of _ item], rule exI [of _ ?others], rule exI [of _ "tock w3"])
      (simp only: i w(1,2) f(3) calls_blocks(2) run unsound w3(4,5) tock_simps simp_thms)
qed

text \<open>Had the re-evaluation been that of another operation, the item would have been settled correctly.\<close>

lemma others_elsewhere:
  assumes "race_store f b (race_tx f h KindRefund ''x2'') (race_tx b h' KindBet ''x1'') w" "tabs v = tabs w"
  shows "tabs (snd (ReevaluateDependents demo_env ''prov'' ''x9'' v)) = tabs w"
proof -
  have "wp (ReevaluateDependents demo_env ''prov'' ''x9'') (\<lambda>_ v'. tabs v' = tabs w) (\<lambda>_ v'. tabs v' = tabs w) v"
    using assms by (auto simp: race_store_def race_tx_def wp_transact store_rules dependent_rules Let_def tock_def)
  then show ?thesis by (auto simp: wp_def split: prod.splits sum.splits)
qed

lemma waiting_item_safe_witness:
  "\<exists>w item res w'. wi_tx item \<in> k_tx ` set (works (tabs w)) \<and> machine\<^sup>*\<^sup>* (tabs w) (tabs w') \<and> idle demo_env w' \<and>
     processWorkItem_waiting demo_env item (ReevaluateDependents demo_env ''prov'' ''x9'') w = (res, w')"
proof -
  obtain w f b h h' where w: "idle demo_env w" "race_store f b (race_tx f h KindRefund ''x2'') (race_tx b h' KindBet ''x1'') w"
    by (rule race_reachable)
  let ?others = "ReevaluateDependents demo_env ''prov'' ''x9''"
    and ?item = "\<lparr>wi_tx = f, wi_kind = ''reference'', wi_ref = 0, wi_infra = 0, wi_next = 0, wi_owner = [],
      wi_lease = None, wi_created = 0\<rparr>"
  have "wi_tx ?item \<in> k_tx ` set (works (tabs w))" using w(2) by (simp add: race_store_def)
  moreover obtain res w' where run: "processWorkItem_waiting demo_env ?item ?others w = (res, w')" by fastforce
  have "machine\<^sup>*\<^sup>* (tabs w) (tabs w') \<and> idle demo_env w'"
    using waiting_item_safe [OF w(1) calls_blocks(2) _ run] others_elsewhere [OF w(2)] by simp
  ultimately show ?thesis using run by blast
qed

end
