(* ===== verification/Overlaps.thy ===== *)
theory Overlaps
  imports Lock_Race Store_Frames
begin

text \<open>
  Runs in which transactions overlap. \<open>serves\<close> runs each transaction at one moment. That is what the locks give for
  a transaction that reads nothing before it locks its wallet; but \<^verbatim>\<open>processWorkItem\<close> and \<^verbatim>\<open>ReevaluateDependents\<close>
  read the rows they settle first, and other transactions commit before they get the lock. Here these two
  are split at that point: what was read is kept as pending, anything else may happen, and the rest runs on the
  tables of a later moment. Such a rest is timely when the parked rows it has read are still the ones
  that are stored; the code does not check that, and \<open>Lock_Race\<close> is a run where it matters.
\<close>

section \<open>Split transactions\<close>

text \<open>What an open transaction has read, and whether it is aborted already.\<close>

datatype pending = Item work_item "serr + tx_row option" (stuck: bool) | Dependents "tx_row list" (stuck: bool)

definition begun :: "world \<Rightarrow> world" where
  "begun w = tock (w\<lparr>aborted := False\<rparr>)"

fun rest :: "env \<Rightarrow> pending \<Rightarrow> unit action" where
  "rest E (Item item r a) = bind (finish_item E item r) (\<lambda>_. ret ())"
| "rest E (Dependents ds a) = resume_all E ds"

definition without :: "nat \<Rightarrow> 'a list \<Rightarrow> 'a list" where
  "without k xs = take k xs @ drop (Suc k) xs"

text \<open>\<open>G\<close> says when the rest of a transaction may run: always, for the program. A connection may be lost with
  what it has open.\<close>

inductive overlaps :: "env \<Rightarrow> (pending \<Rightarrow> tables \<Rightarrow> bool) \<Rightarrow> world \<times> pending list \<Rightarrow> world \<times> pending list \<Rightarrow> bool" for E G where
  whole: "serves E w w' \<Longrightarrow> overlaps E G (w, ps) (w', ps)"
| reads_item: "attempt (tx_Get E (wi_tx item)) (begun w) = (Inr r, v) \<Longrightarrow>
    overlaps E G (w, ps) (v\<lparr>tabs := tabs w, aborted := False\<rparr>, ps @ [Item item r (aborted v)])"
| reads_dependents: "FindDependents E p x (begun w) = (Inr ds, v) \<Longrightarrow>
    overlaps E G (w, ps) (v\<lparr>tabs := tabs w, aborted := False\<rparr>, ps @ [Dependents ds (aborted v)])"
| goes_on: "k < length ps \<Longrightarrow> G (ps ! k) (tabs w) \<Longrightarrow>
    overlaps E G (w, ps) (snd (commit E (tabs w) (rest E (ps ! k) (w\<lparr>aborted := stuck (ps ! k)\<rparr>))), without k ps)"
| lost: "k < length ps \<Longrightarrow> overlaps E G (w, ps) (w, without k ps)"

text \<open>Read and rest in one go are the code's transactions.\<close>

lemma goes_on_at_once:
  "snd (processWorkItem E item w) = (if e_fault E (tick w) then tock w else
     case attempt (tx_Get E (wi_tx item)) (begun w) of (Inr r, v) \<Rightarrow>
       snd (commit E (tabs w) (rest E (Item item r (aborted v)) v)) | (Inl e, v) \<Rightarrow> v)"
  by (auto simp: processWorkItem_finish transact_commit begun_def bind_def attempt_def ret_def commit_def split: prod.splits sum.splits)

lemma overlaps_calls: "(serves E)\<^sup>*\<^sup>* w w' \<Longrightarrow> (overlaps E G)\<^sup>*\<^sup>* (w, ps) (w', ps)"
  by (induction rule: rtranclp_induct) (auto intro: rtranclp.rtrancl_into_rtrancl overlaps.whole)

lemma snd_commit_unit: "snd (commit E T (bind m (\<lambda>_. ret ()) w)) = snd (commit E T (m w))"
  by (cases "m w") (auto simp: commit_def bind_def ret_def split: sum.split)

text \<open>A worker's item that waits while others commit is such a run, so \<open>stale_item_overwrites\<close> runs one.\<close>

lemma waiting_overlaps:
  assumes "calls E others" "\<not> e_fault E (tick w)"
  shows "(overlaps E (\<lambda>_ _. True))\<^sup>*\<^sup>* (w, []) (snd (processWorkItem_waiting E item others w), [])"
proof -
  obtain r v where first: "attempt (tx_Get E (wi_tx item)) (begun w) = (Inr r, v)" by (simp add: attempt_def)
  let ?v = "v\<lparr>tabs := tabs w, aborted := False\<rparr>" and ?p = "Item item r (aborted v)"
  define w2 where "w2 = snd (others ?v)"
  have "overlaps E (\<lambda>_ _. True) (w, []) (?v, [?p])" using overlaps.reads_item [OF first, of _ "[]"] by simp
  moreover have "(overlaps E (\<lambda>_ _. True))\<^sup>*\<^sup>* (?v, [?p]) (w2, [?p])"
    unfolding w2_def by (rule overlaps_calls) (use callsD [OF assms(1)] in simp)
  moreover have "overlaps E (\<lambda>_ _. True) (w2, [?p]) (snd (commit E (tabs w2) (rest E ?p (w2\<lparr>aborted := aborted v\<rparr>))), [])"
    using overlaps.goes_on [of 0 "[?p]" "\<lambda>_ _. True" w2 E] by (simp add: without_def)
  moreover have "snd (processWorkItem_waiting E item others w) = snd (commit E (tabs w2) (rest E ?p (w2\<lparr>aborted := aborted v\<rparr>)))"
    using first assms(2) by (simp add: processWorkItem_waiting_def transact_waiting_def begun_def w2_def Let_def snd_commit_unit)
  ultimately show ?thesis by (metis (no_types, lifting) converse_rtranclp_into_rtranclp rtranclp.rtrancl_into_rtrancl)
qed

definition timely :: "env \<Rightarrow> pending \<Rightarrow> tables \<Rightarrow> bool" where
  "timely E p T \<longleftrightarrow> stuck p \<or> (case p of
     Item item r a \<Rightarrow> (case r of
         Inr (Some q) \<Rightarrow> IsTerminal (t_state q) \<or> q \<in> set (txs T)
       | Inr None \<Rightarrow> (\<forall>u. e_uuid E (wi_tx item) = Some u \<longrightarrow> tbl_find t_id u (txs T) = None)
       | Inl e \<Rightarrow> True)
   | Dependents ds a \<Rightarrow> (\<forall>q \<in> set ds. t_state q = StatePendingReference \<longrightarrow> q \<in> set (txs T)))"

text \<open>A rest that is not timely has been overtaken: a row that it has read as parked has been settled by somebody else, or
  the transaction of an item that was missing has arrived.\<close>

fun read_rows :: "pending \<Rightarrow> tx_row list" where
  "read_rows (Item item (Inr (Some q)) a) = [q]"
| "read_rows (Item item r a) = []"
| "read_rows (Dependents ds a) = filter (\<lambda>q. t_state q = StatePendingReference) ds"

definition settled_in :: "tables \<Rightarrow> tx_row \<Rightarrow> bool" where
  "settled_in T q \<longleftrightarrow> (\<exists>y \<in> set (txs T). t_id y = t_id q \<and> IsTerminal (t_state y))"

definition overtaken :: "env \<Rightarrow> pending \<Rightarrow> tables \<Rightarrow> bool" where
  "overtaken E p T \<longleftrightarrow> (\<exists>q \<in> set (read_rows p). \<not> IsTerminal (t_state q) \<and> settled_in T q) \<or>
     (\<exists>item a. p = Item item (Inr None) a \<and> (\<exists>y \<in> set (txs T). e_uuid E (wi_tx item) = Some (t_id y)))"

section \<open>Parked rows stay as they are until they are settled\<close>

definition same_or_settled :: "tables \<Rightarrow> tables \<Rightarrow> bool" where
  "same_or_settled T T' \<longleftrightarrow> (\<forall>q \<in> set (txs T). \<not> IsTerminal (t_state q) \<longrightarrow> q \<in> set (txs T') \<or> settled_in T' q)"

lemma marked_pending:
  assumes s: "sound T" and t: "target_ok (txs T) x t" and y: "y \<in> set (txs T)" "\<not> IsTerminal (t_state y)"
  shows "marked x t y = y"
proof -
  have inv: "tbl_inv t_id (txs T)" and ok: "links_ok (txs T)" using soundD [OF s] reversals_okD(1) by blast+
  have other: "t_id v \<noteq> t_id y" if "v \<in> set (txs T)" "t_state v = StateProcessed" for v
    using id_unique [OF inv that(1) y(1)] that(2) y(2) by (auto simp: IsTerminal_def)
  have p: "t \<in> set (txs T)" "t_state t = StateProcessed" using t by (auto simp: target_ok_def linked_def)
  have "t_ref_tx t \<noteq> Some (t_id y)" using links_okD [OF ok p] other by (auto simp: linked_def)
  with other [OF p] show ?thesis by (auto simp: marked_def)
qed

lemma put_same_or_settled:
  assumes "q \<in> set ts" "IsTerminal (t_state x)"
  shows "q \<in> set (put_tx x ts) \<or> t_id x = t_id q \<and> x \<in> set (put_tx x ts)"
  using assms put_tx_keep put_tx_self by metis

lemma machine_same_or_settled:
  assumes m: "machine T T'" and s: "sound T"
  shows "same_or_settled T T'"
  unfolding same_or_settled_def
proof (intro ballI impI)
  fix q assume q: "q \<in> set (txs T)" "\<not> IsTerminal (t_state q)"
  from m show "q \<in> set (txs T') \<or> settled_in T' q"
  proof cases
    case (moved x r e ts)
    have x: "IsTerminal (t_state x)" using moved(6) by (simp add: posted_def IsTerminal_def)
    note put = put_same_or_settled [OF q(1) x]
    have "ts = put_tx x (txs T) \<or> (\<exists>t. target_ok (txs T) x t \<and> ts = map (marked x t) (put_tx x (txs T)))"
      using moved(7) by (auto simp: reference_ok_def mark_target_map)
    then show ?thesis
    proof
      assume "\<exists>t. target_ok (txs T) x t \<and> ts = map (marked x t) (put_tx x (txs T))"
      then obtain t where t: "target_ok (txs T) x t" "ts = map (marked x t) (put_tx x (txs T))" by blast
      have "marked x t q = q" by (rule marked_pending [OF s t(1) q])
      moreover have "marked x t z \<in> set (txs T')" if "z \<in> set (put_tx x (txs T))" for z using that t(2) moved(9) by simp
      moreover have "t_id (marked x t z) = t_id z" "t_state (marked x t z) = t_state z" for z by simp_all
      ultimately show ?thesis using put x unfolding settled_in_def by metis
    qed (use put x moved(9) in \<open>auto simp: settled_in_def\<close>)
  next
    case (settled x)
    have "IsTerminal (t_state x)" using settled(2) by (auto simp: IsTerminal_def)
    then show ?thesis using put_same_or_settled [OF q(1), of x] settled(4) by (auto simp: settled_in_def)
  qed (use q in auto)
qed

lemma settled_in_later:
  assumes "settled_in T q" "later T T'"
  shows "settled_in T' q"
  using assms by (fastforce simp: settled_in_def later_def evolves_def same_request_def)

lemma machine_star_same_or_settled:
  assumes "machine\<^sup>*\<^sup>* T T'" "sound T"
  shows "same_or_settled T T'"
  using assms
proof (induction rule: rtranclp_induct)
  case base
  show ?case by (simp add: same_or_settled_def)
next
  case (step T1 T2)
  have s: "sound T1" using step machine_star_sound by blast
  have "later T1 T2" "same_or_settled T1 T2"
    using machine_later [OF step(2)] machine_same_or_settled [OF step(2) s] soundD(3) [OF s] by simp_all
  then show ?case using step settled_in_later unfolding same_or_settled_def by blast
qed

section \<open>Timely runs\<close>

text \<open>What is known of the rows that were read.\<close>

definition known :: "tables \<Rightarrow> tx_row \<Rightarrow> bool" where
  "known T q \<longleftrightarrow> IsTerminal (t_state q) \<or> q \<in> set (txs T) \<or> settled_in T q"

definition looked_up :: "env \<Rightarrow> tables \<Rightarrow> pending \<Rightarrow> bool" where
  "looked_up E T p \<longleftrightarrow> (case p of
     Item item r a \<Rightarrow> a \<or> (\<exists>u m. e_uuid E (wi_tx item) = Some u \<and> r = Inr m \<and> (\<forall>q. m = Some q \<longrightarrow> t_id q = u \<and>
       (\<exists>y. tbl_find t_id u (txs T) = Some y \<and> (IsTerminal (t_state q) \<longrightarrow> IsTerminal (t_state y)))))
   | Dependents ds a \<Rightarrow> distinct (map t_id ds))"

definition read_ok :: "env \<Rightarrow> tables \<Rightarrow> pending \<Rightarrow> bool" where
  "read_ok E T p \<longleftrightarrow> looked_up E T p \<and> (stuck p \<or> (\<forall>q \<in> set (read_rows p). known T q))"

lemma looked_up_later:
  assumes p: "looked_up E T p" and l: "later T T'" and inv: "tbl_inv t_id (txs T')"
  shows "looked_up E T' p"
proof (cases p)
  case (Item item r a)
  have keep: "\<exists>z. tbl_find t_id u (txs T') = Some z \<and> (IsTerminal (t_state q) \<longrightarrow> IsTerminal (t_state z))"
    if "tbl_find t_id u (txs T) = Some y" "IsTerminal (t_state q) \<longrightarrow> IsTerminal (t_state y)" for u y and q :: tx_row
  proof -
    have y: "y \<in> set (txs T)" "t_id y = u" using tbl_find_SomeD [OF that(1)] by simp_all
    then obtain z where z: "z \<in> set (txs T')" "evolves y z" using l by (auto simp: later_def)
    then have "t_id z = u" using y(2) by (simp add: evolves_def same_request_def)
    then have "tbl_find t_id u (txs T') = Some z" using z(1) inv by (simp add: tbl_find_iff)
    then show ?thesis using that(2) z(2) by (auto simp: evolves_def)
  qed
  show ?thesis
  proof (cases a)
    case False
    then obtain u m where "e_uuid E (wi_tx item) = Some u" "r = Inr m" "\<forall>q. m = Some q \<longrightarrow> t_id q = u \<and>
       (\<exists>y. tbl_find t_id u (txs T) = Some y \<and> (IsTerminal (t_state q) \<longrightarrow> IsTerminal (t_state y)))"
      using p Item by (auto simp: looked_up_def)
    then show ?thesis using keep unfolding Item looked_up_def by simp metis
  qed (simp add: Item looked_up_def)
qed (use p in \<open>simp add: looked_up_def\<close>)

lemma read_ok_later:
  assumes "read_ok E T p" "later T T'" "same_or_settled T T'" "tbl_inv t_id (txs T')"
  shows "read_ok E T' p"
  using assms looked_up_later settled_in_later unfolding read_ok_def known_def same_or_settled_def by blast

lemma untimely_overtaken:
  assumes p: "read_ok E T p" and t: "\<not> timely E p T"
  shows "overtaken E p T"
proof (cases p)
  case (Item item r a)
  obtain u m where m: "e_uuid E (wi_tx item) = Some u" "r = Inr m"
    using p t Item by (auto simp: read_ok_def looked_up_def timely_def)
  show ?thesis
  proof (cases m)
    case None
    then have "tbl_find t_id u (txs T) \<noteq> None" using t m by (simp add: timely_def Item)
    then obtain y where "tbl_find t_id u (txs T) = Some y" by blast
    then show ?thesis using m None Item by (auto simp: overtaken_def dest!: tbl_find_SomeD)
  next
    case (Some q)
    then have "q \<in> set (read_rows p)" "\<not> IsTerminal (t_state q)" "q \<notin> set (txs T)" "\<not> stuck p"
      using t m Item by (auto simp: timely_def)
    then show ?thesis using p unfolding read_ok_def known_def overtaken_def by blast
  qed
next
  case (Dependents ds a)
  then obtain q where "q \<in> set (read_rows p)" "t_state q = StatePendingReference" "q \<notin> set (txs T)" "\<not> stuck p"
    using t by (auto simp: timely_def)
  moreover have "\<not> IsTerminal (t_state q)" using calculation(2) by (simp add: IsTerminal_def)
  ultimately show ?thesis using p unfolding read_ok_def known_def overtaken_def by blast
qed

lemma finish_item_terminal:
  "IsTerminal (t_state q) \<Longrightarrow> IsTerminal (t_state y) \<Longrightarrow> finish_item E item (Inr (Some q)) = finish_item E item (Inr (Some y))"
  by (simp add: finish_item_def)

lemma tspec_rest:
  assumes g: "good E T" and p: "read_ok E T p" and t: "timely E p T" and a: "\<not> stuck p"
  shows "tspec (rest E p) T (\<lambda>_ T'. progress E T T') (\<lambda>_ _. True)"
proof (cases p)
  case (Item item r b)
  obtain u m where m: "e_uuid E (wi_tx item) = Some u" "r = Inr m" "\<And>q. m = Some q \<Longrightarrow> t_id q = u \<and>
      (\<exists>y. tbl_find t_id u (txs T) = Some y \<and> (IsTerminal (t_state q) \<longrightarrow> IsTerminal (t_state y)))"
    using p a unfolding Item by (auto simp: read_ok_def looked_up_def)
  have "finish_item E item r = finish_item E item (Inr (tbl_find t_id u (txs T)))"
  proof (cases m)
    case None
    then show ?thesis using t m(1,2) a by (simp add: timely_def Item)
  next
    case (Some q)
    obtain y where y: "t_id q = u" "tbl_find t_id u (txs T) = Some y" "IsTerminal (t_state q) \<longrightarrow> IsTerminal (t_state y)"
      using m(3) [OF Some] by blast
    show ?thesis
    proof (cases "IsTerminal (t_state q)")
      case True
      then show ?thesis using y Some m(2) finish_item_terminal [of q y] by simp
    next
      case False
      then have "q \<in> set (txs T)" using t m(2) Some a by (simp add: timely_def Item)
      then have "tbl_find t_id u (txs T) = Some q" using goodD(4) [OF g] y(1) by (simp add: tbl_find_iff)
      then show ?thesis using m(2) Some by simp
    qed
  qed
  then show ?thesis
    using tspec_finish_item [OF g m(1)] unfolding Item rest.simps
    by (intro tspec_bind [OF _ sticky_ret]) (auto intro!: tspec_ret elim!: tspec_mono)
next
  case (Dependents ds b)
  then show ?thesis
    using tspec_resume_all [OF g, of ds] p t a by (auto simp: read_ok_def looked_up_def timely_def elim!: tspec_mono)
qed

lemma sticky_rest: "sticky (rest E p)"
  by (cases p) (auto intro!: sticky_intros)

lemma rest_progress:
  assumes i: "idle E w" and p: "read_ok E (tabs w) p" "timely E p (tabs w)"
    and r: "commit E (tabs w) (rest E p (w\<lparr>aborted := stuck p\<rparr>)) = (x, w')"
  shows "progress E (tabs w) (tabs w') \<and> \<not> aborted w'"
proof (cases "stuck p")
  case True
  then have "aborted (snd (rest E p (w\<lparr>aborted := stuck p\<rparr>)))" using sticky_rest [of E p] by (simp add: sticky_def)
  then show ?thesis using r i progress_refl by (auto simp: commit_def idle_def split: prod.splits sum.splits)
next
  case False
  have g: "good E (tabs w)" using i by (simp add: idle_def)
  have "\<not> aborted w' \<and> (case x of Inl e \<Rightarrow> tabs w' = tabs w | Inr y \<Rightarrow> progress E (tabs w) (tabs w'))"
    by (rule commit_cases [OF tspec_rest [OF g p False] _ r]) (simp_all add: False)
  then show ?thesis using progress_refl [OF g] by (auto split: sum.splits)
qed

lemma FindDependents_reads:
  assumes "FindDependents E p x w = (Inr ds, v)"
  shows "ds = dependents p x (txs (tabs w))"
  using assms by (auto simp: FindDependents_def stmt_def split: if_splits)

lemma timely_step:
  assumes s: "overlaps E (timely E) (w, ps) (w', qs)" and i: "idle E w" and r: "\<forall>p \<in> set ps. read_ok E (tabs w) p"
  shows "progress E (tabs w) (tabs w') \<and> idle E w' \<and> (\<forall>p \<in> set qs. read_ok E (tabs w') p)"
proof -
  have g: "good E (tabs w)" "\<not> aborted w" using i by (simp_all add: idle_def)
  have moved: ?thesis if "progress E (tabs w) (tabs w')" "\<not> aborted w'" "set qs \<subseteq> set ps"
  proof -
    have g': "good E (tabs w')" by (rule progress_good [OF g(1) that(1)])
    have "later (tabs w) (tabs w')" "same_or_settled (tabs w) (tabs w')"
      using that(1) machine_star_later machine_star_same_or_settled goodD(2) [OF g(1)] by (auto simp: progress_def)
    then have "\<forall>p \<in> set qs. read_ok E (tabs w') p" using r that(3) read_ok_later goodD(4) [OF g'] by blast
    then show ?thesis using that g' by (simp add: idle_def)
  qed
  have still: ?thesis if "tabs w' = tabs w" "\<not> aborted w'" "\<forall>p \<in> set qs. p \<in> set ps \<or> read_ok E (tabs w) p"
    using that r g progress_refl [OF g(1)] by (auto simp: idle_def)
  have fewer: "set (without k ps) \<subseteq> set ps" for k
    by (auto simp: without_def dest: in_set_takeD in_set_dropD)
  from s show ?thesis
  proof cases
    case whole
    then show ?thesis using serves_progress i by (intro moved) (auto simp: idle_def)
  next
    case (reads_item item r' v)
    have "read_ok E (tabs w) (Item item r' (aborted v))"
    proof (cases "aborted v")
      case False
      obtain u where u: "e_uuid E (wi_tx item) = Some u" "r' = Inr (tbl_find t_id u (txs (tabs w)))"
        using tx_Get_row [OF _ reads_item(3) False] by (auto simp: begun_def)
      then show ?thesis
        by (cases "tbl_find t_id u (txs (tabs w))") (auto simp: read_ok_def looked_up_def known_def dest: tbl_find_SomeD)
    qed (simp add: read_ok_def looked_up_def)
    then show ?thesis by (intro still) (simp_all add: reads_item)
  next
    case (reads_dependents p x ds v)
    have "ds = dependents p x (txs (tabs w))" using FindDependents_reads [OF reads_dependents(3)] by (simp add: begun_def)
    then have "read_ok E (tabs w) (Dependents ds (aborted v))"
      using goodD(4) [OF g(1)]
      by (auto simp: read_ok_def looked_up_def known_def dependents_def tbl_inv_def distinct_map_filter)
    then show ?thesis by (intro still) (simp_all add: reads_dependents)
  next
    case (goes_on k)
    have "ps ! k \<in> set ps" using goes_on(3) by simp
    then have pr: "progress E (tabs w) (tabs w') \<and> \<not> aborted w'"
      using rest_progress [OF i _ goes_on(4)] r unfolding goes_on(1) by (metis prod.collapse)
    have "set qs \<subseteq> set ps" using fewer by (simp add: goes_on(2))
    then show ?thesis using pr moved by blast
  next
    case (lost k)
    then show ?thesis using fewer g by (intro still) auto
  qed
qed

lemma timely_run:
  assumes "(overlaps E (timely E))\<^sup>*\<^sup>* (w, []) (w', ps)" "idle E w"
  shows "progress E (tabs w) (tabs w') \<and> idle E w' \<and> (\<forall>p \<in> set ps. read_ok E (tabs w') p)"
proof -
  have "progress E (tabs w) (tabs (fst y)) \<and> idle E (fst y) \<and> (\<forall>p \<in> set (snd y). read_ok E (tabs (fst y)) p)"
    if "(overlaps E (timely E))\<^sup>*\<^sup>* (w, []) y" for y
    using that
  proof (induction rule: rtranclp_induct)
    case base
    show ?case using assms(2) by (simp add: idle_def progress_refl)
  next
    case (step y z)
    then show ?case using timely_step [of E "fst y" "snd y" "fst z" "snd z"] progress_trans by auto
  qed
  from this [OF assms(1)] show ?thesis by simp
qed

section \<open>Any run\<close>

text \<open>What no statement takes away: entries of the ledger, wallets with their identity, and the columns of a request.\<close>

definition extends :: "tables \<Rightarrow> tables \<Rightarrow> bool" where
  "extends T T' \<longleftrightarrow> (\<exists>es. ledger T' = ledger T @ es) \<and> (\<forall>r \<in> set (wallets T). \<exists>s \<in> set (wallets T'). same_wallet r s) \<and>
     (\<forall>x \<in> set (txs T). \<exists>y \<in> set (txs T'). same_request x y)"

lemma same_request_refl [simp]: "same_request x x"
  by (simp add: same_request_def)

interpretation extends: frame extends
proof unfold_locales
  show "extends T T" for T unfolding extends_def by (blast intro: same_wallet_refl same_request_refl append_Nil2 [symmetric])
  fix T T1 T2 assume a: "extends T T1" "extends T1 T2"
  have "\<exists>s \<in> set (wallets T2). same_wallet r s" if r: "r \<in> set (wallets T)" for r
  proof -
    obtain s where s: "s \<in> set (wallets T1)" "same_wallet r s" using a(1) r by (auto simp: extends_def)
    then obtain u where "u \<in> set (wallets T2)" "same_wallet s u" using a(2) by (auto simp: extends_def)
    with s(2) show ?thesis by (auto simp: same_wallet_def)
  qed
  moreover have "\<exists>z \<in> set (txs T2). same_request x z" if x: "x \<in> set (txs T)" for x
  proof -
    obtain y where y: "y \<in> set (txs T1)" "same_request x y" using a(1) x by (auto simp: extends_def)
    then obtain z where "z \<in> set (txs T2)" "same_request y z" using a(2) by (auto simp: extends_def)
    with y(2) show ?thesis by (auto simp: same_request_def)
  qed
  ultimately show "extends T T2" using a by (auto simp: extends_def)
qed

lemma extends_core: "wallets T' = wallets T \<Longrightarrow> txs T' = txs T \<Longrightarrow> ledger T' = ledger T \<Longrightarrow> extends T T'"
  using extends.frame_refl [of T] by (simp add: extends_def)

lemma extends_more:
  assumes "wallets T' = wallets T @ rs" "txs T' = txs T @ xs" "ledger T' = ledger T @ es"
  shows "extends T T'"
  using extends.frame_refl [of T] assms by (auto simp: extends_def)

lemma extends_modify:
  assumes "wallets T' = map g (wallets T)" "txs T' = map f (txs T)" "ledger T' = ledger T"
    "\<And>r. same_wallet r (g r)" "\<And>q. same_request q (f q)"
  shows "extends T T'"
  unfolding extends_def assms(1-3) using assms(4,5) by auto

lemma extends_modify_tx: "txs T' = tbl_modify t_id u f (txs T) \<Longrightarrow> wallets T' = wallets T \<Longrightarrow> ledger T' = ledger T \<Longrightarrow>
    (\<And>q. same_request q (f q)) \<Longrightarrow> extends T T'"
  by (rule extends_modify [where g = "\<lambda>r. r" and f = "\<lambda>q. if t_id q = u then f q else q"]) (auto simp: tbl_modify_def)

lemma extends_modify_wallet: "wallets T' = tbl_modify wr_id u g (wallets T) \<Longrightarrow> txs T' = txs T \<Longrightarrow> ledger T' = ledger T \<Longrightarrow>
    (\<And>r. same_wallet r (g r)) \<Longrightarrow> extends T T'"
  by (rule extends_modify [where f = "\<lambda>q. q" and g = "\<lambda>r. if wr_id r = u then g r else r"]) (auto simp: tbl_modify_def)

lemma extends_stmt: "(\<And>T x T'. f T = Inr (x, T') \<Longrightarrow> extends T T') \<Longrightarrow> keeps extends (stmt E f)"
  by (rule extends.keeps_stmt)

lemma extends_stmt_core:
  "(\<And>T x T'. f T = Inr (x, T') \<Longrightarrow> wallets T' = wallets T \<and> txs T' = txs T \<and> ledger T' = ledger T) \<Longrightarrow> keeps extends (stmt E f)"
  by (rule extends_stmt) (blast intro: extends_core)

lemma extends_absent: "keeps extends m \<Longrightarrow> keeps extends (absent_if_invalid m)"
  unfolding absent_if_invalid_def by (intro extends.keeps_rules)

lemma extends_reads:
  "keeps extends (LockForUpdate E w)" "keeps extends (wallet_Get E w)" "keeps extends (tx_Get E i)"
  "keeps extends (FindByProviderKey E p kk)" "keeps extends (FindByProviderExternal E p e)"
  "keeps extends (FindDependents E p e)" "keeps extends (HasActiveWin E i)"
  "keeps extends (InsertInbox E c m h)" "keeps extends (CompleteInbox E c m)" "keeps extends (FindInbox E c m)"
  "keeps extends (EnqueueWork E k_rec)" "keeps extends (GetWork E i)" "keeps extends (TouchWork E i a1 b1 t c1)"
  "keeps extends (DeleteWork E i)" "keeps extends (stmt E (sql_update_work E i f))"
  unfolding LockForUpdate_def wallet_Get_def tx_Get_def FindByProviderKey_def FindByProviderExternal_def FindDependents_def
    HasActiveWin_def InsertInbox_def CompleteInbox_def FindInbox_def EnqueueWork_def GetWork_def TouchWork_def DeleteWork_def
  by (intro extends.keeps_rules extends_absent extends_stmt_core;
      auto simp: sql_defs rbind_def Let_def split: sum.splits option.splits if_splits prod.splits)+

lemma extends_writes:
  "keeps extends (wallet_Insert E r)" "keeps extends (UpdateBalance E w b v)" "keeps extends (tx_Insert E x)"
  "keeps extends (UpdateState E x)" "keeps extends (MarkReversed E i k j)" "keeps extends (ClearReversal E i)"
  "keeps extends (ledger_Append E l)"
proof -
  show "keeps extends (wallet_Insert E r)"
    unfolding wallet_Insert_def
    by (rule extends_stmt)
      (auto simp: sql_insert_wallet_def rbind_def Let_def tbl_add_Some split: sum.splits option.splits if_splits
        intro: extends_more [where xs = "[]" and es = "[]" and rs = "[_]"])
  show "keeps extends (UpdateBalance E w b v)"
    unfolding UpdateBalance_def
    by (rule extends_stmt, drule sql_update_balance_InrD) (auto intro!: extends_modify_wallet simp: same_wallet_def)
  show "keeps extends (tx_Insert E x)"
    unfolding tx_Insert_def
    by (rule extends_stmt, drule sql_insert_tx_InrD) (auto intro!: extends_more [where rs = "[]" and es = "[]"])
  show "keeps extends (UpdateState E x)"
    unfolding UpdateState_def
    by (rule extends_stmt, drule sql_update_state_InrD) (auto intro!: extends_modify_tx simp: same_request_def)
  show "keeps extends (MarkReversed E i k j)" "keeps extends (ClearReversal E i)"
    unfolding MarkReversed_def ClearReversal_def
    by (rule extends_stmt; auto simp: sql_defs rbind_def same_request_def split: sum.splits if_splits intro!: extends_modify_tx)+
  show "keeps extends (ledger_Append E l)"
    unfolding ledger_Append_def
    by (rule extends_stmt, drule sql_append_ledger_InrD) (auto intro!: extends_more [where rs = "[]" and xs = "[]"])
qed

lemma extends_events:
  "keeps extends (EnqueueOutbox E e)" "keeps extends (MarkOutboxPublished E i)" "keeps extends (NackOutbox E i n t)"
  "keeps extends (stmt E (sql_update_outbox E i f))"
proof -
  have o: "keeps extends (stmt E (sql_insert_outbox E r))" for r
    by (rule extends_stmt, drule sql_insert_outbox_InrD) (auto intro!: extends_core)
  have u: "keeps extends (stmt E (sql_update_outbox E i f))" for i f
    by (rule extends_stmt_core) (auto simp: sql_update_outbox_def rbind_def split: sum.splits if_splits)
  show "keeps extends (EnqueueOutbox E e)" "keeps extends (MarkOutboxPublished E i)" "keeps extends (NackOutbox E i n t)"
    "keeps extends (stmt E (sql_update_outbox E i f))"
    unfolding EnqueueOutbox_def MarkOutboxPublished_def NackOutbox_def by (intro extends.keeps_rules u o)+
qed

interpretation extends_run: store_frame extends E for E
  by unfold_locales (rule extends_reads extends_writes extends_events)+

lemma commit_tabs: "tabs (snd (commit E T r)) = T \<or> tabs (snd (commit E T r)) = tabs (snd r)"
  by (cases r) (auto simp: commit_def split: sum.splits)

lemma overlaps_extends:
  assumes "overlaps E G (w, ps) (w', qs)"
  shows "extends (tabs w) (tabs w')"
  using assms
proof cases
  case whole
  then show ?thesis by (intro extends_run.across_serves)
next
  case (goes_on k)
  let ?r = "rest E (ps ! k) (w\<lparr>aborted := stuck (ps ! k)\<rparr>)"
  have "keeps extends (rest E p)" for p
    by (cases p) (auto intro!: extends_run.across_finish_item extends_run.across_resume_all extends.keeps_rules)
  then have "extends (tabs w) (tabs (snd ?r))" using extends_run.across_ran [of "rest E (ps ! k)" "w\<lparr>aborted := stuck (ps ! k)\<rparr>"] by simp
  then show ?thesis
    using commit_tabs [of E "tabs w" ?r] extends.frame_refl [of "tabs w"] unfolding goes_on(1) by metis
qed (simp_all add: extends.frame_refl)

lemma overlaps_run_extends:
  assumes "(overlaps E G)\<^sup>*\<^sup>* y z"
  shows "extends (tabs (fst y)) (tabs (fst z))"
  using assms
proof (induction rule: rtranclp_induct)
  case base
  show ?case by (rule extends.frame_refl)
next
  case (step y' z)
  then have "extends (tabs (fst y')) (tabs (fst z))" using overlaps_extends [of E G "fst y'" "snd y'" "fst z" "snd z"] by simp
  then show ?case by (rule extends.frame_trans [OF step(3)])
qed

lemma overlaps_mono:
  assumes "(overlaps E G)\<^sup>*\<^sup>* y z" "\<And>p T. G p T \<Longrightarrow> H p T"
  shows "(overlaps E H)\<^sup>*\<^sup>* y z"
proof -
  have "overlaps E H y z" if "overlaps E G y z" for y z
    using that by (induction rule: overlaps.induct) (rule overlaps.intros; (assumption | rule assms(2); assumption))+
  then show ?thesis by (rule mono_rtranclp [rule_format, OF _ assms(1)])
qed

section \<open>A run with a timely item\<close>

lemma item_settles:
  assumes "race_store f b (race_tx f h2 KindRefund ''x2'') (race_tx b h1 KindBet ''x1'') w"
  shows "wp (finish_item demo_env i (Inr (Some (race_tx f h2 KindRefund ''x2'')))) (\<lambda>_. settled_store f b h2) (\<lambda>_ _. False) w"
proof -
  let ?q = "race_tx f h2 KindRefund ''x2''" and ?t = "race_tx b h1 KindBet ''x1''"
  obtain x where x: "txs (tabs w) = [x, ?q, ?t]" "t_provider x = None" "t_kind x = KindOpening"
    "t_id x \<noteq> f" "t_id x \<noteq> b" using assms by (auto simp: race_store_def)
  have o: "tbl_find b_event (replicate (Suc n) CHR ''a'') (outbox (tabs w)) = None" "tbl_find l_id (replicate (Suc n) CHR
      ''a'') (ledger (tabs w)) = None" if "tick w \<le> n" for n
    using assms that by (auto simp: race_store_def intro!: fresh_find [where n = "tick w"])
  have l: "\<not> (\<exists>q \<in> set (ledger (tabs w)). l_wallet q = v \<and> l_tx q = f)" for v using assms by (auto simp: race_store_def)
  have ne: "f \<noteq> []" "b \<noteq> []" "f \<noteq> b" "b \<noteq> f" "f \<noteq> t_id x" "b \<noteq> t_id x" "\<not> aborted w"
    and ws: "wallets (tabs w) = [\<lparr>wr_id = ''a'', wr_player = ''p'', wr_currency = ''BRL'', wr_balance = 750, wr_version = 2\<rparr>]"
    using assms x(4,5) by (auto simp: race_store_def)
  have ob: "length (b_event e) \<le> n" if "e \<in> set (outbox (tabs w))" "tick w \<le> n" for e n
    using assms that by (fastforce simp: race_store_def)
  show ?thesis
    apply (simp add: finish_item_def race_tx_def wp_transact store_rules dependent_rules reversal_rules Let_def tock_def x ws ne
        tbl_find_simps tbl_find_snoc o l del: replicate.simps)
    by (simp add: settled_store_def x ne race_tx_def ob active_win_def)
qed

lemma timely_example:
  obtains w f q w1 w2 where "idle demo_env w" "reachable demo_env (tabs w)" "q \<in> set (txs (tabs w))" "t_id q = f"
    "t_state q = StatePendingReference"
    "(overlaps demo_env (timely demo_env))\<^sup>*\<^sup>* (w, []) (w1, [Item \<lparr>wi_tx = f, wi_kind = ''reference'', wi_ref = 0, wi_infra = 0,
        wi_next = 0, wi_owner = [], wi_lease = None, wi_created = 0\<rparr> (Inr (Some q)) False])"
    "(overlaps demo_env (timely demo_env))\<^sup>*\<^sup>* (w, []) (w2, [])"
    "map wr_balance (wallets (tabs w)) = [750]" "map wr_balance (wallets (tabs w2)) = [1000]"
    "timely demo_env (Item \<lparr>wi_tx = f, wi_kind = ''reference'', wi_ref = 0, wi_infra = 0, wi_next = 0, wi_owner = [], wi_lease = None,
        wi_created = 0\<rparr> (Inr (Some q)) False) (tabs w1)"
    "\<exists>x \<in> set (txs (tabs w)). IsTerminal (t_state x)"
proof -
  obtain w f b h h' where w: "reachable demo_env (tabs w)" "idle demo_env w"
      "race_store f b (race_tx f h KindRefund ''x2'') (race_tx b h' KindBet ''x1'') w" by (rule race_reachable)
  let ?q = "race_tx f h KindRefund ''x2''"
  let ?item = "\<lparr>wi_tx = f, wi_kind = ''reference'', wi_ref = 0, wi_infra = 0, wi_next = 0, wi_owner = [],
    wi_lease = None, wi_created = 0\<rparr>"
  let ?p = "Item ?item (Inr (Some ?q)) False"
  have f: "f \<noteq> []" "tbl_find t_id f (txs (tabs w)) = Some ?q" "\<not> aborted w"
    and q: "?q \<in> set (txs (tabs w))" "\<exists>x \<in> set (txs (tabs w)). IsTerminal (t_state x)"
    using w(3) by (auto simp: race_store_def race_tx_def IsTerminal_def)
  let ?v = "tock (tock w)"
  have same: "w\<lparr>tick := n, aborted := False\<rparr> = w\<lparr>tick := n\<rparr>" for n using f(3) by (cases w) simp
  have "attempt (tx_Get demo_env (wi_tx ?item)) (begun w) = (Inr (Inr (Some ?q)), ?v)"
    using f by (simp add: tx_Get_def sql_find_tx_def attempt_def absent_if_invalid_def stmt_def bind_def ret_def rbind_def
        uuid_in_def demo_env_sure tock_def begun_def)
  from overlaps.reads_item [OF this, of _ "[]"]
  have s1: "overlaps demo_env G (w, []) (?v, [?p])" for G by (simp add: tock_def same f(3))
  define w0 where "w0 = snd (ReevaluateDependents demo_env ''prov'' ''x9'' ?v)"
  define w1 where "w1 = w0\<lparr>tick := tick w + tick w0\<rparr>"
  have "tabs w0 = tabs w" unfolding w0_def by (rule others_elsewhere [OF w(3)]) (simp add: tock_def)
  then have t1: "tabs w1 = tabs w" and le: "tick w \<le> tick w1" by (simp_all add: w1_def)
  have "overlaps demo_env G (?v, [?p]) (w0, [?p])" "overlaps demo_env G (w0, [?p]) (w1, [?p])" for G
    unfolding w0_def w1_def by (intro overlaps.whole serves.part block.reevaluating serves.elapses)+
  then have s2: "(overlaps demo_env G)\<^sup>*\<^sup>* (?v, [?p]) (w1, [?p])" for G by (meson converse_rtranclp_into_rtranclp r_into_rtranclp)
  have run: "(overlaps demo_env (timely demo_env))\<^sup>*\<^sup>* (w, []) (w1, [?p])" by (rule converse_rtranclp_into_rtranclp [OF s1 s2])
  let ?w1 = "w1\<lparr>aborted := False\<rparr>" and ?w2 = "snd (commit demo_env (tabs w1) (rest demo_env ?p (w1\<lparr>aborted := False\<rparr>)))"
  have tm: "timely demo_env ?p (tabs w1)" using q(1) t1 by (simp add: timely_def)
  from overlaps.goes_on [of 0 "[?p]" "timely demo_env" w1 demo_env] tm
  have s3: "overlaps demo_env (timely demo_env) (w1, [?p]) (?w2, [])" by (simp add: without_def)
  have "race_store f b ?q (race_tx b h' KindBet ''x1'') ?w1" by (rule race_later [OF w(3)]) (simp_all add: t1 le)
  from wp_Inr [OF item_settles [OF this, of ?item]] obtain x w3 where
    w3: "finish_item demo_env ?item (Inr (Some ?q)) ?w1 = (Inr x, w3)" "settled_store f b h w3" by (elim exE conjE)
  have "\<not> aborted w3" using w3(2) unfolding settled_store_def by blast
  then have "tabs ?w2 = tabs w3" by (simp add: commit_def bind_def ret_def demo_env_sure w3(1))
  moreover have "map wr_balance (wallets (tabs w3)) = [1000]" using w3(2) unfolding settled_store_def by (elim conjE) simp
  ultimately have b2: "map wr_balance (wallets (tabs ?w2)) = [1000]" by simp
  have b: "map wr_balance (wallets (tabs w)) = [750]" using w(3) by (simp add: race_store_def)
  have st: "t_id ?q = f" "t_state ?q = StatePendingReference" by (simp_all add: race_tx_def)
  have run2: "(overlaps demo_env (timely demo_env))\<^sup>*\<^sup>* (w, []) (?w2, [])" by (rule rtranclp.rtrancl_into_rtrancl [of "overlaps demo_env (timely demo_env)", OF run s3])
  show ?thesis
    by (rule that [of w ?q f w1 ?w2], rule w, rule w, rule q, rule st, rule st, rule run, rule run2, rule b, rule b2, rule tm, rule q)
qed

section \<open>The claims\<close>

text \<open>C5. Overlapping transactions. Any number of calls may run at the same time, with transactions lost or killed anywhere,
  and those that read rows before they lock the wallet, a worker's item and the re-evaluation of dependents,
  split at that point, so that others commit between the read and the rest. As long as each rest runs while the
  parked rows it has read are still stored as they were, the store makes steps of the abstract machine only and
  stays sound; and a rest that finds them changed has been overtaken: one of these rows has been settled
  meanwhile. The code does not check that: the run of \<open>stale_item_overwrites\<close> is such a case.\<close>

theorem overlapping_runs_refine:
  assumes "idle E w" "(overlaps E (timely E))\<^sup>*\<^sup>* (w, []) (w', ps)"
  shows "machine\<^sup>*\<^sup>* (tabs w) (tabs w') \<and> sound (tabs w') \<and> idle E w' \<and>
    (\<forall>p \<in> set ps. timely E p (tabs w') \<or> overtaken E p (tabs w'))"
  using timely_run [OF assms(2,1)] untimely_overtaken by (auto simp: progress_def idle_def good_def)

lemma overlapping_runs_refine_witness:
  "\<exists>w w' p v. (overlaps demo_env (timely demo_env))\<^sup>*\<^sup>* (w, []) (w', [p]) \<and> timely demo_env p (tabs w') \<and> sound (tabs w') \<and>
     (overlaps demo_env (timely demo_env))\<^sup>*\<^sup>* (w, []) (v, []) \<and> machine\<^sup>*\<^sup>* (tabs w) (tabs v) \<and> sound (tabs v) \<and>
     map wr_balance (wallets (tabs w)) = [750] \<and> map wr_balance (wallets (tabs v)) = [1000]"
proof (rule timely_example)
  fix w f q w1 w2
  let ?p = "Item \<lparr>wi_tx = f, wi_kind = ''reference'', wi_ref = 0, wi_infra = 0, wi_next = 0, wi_owner = [], wi_lease = None,
    wi_created = 0\<rparr> (Inr (Some q)) False"
  assume i: "idle demo_env w"
    and w: "(overlaps demo_env (timely demo_env))\<^sup>*\<^sup>* (w, []) (w1, [?p])" "(overlaps demo_env (timely demo_env))\<^sup>*\<^sup>* (w, []) (w2, [])"
      "map wr_balance (wallets (tabs w)) = [750]" "map wr_balance (wallets (tabs w2)) = [1000]" "timely demo_env ?p (tabs w1)"
  show ?thesis
    by (rule exI [of _ w], rule exI [of _ w1], rule exI [of _ ?p], rule exI [of _ w2])
      (simp only: w overlapping_runs_refine [OF i w(1)] overlapping_runs_refine [OF i w(2)] simp_thms)
qed

text \<open>C19. History is kept. In every run, overlapping or not and overtaken or not, the ledger only grows at its end, wallets
  keep their identity, player and currency, and every transaction keeps the columns of its request. In a run in
  which no overtaken rest runs, a transaction that is processed, rejected or failed also keeps its state, failure
  code, resulting balance, observed version and reference. (In the other runs a settled refund may be
  overwritten: \<open>stale_item_overwrites\<close>.)\<close>

theorem history_is_kept:
  assumes "(overlaps E G)\<^sup>*\<^sup>* (w, []) (w', ps)"
  shows "(\<exists>es. ledger (tabs w') = ledger (tabs w) @ es) \<and>
    (\<forall>r \<in> set (wallets (tabs w)). \<exists>s \<in> set (wallets (tabs w')). same_wallet r s) \<and>
    (\<forall>x \<in> set (txs (tabs w)). \<exists>y \<in> set (txs (tabs w')). same_request x y) \<and>
    (idle E w \<and> (\<forall>p T. G p T \<longrightarrow> timely E p T) \<longrightarrow> (\<forall>x \<in> set (txs (tabs w)). IsTerminal (t_state x) \<longrightarrow>
       (\<exists>y \<in> set (txs (tabs w')). t_id y = t_id x \<and> t_state y = t_state x \<and> t_failure y = t_failure x \<and> t_result y = t_result x \<and>
          t_version y = t_version x \<and> t_ref_tx y = t_ref_tx x)))"
proof -
  have e: "extends (tabs w) (tabs w')" using overlaps_run_extends [OF assms] by simp
  have "later (tabs w) (tabs w')" if "idle E w" "\<forall>p T. G p T \<longrightarrow> timely E p T"
  proof -
    have "(overlaps E (timely E))\<^sup>*\<^sup>* (w, []) (w', ps)" using overlaps_mono [OF assms] that(2) by blast
    from timely_run [OF this that(1)] show ?thesis
      using machine_star_later that(1) by (auto simp: progress_def idle_def good_def)
  qed
  then have "\<exists>y \<in> set (txs (tabs w')). evolves x y" if "idle E w" "\<forall>p T. G p T \<longrightarrow> timely E p T" "x \<in> set (txs (tabs w))" for x
    using that by (auto simp: later_def)
  then show ?thesis using e unfolding extends_def by (fastforce simp: evolves_def same_request_def [of _ _])
qed

lemma history_is_kept_witness:
  "\<exists>w w' x y. (overlaps demo_env (timely demo_env))\<^sup>*\<^sup>* (w, []) (w', []) \<and> map wr_balance (wallets (tabs w)) = [750] \<and>
     map wr_balance (wallets (tabs w')) = [1000] \<and> x \<in> set (txs (tabs w)) \<and> y \<in> set (txs (tabs w')) \<and> t_id y = t_id x \<and>
     t_state y = t_state x \<and> IsTerminal (t_state x)"
proof (rule timely_example)
  fix w f q w1 w2
  assume w: "idle demo_env w" "(overlaps demo_env (timely demo_env))\<^sup>*\<^sup>* (w, []) (w2, [])"
      "map wr_balance (wallets (tabs w)) = [750]" "map wr_balance (wallets (tabs w2)) = [1000]"
    and "\<exists>x \<in> set (txs (tabs w)). IsTerminal (t_state x)"
  then obtain x where x: "x \<in> set (txs (tabs w))" "IsTerminal (t_state x)" by blast
  with history_is_kept [OF w(2)] w(1) obtain y where "y \<in> set (txs (tabs w2))" "t_id y = t_id x" "t_state y = t_state x" by blast
  with w x show ?thesis by (intro exI [of _ w] exI [of _ w2] exI [of _ x] exI [of _ y] conjI)
qed

end
