(* ===== verification/Snapshots.thy ===== *)
theory Snapshots
  imports Ledger_Reads Lock_Race
begin

text \<open>
  What the isolation level of a reconciliation is for. \<^verbatim>\<open>Reconcile\<close> reads the wallet and its ledger by two statements, and
  others may commit between them. At \<^verbatim>\<open>REPEATABLE READ\<close>, which \<^verbatim>\<open>TransactRepeatableRead\<close> asks for, both see the tables of
  the first statement; at the default level the second sees what was committed meanwhile.
\<close>

section \<open>Two statements and a commit in between\<close>

datatype isolation = ReadCommitted | RepeatableRead

definition reconcile_rest :: "env \<Rightarrow> string \<Rightarrow> wallet_row option \<Rightarrow> reconciliation action" where
  "reconcile_rest E walletID mw = (case mw of
     None \<Rightarrow> fail (ErrCorrectable CodeWalletMissing)
   | Some wallet \<Rightarrow>
     bind (AllOrdered E walletID) (\<lambda>entries.
     bind (lift_domain (NewMoneyFromMinor (wr_balance wallet) (wr_currency wallet))) (\<lambda>stored.
     bind (lift_domain (NewMoneyFromMinor 0 (wr_currency wallet))) (\<lambda>zero.
     bind (lift_error (apply_entries zero entries)) (\<lambda>calculated.
     lift_domain (compare_balance walletID stored calculated (length entries)))))))"

lemma reconcile_body_rest: "reconcile_body E wid = bind (wallet_Get E wid) (reconcile_rest E wid)"
  unfolding reconcile_body_def reconcile_rest_def [abs_def] ..

text \<open>What the later statements of a transaction see: of the tables at its first statement and those now.\<close>

fun visible :: "isolation \<Rightarrow> tables \<Rightarrow> tables \<Rightarrow> tables" where
  "visible ReadCommitted snapshot current = current"
| "visible RepeatableRead snapshot current = snapshot"

lemma visible_same [simp]: "visible level T T = T"
  by (cases level) simp_all

text \<open>A transaction that only reads: \<open>first\<close> fixes the snapshot, then \<open>others\<close> commit, then \<open>rest\<close> reads what the level
  shows it. It has nothing of its own to commit.\<close>

definition transact_reading :: "env \<Rightarrow> isolation \<Rightarrow> 'a action \<Rightarrow> 'c action \<Rightarrow> ('a \<Rightarrow> 'b action) \<Rightarrow> 'b action" where
  "transact_reading E level first others rest w =
    (if e_fault E (tick w) then (Inl (ErrDb Unavailable), tock w)
     else case first (tock (w\<lparr>aborted := False\<rparr>)) of
       (Inl e, w1) \<Rightarrow> commit E (tabs w) (Inl e, w1)
     | (Inr x, w1) \<Rightarrow>
       (let w2 = snd (others (w1\<lparr>tabs := tabs w, aborted := False\<rparr>));
            (r, w3) = rest x (w2\<lparr>tabs := visible level (tabs w) (tabs w2), aborted := aborted w1\<rparr>)
        in commit E (tabs w2) (r, w3\<lparr>tabs := tabs w2\<rparr>)))"

definition first_reads :: "env \<Rightarrow> string \<Rightarrow> wallet_row option action" where
  "first_reads E walletID = bind (stmt E (\<lambda>T. Inr ((), T))) (\<lambda>_. wallet_Get E walletID)"

definition Reconcile_during :: "env \<Rightarrow> isolation \<Rightarrow> string \<Rightarrow> 'c action \<Rightarrow> reconciliation action" where
  "Reconcile_during E level walletID others = transact_reading E level (first_reads E walletID) others (reconcile_rest E walletID)"

lemma first_reads_still: "tabs (snd (first_reads E wid v)) = tabs v"
  by (auto simp: first_reads_def wallet_Get_def sql_find_wallet_def absent_if_invalid_def attempt_def bind_def ret_def fail_def
      stmt_def rbind_def split: sum.splits prod.splits)

lemma reconcile_rest_still: "tabs (snd (reconcile_rest E wid mw v)) = tabs v"
  by (auto simp: reconcile_rest_def AllOrdered_def sql_all_ordered_def bind_def ret_def fail_def stmt_def rbind_def lift_domain_def
      lift_error_def split: sum.splits prod.splits option.splits)

text \<open>With nobody in between it is the code's transaction, at either level.\<close>

lemma nobody_between: "Reconcile_during E level wid (ret x) = Reconcile E wid"
proof (rule ext)
  fix w :: world
  let ?v = "tock (w\<lparr>aborted := False\<rparr>)"
  obtain r w1 where f: "first_reads E wid ?v = (r, w1)" by fastforce
  have t: "tabs w1 = tabs w" using first_reads_still [of E wid ?v] f by simp
  then have e: "w1\<lparr>tabs := tabs w\<rparr> = w1" by (cases w1) simp
  have b: "bind (stmt E (\<lambda>T. Inr ((), T))) (\<lambda>_. reconcile_body E wid) = bind (first_reads E wid) (reconcile_rest E wid)"
    unfolding reconcile_body_rest first_reads_def by (rule ext) (simp add: bind_def split: sum.splits prod.splits)
  show "Reconcile_during E level wid (ret x) w = Reconcile E wid w"
  proof (cases r)
    case (Inr mw)
    obtain y w3 where y: "reconcile_rest E wid mw w1 = (y, w3)" by fastforce
    have "tabs w3 = tabs w" using reconcile_rest_still [of E wid mw w1] y t by simp
    then have "w3\<lparr>tabs := tabs w\<rparr> = w3" by (cases w3) simp
    moreover have "w1\<lparr>tabs := tabs w, aborted := False, tabs := tabs w, aborted := aborted w1\<rparr> = w1" using t by (cases w1) simp
    ultimately show ?thesis using f y Inr t
      by (simp add: Reconcile_during_def transact_reading_def Reconcile_def TransactRepeatableRead_def b transact_commit bind_def
          ret_def Let_def e)
  next
    case (Inl err)
    then show ?thesis using f
      by (simp add: Reconcile_during_def transact_reading_def Reconcile_def TransactRepeatableRead_def b transact_commit bind_def)
  qed
qed

section \<open>What the rest computes\<close>

lemma wp_reconcile_rest:
  assumes "tabs v = T" "e_uuid E wid = Some u"
  shows "wp (reconcile_rest E wid (Some q)) (\<lambda>rc v'. tabs v' = T \<and>
      (\<exists>c. apply_entries (mk_money 0 (wr_currency q)) (by_version (ledger_of u (ledger T))) = Inr c \<and>
        compare_balance wid (mk_money (wr_balance q) (wr_currency q)) c (length (ledger_of u (ledger T))) = Inr rc))
      (\<lambda>_ _. True) v"
  using assms
  by (auto simp: reconcile_rest_def wp_bind wp_stmt wp_ret wp_fail uuid_in_def rbind_def AllOrdered_def sql_all_ordered_def
      wp_lift_domain lift_error_def NewMoneyFromMinor_def length_by_version split: sum.splits)

lemma rest_result:
  assumes "reconcile_rest E wid (Some q) v = (Inr rc, v')" "e_uuid E wid = Some u"
  shows "rc_checked rc = length (ledger_of u (ledger (tabs v)))"
    "rc_consistent rc \<longleftrightarrow> sint (wr_balance q) = ledger_sum (ledger_of u (ledger (tabs v)))"
proof -
  obtain c where c: "apply_entries (mk_money 0 (wr_currency q)) (by_version (ledger_of u (ledger (tabs v)))) = Inr c"
      "compare_balance wid (mk_money (wr_balance q) (wr_currency q)) c (length (ledger_of u (ledger (tabs v)))) = Inr rc"
    using wp_InrD [OF wp_reconcile_rest [OF refl assms(2)] assms(1)] by blast
  show "rc_checked rc = length (ledger_of u (ledger (tabs v)))"
    "rc_consistent rc \<longleftrightarrow> sint (wr_balance q) = ledger_sum (ledger_of u (ledger (tabs v)))"
    using apply_entries_InrD [OF c(1)] compare_balance_InrD [OF c(2)] by (simp_all add: ledger_sum_by_version)
qed

text \<open>A wallet row as it is or once was gives a result.\<close>

lemma rest_returns:
  assumes g: "good E (tabs v)" "\<not> aborted v" and E: "sure E" "e_uuid E wid = Some u"
    and r: "tbl_find wr_id u (wallets (tabs v)) = Some r" and q: "wr_currency q = wr_currency r" "0 \<le> sint (wr_balance q)"
  shows "\<exists>rc v'. reconcile_rest E wid (Some q) v = (Inr rc, v') \<and> \<not> aborted v'"
proof -
  let ?es = "ledger_of u (ledger (tabs v))" and ?z = "mk_money 0 (wr_currency r)" and ?s = "mk_money (wr_balance q) (wr_currency r)"
  have cur: "validCurrency (wr_currency r)" "\<forall>e \<in> set ?es. l_currency e = wr_currency r"
    using goodD(3) [OF g(1)] currency_okD [OF _ r] by (simp_all add: stored_ok_def)
  have b: "books_of r ?es" "0 \<le> sint (wr_balance r)" using books_ok_find(3,5) [OF _ r] g(1) by (simp_all add: good_def sound_def)
  have ord: "by_version ?es = ?es" by (rule by_version_ordered [OF ledger_ordered [OF g(1)]])
  obtain n s where "replay (0, n) ?es = Some s" using b by (auto simp: books_of_def)
  then obtain c where c: "apply_entries ?z ?es = Inr c" "currency c = wr_currency r"
    using apply_entries_replay [of "(0, n)" ?es s ?z] cur by auto
  have "0 \<le> sint (minor c)" using apply_entries_InrD [OF c(1)] books_sum [OF b(1)] b(2) by (simp add: ledger_sum_def)
  then have "in_int64 (sint (wr_balance q) - sint (minor c))"
    using q(2) sint_upper [of "wr_balance q"] sint_upper [of "minor c"] by (simp add: in_int64_def)
  then have "\<exists>rc. compare_balance wid ?s c (length ?es) = Inr rc"
    by (simp add: compare_balance_def money_Sub_eq money_Cmp_def c(2) rbind_def)
  then obtain rc where rc: "compare_balance wid ?s c (length ?es) = Inr rc" ..
  have "wp (reconcile_rest E wid (Some q)) (\<lambda>_ v'. \<not> aborted v') (\<lambda>_ _. False) v"
    using E g(2) cur(1)
    by (simp add: reconcile_rest_def wp_bind wp_stmt wp_ret sure_def uuid_in_def rbind_def AllOrdered_def sql_all_ordered_def
        wp_lift_domain lift_error_def NewMoneyFromMinor_def ord c(1) rc q(1) length_by_version)
  then show ?thesis using wp_Inr by blast
qed

lemma first_reads_result:
  assumes "first_reads E wid v = (Inr mw, v1)" "\<not> aborted v"
  shows "aborted v1 \<and> mw = None \<or> \<not> aborted v1 \<and> (\<exists>u. e_uuid E wid = Some u \<and> mw = tbl_find wr_id u (wallets (tabs v)))"
  using assms
  by (auto simp: first_reads_def wallet_Get_def sql_find_wallet_def absent_if_invalid_def attempt_def bind_def ret_def fail_def
      stmt_def rbind_def uuid_in_def split: sum.splits prod.splits option.splits if_splits)

lemma first_reads_returns:
  assumes "sure E" "\<not> aborted v" "e_uuid E wid = Some u"
  shows "\<exists>v1. first_reads E wid v = (Inr (tbl_find wr_id u (wallets (tabs v))), v1) \<and> \<not> aborted v1"
  using assms by (simp add: first_reads_def wallet_Get_def sql_find_wallet_def absent_if_invalid_def attempt_def bind_def ret_def
      stmt_def rbind_def uuid_in_def sure_def)

text \<open>A run in which others commit in between.\<close>

lemma during_cases:
  assumes "Reconcile_during E level wid others w = (res, w')"
  obtains (early) e where "res = Inl e" "tabs w' = tabs w"
      "e_fault E (tick w) \<or> (\<exists>x w1. first_reads E wid (tock (w\<lparr>aborted := False\<rparr>)) = (Inl x, w1))"
  | (late) mw w1 w2 r v' where "\<not> e_fault E (tick w)" "first_reads E wid (tock (w\<lparr>aborted := False\<rparr>)) = (Inr mw, w1)"
      "w2 = snd (others (w1\<lparr>tabs := tabs w, aborted := False\<rparr>))"
      "reconcile_rest E wid mw (w2\<lparr>tabs := visible level (tabs w) (tabs w2), aborted := aborted w1\<rparr>) = (r, v')"
      "commit E (tabs w2) (r, v'\<lparr>tabs := tabs w2\<rparr>) = (res, w')" "tabs w' = tabs w2"
proof (cases "e_fault E (tick w)")
  case True
  then show ?thesis using assms early by (auto simp: Reconcile_during_def transact_reading_def)
next
  case False
  obtain x w1 where f: "first_reads E wid (tock (w\<lparr>aborted := False\<rparr>)) = (x, w1)" by fastforce
  show ?thesis
  proof (cases x)
    case (Inl e)
    then show ?thesis using assms early f False by (auto simp: Reconcile_during_def transact_reading_def commit_def)
  next
    case (Inr mw)
    define w2 where "w2 = snd (others (w1\<lparr>tabs := tabs w, aborted := False\<rparr>))"
    obtain r v' where r: "reconcile_rest E wid mw (w2\<lparr>tabs := visible level (tabs w) (tabs w2), aborted := aborted w1\<rparr>) = (r, v')"
      by fastforce
    have c: "commit E (tabs w2) (r, v'\<lparr>tabs := tabs w2\<rparr>) = (res, w')"
      using assms f False Inr r by (simp add: Reconcile_during_def transact_reading_def Let_def w2_def)
    then have "tabs w' = tabs w2" by (auto simp: commit_def split: sum.splits if_splits)
    with late False f Inr w2_def r c show ?thesis by blast
  qed
qed

lemma commit_result: "commit E T (r, v) = (Inr x, w') \<Longrightarrow> r = Inr x \<and> \<not> aborted v"
  by (auto simp: commit_def split: sum.splits if_splits)

section \<open>The claims\<close>

text \<open>C30. A reconciliation is a snapshot. Whatever calls of the service commit between its two statements, a reconciliation that
  returns a result finds the wallet consistent over all entries of its ledger as it was when it began; it takes
  nothing of what they have stored away, and it returns when the wallet is stored and no statement is lost. With
  nobody in between it is the use-case.\<close>

theorem Reconcile_snapshot:
  assumes "idle E w" "calls E others" "Reconcile_during E RepeatableRead wid others w = (res, w')"
  shows "(\<forall>rc. res = Inr rc \<longrightarrow> rc_consistent rc \<and> (\<exists>u r. e_uuid E wid = Some u \<and> tbl_find wr_id u (wallets (tabs w)) = Some r \<and>
      rc_checked rc = length (ledger_of u (ledger (tabs w))))) \<and>
    (tabs w' = tabs w \<or> (\<exists>v. tabs v = tabs w \<and> tabs w' = tabs (snd (others v)))) \<and>
    (sure E \<and> (\<exists>u r. e_uuid E wid = Some u \<and> tbl_find wr_id u (wallets (tabs w)) = Some r) \<longrightarrow> (\<exists>rc. res = Inr rc)) \<and>
    Reconcile_during E RepeatableRead wid (ret ()) = Reconcile E wid"
proof -
  have g: "good E (tabs w)" using assms(1) by (simp add: idle_def)
  have balanced: "sint (wr_balance r) = ledger_sum (ledger_of u (ledger (tabs w)))" "0 \<le> sint (wr_balance r)"
    if "tbl_find wr_id u (wallets (tabs w)) = Some r" for u r
    using books_ok_find(3,5) [OF _ that] books_sum g by (simp_all add: good_def sound_def ledger_sum_def)
  from assms(3) show ?thesis
  proof (cases rule: during_cases)
    case (early e)
    have "\<not> (sure E \<and> e_uuid E wid = Some u)" for u
      using early(3) first_reads_returns [of E "tock (w\<lparr>aborted := False\<rparr>)" wid u] by (auto simp: sure_def)
    then have "\<not> (sure E \<and> (\<exists>u r. e_uuid E wid = Some u \<and> tbl_find wr_id u (wallets (tabs w)) = Some r))" by blast
    then show ?thesis using early(1,2) by (simp add: nobody_between)
  next
    case (late mw w1 w2 r v')
    let ?V = "w2\<lparr>tabs := tabs w, aborted := aborted w1\<rparr>"
    have rest: "reconcile_rest E wid mw ?V = (r, v')" using late(4) by simp
    have result: "rc_consistent rc \<and> (\<exists>u r. e_uuid E wid = Some u \<and> tbl_find wr_id u (wallets (tabs w)) = Some r \<and>
        rc_checked rc = length (ledger_of u (ledger (tabs w))))" if "res = Inr rc" for rc
    proof -
      have rc: "r = Inr rc" using commit_result [of E "tabs w2" r "v'\<lparr>tabs := tabs w2\<rparr>" rc w'] late(5) that by simp
      then obtain q where q: "mw = Some q" using rest by (cases mw) (auto simp: reconcile_rest_def fail_def)
      then obtain u where u: "e_uuid E wid = Some u" "tbl_find wr_id u (wallets (tabs w)) = Some q"
        using first_reads_result [OF late(2)] by auto
      from rest_result [OF rest [unfolded q rc] u(1)] balanced(1) [OF u(2)] u show ?thesis by auto
    qed
    have returns: "\<exists>rc. res = Inr rc" if s: "sure E" "e_uuid E wid = Some u" "tbl_find wr_id u (wallets (tabs w)) = Some q" for u q
    proof -
      have f: "mw = Some q" "\<not> aborted w1"
        using first_reads_returns [OF s(1) _ s(2), of "tock (w\<lparr>aborted := False\<rparr>)"] late(2) s(3) by auto
      have "good E (tabs ?V)" "\<not> aborted ?V" "tbl_find wr_id u (wallets (tabs ?V)) = Some q" using g f(2) s(3) by simp_all
      from rest_returns [OF this(1,2) s(1,2) this(3) refl balanced(2) [OF s(3)]] obtain rc v2
        where "reconcile_rest E wid (Some q) ?V = (Inr rc, v2)" "\<not> aborted v2" by blast
      then have "r = Inr rc" "\<not> aborted v'" using rest f(1) by simp_all
      then show ?thesis using late(5) s(1) by (auto simp: commit_def sure_def)
    qed
    have "\<exists>v. tabs v = tabs w \<and> tabs w' = tabs (snd (others v))"
      using late(3,6) by (intro exI [of _ "w1\<lparr>tabs := tabs w, aborted := False\<rparr>"]) simp
    moreover have "sure E \<and> (\<exists>u r. e_uuid E wid = Some u \<and> tbl_find wr_id u (wallets (tabs w)) = Some r) \<longrightarrow> (\<exists>rc. res = Inr rc)"
      using returns by blast
    ultimately show ?thesis using result nobody_between [of E RepeatableRead wid "()"] by (intro conjI allI impI disjI2) simp_all
  qed
qed

text \<open>In a store with a wallet and nothing else but a parked refund, a bet commits between the statements.\<close>

lemma parked_reachable:
  obtains w f h where "reachable demo_env (tabs w)" "idle demo_env w" "parked_store f (race_tx f h KindRefund ''x2'') w"
proof -
  obtain r w1 where w1: "OpenWallet demo_env ''p'' ''BRL'' ''10.00'' demo_empty = (Inr r, w1)" "opened_store w1"
    using wp_Inr [OF opened_store] by auto
  obtain h where h: "validate_input refund_in = Inr (mk_money 250 ''BRL'', h)" using refund_in_valid by blast
  obtain f r2 w2 where w2: "transact demo_env (submit_body demo_env refund_in (mk_money 250 ''BRL'') h) w1 = (Inr r2, w2)"
      "parked_store f (race_tx f h KindRefund ''x2'') w2"
    using wp_Inr [OF parks [OF w1(2), of h]] by (elim exE conjE)
  have "serves demo_env demo_empty w1"
    using serves.opened_wallet [of demo_env demo_empty "''p''" "''BRL''" "''10.00''"] unfolding w1(1) by simp
  moreover have "serves demo_env w1 w2" using serves.part [OF block.accepting [OF h, of demo_env w1]] unfolding w2(1) by simp
  ultimately have run: "(serves demo_env)\<^sup>*\<^sup>* demo_empty w2"
    by (meson converse_rtranclp_into_rtranclp r_into_rtranclp)
  have "idle demo_env w2" using runs_progress [OF run demo_env_props(3)] by (rule conjunct2)
  then show ?thesis by (rule that [OF reachableI [OF demo_env_props(2) run] _ w2(2)])
qed

lemma parked_later: "parked_store f q w \<Longrightarrow> tabs v = tabs w \<Longrightarrow> tick w \<le> tick v \<Longrightarrow> \<not> aborted v \<Longrightarrow> parked_store f q v"
  unfolding parked_store_def by (auto dest: order_trans)

lemma bet_between:
  obtains w w1 w2 and others :: "submit_result action" where "reachable demo_env (tabs w)" "idle demo_env w" "calls demo_env others"
    "first_reads demo_env ''a'' (tock (w\<lparr>aborted := False\<rparr>)) = (Inr (Some demo_wallet), w1)" "\<not> aborted w1"
    "w2 = snd (others (w1\<lparr>tabs := tabs w, aborted := False\<rparr>))" "idle demo_env w2"
    "tbl_find wr_id ''a'' (wallets (tabs w)) = Some demo_wallet"
    "tbl_find wr_id ''a'' (wallets (tabs w2)) = Some (demo_wallet\<lparr>wr_balance := 750, wr_version := 2\<rparr>)"
proof -
  obtain w f h where w: "reachable demo_env (tabs w)" "idle demo_env w" "parked_store f (race_tx f h KindRefund ''x2'') w"
    by (rule parked_reachable)
  obtain h' where h': "validate_input demo_bet = Inr (mk_money 250 ''BRL'', h')" using demo_bet_valid by blast
  define others where "others = transact demo_env (submit_body demo_env demo_bet (mk_money 250 ''BRL'') h')"
  have c: "calls demo_env others" unfolding others_def by (rule calls_blocks(1) [OF h'])
  have ws: "tbl_find wr_id ''a'' (wallets (tabs w)) = Some demo_wallet" "\<not> aborted w" using w(3) by (simp_all add: parked_store_def)
  define w1 where "w1 = tock (tock (tock (w\<lparr>aborted := False\<rparr>)))"
  have f: "first_reads demo_env ''a'' (tock (w\<lparr>aborted := False\<rparr>)) = (Inr (Some demo_wallet), w1)"
    using ws(1) by (simp add: first_reads_def wallet_Get_def sql_find_wallet_def absent_if_invalid_def attempt_def bind_def ret_def
      stmt_def rbind_def uuid_in_def demo_env_sure w1_def tock_def)
  let ?v = "w1\<lparr>tabs := tabs w, aborted := False\<rparr>"
  have "parked_store f (race_tx f h KindRefund ''x2'') ?v" by (rule parked_later [OF w(3)]) (simp_all add: w1_def tock_def)
  from wp_Inr [OF bets [OF this, of h', folded others_def]] obtain x w2 b
    where o: "others ?v = (Inr x, w2)" "race_store f b (race_tx f h KindRefund ''x2'') (race_tx b h' KindBet ''x1'') w2" by (elim exE conjE)
  have iv: "idle demo_env ?v" using w(2) by (simp add: idle_def)
  have "(serves demo_env)\<^sup>*\<^sup>* ?v w2" using callsD [OF c, of ?v] o(1) by simp
  then have "idle demo_env w2" using runs_progress iv by blast
  moreover have "tbl_find wr_id ''a'' (wallets (tabs w2)) = Some (demo_wallet\<lparr>wr_balance := 750, wr_version := 2\<rparr>)"
    using o(2) by (simp add: race_store_def demo_wallet_def opened_row_def)
  moreover have "\<not> aborted w1" "w2 = snd (others ?v)" using o(1) by (simp_all add: w1_def)
  ultimately show ?thesis using that w(1,2) c f ws(1) by blast
qed


lemma Reconcile_snapshot_witness:
  "\<exists>w (others :: submit_result action) rc w'. Reconcile_during demo_env RepeatableRead ''a'' others w = (Inr rc, w') \<and> rc_consistent rc \<and>
     tabs w' \<noteq> tabs w"
proof (rule bet_between)
  fix w w1 w2 and others :: "submit_result action"
  assume w: "idle demo_env w" "calls demo_env others"
    "first_reads demo_env ''a'' (tock (w\<lparr>aborted := False\<rparr>)) = (Inr (Some demo_wallet), w1)" "\<not> aborted w1"
    "w2 = snd (others (w1\<lparr>tabs := tabs w, aborted := False\<rparr>))"
    "tbl_find wr_id ''a'' (wallets (tabs w)) = Some demo_wallet"
    "tbl_find wr_id ''a'' (wallets (tabs w2)) = Some (demo_wallet\<lparr>wr_balance := 750, wr_version := 2\<rparr>)"
  have u: "e_uuid demo_env ''a'' = Some ''a''" and sure: "sure demo_env" by (simp_all add: demo_env_def sure_def)
  obtain res w' where run: "Reconcile_during demo_env RepeatableRead ''a'' others w = (res, w')" by fastforce
  from Reconcile_snapshot [OF w(1,2) run] u sure w(6) obtain rc where rc: "res = Inr rc" "rc_consistent rc" by blast
  have "tabs w' = tabs w2" using run rc(1) w(3,5)
    by (auto simp: Reconcile_during_def transact_reading_def Let_def commit_def demo_env_sure split: prod.splits sum.splits if_splits)
  moreover have "tabs w2 \<noteq> tabs w" using w(6,7) by (auto simp: demo_wallet_def opened_row_def)
  ultimately show ?thesis using run rc by metis
qed

end
