(* ===== verification/Db_Errors.thy ===== *)
theory Db_Errors
  imports Lock_Race
begin

text \<open>
  Errors of the database inside a transaction. A use-case that returns one has left its transaction aborted, whatever
  it did with the error on the way: \<open>shows_abort\<close>. So \<^verbatim>\<open>noteInfra\<close>, which \<^verbatim>\<open>processWorkItem\<close> calls in the same
  transaction, cannot count it.
\<close>

section \<open>Database errors abort\<close>

definition shows_abort :: "'a action \<Rightarrow> bool" where
  "shows_abort m \<longleftrightarrow> (\<forall>w d w'. m w = (Inl (ErrDb d), w') \<longrightarrow> aborted w')"

named_theorems shows_abort_intros

lemma shows_abort_stmt [shows_abort_intros]: "shows_abort (stmt E f)"
  by (auto simp: shows_abort_def stmt_def split: sum.splits)

lemma shows_abort_bind [shows_abort_intros]: "shows_abort m \<Longrightarrow> (\<And>x. shows_abort (f x)) \<Longrightarrow> shows_abort (bind m f)"
  by (auto simp: shows_abort_def bind_def split: prod.splits sum.splits)

lemma shows_abort_basic [shows_abort_intros]:
  "shows_abort (ret x)" "shows_abort (ignore m)" "shows_abort (attempt m)" "shows_abort (lift_domain r)"
  "shows_abort (fail (ErrDomain c))" "shows_abort (fail (ErrOther s))" "shows_abort (fail (ErrCorrectable s))"
  "shows_abort (now E)" "shows_abort (newID E)" "shows_abort (int63n E n)"
  by (auto simp: shows_abort_def ret_def ignore_def attempt_def lift_domain_def fail_def now_def newID_def int63n_def split: sum.splits)

lemma shows_abort_absent [shows_abort_intros]: "shows_abort m \<Longrightarrow> shows_abort (absent_if_invalid m)"
  by (auto simp: shows_abort_def absent_if_invalid_def bind_def attempt_def ret_def fail_def split: prod.splits sum.splits if_splits)
    (metis prod.collapse)

lemma shows_abort_if [shows_abort_intros]: "(c \<Longrightarrow> shows_abort a) \<Longrightarrow> (\<not> c \<Longrightarrow> shows_abort b) \<Longrightarrow> shows_abort (if c then a else b)"
  by simp

lemma shows_abort_cases [shows_abort_intros]:
  "shows_abort a \<Longrightarrow> (\<And>x. shows_abort (f x)) \<Longrightarrow> shows_abort (case m of None \<Rightarrow> a | Some x \<Rightarrow> f x)"
  "(\<And>c. shows_abort (g c)) \<Longrightarrow> (\<And>x. shows_abort (h x)) \<Longrightarrow> shows_abort (case r of Inl c \<Rightarrow> g c | Inr x \<Rightarrow> h x)"
  "(\<And>x y. shows_abort (k x y)) \<Longrightarrow> shows_abort (case p of (x, y) \<Rightarrow> k x y)"
  by (simp_all split: option.splits sum.splits prod.splits)

lemma shows_abort_rows [shows_abort_intros]:
  "shows_abort (LockForUpdate E w)" "shows_abort (UpdateBalance E w b v)" "shows_abort (tx_Get E i)"
  "shows_abort (FindByProviderExternal E p e)" "shows_abort (UpdateState E x)" "shows_abort (MarkReversed E i k j)"
  "shows_abort (ClearReversal E i)" "shows_abort (HasActiveWin E i)" "shows_abort (ledger_Append E l)"
  "shows_abort (EnqueueOutbox E o_rec)" "shows_abort (GetWork E i)" "shows_abort (TouchWork E i a1 b1 t c1)"
  "shows_abort (DeleteWork E i)"
  unfolding LockForUpdate_def UpdateBalance_def tx_Get_def FindByProviderExternal_def UpdateState_def MarkReversed_def
    ClearReversal_def HasActiveWin_def ledger_Append_def EnqueueOutbox_def GetWork_def TouchWork_def DeleteWork_def
  by (intro shows_abort_intros)+

lemma shows_abort_settle [shows_abort_intros]:
  "shows_abort (settleProcessedExisting E w q i ref d b a)" "shows_abort (settleRejectedExisting E w q i ref c)"
  "shows_abort m \<Longrightarrow> shows_abort (settle_true m)" "shows_abort (BackoffFullJitter E n c1 c2)"
  "shows_abort (workCreatedAt E k)" "shows_abort (workRefAttempts E k)"
  unfolding settleProcessedExisting_def settleRejectedExisting_def settle_true_def BackoffFullJitter_def workCreatedAt_def
    workRefAttempts_def Let_def emitProcessed_def emitRejected_def
  by (intro shows_abort_intros; assumption?)+

lemma shows_abort_resume [shows_abort_intros]:
  "shows_abort (mustMinor a c)" "shows_abort (activeWin E x)" "shows_abort (markTarget E k i x)"
  "shows_abort (wait_again E q t)" "shows_abort (ref_exhausted E q t)"
  unfolding mustMinor_def activeWin_def markTarget_def wait_again_def ref_exhausted_def
  by (intro shows_abort_intros)+

lemma shows_abort_apply [shows_abort_intros]: "shows_abort (resumeApply E w q i a t)"
  unfolding resumeApply_def resumeWin_def resumeReversal_def Let_def by (intro shows_abort_intros)

lemma shows_abort_resumeOne: "shows_abort (resumeOne E q)"
  unfolding resumeOne_def Let_def
  by (intro shows_abort_intros; auto intro!: shows_abort_intros split: tx_state.splits)

section \<open>What is not counted\<close>

lemma sticky_error: "sticky m \<Longrightarrow> aborted v \<Longrightarrow> aborted (snd (m v))"
  by (simp add: sticky_def)

text \<open>C40. An infrastructure failure of an item is never counted. When a statement of \<^verbatim>\<open>processWorkItem\<close> fails, in the
  read of the row or anywhere in the settlement of a parked one, so that \<^verbatim>\<open>noteInfra\<close> is called, the whole
  transaction is lost: the function returns an error and no table has changed, neither the attempts of the item
  nor the state of its transaction. The budget of ten attempts and \<^verbatim>\<open>INFRA_EXHAUSTED\<close> are out of reach of the
  failures they are meant for.\<close>

theorem failed_statement_not_counted:
  assumes "attempt (tx_Get E (wi_tx item)) (tock (w\<lparr>aborted := False\<rparr>)) = (Inr r, v)"
    and "(\<exists>e. r = Inl e) \<or>
      (\<exists>q d. r = Inr (Some q) \<and> \<not> IsTerminal (t_state q) \<and> fst (resumeOne E q v) = Inl (ErrDb d))"
  shows "\<exists>e w'. processWorkItem E item w = (Inl e, w') \<and> tabs w' = tabs w"
proof -
  have "aborted (snd (finish_item E item r v))"
    using assms(2)
  proof
    assume "\<exists>e. r = Inl e"
    then obtain e where e: "r = Inl e" ..
    then have "tx_Get E (wi_tx item) (tock (w\<lparr>aborted := False\<rparr>)) = (Inl e, v)" using assms(1) by (auto simp: attempt_def prod_eq_iff)
    then have "aborted v"
      by (auto simp: tx_Get_def absent_if_invalid_def bind_def attempt_def ret_def fail_def stmt_def split: sum.splits prod.splits if_splits)
    then show ?thesis by (rule sticky_error [OF sticky_finish_item])
  next
    assume "\<exists>q d. r = Inr (Some q) \<and> \<not> IsTerminal (t_state q) \<and> fst (resumeOne E q v) = Inl (ErrDb d)"
    then obtain q d v1 where q: "r = Inr (Some q)" "\<not> IsTerminal (t_state q)" "resumeOne E q v = (Inl (ErrDb d), v1)"
      by (auto simp: prod_eq_iff)
    then have "aborted v1" using shows_abort_resumeOne unfolding shows_abort_def by blast
    then have "aborted (snd (bind (noteInfra E item) (\<lambda>_. ret False) v1))"
      by (intro sticky_error) (intro sticky_intros)
    then show ?thesis using q by (simp add: finish_item_def bind_def attempt_def)
  qed
  then show ?thesis
    using assms(1)
    by (auto simp: processWorkItem_finish transact_def bind_def split: prod.splits sum.splits)
qed

lemma failed_statement_not_counted_witness:
  "\<exists>E w item q e w'. wi_tx item \<in> k_tx ` set (works (tabs w)) \<and> q \<in> set (txs (tabs w)) \<and> t_id q = wi_tx item \<and>
     t_state q = StatePendingReference \<and> processWorkItem E item w = (Inl e, w') \<and> tabs w' = tabs w"
proof -
  obtain w f b h h' where w: "race_store f b (race_tx f h KindRefund ''x2'') (race_tx b h' KindBet ''x1'') w" by (rule race_reachable)
  let ?q = "race_tx f h KindRefund ''x2''"
  let ?E = "demo_env\<lparr>e_fault := \<lambda>n. n = Suc (Suc (Suc (tick w)))\<rparr>"
  define item where "item = \<lparr>wi_tx = f, wi_kind = ''reference'', wi_ref = 0, wi_infra = 0, wi_next = 0, wi_owner = [],
    wi_lease = None, wi_created = 0\<rparr>"
  have f: "f \<noteq> []" "tbl_find t_id f (txs (tabs w)) = Some ?q" "f \<in> k_tx ` set (works (tabs w))" "\<not> aborted w"
    and q: "?q \<in> set (txs (tabs w))" "t_id ?q = f" "t_state ?q = StatePendingReference"
    using w by (auto simp: race_store_def race_tx_def)
  have row: "attempt (tx_Get ?E (wi_tx item)) (tock (w\<lparr>aborted := False\<rparr>)) = (Inr (Inr (Some ?q)), tock (tock (w\<lparr>aborted := False\<rparr>)))"
    using f by (simp add: tx_Get_def sql_find_tx_def attempt_def absent_if_invalid_def stmt_def bind_def ret_def rbind_def
        uuid_in_def demo_env_sure item_def tock_def)
  have "fst (resumeOne ?E ?q (tock (tock (w\<lparr>aborted := False\<rparr>)))) = Inl (ErrDb Unavailable)"
    by (simp add: resumeOne_def bind_def now_def tock_def LockForUpdate_def stmt_def absent_if_invalid_def attempt_def fail_def
        isInvalidInput_def)
  then have "\<exists>e w'. processWorkItem ?E item w = (Inl e, w') \<and> tabs w' = tabs w"
    by (intro failed_statement_not_counted [OF row]) (auto simp: q(3) IsTerminal_def)
  moreover have "wi_tx item = f" by (simp add: item_def)
  ultimately show ?thesis using f(3) q by metis
qed

end
