(* ===== verification/Money_Json.thy ===== *)
theory Money_Json
  imports Money Json
begin

text \<open>
  The JSON form of money, \<^verbatim>\<open>MarshalJSON\<close> and \<^verbatim>\<open>UnmarshalJSON\<close> of \<^verbatim>\<open>internal/domain/money.go\<close>. Writing uses the model of
  \<^verbatim>\<open>json.Marshal\<close>. Reading takes what \<^verbatim>\<open>json.Unmarshal\<close> makes of the object - the raw text of its amount and its currency,
  or an error - and of the amount as a string.
\<close>

definition MarshalJSON :: "money \<Rightarrow> string" where
  "MarshalJSON m = json_Marshal (JObj [(''amount'', JStr (money_String m)), (''currency'', JStr (currency m))])"

definition UnmarshalJSON :: "(string \<Rightarrow> (string \<times> string) option) \<Rightarrow> (string \<Rightarrow> string option) \<Rightarrow> string \<Rightarrow> code + money" where
  "UnmarshalJSON as_object as_string data = (case as_object data of
     None \<Rightarrow> Inl CodeInvalidMoney
   | Some (raw, cur) \<Rightarrow> (case as_string raw of
       None \<Rightarrow> Inl CodeInvalidMoney
     | Some s \<Rightarrow> (case ParseMoney s cur of Inl c \<Rightarrow> Inl c | Inr parsed \<Rightarrow> Inr parsed)))"

text \<open>What \<^verbatim>\<open>json.Unmarshal\<close> does with text of \<^verbatim>\<open>json.Marshal\<close>: a member is read back as it was written, and a quoted
  text as the text.\<close>

definition reads_back :: "(string \<Rightarrow> (string \<times> string) option) \<Rightarrow> (string \<Rightarrow> string option) \<Rightarrow> bool" where
  "reads_back as_object as_string \<longleftrightarrow>
     (\<forall>a c. valid_utf8 a \<longrightarrow> valid_utf8 c \<longrightarrow> as_object (json_Marshal (JObj [(''amount'', JStr a), (''currency'', JStr c)])) = Some (json_quote True a, c)) \<and>
     (\<forall>a. valid_utf8 a \<longrightarrow> as_string (json_quote True a) = Some a)"

lemma valid_utf8_ascii: "list_all (\<lambda>c. cc c < 128) s \<Longrightarrow> valid_utf8 s"
proof (induction s)
  case (Cons c s)
  then show ?case by (simp add: Let_def)
qed simp

lemma digits_ascii: "list_all is_digit s \<Longrightarrow> list_all (\<lambda>c. cc c < 128) s"
  by (induction s) (auto simp: is_digit_def cc_def)

lemma money_String_utf8: "valid_utf8 (money_String m)"
proof -
  have d: "list_all (\<lambda>c. cc c < 128) (show_nat n)" "list_all (\<lambda>c. cc c < 128) (pad2 n)" for n
    by (rule digits_ascii, simp add: show_nat_digits pad2_def is_digit_def)+
  show ?thesis
  proof (cases "sint (minor m) < 0")
    case True
    then show ?thesis by (intro valid_utf8_ascii) (simp add: money_String_neg d, simp add: cc_def)
  next
    case False
    then show ?thesis by (intro valid_utf8_ascii) (simp add: money_String_nonneg d, simp add: cc_def)
  qed
qed

lemma currency_utf8: "validCurrency c \<Longrightarrow> valid_utf8 c"
proof -
  assume "validCurrency c"
  then have "list_all is_upper c" by (simp add: validCurrency_def split: if_splits)
  then have "list_all (\<lambda>c. cc c < 128) c" by (induction c) (auto simp: is_upper_def cc_def)
  then show ?thesis by (rule valid_utf8_ascii)
qed

text \<open>Money written as JSON is read back as it was, whatever the amount and the currency, unless it is negative: a
  negative amount, which only internal differences have, is refused as input.\<close>

theorem UnmarshalJSON_MarshalJSON:
  assumes "reads_back as_object as_string" "validCurrency (currency m)"
  shows "UnmarshalJSON as_object as_string (MarshalJSON m) = (if IsNegative m then Inl CodeInvalidMoney else Inr m)"
proof -
  have "as_object (MarshalJSON m) = Some (json_quote True (money_String m), currency m)"
    "as_string (json_quote True (money_String m)) = Some (money_String m)"
    using assms(1) currency_utf8 [OF assms(2)] money_String_utf8 by (simp_all add: reads_back_def MarshalJSON_def)
  then show ?thesis using ParseMoney_String [OF assms(2)] by (simp add: UnmarshalJSON_def)
qed

text \<open>A reader of such texts.\<close>

definition read_object :: "string \<Rightarrow> (string \<times> string) option" where
  "read_object s = (let (a, rest) = unquote (drop 11 s); (c, _) = unquote (drop 13 rest) in Some (json_quote True a, c))"

definition read_string :: "string \<Rightarrow> string option" where
  "read_string s = Some (fst (unquote (tl s)))"

lemma readers_read_back: "reads_back read_object read_string"
proof -
  have key: "json_quote True ''amount'' = CHR 0x22 # ''amount'' @ [CHR 0x22]" "json_quote True ''currency'' = CHR 0x22 # ''currency'' @ [CHR 0x22]"
    by code_simp+
  have written: "json_Marshal (JObj [(''amount'', JStr a), (''currency'', JStr c)]) =
      (''{'' @ [CHR 0x22] @ ''amount'' @ [CHR 0x22] @ '':'' @ [CHR 0x22]) @ json_esc True a @ CHR 0x22 #
      ('','' @ [CHR 0x22] @ ''currency'' @ [CHR 0x22] @ '':'' @ [CHR 0x22]) @ json_esc True c @ CHR 0x22 # ''}''" for a c
    by (simp add: commas_def member_text_def json_quote_def [of _ a] json_quote_def [of _ c] key)
  show ?thesis
    unfolding reads_back_def written read_object_def read_string_def
    by (simp add: json_quote_def unquote_json_quote)
qed

lemma UnmarshalJSON_MarshalJSON_witness:
  "UnmarshalJSON read_object read_string (MarshalJSON (mk_money 2500 ''BRL'')) = Inr (mk_money 2500 ''BRL'')"
proof -
  have "validCurrency (currency (mk_money 2500 ''BRL''))" by (simp add: validCurrency_def is_upper_def)
  from UnmarshalJSON_MarshalJSON [OF readers_read_back this] show ?thesis by (simp add: IsNegative_def)
qed

end
