(* ===== verification/Spec2Isabelle.thy ===== *)
theory Spec2Isabelle
  imports Deployment Balance_Events Observability Overlaps Snapshots Db_Errors Money_Json Ids Backoff Payload_Hash
begin

text \<open>
  A model of the wallet and wagering service and the theorems that make it correct.

  The program. Providers and the internal back office use one binary in three roles (\<^verbatim>\<open>internal/app\<close>). The
  \<^verbatim>\<open>api\<close> role serves HTTP (\<^verbatim>\<open>internal/adapters/http\<close>), the \<^verbatim>\<open>consumer\<close> role treats queue messages and the
  \<^verbatim>\<open>workers\<close> role publishes outbox events and resumes parked operations (\<^verbatim>\<open>internal/adapters/sqs\<close>). All of them
  call the use-cases of \<^verbatim>\<open>internal/wagering\<close>, which apply the rules of \<^verbatim>\<open>internal/domain\<close> to rows of a PostgreSQL
  database (\<^verbatim>\<open>internal/ports\<close>, \<^verbatim>\<open>internal/adapters/postgres\<close>) in SQL transactions.

  Domain (\<^verbatim>\<open>internal/domain\<close>). \<open>Domain_Errors\<close>: the failure codes; an error is its code. \<open>Money\<close>: \<^verbatim>\<open>int64\<close> minor
  units with Go's wrap-around, parsing, printing, checked arithmetic; \<open>Money_Json\<close>: its JSON form. \<open>Wallet\<close>: credit and
  debit with the version. \<open>Transaction\<close>: kinds, the five states, ledger entries. \<open>Reversal\<close>: the matrix of allowed reversals.

  Database. \<open>Records\<close>: the rows. \<open>Tables\<close>: lists of rows with a key, the interface \<open>row_store\<close>. \<open>Actions\<close>: state
  passing over a \<open>world\<close> (tables, a tick, and whether the open transaction is aborted) with an error sum, and the
  interface \<open>transactional\<close>. \<open>Store\<close>: each method of the repositories as one statement with the constraints of
  \<^verbatim>\<open>migrations\<close>. \<open>Specs\<close>, \<open>Store_Specs\<close>, \<open>Frames\<close>: rules for such actions; \<open>frame\<close> is the interface of relations
  that hold across every run.

  Use-cases (\<^verbatim>\<open>internal/wagering\<close>). \<open>Ids\<close>, \<open>Backoff\<close> (id.go, backoff.go); \<open>Json\<close>, \<open>Sha256\<close>, \<open>Payload_Hash\<close>
  (hash.go, with the parts of \<^verbatim>\<open>encoding/json\<close> and \<^verbatim>\<open>crypto/sha256\<close> that it uses); \<open>Events\<close> (events.go); \<open>Accept\<close> and
  \<open>Submit\<close> (accept.go); \<open>Work\<close> (work.go); \<open>Open_Wallet\<close> (wallet.go); \<open>Base64\<close> and \<open>Reconcile\<close> (reconcile.go, with the
  interface \<open>cursor_codec\<close>). Every definition has the name of its Go function.

  Adapters and roles. \<open>Http_Api\<close>: handlers, middleware and routes, \<open>serve\<close> is one request. \<open>Oidc\<close>: the token
  validator and its key cache. \<open>Sqs_Consumer\<close>: the envelope and the treatment of a delivery. \<open>Publisher\<close>: one
  publication tick. \<open>App_Config\<close>: configuration and its checks. \<open>Roles\<close>: the loops of the roles. \<open>Startup\<close>: the constructors, hooks
  and tasks of a process, and the migration job. \<open>Consumer_Loop\<close>: the poll loop with its concurrent handlers, its semaphore,
  the cancellation and the drain, as a step relation.

  The specification. \<open>Books\<close>, \<open>Lifecycle\<close>, \<open>Machine\<close>: a state machine on wallets, transactions, ledger and work that
  knows nothing of SQL, errors or events; its invariant \<open>sound\<close> says that every ledger replays to its wallet, that
  processed transactions and entries match, and that no transaction is reversed twice. \<open>Evolution\<close>: what its steps
  never change. \<open>Refine_Accept\<close>, \<open>Refine_Submit\<close>, \<open>Refine_Open\<close>, \<open>Refine_Resume\<close>, \<open>Refine_Work\<close>: every use-case, with
  any errors on the way, makes only steps of the machine or changes nothing.

  The guarantees. \<open>Use_Cases\<close>: \<open>block\<close> is one SQL transaction of a use-case, \<open>serves\<close> a call or such a part of one, so
  that calls may interleave at their transactions and end between them; \<open>reachable\<close> are the stores after any of these.
  \<open>Guarantees\<close>, \<open>Idempotency\<close>, \<open>Liveness\<close>, \<open>Liveness_Open\<close>, \<open>Success\<close>: invariants of reachable stores, idempotency,
  and calls that do return. \<open>Ledger_Reads\<close>: pages and reconciliation. \<open>Outbox_Log\<close>, \<open>Outbox_Invariants\<close>,
  \<open>Announcements\<close>, \<open>Balance_Events\<close>, \<open>Publication\<close>, with the interface \<open>outbox_invariant\<close>: the outbox is an append-only log, every stored outcome has its
  event in it, its balance events are those of the ledger entries one by one, and published means taken by the broker. \<open>Http_Guarantees\<close>, \<open>Access_Control\<close>, \<open>Sqs_Guarantees\<close>:
  what the two channels add. \<open>Processes\<close>, \<open>Concurrency\<close>: a call as a process that offers its transactions one by one, and
  a pool of any number of them that are interleaved or killed; submissions stay atomic and happen once. \<open>Deliveries\<close>,
  \<open>Consumer_Loop\<close>: the same of the messages that the consumer's handlers treat concurrently.
  \<open>Lock_Waits\<close>, \<open>Lock_Race\<close>: an item of the worker that waits for the lock of its wallet after it has read its row,
  when that is harmless and a run where it is not. \<open>Overlaps\<close>: runs in which any number of the transactions that read
  before they lock are split there and overlap with everything else; what such runs keep in any case, and what they keep as
  long as nobody has settled the rows that were read. \<open>Snapshots\<close>: a reconciliation with commits between its statements,
  at the level that the code asks for and at the default one. \<open>Db_Errors\<close>: an error of the database leaves its
  transaction aborted, so the worker cannot count it. \<open>Store_Frames\<close>, with the interface \<open>store_frame\<close>: relations that hold
  across every statement hold across every use-case. \<open>Observability\<close>: the log record, span and metric labels of a request,
  which share its correlation id. \<open>Deployment\<close>: steps of any number of configured processes, a request, a tick or a run of
  the poll loop each, are runs of the use-cases. \<open>Example_Run\<close> and the last section of several theories hold the
  concrete runs that instantiate the properties with hypotheses.

  The environment. Every clock reading, random draw, generated id and statement consumes a tick, and \<open>env\<close> gives
  the answer of each tick as an arbitrary function, so no theorem assumes anything of the clock, and a statement or
  commit may be lost at any point (\<open>e_fault\<close>). The same flag stands for what PostgreSQL refuses beyond the modelled
  constraints, such as text that is not UTF-8. Properties that say a call returns assume that no statement is lost
  (\<open>sure\<close>). Of PostgreSQL it is used that an error aborts the open transaction, that a transaction that does not
  commit leaves nothing, and that the \<^verbatim>\<open>uuid\<close> type prints what it reads back (\<open>uuid_law\<close>). A payload stored as JSONB
  is compared as the text that was stored, although PostgreSQL may print it with other spacing. Strings are byte
  strings; \<^verbatim>\<open>int64\<close> is a 64-bit word read by \<open>sint\<close>; times are nanoseconds.

  Parameters. The JWT library is its decoder and its verdict on signature and time, \<^verbatim>\<open>url.Parse\<close> the path of a URL,
  \<^verbatim>\<open>encoding/json\<close> the decoded body or an error, the broker its answer to each command, gin the selected route with its
  parameters. Nothing is assumed of them, except in \<open>Money_Json\<close> that \<^verbatim>\<open>encoding/json\<close> reads back what it wrote
  (\<open>reads_back\<close>).

  Bounds. All use-cases are total functions. The number of rounds of a role's loop is an input, as the loops run until
  the process is stopped. \<open>read_pages\<close> follows cursors with as many requests as given, and one more than the ledger has
  entries is enough. \<open>TrimSpace\<close> strips at most as many runes as the text has bytes, which is all of them.

  Scope of the guarantees. What is said of reachable stores holds of runs in which each transaction takes effect at one
  moment. That is so for transactions that lock their wallet before they read anything that they rely on, or are one
  statement. It is not so for the worker's item and for \<^verbatim>\<open>ReevaluateDependents\<close>, which read the parked rows first: a store that
  is not sound can follow when a row is settled between its read and the lock (\<open>stale_item_overwrites\<close>), and
  \<open>Overlaps\<close> shows that in no other case.

  Not modelled. The rest of a split re-evaluation is taken at one moment, although it locks the wallets of its dependents one
  after the other. \<^verbatim>\<open>SKIP LOCKED\<close> has no effect between transactions that do not overlap. A commit whose reply is lost
  is seen by the tables only, as a call killed after it. The HTTP
  servers, the order in which Fx runs constructors and hooks, the logs of the other parts, and the writing of logs, metrics and traces: calls
  of libraries whose results no modelled code reads. The free text of error messages, except where it is sent to the
  dead-letter queue. A panic is an error value: it rolls back, a request is answered 500 by gin's
  recovery, and a loop or delivery ends its process.
\<close>

end
